(* ===== verification/Prelude.thy ===== *)
theory Prelude
  imports Main "HOL-Library.Word"
begin

text \<open>
  Shared vocabulary of the development: machine words under their Rust names, checked integer
  operations, the non-zero 64-bit integer type, and the result type every fallible operation
  of the model returns.

  A Rust function returning \<open>Result<T, E>\<close> is modelled by \<open>(E, T) result\<close>: \<open>Inr\<close> is \<open>Ok\<close>,
  \<open>Inl (Err e)\<close> is the typed error and \<open>Inl Panic\<close> stands for every \<open>panic!\<close>, \<open>unreachable!\<close>,
  failed \<open>expect\<close> and integer overflow the code could run into.  A panic is kept apart from the
  typed errors so that its absence is a theorem and not a convention.
\<close>

type_synonym u8 = "8 word"
type_synonym u16 = "16 word"
type_synonym u32 = "32 word"
type_synonym u64 = "64 word"
type_synonym u128 = "128 word"

text \<open>
  Fixed byte arrays \<open>[u8; 16]\<close> and \<open>[u8; 32]\<close> are kept as their big-endian value: equality of
  the arrays is equality of the words, and the derived lexicographic order is the numeric one.
\<close>

type_synonym b16 = "128 word"
type_synonym b32 = "256 word"


subsection \<open>Results\<close>

datatype 'e failure = Err 'e | Panic

type_synonym ('e, 'a) result = "'e failure + 'a"

definition bindE :: "('e, 'a) result \<Rightarrow> ('a \<Rightarrow> ('e, 'b) result) \<Rightarrow> ('e, 'b) result" where
  "bindE m f = (case m of Inl e \<Rightarrow> Inl e | Inr x \<Rightarrow> f x)"

definition ensure :: "bool \<Rightarrow> 'e \<Rightarrow> ('e, unit) result" where
  "ensure b e = (if b then Inr () else Inl (Err e))"

definition ok_or :: "'a option \<Rightarrow> 'e \<Rightarrow> ('e, 'a) result" where
  "ok_or x e = (case x of None \<Rightarrow> Inl (Err e) | Some v \<Rightarrow> Inr v)"

definition expect :: "'a option \<Rightarrow> ('e, 'a) result" where
  "expect x = (case x of None \<Rightarrow> Inl Panic | Some v \<Rightarrow> Inr v)"

definition map_err :: "('e \<Rightarrow> 'f) \<Rightarrow> ('e, 'a) result \<Rightarrow> ('f, 'a) result" where
  "map_err g m = (case m of Inl Panic \<Rightarrow> Inl Panic | Inl (Err e) \<Rightarrow> Inl (Err (g e)) | Inr x \<Rightarrow> Inr x)"

definition panics :: "('e, 'a) result \<Rightarrow> bool" where
  "panics m \<longleftrightarrow> m = Inl Panic"

definition is_ok :: "('e, 'a) result \<Rightarrow> bool" where
  "is_ok m = (case m of Inl _ \<Rightarrow> False | Inr _ \<Rightarrow> True)"

lemma is_ok_iff: "is_ok m \<longleftrightarrow> (\<exists>x. m = Inr x)"
  by (cases m) (simp_all add: is_ok_def)

lemma bindE_simps [simp]:
  "bindE (Inl e) f = Inl e"
  "bindE (Inr x) f = f x"
  by (simp_all add: bindE_def)

lemma bindE_eq_Inr [simp]: "bindE m f = Inr y \<longleftrightarrow> (\<exists>x. m = Inr x \<and> f x = Inr y)"
  by (cases m) simp_all

lemma bindE_eq_Inl: "bindE m f = Inl e \<longleftrightarrow> m = Inl e \<or> (\<exists>x. m = Inr x \<and> f x = Inl e)"
  by (cases m) simp_all

lemma bindE_assoc: "bindE (bindE m f) k = bindE m (\<lambda>x. bindE (f x) k)"
  by (cases m) simp_all

lemma ensure_simps [simp]:
  "ensure True e = Inr ()"
  "ensure False e = Inl (Err e)"
  by (simp_all add: ensure_def)

lemma ensure_eq_Inr [simp]: "ensure b e = Inr u \<longleftrightarrow> b"
  by (simp add: ensure_def)

lemma ensure_eq_Inl [simp]: "ensure b e = Inl f \<longleftrightarrow> \<not> b \<and> f = Err e"
  by (auto simp: ensure_def)

lemma ok_or_simps [simp]:
  "ok_or None e = Inl (Err e)"
  "ok_or (Some v) e = Inr v"
  by (simp_all add: ok_or_def)

lemma ok_or_eq_Inr [simp]: "ok_or x e = Inr v \<longleftrightarrow> x = Some v"
  by (cases x) simp_all

lemma ok_or_eq_Inl [simp]: "ok_or x e = Inl f \<longleftrightarrow> x = None \<and> f = Err e"
  by (cases x) auto

lemma expect_simps [simp]:
  "expect None = Inl Panic"
  "expect (Some v) = Inr v"
  by (simp_all add: expect_def)

lemma map_err_simps [simp]:
  "map_err g (Inr x) = Inr x"
  "map_err g (Inl Panic) = Inl Panic"
  "map_err g (Inl (Err e)) = Inl (Err (g e))"
  by (simp_all add: map_err_def)

lemma map_err_eq_Inr [simp]: "map_err g m = Inr x \<longleftrightarrow> m = Inr x"
  by (auto simp: map_err_def split: sum.splits failure.splits)

lemma panics_simps [simp]:
  "\<not> panics (Inr x)"
  "\<not> panics (Inl (Err e))"
  "panics (Inl Panic)"
  by (simp_all add: panics_def)

lemma panics_bindE [simp]: "panics (bindE m f) \<longleftrightarrow> panics m \<or> (\<exists>x. m = Inr x \<and> panics (f x))"
  by (cases m) (auto simp: panics_def)

lemma panics_ensure [simp]: "\<not> panics (ensure b e)"
  by (simp add: panics_def)

lemma panics_ok_or [simp]: "\<not> panics (ok_or x e)"
  by (simp add: panics_def)

lemma panics_expect [simp]: "panics (expect x) \<longleftrightarrow> x = None"
  by (cases x) simp_all

lemma panics_map_err [simp]: "panics (map_err g m) \<longleftrightarrow> panics m"
  by (auto simp: map_err_def panics_def split: sum.splits failure.splits)


subsection \<open>Sequencing over a state\<close>

text \<open>
  A stateful operation takes the state and returns its result with the state it leaves behind,
  also when the result is an error: effects performed before an early return stay performed.
\<close>

type_synonym ('s, 'e, 'a) prog = "'s \<Rightarrow> ('e, 'a) result \<times> 's"

definition bindS :: "('s, 'e, 'a) prog \<Rightarrow> ('a \<Rightarrow> ('s, 'e, 'b) prog) \<Rightarrow> ('s, 'e, 'b) prog" where
  "bindS m f = (\<lambda>s. case m s of (Inl e, s') \<Rightarrow> (Inl e, s') | (Inr x, s') \<Rightarrow> f x s')"

definition liftS :: "('e, 'a) result \<Rightarrow> ('s, 'e, 'a) prog" where
  "liftS m = (\<lambda>s. (m, s))"

lemma liftS_apply [simp]: "liftS m s = (m, s)"
  by (simp add: liftS_def)

lemma bindS_Inr [simp]: "m s = (Inr x, s') \<Longrightarrow> bindS m f s = f x s'"
  by (simp add: bindS_def)

lemma bindS_Inl [simp]: "m s = (Inl e, s') \<Longrightarrow> bindS m f s = (Inl e, s')"
  by (simp add: bindS_def)

lemma bindS_cases [consumes 1, case_names Fail Step]:
  assumes "bindS m f s = (r, s')"
  obtains (Fail) e where "m s = (Inl e, s')" "r = Inl e"
    | (Step) x t where "m s = (Inr x, t)" "f x t = (r, s')"
  using assms by (auto simp: bindS_def split: prod.splits sum.splits)

text \<open>
  The weakest precondition of an operation: what holds of its result and of the state it leaves.
  A contract of a stateful interface is a law about \<open>wp\<close>, and the rules below compose them.
\<close>

definition wp :: "('s, 'e, 'a) prog \<Rightarrow> (('e, 'a) result \<Rightarrow> 's \<Rightarrow> bool) \<Rightarrow> 's \<Rightarrow> bool" where
  "wp m Q s = (case m s of (r, s') \<Rightarrow> Q r s')"

lemma wpI: "(\<And>r s'. m s = (r, s') \<Longrightarrow> Q r s') \<Longrightarrow> wp m Q s"
  by (simp add: wp_def split: prod.split)

lemma wpD: "wp m Q s \<Longrightarrow> m s = (r, s') \<Longrightarrow> Q r s'"
  by (simp add: wp_def)

lemma wp_mono: "wp m Q s \<Longrightarrow> (\<And>r s'. Q r s' \<Longrightarrow> Q' r s') \<Longrightarrow> wp m Q' s"
  by (auto simp: wp_def split: prod.splits)

lemma wp_liftS [simp]: "wp (liftS m) Q s \<longleftrightarrow> Q m s"
  by (simp add: wp_def)

lemma wp_bindS [simp]:
  "wp (bindS m f) Q s \<longleftrightarrow> wp m (\<lambda>r s'. case r of Inl e \<Rightarrow> Q (Inl e) s' | Inr x \<Rightarrow> wp (f x) Q s') s"
  by (simp add: wp_def bindS_def split: prod.splits sum.splits)

text \<open>
  \<open>returns P res\<close>: the result is no panic, and a value in it satisfies \<open>P\<close>.  \<open>keeps I m P\<close>: the
  operation keeps the invariant \<open>I\<close> on every path, errors included, and returns \<open>P\<close>.
\<close>

definition returns :: "('a \<Rightarrow> bool) \<Rightarrow> ('e, 'a) result \<Rightarrow> bool" where
  "returns P res = (case res of Inl Panic \<Rightarrow> False | Inl (Err _) \<Rightarrow> True | Inr x \<Rightarrow> P x)"

definition keeps :: "('s \<Rightarrow> bool) \<Rightarrow> ('s, 'e, 'a) prog \<Rightarrow> ('a \<Rightarrow> bool) \<Rightarrow> bool" where
  "keeps I m P \<longleftrightarrow> (\<forall>s. I s \<longrightarrow> wp m (\<lambda>res s'. I s' \<and> returns P res) s)"

lemma returns_simps [simp]:
  "returns P (Inr x) \<longleftrightarrow> P x"
  "returns P (Inl (Err e))"
  "\<not> returns P (Inl Panic)"
  by (simp_all add: returns_def)

lemma returns_iff: "returns P res \<longleftrightarrow> \<not> panics res \<and> (\<forall>x. res = Inr x \<longrightarrow> P x)"
  by (auto simp: returns_def panics_def split: sum.splits failure.splits)

lemma keepsI: "(\<And>s. I s \<Longrightarrow> wp m (\<lambda>res s'. I s' \<and> returns P res) s) \<Longrightarrow> keeps I m P"
  by (simp add: keeps_def)

lemma keepsD: "keeps I m P \<Longrightarrow> I s \<Longrightarrow> wp m (\<lambda>res s'. I s' \<and> returns P res) s"
  by (simp add: keeps_def)

lemma keeps_run: "keeps I m P \<Longrightarrow> I s \<Longrightarrow> m s = (res, s') \<Longrightarrow> I s' \<and> returns P res"
  using keepsD [of I m P s] wpD by fastforce

lemma wp_keeps:
  assumes "keeps I m P" "I s" "\<And>res s'. I s' \<Longrightarrow> returns P res \<Longrightarrow> Q res s'"
  shows "wp m Q s"
  using keepsD [OF assms(1,2)] assms(3) by (auto elim!: wp_mono)

lemma keeps_mono: "keeps I m P \<Longrightarrow> (\<And>x. P x \<Longrightarrow> Q x) \<Longrightarrow> keeps I m Q"
  unfolding keeps_def by (auto simp: returns_iff elim!: wp_mono)

lemma keeps_liftS: "returns P m \<Longrightarrow> keeps I (liftS m) P"
  by (simp add: keeps_def)

lemma keeps_bindS:
  assumes m: "keeps I m P" and f: "\<And>x. P x \<Longrightarrow> keeps I (f x) Q"
  shows "keeps I (bindS m f) Q"
proof (rule keepsI, unfold wp_bindS)
  fix s
  assume "I s"
  with m have "wp m (\<lambda>res s'. I s' \<and> returns P res) s"
    by (rule keepsD)
  then show "wp m (\<lambda>r s'. case r of Inl e \<Rightarrow> I s' \<and> returns Q (Inl e) | Inr x \<Rightarrow>
      wp (f x) (\<lambda>res s'. I s' \<and> returns Q res) s') s"
    by (rule wp_mono) (use f in \<open>auto simp: returns_def keeps_def split: sum.splits failure.splits\<close>)
qed

text \<open>
  Hoare triples over state programs: from \<open>P\<close>, a value comes with \<open>Q\<close> and a failure leaves \<open>E\<close>.
\<close>

definition triple ::
  "('s \<Rightarrow> bool) \<Rightarrow> ('s, 'e, 'a) prog \<Rightarrow> ('a \<Rightarrow> 's \<Rightarrow> bool) \<Rightarrow> ('s \<Rightarrow> bool) \<Rightarrow> bool" where
  "triple P m Q E \<longleftrightarrow> (\<forall>s. P s \<longrightarrow> wp m (\<lambda>res s'. case res of Inl _ \<Rightarrow> E s' | Inr x \<Rightarrow> Q x s') s)"

lemma tripleI:
  "(\<And>s. P s \<Longrightarrow> wp m (\<lambda>res s'. case res of Inl _ \<Rightarrow> E s' | Inr x \<Rightarrow> Q x s') s) \<Longrightarrow> triple P m Q E"
  by (simp add: triple_def)

lemma triple_run:
  assumes "triple P m Q E" "P s" "m s = (res, s')"
  shows "case res of Inl _ \<Rightarrow> E s' | Inr x \<Rightarrow> Q x s'"
  using assms by (auto simp: triple_def wp_def)

lemma triple_bindS:
  assumes "triple P m R E" "\<And>x. triple (R x) (f x) Q E"
  shows "triple P (bindS m f) Q E"
  using assms by (fastforce simp: triple_def wp_def bindS_def split: prod.splits sum.splits)

lemma triple_liftS:
  assumes "\<And>x s. m = Inr x \<Longrightarrow> P s \<Longrightarrow> Q x s" "\<And>s. P s \<Longrightarrow> E s"
  shows "triple P (liftS m) Q E"
  using assms by (auto simp: triple_def split: sum.split)

lemma triple_conseq:
  assumes "triple P' m Q' E" "\<And>s. P s \<Longrightarrow> P' s" "\<And>x s. Q' x s \<Longrightarrow> Q x s"
  shows "triple P m Q E"
  using assms by (fastforce simp: triple_def wp_def split: prod.splits sum.splits)

lemma triple_assume: "(b \<Longrightarrow> triple P m Q E) \<Longrightarrow> triple (\<lambda>s. P s \<and> b) m Q E"
  by (simp add: triple_def)


subsection \<open>Checked arithmetic\<close>

definition checked_add :: "'a::len word \<Rightarrow> 'a word \<Rightarrow> 'a word option" where
  "checked_add a b = (if unat a + unat b < 2 ^ LENGTH('a) then Some (a + b) else None)"

definition checked_sub :: "'a::len word \<Rightarrow> 'a word \<Rightarrow> 'a word option" where
  "checked_sub a b = (if b \<le> a then Some (a - b) else None)"

definition checked_mul :: "'a::len word \<Rightarrow> 'a word \<Rightarrow> 'a word option" where
  "checked_mul a b = (if unat a * unat b < 2 ^ LENGTH('a) then Some (a * b) else None)"

definition saturating_sub :: "'a::len word \<Rightarrow> 'a word \<Rightarrow> 'a word" where
  "saturating_sub a b = (if b \<le> a then a - b else 0)"

lemma checked_add_Some_iff:
  fixes a b c :: "'a::len word"
  shows "checked_add a b = Some c \<longleftrightarrow> unat c = unat a + unat b"
proof
  assume "checked_add a b = Some c"
  then show "unat c = unat a + unat b"
    by (auto simp: checked_add_def unat_word_ariths split: if_splits)
next
  assume eq: "unat c = unat a + unat b"
  have "unat c < 2 ^ LENGTH('a)"
    by (rule unsigned_less)
  with eq have fits: "unat a + unat b < 2 ^ LENGTH('a)"
    by simp
  then have "unat (a + b) = unat c"
    using eq by (simp add: unat_word_ariths)
  then have "a + b = c"
    by (rule word_unat_eq_iff [THEN iffD2])
  with fits show "checked_add a b = Some c"
    by (simp add: checked_add_def)
qed

lemma checked_add_None_iff:
  fixes a b :: "'a::len word"
  shows "checked_add a b = None \<longleftrightarrow> 2 ^ LENGTH('a) \<le> unat a + unat b"
  by (auto simp: checked_add_def)

lemma checked_sub_Some_iff: "checked_sub a b = Some c \<longleftrightarrow> unat a = unat c + unat b"
proof (cases "b \<le> a")
  case True
  then have "unat (a - b) + unat b = unat a"
    by (simp add: unat_sub word_le_nat_alt)
  with True show ?thesis
    by (auto simp: checked_sub_def word_unat_eq_iff)
next
  case False
  then show ?thesis
    by (auto simp: checked_sub_def word_le_nat_alt)
qed

lemma checked_sub_None_iff: "checked_sub a b = None \<longleftrightarrow> unat a < unat b"
  by (auto simp: checked_sub_def word_le_nat_alt)

lemma unat_u8_less [simp]: "unat (a :: u8) < 256"
  using unsigned_less [of a] by simp

lemma unat_u32_less [simp]: "unat (a :: u32) < 4294967296"
  using unsigned_less [of a] by simp

lemma unat_u64_less [simp]: "unat (a :: u64) < 18446744073709551616"
  using unsigned_less [of a] by simp

lemma unat_u128_less [simp]: "unat (a :: u128) < 340282366920938463463374607431768211456"
  using unsigned_less [of a] by simp

lemma unat_ucast_u32_u64 [simp]: "unat (ucast (a :: u32) :: u64) = unat a"
proof -
  have "unat a < 2 ^ 64"
    by (rule order.strict_trans [OF unat_u32_less]) simp
  then show ?thesis
    by (simp only: unsigned_ucast_eq take_bit_nat_eq_self) (simp add: take_bit_nat_eq_self)
qed

lemma unat_ucast_u64_u128 [simp]: "unat (ucast (a :: u64) :: u128) = unat a"
proof -
  have "unat a < 2 ^ 128"
    by (rule order.strict_trans [OF unat_u64_less]) simp
  then show ?thesis
    by (simp only: unsigned_ucast_eq take_bit_nat_eq_self) (simp add: take_bit_nat_eq_self)
qed


subsection \<open>Non-zero 64-bit integers\<close>

text \<open>\<open>std::num::NonZeroU64\<close>: the type itself excludes zero.\<close>

typedef nonzero_u64 = "{w :: u64. w \<noteq> 0}"
  by (rule exI [of _ 1]) simp

definition nz_get :: "nonzero_u64 \<Rightarrow> u64" where
  "nz_get = Rep_nonzero_u64"

definition nz :: "u64 \<Rightarrow> nonzero_u64" where
  "nz w = Abs_nonzero_u64 (if w = 0 then 1 else w)"

definition nz_new :: "u64 \<Rightarrow> nonzero_u64 option" where
  "nz_new w = (if w = 0 then None else Some (nz w))"

lemma nz_get_nonzero [simp]: "nz_get n \<noteq> 0"
  using Rep_nonzero_u64 [of n] by (simp add: nz_get_def)

lemma nz_get_nz [simp]: "w \<noteq> 0 \<Longrightarrow> nz_get (nz w) = w"
  by (simp add: nz_get_def nz_def Abs_nonzero_u64_inverse)

lemma nz_nz_get [simp]: "nz (nz_get n) = n"
  using Rep_nonzero_u64 [of n] by (simp add: nz_get_def nz_def Rep_nonzero_u64_inverse)

lemma nz_get_inject: "nz_get a = nz_get b \<longleftrightarrow> a = b"
  by (simp add: nz_get_def Rep_nonzero_u64_inject)

lemma nz_eq_iff [simp]: "a \<noteq> 0 \<Longrightarrow> b \<noteq> 0 \<Longrightarrow> nz a = nz b \<longleftrightarrow> a = b"
  by (simp add: nz_def Abs_nonzero_u64_inject)

lemma unat_nz_get_pos [simp]: "0 < unat (nz_get n)"
  by (simp add: unat_gt_0)

instantiation nonzero_u64 :: linorder
begin

definition less_eq_nonzero_u64 :: "nonzero_u64 \<Rightarrow> nonzero_u64 \<Rightarrow> bool" where
  "less_eq_nonzero_u64 a b \<longleftrightarrow> nz_get a \<le> nz_get b"

definition less_nonzero_u64 :: "nonzero_u64 \<Rightarrow> nonzero_u64 \<Rightarrow> bool" where
  "less_nonzero_u64 a b \<longleftrightarrow> nz_get a < nz_get b"

instance
  by standard
    (auto simp: less_eq_nonzero_u64_def less_nonzero_u64_def order.strict_iff_order nz_get_inject)

end

instantiation nonzero_u64 :: equal
begin

definition equal_nonzero_u64 :: "nonzero_u64 \<Rightarrow> nonzero_u64 \<Rightarrow> bool" where
  "equal_nonzero_u64 a b \<longleftrightarrow> nz_get a = nz_get b"

instance
  by standard (simp add: equal_nonzero_u64_def nz_get_inject)

end


subsection \<open>Big-endian bytes\<close>

fun be_bytes :: "nat \<Rightarrow> nat \<Rightarrow> u8 list" where
  "be_bytes 0 v = []"
| "be_bytes (Suc n) v = be_bytes n (v div 256) @ [of_nat (v mod 256)]"

definition be_value :: "u8 list \<Rightarrow> nat" where
  "be_value bs = foldl (\<lambda>a b. a * 256 + unat b) 0 bs"

lemma length_be_bytes [simp]: "length (be_bytes n v) = n"
  by (induction n arbitrary: v) simp_all

lemma be_value_snoc [simp]: "be_value (bs @ [b]) = be_value bs * 256 + unat b"
  by (simp add: be_value_def)

lemma be_value_be_bytes: "be_value (be_bytes n v) = v mod 256 ^ n"
proof (induction n arbitrary: v)
  case 0
  then show ?case by (simp add: be_value_def)
next
  case (Suc n)
  have "unat (of_nat (v mod 256) :: u8) = v mod 256"
    by (simp add: unat_of_nat)
  with Suc show ?case
    by (simp add: mod_mult2_eq)
qed

lemma be_bytes_inject: "v < 256 ^ n \<Longrightarrow> w < 256 ^ n \<Longrightarrow> be_bytes n v = be_bytes n w \<longleftrightarrow> v = w"
  by (metis be_value_be_bytes mod_less)

text \<open>Byte-wise comparison of two blobs, as \<open>memcmp\<close> decides it.\<close>

fun memcmp_less :: "u8 list \<Rightarrow> u8 list \<Rightarrow> bool" where
  "memcmp_less xs [] = False"
| "memcmp_less [] (y # ys) = True"
| "memcmp_less (x # xs) (y # ys) = (x < y \<or> x = y \<and> memcmp_less xs ys)"

lemma be_value_Nil [simp]: "be_value [] = 0"
  by (simp add: be_value_def)

lemma foldl_be_value:
  "foldl (\<lambda>a b. a * 256 + unat b) a (bs :: u8 list) = a * 256 ^ length bs + be_value bs"
proof (induction bs arbitrary: a)
  case Nil
  then show ?case by simp
next
  case (Cons b bs)
  from Cons [of "a * 256 + unat b"] Cons [of "unat b"] show ?case
    by (simp add: be_value_def algebra_simps)
qed

lemma be_value_Cons: "be_value (b # bs) = unat b * 256 ^ length bs + be_value bs"
proof -
  have "be_value (b # bs) = foldl (\<lambda>a b. a * 256 + unat b) (unat b) bs"
    by (simp add: be_value_def)
  then show ?thesis
    by (simp only: foldl_be_value)
qed

lemma be_value_less: "be_value bs < 256 ^ length bs"
proof (induction bs)
  case Nil
  then show ?case by simp
next
  case (Cons b bs)
  define K :: nat where "K = 256 ^ length bs"
  have "Suc (unat b) \<le> 256"
    by (simp only: Suc_le_eq unat_u8_less)
  then have "Suc (unat b) * K \<le> 256 * K"
    by (rule mult_right_mono) simp
  moreover have "be_value bs < K"
    using Cons by (simp only: K_def)
  ultimately have "unat b * K + be_value bs < 256 * K"
    unfolding mult_Suc by linarith
  then show ?case
    by (simp add: be_value_Cons K_def)
qed

lemma memcmp_less_iff:
  "length xs = length ys \<Longrightarrow> memcmp_less xs ys \<longleftrightarrow> be_value xs < be_value ys"
proof (induction xs ys rule: memcmp_less.induct)
  case (3 x xs y ys)
  define K :: nat where "K = 256 ^ length xs"
  have bx: "be_value xs < K" and by': "be_value ys < K"
    using be_value_less [of xs] be_value_less [of ys] "3.prems" by (simp_all add: K_def)
  have lt: "a * K + u < b * K + v" if "a < b" "u < K" for a b u v :: nat
  proof -
    from that(1) have "Suc a * K \<le> b * K"
      by (intro mult_right_mono) simp_all
    with that(2) show ?thesis by simp
  qed
  have eqs: "be_value (x # xs) = unat x * K + be_value xs" "be_value (y # ys) = unat y * K + be_value ys"
    using "3.prems" by (simp_all add: be_value_Cons K_def)
  consider (less) "unat x < unat y" | (eq) "x = y" | (greater) "unat y < unat x"
    by (metis linorder_less_linear word_unat_eq_iff)
  then show ?case
  proof cases
    case less
    with lt [OF less bx] show ?thesis
      unfolding eqs by (simp add: word_less_nat_alt)
  next
    case eq
    with "3" show ?thesis
      unfolding eqs by simp
  next
    case greater
    with lt [OF greater by', of "be_value xs"] show ?thesis
      unfolding eqs by (auto simp: word_less_nat_alt)
  qed
qed simp_all

lemma unat_b16_less: "unat (b :: b16) < 256 ^ 16"
proof -
  have "unat b < 2 ^ LENGTH(128)"
    by (rule unsigned_less)
  also have "\<dots> = 256 ^ 16"
    by simp
  finally show ?thesis .
qed

lemma unat_b32_less: "unat (b :: b32) < 256 ^ 32"
proof -
  have "unat b < 2 ^ LENGTH(256)"
    by (rule unsigned_less)
  also have "\<dots> = 256 ^ 32"
    by simp
  finally show ?thesis .
qed

lemma unat_u64_less_256: "unat (b :: u64) < 256 ^ 8"
proof -
  have "unat b < 2 ^ LENGTH(64)"
    by (rule unsigned_less)
  also have "\<dots> = 256 ^ 8"
    by simp
  finally show ?thesis .
qed

definition to_be_bytes :: "u64 \<Rightarrow> u8 list" where
  "to_be_bytes w = be_bytes 8 (unat w)"

definition from_be_bytes :: "u8 list \<Rightarrow> u64" where
  "from_be_bytes bs = of_nat (be_value bs)"

lemma length_to_be_bytes [simp]: "length (to_be_bytes w) = 8"
  by (simp only: to_be_bytes_def length_be_bytes)

lemma from_to_be_bytes [simp]: "from_be_bytes (to_be_bytes w) = w"
  by (simp only: from_be_bytes_def to_be_bytes_def be_value_be_bytes
      mod_less [OF unat_u64_less_256] of_nat_unat ucast_id)

lemma to_be_bytes_inject [simp]: "to_be_bytes a = to_be_bytes b \<longleftrightarrow> a = b"
  by (metis from_to_be_bytes)

lemma be_bytes_be_value [simp]: "be_bytes (length bs) (be_value bs) = bs"
proof (induction bs rule: rev_induct)
  case Nil
  then show ?case by simp
next
  case (snoc b bs)
  have "(be_value bs * 256 + unat b) div 256 = be_value bs"
    "(be_value bs * 256 + unat b) mod 256 = unat b"
    by (simp_all add: div_plus_div_distrib_dvd_left)
  with snoc show ?case by simp
qed

lemma to_from_be_bytes:
  assumes "length bs = 8"
  shows "to_be_bytes (from_be_bytes bs) = bs"
proof -
  have "be_value bs < 256 ^ 8"
    using be_value_less [of bs] by (simp only: assms)
  also have "(256 :: nat) ^ 8 = 2 ^ LENGTH(64)"
    by simp
  finally have "unat (of_nat (be_value bs) :: u64) = be_value bs"
    by (rule of_nat_inverse [OF refl])
  with be_bytes_be_value [of bs] assms show ?thesis
    by (simp only: to_be_bytes_def from_be_bytes_def)
qed

text \<open>The bytes of a word whose width is a whole number of bytes.\<close>

lemma word_of_be_bytes:
  assumes "LENGTH('a::len) = 8 * n"
  shows "of_nat (be_value (be_bytes n (unat (w :: 'a word)))) = w"
proof -
  have "unat w < 256 ^ n"
    using unsigned_less [of w] by (simp add: assms power_mult)
  then show ?thesis
    by (simp add: be_value_be_bytes)
qed

lemma be_bytes_of_word:
  assumes "LENGTH('a::len) = 8 * length bs"
  shows "be_bytes (length bs) (unat (of_nat (be_value bs) :: 'a word)) = bs"
proof -
  have "be_value bs < 2 ^ LENGTH('a)"
    using be_value_less [of bs] by (simp add: assms power_mult)
  then have "unat (of_nat (be_value bs) :: 'a word) = be_value bs"
    by (rule of_nat_inverse [OF refl])
  then show ?thesis by simp
qed

definition b16_bytes :: "b16 \<Rightarrow> u8 list" where
  "b16_bytes b = be_bytes 16 (unat b)"

definition b32_bytes :: "b32 \<Rightarrow> u8 list" where
  "b32_bytes b = be_bytes 32 (unat b)"

lemma b16_bytes_inject [simp]: "b16_bytes a = b16_bytes b \<longleftrightarrow> a = b"
  by (simp only: b16_bytes_def be_bytes_inject [OF unat_b16_less unat_b16_less] word_unat_eq_iff)

lemma b32_bytes_inject [simp]: "b32_bytes a = b32_bytes b \<longleftrightarrow> a = b"
  by (simp only: b32_bytes_def be_bytes_inject [OF unat_b32_less unat_b32_less] word_unat_eq_iff)

lemma length_b_bytes [simp]: "length (b16_bytes a) = 16" "length (b32_bytes b) = 32"
  by (simp_all add: b16_bytes_def b32_bytes_def)

lemma memcmp_less_irrefl [simp]: "\<not> memcmp_less a a"
  by (induction a) simp_all

lemma memcmp_less_trans: "memcmp_less a b \<Longrightarrow> memcmp_less b c \<Longrightarrow> memcmp_less a c"
proof (induction a b arbitrary: c rule: memcmp_less.induct)
  case (2 y ys)
  then show ?case by (cases c) simp_all
next
  case (3 x xs y ys)
  then show ?case by (cases c) auto
qed simp

lemma memcmp_less_total: "a \<noteq> b \<Longrightarrow> memcmp_less a b \<or> memcmp_less b a"
proof (induction a b rule: memcmp_less.induct)
  case (1 xs)
  then show ?case by (cases xs) simp_all
next
  case (3 x xs y ys)
  then show ?case by auto
qed simp


subsection \<open>Lists kept in key order\<close>

lemma sorted_wrt_insert:
  assumes trans: "\<And>a b c. R a b \<Longrightarrow> R b c \<Longrightarrow> R a c"
    and sorted: "sorted_wrt R xs"
    and total: "\<And>x. x \<in> set xs \<Longrightarrow> R x y \<or> R y x"
  shows "sorted_wrt R (takeWhile (\<lambda>x. R x y) xs @ y # dropWhile (\<lambda>x. R x y) xs)"
  using sorted total
proof (induction xs)
  case Nil
  then show ?case by simp
next
  case (Cons x xs)
  show ?case
  proof (cases "R x y")
    case True
    have "R x z" if "z \<in> set (takeWhile (\<lambda>x. R x y) xs) \<union> set (dropWhile (\<lambda>x. R x y) xs)" for z
      using that Cons.prems(1) by (auto dest: set_takeWhileD set_dropWhileD)
    with True Cons show ?thesis by auto
  next
    case False
    with Cons.prems(2) [of x] have "R y x" by simp
    with False Cons.prems(1) show ?thesis by (auto intro: trans)
  qed
qed

lemma set_takeWhile_dropWhile: "set (takeWhile P xs) \<union> set (dropWhile P xs) = set xs"
  by (metis set_append takeWhile_dropWhile_id)

lemma option_eq_by_Some: "(\<And>x. a = Some x \<longleftrightarrow> b = Some x) \<Longrightarrow> a = b"
  by (cases a; cases b) auto

lemma butlast_take_Suc: "n < length xs \<Longrightarrow> butlast (take (Suc n) xs) = take n xs"
  by (simp add: butlast_take)

lemma last_take: "0 < n \<Longrightarrow> n \<le> length xs \<Longrightarrow> last (take n xs) = xs ! (n - 1)"
  by (subst last_conv_nth) auto

lemma filter_greater_sorted:
  fixes f :: "'a \<Rightarrow> 'k::linorder"
  assumes "sorted_wrt (\<lambda>x y. f x < f y) xs" "0 < n" "n \<le> length xs"
  shows "filter (\<lambda>x. f (xs ! (n - 1)) < f x) xs = drop n xs"
proof -
  have less: "f (xs ! i) < f (xs ! k)" if "i < k" "k < length xs" for i k
    using assms(1) that by (simp add: sorted_wrt_iff_nth_less)
  have "\<not> f (xs ! (n - 1)) < f x" if "x \<in> set (take n xs)" for x
  proof -
    from that obtain i where i: "i < n" "x = xs ! i"
      using assms(3) by (auto simp: in_set_conv_nth)
    show ?thesis
    proof (cases "i = n - 1")
      case False
      with i(1) have "i < n - 1" by simp
      then have "f (xs ! i) < f (xs ! (n - 1))"
        by (rule less) (use assms in simp)
      with i(2) show ?thesis by simp
    qed (simp add: i(2))
  qed
  then have "filter (\<lambda>x. f (xs ! (n - 1)) < f x) (take n xs) = []"
    by (simp add: filter_empty_conv)
  moreover have "f (xs ! (n - 1)) < f x" if "x \<in> set (drop n xs)" for x
  proof -
    from that obtain i where "i < length xs - n" "x = xs ! (n + i)"
      by (auto simp: in_set_conv_nth)
    then have i: "n + i < length xs" "x = xs ! (n + i)"
      by simp_all
    show ?thesis
      unfolding i(2) by (rule less) (use assms i in simp_all)
  qed
  then have "filter (\<lambda>x. f (xs ! (n - 1)) < f x) (drop n xs) = drop n xs"
    by (simp add: filter_id_conv)
  ultimately show ?thesis
    by (metis append_Nil append_take_drop_id filter_append)
qed

end
