(* ===== verification/Command.thy ===== *)
theory Command
  imports Prelude
begin

text \<open>
  Data model of \<open>src/src/fabric/command.rs\<close>: the typed identities, the immutable command
  envelope, the contexts the reducer re-reads, command results, failures, durable states, the
  durable command record and the structural check a persisted record has to pass.  The reducer
  itself is in \<open>CommandReducer\<close>.

  Variants that share a name between two Rust enums are kept apart by a prefix: the variants of
  the coarse discriminant enums start with \<open>K\<close> (\<open>CommandKind::ActivateEpoch\<close> is
  \<open>KActivateEpoch\<close>).  Record fields carry a short prefix of their struct for the same reason.
\<close>


subsection \<open>Typed identities\<close>

text \<open>One newtype per \<open>byte_identity!\<close> invocation; the wrapped word is the canonical byte array.\<close>

datatype operation_id = OperationId b16
datatype idempotency_key = IdempotencyKey b32
datatype workspace_id = WorkspaceId b16
datatype principal_id = PrincipalId b16
datatype actor_id = ActorId b16
datatype lease_id = LeaseId b16
datatype epoch_id = EpochId b16
datatype authorization_ref = AuthorizationRef b32
datatype input_release_ref = InputReleaseRef b32
datatype program_release_ref = ProgramReleaseRef b32
datatype application_release_ref = ApplicationReleaseRef b32
datatype source_authority_ref = SourceAuthorityRef b32
datatype provider_release_ref = ProviderReleaseRef b32
datatype provider_set_ref = ProviderSetRef b32
datatype resource_envelope_ref = ResourceEnvelopeRef b32
datatype source_image_set_ref = SourceImageSetRef b32
datatype provider_run_ref = ProviderRunRef b32
datatype owner_set_ref = OwnerSetRef b32
datatype relation_set_ref = RelationSetRef b32
datatype analysis_run_ref = AnalysisRunRef b32
datatype proof_receipt_ref = ProofReceiptRef b32
datatype rollback_authorization_ref = RollbackAuthorizationRef b32
datatype retention_policy_ref = RetentionPolicyRef b32
datatype protected_set_ref = ProtectedSetRef b32
datatype administration_request_ref = AdministrationRequestRef b32
datatype operation_selection_ref = OperationSelectionRef b32
datatype transaction_ref = TransactionRef b32
datatype reconciliation_evidence_ref = ReconciliationEvidenceRef b32
datatype diagnostic_ref = DiagnosticRef b32

text \<open>The derived order of operation identities, used by the journal's recovery scan.\<close>

fun operation_bytes :: "operation_id \<Rightarrow> b16" where
  "operation_bytes (OperationId b) = b"

lemma operation_bytes_inject: "operation_bytes a = operation_bytes b \<longleftrightarrow> a = b"
  by (cases a; cases b) simp

instantiation operation_id :: linorder
begin

definition less_eq_operation_id :: "operation_id \<Rightarrow> operation_id \<Rightarrow> bool" where
  "less_eq_operation_id a b \<longleftrightarrow> operation_bytes a \<le> operation_bytes b"

definition less_operation_id :: "operation_id \<Rightarrow> operation_id \<Rightarrow> bool" where
  "less_operation_id a b \<longleftrightarrow> operation_bytes a < operation_bytes b"

instance
  by standard
    (auto simp: less_eq_operation_id_def less_operation_id_def order.strict_iff_order
      operation_bytes_inject)

end

datatype writer_generation = WriterGeneration nonzero_u64

definition writer_generation_new :: "u64 \<Rightarrow> writer_generation option" where
  "writer_generation_new value = map_option WriterGeneration (nz_new value)"

fun generation_get :: "writer_generation \<Rightarrow> u64" where
  "generation_get (WriterGeneration n) = nz_get n"

lemma generation_get_nonzero [simp]: "generation_get g \<noteq> 0"
  by (cases g) simp

lemma generation_get_inject: "generation_get a = generation_get b \<longleftrightarrow> a = b"
  by (cases a; cases b) (simp add: nz_get_inject)

lemma generation_get_new [simp]: "writer_generation_new v = Some g \<Longrightarrow> generation_get g = v"
  by (auto simp: writer_generation_new_def nz_new_def split: if_splits)

instantiation writer_generation :: linorder
begin

definition less_eq_writer_generation :: "writer_generation \<Rightarrow> writer_generation \<Rightarrow> bool" where
  "less_eq_writer_generation a b \<longleftrightarrow> generation_get a \<le> generation_get b"

definition less_writer_generation :: "writer_generation \<Rightarrow> writer_generation \<Rightarrow> bool" where
  "less_writer_generation a b \<longleftrightarrow> generation_get a < generation_get b"

instance
  by standard
    (auto simp: less_eq_writer_generation_def less_writer_generation_def order.strict_iff_order
      generation_get_inject)

end

datatype source_generation = SourceGeneration u64

record writer_fence =
  lease_id :: lease_id
  generation :: writer_generation


subsection \<open>The command envelope\<close>

datatype expected_head = Empty | Epoch epoch_id

record command_identity =
  operation_id :: operation_id
  idempotency_key :: idempotency_key

record command_ownership =
  own_workspace_id :: workspace_id
  principal_id :: principal_id
  own_authorization :: authorization_ref

record command_pins =
  input_release :: input_release_ref
  program_release :: program_release_ref
  application_release :: application_release_ref
  source_authority :: source_authority_ref
  source_generation :: source_generation
  provider_release :: provider_release_ref
  provider_set :: provider_set_ref

datatype relation_class = KProviderNative | KCanonical | KDerived | KOperationalFact

datatype relation_publication =
    ProviderNative provider_run_ref owner_set_ref relation_set_ref
  | Canonical analysis_run_ref owner_set_ref relation_set_ref
  | Derived analysis_run_ref owner_set_ref relation_set_ref
  | OperationalFact administration_request_ref relation_set_ref

fun publication_class :: "relation_publication \<Rightarrow> relation_class" where
  "publication_class (ProviderNative _ _ _) = KProviderNative"
| "publication_class (Canonical _ _ _) = KCanonical"
| "publication_class (Derived _ _ _) = KDerived"
| "publication_class (OperationalFact _ _) = KOperationalFact"

datatype administration_action =
    RebuildCandidate | RepairTemporalCache | ReconcileOperation | InspectDeltaRetention
  | ValidateDeltaRetention | PlanDeltaVacuum | CreateDeltaCheckpoint | CompactDelta
  | ExecuteDeltaVacuum

datatype command_kind =
    KPublishSourceWave | KPublishRelations | KActivateEpoch | KRollbackEpoch
  | KCompactRelations | KApplyRetention | KAdminister

datatype fabric_command_payload =
    PublishSourceWave source_image_set_ref source_generation
  | PublishRelations relation_publication
  | ActivateEpoch epoch_id proof_receipt_ref
  | RollbackEpoch epoch_id rollback_authorization_ref
  | CompactRelations relation_set_ref proof_receipt_ref
  | ApplyRetention retention_policy_ref protected_set_ref
  | Administer administration_action administration_request_ref

fun payload_kind :: "fabric_command_payload \<Rightarrow> command_kind" where
  "payload_kind (PublishSourceWave _ _) = KPublishSourceWave"
| "payload_kind (PublishRelations _) = KPublishRelations"
| "payload_kind (ActivateEpoch _ _) = KActivateEpoch"
| "payload_kind (RollbackEpoch _ _) = KRollbackEpoch"
| "payload_kind (CompactRelations _ _) = KCompactRelations"
| "payload_kind (ApplyRetention _ _) = KApplyRetention"
| "payload_kind (Administer _ _) = KAdminister"

record fabric_command =
  identity :: command_identity
  ownership :: command_ownership
  cmd_expected_head :: expected_head
  writer_fence :: writer_fence
  pins :: command_pins
  resources :: resource_envelope_ref
  payload :: fabric_command_payload

definition command_kind_of :: "fabric_command \<Rightarrow> command_kind" where
  "command_kind_of c = payload_kind (payload c)"

abbreviation command_operation :: "fabric_command \<Rightarrow> operation_id" where
  "command_operation c \<equiv> operation_id (identity c)"

abbreviation command_key :: "fabric_command \<Rightarrow> idempotency_key" where
  "command_key c \<equiv> idempotency_key (identity c)"


subsection \<open>Contexts and owners\<close>

datatype authorization_decision =
  Authorized authorization_ref | Denied diagnostic_ref | UnknownAuthorization diagnostic_ref

record admission_context =
  adm_workspace_id :: workspace_id
  adm_current_head :: expected_head
  adm_active_fence :: writer_fence
  adm_authorization :: authorization_decision

record reduction_context =
  ctx_current_head :: expected_head
  ctx_active_fence :: writer_fence

record execution_owner =
  actor_id :: actor_id
  fence :: writer_fence

abbreviation fence_generation :: "writer_fence \<Rightarrow> u64" where
  "fence_generation f \<equiv> generation_get (generation f)"

abbreviation owner_generation :: "execution_owner \<Rightarrow> u64" where
  "owner_generation w \<equiv> fence_generation (fence w)"


subsection \<open>Results and failures\<close>

datatype command_result =
    SourceWavePublished source_generation expected_head operation_selection_ref
  | RelationsPublished relation_class relation_set_ref expected_head operation_selection_ref
  | EpochActivated epoch_id operation_selection_ref
  | EpochRolledBack epoch_id operation_selection_ref
  | RelationsCompacted relation_set_ref expected_head operation_selection_ref
  | RetentionApplied protected_set_ref expected_head operation_selection_ref
  | AdministrationApplied administration_request_ref expected_head operation_selection_ref

fun result_kind :: "command_result \<Rightarrow> command_kind" where
  "result_kind (SourceWavePublished _ _ _) = KPublishSourceWave"
| "result_kind (RelationsPublished _ _ _ _) = KPublishRelations"
| "result_kind (EpochActivated _ _) = KActivateEpoch"
| "result_kind (EpochRolledBack _ _) = KRollbackEpoch"
| "result_kind (RelationsCompacted _ _ _) = KCompactRelations"
| "result_kind (RetentionApplied _ _ _) = KApplyRetention"
| "result_kind (AdministrationApplied _ _ _) = KAdminister"

datatype failure_code =
    AuthorizationRevoked | InvalidInput | ResourceExhausted | BackendUnavailable
  | CancelledCode | InternalInvariant

datatype failure_class = Permanent | RetryableBeforeCommit

datatype retry_classification =
  Never | RetrySameCommandAfterKnownNoCommit | ReconcileBeforeDecision

datatype reconciliation_classification = NotRequired | OperationMarkerAndControlHistory

record command_failure =
  code :: failure_code
  fail_class :: failure_class
  failure_diagnostic :: diagnostic_ref

definition failure_retry_classification :: "command_failure \<Rightarrow> retry_classification" where
  "failure_retry_classification f =
     (case fail_class f of
        Permanent \<Rightarrow> Never
      | RetryableBeforeCommit \<Rightarrow> RetrySameCommandAfterKnownNoCommit)"

definition failure_reconciliation_classification ::
  "command_failure \<Rightarrow> reconciliation_classification" where
  "failure_reconciliation_classification f = NotRequired"

datatype unknown_commit_reason = Timeout | ConnectionLost | ProcessInterrupted | ReadbackUnavailable

record unknown_commit =
  reason :: unknown_commit_reason
  unknown_diagnostic :: diagnostic_ref

definition unknown_retry_classification :: "unknown_commit \<Rightarrow> retry_classification" where
  "unknown_retry_classification u = ReconcileBeforeDecision"

definition unknown_reconciliation_classification ::
  "unknown_commit \<Rightarrow> reconciliation_classification" where
  "unknown_reconciliation_classification u = OperationMarkerAndControlHistory"

record command_cancellation =
  cancellation_diagnostic :: diagnostic_ref

datatype commit_confirmation = Direct | Reconciled reconciliation_evidence_ref

datatype retry_basis =
  KnownFailure command_failure | ReconciledNotCommitted reconciliation_evidence_ref


subsection \<open>Durable states and records\<close>

datatype durable_command_state =
    Admitted u32
  | Executing u32 execution_owner
  | CommitPrepared u32 execution_owner transaction_ref
  | AwaitingReconciliation u32 execution_owner execution_owner transaction_ref unknown_commit
      u32 "reconciliation_evidence_ref option"
      \<comment> \<open>attempt, execution owner, recovery owner, transaction, unknown, probe count, evidence\<close>
  | RetryReady u32 writer_fence retry_basis
  | Succeeded transaction_ref command_result commit_confirmation
  | Failed command_failure
  | Cancelled command_cancellation

datatype command_recovery_obligation =
    ResumePrecommit
  | MarkInterruptedCommit transaction_ref
  | ReconcileCommit transaction_ref
  | RetryProvedNotCommitted

datatype command_state_kind =
    KAdmitted | KExecuting | KCommitPrepared | KAwaitingReconciliation | KRetryReady
  | KSucceeded | KFailed | KCancelled

fun state_kind :: "durable_command_state \<Rightarrow> command_state_kind" where
  "state_kind (Admitted _) = KAdmitted"
| "state_kind (Executing _ _) = KExecuting"
| "state_kind (CommitPrepared _ _ _) = KCommitPrepared"
| "state_kind (AwaitingReconciliation _ _ _ _ _ _ _) = KAwaitingReconciliation"
| "state_kind (RetryReady _ _ _) = KRetryReady"
| "state_kind (Succeeded _ _ _) = KSucceeded"
| "state_kind (Failed _) = KFailed"
| "state_kind (Cancelled _) = KCancelled"

fun is_terminal :: "durable_command_state \<Rightarrow> bool" where
  "is_terminal (Succeeded _ _ _) = True"
| "is_terminal (Failed _) = True"
| "is_terminal (Cancelled _) = True"
| "is_terminal _ = False"

record command_record =
  command :: fabric_command
  state :: durable_command_state
  revision :: u64

datatype command_record_invariant_error =
    InvalidAttempt command_state_kind
  | InvalidRevision command_state_kind
  | InvalidExecutionFence command_state_kind
  | InvalidRecoveryFence
  | InvalidReconciliationEvidence
  | InvalidRetryBasis
  | InvalidTerminalFailure
  | InvalidResultKind

definition validate_persisted_attempt ::
  "u32 \<Rightarrow> command_state_kind \<Rightarrow> (command_record_invariant_error, unit) result" where
  "validate_persisted_attempt attempt k = ensure (attempt \<noteq> 0) (InvalidAttempt k)"

definition validate_minimum_revision ::
  "u64 \<Rightarrow> u64 \<Rightarrow> command_state_kind \<Rightarrow> (command_record_invariant_error, unit) result" where
  "validate_minimum_revision actual minimum k = ensure (\<not> actual < minimum) (InvalidRevision k)"

definition validate_persisted_execution_fence ::
  "writer_fence \<Rightarrow> execution_owner \<Rightarrow> command_state_kind
    \<Rightarrow> (command_record_invariant_error, unit) result" where
  "validate_persisted_execution_fence admitted owner k =
     ensure (fence owner = admitted \<or> owner_generation owner > fence_generation admitted)
       (InvalidExecutionFence k)"

abbreviation u64_from :: "u32 \<Rightarrow> u64" where
  "u64_from a \<equiv> ucast a"

fun retry_minimum_revision :: "u32 \<Rightarrow> retry_basis \<Rightarrow> u64" where
  "retry_minimum_revision nxt (KnownFailure _) = u64_from (nxt - 1) * 2"
| "retry_minimum_revision nxt (ReconciledNotCommitted _) = u64_from nxt * 2"

fun permanent_basis :: "retry_basis \<Rightarrow> bool" where
  "permanent_basis (KnownFailure f) = (fail_class f = Permanent)"
| "permanent_basis (ReconciledNotCommitted _) = False"

fun success_minimum_revision :: "commit_confirmation \<Rightarrow> u64" where
  "success_minimum_revision Direct = 3"
| "success_minimum_revision (Reconciled _) = 4"

definition validate_persisted_invariants ::
  "command_record \<Rightarrow> (command_record_invariant_error, unit) result" where
  "validate_persisted_invariants r =
     (let k = state_kind (state r); admitted = writer_fence (command r) in
      case state r of
        Admitted attempt \<Rightarrow>
          bindE (ensure (attempt = 1) (InvalidAttempt k)) (\<lambda>_.
          ensure (revision r = 0) (InvalidRevision k))
      | Executing attempt owner \<Rightarrow>
          bindE (validate_persisted_attempt attempt k) (\<lambda>_.
          bindE (validate_minimum_revision (revision r) (u64_from attempt * 2 - 1) k) (\<lambda>_.
          validate_persisted_execution_fence admitted owner k))
      | CommitPrepared attempt owner _ \<Rightarrow>
          bindE (validate_persisted_attempt attempt k) (\<lambda>_.
          bindE (validate_minimum_revision (revision r) (u64_from attempt * 2) k) (\<lambda>_.
          validate_persisted_execution_fence admitted owner k))
      | AwaitingReconciliation attempt execution_owner recovery_owner _ _ probe_count last_evidence \<Rightarrow>
          bindE (validate_persisted_attempt attempt k) (\<lambda>_.
          bindE (validate_minimum_revision (revision r)
                   (u64_from attempt * 2 + 1 + u64_from probe_count) k) (\<lambda>_.
          bindE (validate_persisted_execution_fence admitted execution_owner k) (\<lambda>_.
          bindE (ensure (\<not> (recovery_owner \<noteq> execution_owner
                     \<and> owner_generation recovery_owner \<le> owner_generation execution_owner))
                   InvalidRecoveryFence) (\<lambda>_.
          ensure (\<not> ((probe_count = 0) \<noteq> (last_evidence = None))) InvalidReconciliationEvidence))))
      | RetryReady next_attempt required_fence basis \<Rightarrow>
          bindE (ensure (\<not> next_attempt < 2) (InvalidAttempt k)) (\<lambda>_.
          bindE (validate_minimum_revision (revision r)
                   (retry_minimum_revision next_attempt basis) k) (\<lambda>_.
          bindE (ensure (\<not> (required_fence \<noteq> admitted
                     \<and> fence_generation required_fence \<le> fence_generation admitted))
                   (InvalidExecutionFence k)) (\<lambda>_.
          ensure (\<not> permanent_basis basis) InvalidRetryBasis)))
      | Succeeded _ result confirmation \<Rightarrow>
          bindE (validate_minimum_revision (revision r) (success_minimum_revision confirmation) k) (\<lambda>_.
          ensure (\<not> result_kind result \<noteq> command_kind_of (command r)) InvalidResultKind)
      | Failed failure \<Rightarrow>
          bindE (validate_minimum_revision (revision r) 2 k) (\<lambda>_.
          ensure (\<not> fail_class failure \<noteq> Permanent) InvalidTerminalFailure)
      | Cancelled _ \<Rightarrow> validate_minimum_revision (revision r) 1 k)"

fun recovery_obligation_of :: "durable_command_state \<Rightarrow> command_recovery_obligation option" where
  "recovery_obligation_of (Admitted _) = Some ResumePrecommit"
| "recovery_obligation_of (Executing _ _) = Some ResumePrecommit"
| "recovery_obligation_of (CommitPrepared _ _ transaction) =
     Some (MarkInterruptedCommit transaction)"
| "recovery_obligation_of (AwaitingReconciliation _ _ _ transaction _ _ _) =
     Some (ReconcileCommit transaction)"
| "recovery_obligation_of (RetryReady _ _ _) = Some RetryProvedNotCommitted"
| "recovery_obligation_of (Succeeded _ _ _) = None"
| "recovery_obligation_of (Failed _) = None"
| "recovery_obligation_of (Cancelled _) = None"

definition recovery_obligation :: "command_record \<Rightarrow> command_recovery_obligation option" where
  "recovery_obligation r = recovery_obligation_of (state r)"

lemma recovery_obligation_None_iff: "recovery_obligation r = None \<longleftrightarrow> is_terminal (state r)"
  by (cases "state r") (simp_all add: recovery_obligation_def)


subsection \<open>The structural check in closed form\<close>

text \<open>
  \<open>record_ok\<close> states the persisted invariants over natural numbers.  The word arithmetic of
  \<open>validate_persisted_invariants\<close> never wraps: an attempt is below \<open>2\<^sup>3\<^sup>2\<close> and so is a probe count,
  so every minimum revision stays below \<open>2\<^sup>6\<^sup>4\<close>.
\<close>

definition fence_advances :: "writer_fence \<Rightarrow> writer_fence \<Rightarrow> bool" where
  "fence_advances base f \<longleftrightarrow> f = base \<or> fence_generation base < fence_generation f"

definition owner_advances :: "execution_owner \<Rightarrow> execution_owner \<Rightarrow> bool" where
  "owner_advances base w \<longleftrightarrow> w = base \<or> owner_generation base < owner_generation w"

lemma fence_advances_refl [simp]: "fence_advances f f"
  by (simp add: fence_advances_def)

lemma fence_advances_trans: "fence_advances a b \<Longrightarrow> fence_advances b c \<Longrightarrow> fence_advances a c"
  by (auto simp: fence_advances_def)

lemma fence_advances_generation: "fence_advances a b \<Longrightarrow> fence_generation a \<le> fence_generation b"
  by (auto simp: fence_advances_def)

lemma owner_advances_refl [simp]: "owner_advances w w"
  by (simp add: owner_advances_def)

lemma owner_advances_trans: "owner_advances a b \<Longrightarrow> owner_advances b c \<Longrightarrow> owner_advances a c"
  by (auto simp: owner_advances_def)

lemma owner_advances_fence: "owner_advances a b \<Longrightarrow> fence_advances (fence a) (fence b)"
  by (auto simp: owner_advances_def fence_advances_def)

fun state_ok :: "fabric_command \<Rightarrow> nat \<Rightarrow> durable_command_state \<Rightarrow> bool" where
  "state_ok c n (Admitted attempt) \<longleftrightarrow> attempt = 1 \<and> n = 0"
| "state_ok c n (Executing attempt owner) \<longleftrightarrow>
     0 < unat attempt \<and> 2 * unat attempt \<le> n + 1 \<and> fence_advances (writer_fence c) (fence owner)"
| "state_ok c n (CommitPrepared attempt owner _) \<longleftrightarrow>
     0 < unat attempt \<and> 2 * unat attempt \<le> n \<and> fence_advances (writer_fence c) (fence owner)"
| "state_ok c n (AwaitingReconciliation attempt eo ro _ _ probes evidence) \<longleftrightarrow>
     0 < unat attempt \<and> 2 * unat attempt + 1 + unat probes \<le> n
     \<and> fence_advances (writer_fence c) (fence eo) \<and> owner_advances eo ro
     \<and> (unat probes = 0 \<longleftrightarrow> evidence = None)"
| "state_ok c n (RetryReady nxt required basis) \<longleftrightarrow>
     2 \<le> unat nxt \<and> fence_advances (writer_fence c) required
     \<and> (case basis of
          KnownFailure f \<Rightarrow> 2 * unat nxt \<le> n + 2 \<and> fail_class f = RetryableBeforeCommit
        | ReconciledNotCommitted _ \<Rightarrow> 2 * unat nxt \<le> n)"
| "state_ok c n (Succeeded _ result confirmation) \<longleftrightarrow>
     result_kind result = command_kind_of c
     \<and> (case confirmation of Direct \<Rightarrow> 3 \<le> n | Reconciled _ \<Rightarrow> 4 \<le> n)"
| "state_ok c n (Failed f) \<longleftrightarrow> 2 \<le> n \<and> fail_class f = Permanent"
| "state_ok c n (Cancelled _) \<longleftrightarrow> 1 \<le> n"

definition record_ok :: "command_record \<Rightarrow> bool" where
  "record_ok r \<longleftrightarrow> state_ok (command r) (unat (revision r)) (state r)"

lemma unat_twice: "unat (u64_from a * 2) = 2 * unat a"
proof -
  have "unat a * 2 < 18446744073709551616"
    using unat_u32_less [of a] by linarith
  then show ?thesis
    by (simp add: unat_word_ariths)
qed

lemma unat_twice_minus_1: "a \<noteq> 0 \<Longrightarrow> unat (u64_from a * 2 - 1) = 2 * unat a - 1"
proof -
  assume "a \<noteq> 0"
  then have "0 < unat a" by (simp add: unat_gt_0)
  then have "1 \<le> u64_from a * 2"
    by (simp add: word_le_nat_alt unat_twice)
  then show ?thesis
    by (simp add: unat_sub unat_twice)
qed

lemma unat_reconciliation_minimum:
  "unat (u64_from a * 2 + 1 + u64_from p) = 2 * unat a + 1 + unat p"
proof -
  have bound: "2 * unat a + 1 + unat p < 18446744073709551616"
    using unat_u32_less [of a] unat_u32_less [of p] by linarith
  then have "unat (u64_from a * 2 + 1) = 2 * unat a + 1"
    by (simp only: unat_word_ariths unat_twice) simp
  with bound show ?thesis
    by (simp only: unat_word_ariths(1) [of "u64_from a * 2 + 1"] unat_ucast_u32_u64) simp
qed

lemma unat_pred_u32: "\<not> (n :: u32) < 2 \<Longrightarrow> unat (n - 1) = unat n - 1"
  by (simp add: unat_sub word_le_nat_alt word_less_nat_alt)

lemma retry_minimum_nat:
  "\<not> nxt < 2 \<Longrightarrow> unat (retry_minimum_revision nxt basis) =
     (case basis of KnownFailure _ \<Rightarrow> 2 * (unat nxt - 1) | ReconciledNotCommitted _ \<Rightarrow> 2 * unat nxt)"
  by (cases basis) (simp_all add: unat_twice unat_pred_u32)

lemma not_permanent_iff: "k \<noteq> Permanent \<longleftrightarrow> k = RetryableBeforeCommit"
  by (cases k) simp_all

lemma validate_persisted_invariants_iff:
  "validate_persisted_invariants r = Inr () \<longleftrightarrow> record_ok r"
proof (cases "state r")
  case (Executing attempt owner)
  then show ?thesis
    by (auto simp: Let_def validate_persisted_invariants_def record_ok_def validate_persisted_attempt_def
        validate_minimum_revision_def validate_persisted_execution_fence_def fence_advances_def
        word_less_nat_alt unat_twice_minus_1 unat_gt_0 not_less)
next
  case (CommitPrepared attempt owner t)
  then show ?thesis
    by (auto simp: Let_def validate_persisted_invariants_def record_ok_def validate_persisted_attempt_def
        validate_minimum_revision_def validate_persisted_execution_fence_def fence_advances_def
        word_less_nat_alt unat_twice unat_gt_0 not_less)
next
  case (AwaitingReconciliation attempt eo ro t u probes evidence)
  then show ?thesis
    by (auto simp: Let_def validate_persisted_invariants_def record_ok_def validate_persisted_attempt_def
        validate_minimum_revision_def validate_persisted_execution_fence_def fence_advances_def
        owner_advances_def word_less_nat_alt word_le_nat_alt unat_reconciliation_minimum
        unat_gt_0 unat_eq_0 not_less)
next
  case (RetryReady nxt required basis)
  then show ?thesis
    by (cases basis; cases "nxt < 2")
      (auto simp: Let_def validate_persisted_invariants_def record_ok_def validate_minimum_revision_def
        fence_advances_def word_less_nat_alt word_le_nat_alt unat_twice unat_pred_u32 not_less
        not_permanent_iff)
next
  case (Succeeded t result confirmation)
  then show ?thesis
    by (cases confirmation)
      (auto simp: Let_def validate_persisted_invariants_def record_ok_def validate_minimum_revision_def
        word_less_nat_alt not_less)
qed (auto simp: Let_def validate_persisted_invariants_def record_ok_def validate_minimum_revision_def
  word_less_nat_alt not_less unat_eq_0 Suc_le_eq unat_gt_0)

end
