(* ===== verification/CommandReducer.thy ===== *)
theory CommandReducer
  imports Command
begin

text \<open>
  The pure reducer of \<open>src/src/fabric/command.rs\<close> (\<open>CommandReducer::admit\<close> and
  \<open>CommandReducer::reduce\<close> with every helper), followed by its laws: it never panics, it keeps
  the persisted-record invariants, terminal answers are immutable, the revision advances by
  exactly one on a material transition, and a commit of unknown outcome is retried only after
  a reconciliation that proved it did not happen.
\<close>


subsection \<open>Admission outcomes, events and reductions\<close>

datatype admission_outcome = New command_record | Existing command_record

fun outcome_record :: "admission_outcome \<Rightarrow> command_record" where
  "outcome_record (New r) = r"
| "outcome_record (Existing r) = r"

datatype reconciliation_observation =
    Committed reconciliation_evidence_ref command_result
  | NotCommitted reconciliation_evidence_ref
  | Indeterminate reconciliation_evidence_ref

datatype command_event =
    Start execution_owner
  | PrepareCommit execution_owner transaction_ref
  | ConfirmCommit execution_owner transaction_ref command_result
  | ReportKnownFailure execution_owner command_failure
  | ReportUnknownCommit execution_owner transaction_ref unknown_commit
  | ObserveReconciliation execution_owner transaction_ref reconciliation_observation
  | CancelBeforeCommit execution_owner command_cancellation

datatype command_event_kind =
    KStart | KPrepareCommit | KConfirmCommit | KReportKnownFailure | KReportUnknownCommit
  | KObserveReconciliation | KCancelBeforeCommit

fun event_kind :: "command_event \<Rightarrow> command_event_kind" where
  "event_kind (Start _) = KStart"
| "event_kind (PrepareCommit _ _) = KPrepareCommit"
| "event_kind (ConfirmCommit _ _ _) = KConfirmCommit"
| "event_kind (ReportKnownFailure _ _) = KReportKnownFailure"
| "event_kind (ReportUnknownCommit _ _ _) = KReportUnknownCommit"
| "event_kind (ObserveReconciliation _ _ _) = KObserveReconciliation"
| "event_kind (CancelBeforeCommit _ _) = KCancelBeforeCommit"

fun event_owner :: "command_event \<Rightarrow> execution_owner" where
  "event_owner (Start w) = w"
| "event_owner (PrepareCommit w _) = w"
| "event_owner (ConfirmCommit w _ _) = w"
| "event_owner (ReportKnownFailure w _) = w"
| "event_owner (ReportUnknownCommit w _ _) = w"
| "event_owner (ObserveReconciliation w _ _) = w"
| "event_owner (CancelBeforeCommit w _) = w"

datatype reduction_effect = StateChanged | IdempotentReplay | ReconciliationStillRequired

record reducer_transition =
  predecessor :: command_record
  successor :: command_record
  tr_effect :: reduction_effect

record reduction =
  red_record :: command_record
  red_effect :: reduction_effect
  red_transition :: "reducer_transition option"

datatype command_contract_error =
    DuplicateOperationConflict operation_id
  | PayloadConflict operation_id
  | IdempotencyKeyConflict idempotency_key
  | ExistingLookupMismatch
  | WorkspaceMismatch
  | AuthorizationDenied
  | AuthorizationUnknown
  | AuthorizationMismatch
  | StaleExpectedHead expected_head expected_head
  | StaleWriterFence writer_fence writer_fence
  | ExecutionOwnerMismatch
  | RecoveryFenceNotAdvanced
  | IllegalTransition command_state_kind command_event_kind
  | TransactionMismatch
  | ResultKindMismatch command_kind command_kind
  | TerminalConflict
  | AttemptOverflow
  | RevisionOverflow

record reconciliation_progress =
  pr_attempt :: u32
  pr_execution_owner :: execution_owner
  pr_recovery_owner :: execution_owner
  pr_transaction :: transaction_ref
  pr_unknown :: unknown_commit
  pr_probe_count :: u32

type_synonym 'a reducer_result = "(command_contract_error, 'a) result"


subsection \<open>Admission\<close>

definition admitted_record :: "fabric_command \<Rightarrow> command_record" where
  "admitted_record c = \<lparr>command = c, state = Admitted 1, revision = 0\<rparr>"

definition admit ::
  "command_record option \<Rightarrow> fabric_command \<Rightarrow> admission_context \<Rightarrow> admission_outcome reducer_result" where
  "admit existing c ctx =
     (case existing of
        Some r \<Rightarrow>
          if command r = c then Inr (Existing r)
          else if command_operation (command r) = command_operation c then
            (if command_key (command r) = command_key c \<and> payload (command r) \<noteq> payload c
             then Inl (Err (PayloadConflict (command_operation c)))
             else Inl (Err (DuplicateOperationConflict (command_operation c))))
          else if command_key (command r) = command_key c
            then Inl (Err (IdempotencyKeyConflict (command_key c)))
          else Inl (Err ExistingLookupMismatch)
      | None \<Rightarrow>
          bindE (ensure (adm_workspace_id ctx = own_workspace_id (ownership c)) WorkspaceMismatch) (\<lambda>_.
          bindE (case adm_authorization ctx of
                   Authorized reference \<Rightarrow>
                     ensure (reference = own_authorization (ownership c)) AuthorizationMismatch
                 | Denied _ \<Rightarrow> Inl (Err AuthorizationDenied)
                 | UnknownAuthorization _ \<Rightarrow> Inl (Err AuthorizationUnknown)) (\<lambda>_.
          bindE (ensure (adm_current_head ctx = cmd_expected_head c)
                   (StaleExpectedHead (cmd_expected_head c) (adm_current_head ctx))) (\<lambda>_.
          bindE (ensure (adm_active_fence ctx = writer_fence c)
                   (StaleWriterFence (writer_fence c) (adm_active_fence ctx))) (\<lambda>_.
          Inr (New (admitted_record c)))))))"


subsection \<open>Reducer helpers\<close>

definition illegal :: "durable_command_state \<Rightarrow> command_event \<Rightarrow> command_contract_error" where
  "illegal s e = IllegalTransition (state_kind s) (event_kind e)"

fun event_result :: "command_event \<Rightarrow> command_result option" where
  "event_result (ConfirmCommit _ _ result) = Some result"
| "event_result (ObserveReconciliation _ _ (Committed _ result)) = Some result"
| "event_result _ = None"

definition validate_result_kind :: "fabric_command \<Rightarrow> command_event \<Rightarrow> unit reducer_result" where
  "validate_result_kind c e =
     (case event_result e of
        Some result \<Rightarrow>
          ensure (\<not> command_kind_of c \<noteq> result_kind result)
            (ResultKindMismatch (command_kind_of c) (result_kind result))
      | None \<Rightarrow> Inr ())"

fun reads_head :: "command_event \<Rightarrow> bool" where
  "reads_head (Start _) = True"
| "reads_head (PrepareCommit _ _) = True"
| "reads_head _ = False"

definition validate_reduction_context ::
  "command_record \<Rightarrow> command_event \<Rightarrow> reduction_context \<Rightarrow> unit reducer_result" where
  "validate_reduction_context r e ctx =
     bindE (ensure (fence (event_owner e) = ctx_active_fence ctx)
              (StaleWriterFence (fence (event_owner e)) (ctx_active_fence ctx))) (\<lambda>_.
     ensure (\<not> (reads_head e \<and> ctx_current_head ctx \<noteq> cmd_expected_head (command r)))
       (StaleExpectedHead (cmd_expected_head (command r)) (ctx_current_head ctx)))"

definition validate_new_or_recovery_owner ::
  "writer_fence \<Rightarrow> execution_owner \<Rightarrow> unit reducer_result" where
  "validate_new_or_recovery_owner required owner =
     ensure (fence owner = required \<or> owner_generation owner > fence_generation required)
       RecoveryFenceNotAdvanced"

definition validate_current_owner ::
  "execution_owner \<Rightarrow> execution_owner \<Rightarrow> unit reducer_result" where
  "validate_current_owner current observed = ensure (current = observed) ExecutionOwnerMismatch"

definition validate_recovery_owner ::
  "execution_owner \<Rightarrow> execution_owner \<Rightarrow> unit reducer_result" where
  "validate_recovery_owner current observed =
     ensure (current = observed \<or> owner_generation observed > owner_generation current)
       RecoveryFenceNotAdvanced"

definition validate_transaction :: "transaction_ref \<Rightarrow> transaction_ref \<Rightarrow> unit reducer_result" where
  "validate_transaction prepared observed = ensure (prepared = observed) TransactionMismatch"

definition next_attempt :: "u32 \<Rightarrow> u32 reducer_result" where
  "next_attempt attempt = ok_or (checked_add attempt 1) AttemptOverflow"

definition changed :: "command_record \<Rightarrow> durable_command_state \<Rightarrow> reduction reducer_result" where
  "changed r s =
     bindE (ok_or (checked_add (revision r) 1) RevisionOverflow) (\<lambda>rev'.
       let succ = r\<lparr>revision := rev', state := s\<rparr> in
       Inr \<lparr>red_record = succ, red_effect = StateChanged,
            red_transition = Some \<lparr>predecessor = r, successor = succ, tr_effect = StateChanged\<rparr>\<rparr>)"

definition idempotent :: "command_record \<Rightarrow> reduction" where
  "idempotent r = \<lparr>red_record = r, red_effect = IdempotentReplay, red_transition = None\<rparr>"

definition known_failure_state ::
  "u32 \<Rightarrow> writer_fence \<Rightarrow> command_failure \<Rightarrow> durable_command_state reducer_result" where
  "known_failure_state attempt required_fence failure =
     (case failure_retry_classification failure of
        Never \<Rightarrow> Inr (Failed failure)
      | RetrySameCommandAfterKnownNoCommit \<Rightarrow>
          bindE (next_attempt attempt) (\<lambda>n. Inr (RetryReady n required_fence (KnownFailure failure)))
      | ReconcileBeforeDecision \<Rightarrow> Inl Panic)"

text \<open>\<open>terminal_replay\<close>: \<open>None\<close> for a state that is not terminal, otherwise an exact replay or a conflict.\<close>

definition terminal_replay ::
  "command_record \<Rightarrow> command_event \<Rightarrow> reduction option reducer_result" where
  "terminal_replay r e =
     (let exact =
        (case (state r, e) of
           (Succeeded committed current _, ConfirmCommit _ transaction result) \<Rightarrow>
             Some (committed = transaction \<and> current = result)
         | (Succeeded committed current _, ObserveReconciliation _ transaction (Committed _ result)) \<Rightarrow>
             Some (committed = transaction \<and> current = result)
         | (Failed current, ReportKnownFailure _ failure) \<Rightarrow> Some (current = failure)
         | (Cancelled current, CancelBeforeCommit _ cancellation) \<Rightarrow> Some (current = cancellation)
         | (s, _) \<Rightarrow> if is_terminal s then Some False else None)
      in case exact of
           None \<Rightarrow> Inr None
         | Some True \<Rightarrow> Inr (Some (idempotent r))
         | Some False \<Rightarrow> Inl (Err TerminalConflict))"


subsection \<open>One handler per non-terminal state\<close>

definition reduce_admitted :: "command_record \<Rightarrow> u32 \<Rightarrow> command_event \<Rightarrow> reduction reducer_result" where
  "reduce_admitted r attempt e =
     bindE (case e of
              Start owner \<Rightarrow>
                bindE (validate_new_or_recovery_owner (writer_fence (command r)) owner) (\<lambda>_.
                Inr (Executing attempt owner))
            | CancelBeforeCommit owner cancellation \<Rightarrow>
                bindE (validate_new_or_recovery_owner (writer_fence (command r)) owner) (\<lambda>_.
                Inr (Cancelled cancellation))
            | _ \<Rightarrow> Inl (Err (illegal (state r) e)))
       (changed r)"

definition reduce_retry_ready ::
  "command_record \<Rightarrow> u32 \<Rightarrow> writer_fence \<Rightarrow> retry_basis \<Rightarrow> command_event \<Rightarrow> reduction reducer_result" where
  "reduce_retry_ready r attempt required_fence basis e =
     (case e of
        Start owner \<Rightarrow>
          bindE (validate_new_or_recovery_owner required_fence owner) (\<lambda>_.
          changed r (Executing attempt owner))
      | ReportKnownFailure _ failure \<Rightarrow>
          if basis = KnownFailure failure then Inr (idempotent r) else Inl (Err (illegal (state r) e))
      | _ \<Rightarrow> Inl (Err (illegal (state r) e)))"

definition reduce_executing ::
  "command_record \<Rightarrow> u32 \<Rightarrow> execution_owner \<Rightarrow> command_event \<Rightarrow> reduction reducer_result" where
  "reduce_executing r attempt current e =
     (case e of
        Start owner \<Rightarrow>
          if current = owner then Inr (idempotent r)
          else bindE (validate_recovery_owner current owner) (\<lambda>_. changed r (Executing attempt owner))
      | PrepareCommit owner transaction \<Rightarrow>
          bindE (validate_current_owner current owner) (\<lambda>_.
          changed r (CommitPrepared attempt owner transaction))
      | ReportKnownFailure owner failure \<Rightarrow>
          bindE (validate_current_owner current owner) (\<lambda>_.
          bindE (known_failure_state attempt (fence current) failure) (changed r))
      | CancelBeforeCommit owner cancellation \<Rightarrow>
          bindE (validate_current_owner current owner) (\<lambda>_. changed r (Cancelled cancellation))
      | _ \<Rightarrow> Inl (Err (illegal (state r) e)))"

definition reduce_prepared ::
  "command_record \<Rightarrow> u32 \<Rightarrow> execution_owner \<Rightarrow> transaction_ref \<Rightarrow> command_event
    \<Rightarrow> reduction reducer_result" where
  "reduce_prepared r attempt current prepared e =
     (case e of
        PrepareCommit owner transaction \<Rightarrow>
          bindE (validate_current_owner current owner) (\<lambda>_.
          bindE (validate_transaction prepared transaction) (\<lambda>_. Inr (idempotent r)))
      | ConfirmCommit owner transaction result \<Rightarrow>
          bindE (validate_current_owner current owner) (\<lambda>_.
          bindE (validate_transaction prepared transaction) (\<lambda>_.
          changed r (Succeeded transaction result Direct)))
      | ReportKnownFailure owner failure \<Rightarrow>
          bindE (validate_current_owner current owner) (\<lambda>_.
          bindE (known_failure_state attempt (fence current) failure) (changed r))
      | ReportUnknownCommit owner transaction unknown \<Rightarrow>
          bindE (validate_recovery_owner current owner) (\<lambda>_.
          bindE (validate_transaction prepared transaction) (\<lambda>_.
          changed r (AwaitingReconciliation attempt current owner transaction unknown 0 None)))
      | _ \<Rightarrow> Inl (Err (illegal (state r) e)))"

fun reconciled_state ::
  "reconciliation_progress \<Rightarrow> reconciliation_observation
    \<Rightarrow> (durable_command_state \<times> reduction_effect) reducer_result" where
  "reconciled_state p (Committed evidence result) =
     Inr (Succeeded (pr_transaction p) result (Reconciled evidence), StateChanged)"
| "reconciled_state p (NotCommitted evidence) =
     bindE (next_attempt (pr_attempt p)) (\<lambda>n.
     Inr (RetryReady n (fence (pr_recovery_owner p)) (ReconciledNotCommitted evidence), StateChanged))"
| "reconciled_state p (Indeterminate evidence) =
     bindE (ok_or (checked_add (pr_probe_count p) 1) AttemptOverflow) (\<lambda>n.
     Inr (AwaitingReconciliation (pr_attempt p) (pr_execution_owner p) (pr_recovery_owner p)
            (pr_transaction p) (pr_unknown p) n (Some evidence), ReconciliationStillRequired))"

definition apply_reconciliation ::
  "command_record \<Rightarrow> reconciliation_progress \<Rightarrow> reconciliation_observation
    \<Rightarrow> reduction reducer_result" where
  "apply_reconciliation r p observation =
     bindE (reconciled_state p observation) (\<lambda>(s, effect).
     bindE (changed r s) (\<lambda>red.
     bindE (expect (red_transition red)) (\<lambda>tr.
     Inr (red\<lparr>red_effect := effect, red_transition := Some (tr\<lparr>tr_effect := effect\<rparr>)\<rparr>))))"

definition reduce_awaiting_reconciliation ::
  "command_record \<Rightarrow> reconciliation_progress \<Rightarrow> command_event \<Rightarrow> reduction reducer_result" where
  "reduce_awaiting_reconciliation r p e =
     (case e of
        ReportUnknownCommit owner transaction unknown \<Rightarrow>
          bindE (validate_recovery_owner (pr_recovery_owner p) owner) (\<lambda>_.
          bindE (validate_transaction (pr_transaction p) transaction) (\<lambda>_.
          if pr_unknown p = unknown then Inr (idempotent r) else Inl (Err (illegal (state r) e))))
      | ObserveReconciliation owner transaction observation \<Rightarrow>
          bindE (validate_recovery_owner (pr_recovery_owner p) owner) (\<lambda>_.
          bindE (validate_transaction (pr_transaction p) transaction) (\<lambda>_.
          apply_reconciliation r (p\<lparr>pr_recovery_owner := owner\<rparr>) observation))
      | _ \<Rightarrow> Inl (Err (illegal (state r) e)))"

definition reduce_state :: "command_record \<Rightarrow> command_event \<Rightarrow> reduction reducer_result" where
  "reduce_state r e =
     (case state r of
        Admitted attempt \<Rightarrow> reduce_admitted r attempt e
      | Executing attempt owner \<Rightarrow> reduce_executing r attempt owner e
      | CommitPrepared attempt owner transaction \<Rightarrow> reduce_prepared r attempt owner transaction e
      | AwaitingReconciliation attempt eo ro transaction unknown probes _ \<Rightarrow>
          reduce_awaiting_reconciliation r
            \<lparr>pr_attempt = attempt, pr_execution_owner = eo, pr_recovery_owner = ro,
             pr_transaction = transaction, pr_unknown = unknown, pr_probe_count = probes\<rparr> e
      | RetryReady attempt required_fence basis \<Rightarrow>
          reduce_retry_ready r attempt required_fence basis e
      | s \<Rightarrow> Inl (Err (illegal s e)))"

definition reduce ::
  "command_record \<Rightarrow> command_event \<Rightarrow> reduction_context \<Rightarrow> reduction reducer_result" where
  "reduce r e ctx =
     bindE (validate_result_kind (command r) e) (\<lambda>_.
     bindE (terminal_replay r e) (\<lambda>replay.
     case replay of
       Some red \<Rightarrow> Inr red
     | None \<Rightarrow>
         bindE (validate_reduction_context r e ctx) (\<lambda>_. reduce_state r e)))"

subsection \<open>The command protocol as a step relation\<close>

inductive command_step ::
  "fabric_command \<Rightarrow> durable_command_state \<Rightarrow> command_event \<Rightarrow> durable_command_state \<Rightarrow> bool"
  for c :: fabric_command where
  start_admitted:
    "fence_advances (writer_fence c) (fence w) \<Longrightarrow>
     command_step c (Admitted a) (Start w) (Executing a w)"
| cancel_admitted:
    "fence_advances (writer_fence c) (fence w) \<Longrightarrow>
     command_step c (Admitted a) (CancelBeforeCommit w x) (Cancelled x)"
| start_retry:
    "fence_advances required (fence w) \<Longrightarrow>
     command_step c (RetryReady a required b) (Start w) (Executing a w)"
| take_over:
    "owner_generation cur < owner_generation w \<Longrightarrow>
     command_step c (Executing a cur) (Start w) (Executing a w)"
| prepare:
    "command_step c (Executing a w) (PrepareCommit w t) (CommitPrepared a w t)"
| fail_executing:
    "fail_class f = Permanent \<Longrightarrow>
     command_step c (Executing a w) (ReportKnownFailure w f) (Failed f)"
| retry_executing:
    "fail_class f = RetryableBeforeCommit \<Longrightarrow> checked_add a 1 = Some a' \<Longrightarrow>
     command_step c (Executing a w) (ReportKnownFailure w f) (RetryReady a' (fence w) (KnownFailure f))"
| cancel_executing:
    "command_step c (Executing a w) (CancelBeforeCommit w x) (Cancelled x)"
| confirm:
    "command_kind_of c = result_kind res \<Longrightarrow>
     command_step c (CommitPrepared a w t) (ConfirmCommit w t res) (Succeeded t res Direct)"
| fail_prepared:
    "fail_class f = Permanent \<Longrightarrow>
     command_step c (CommitPrepared a w t) (ReportKnownFailure w f) (Failed f)"
| retry_prepared:
    "fail_class f = RetryableBeforeCommit \<Longrightarrow> checked_add a 1 = Some a' \<Longrightarrow>
     command_step c (CommitPrepared a w t) (ReportKnownFailure w f)
       (RetryReady a' (fence w) (KnownFailure f))"
| unknown_prepared:
    "owner_advances w ro \<Longrightarrow>
     command_step c (CommitPrepared a w t) (ReportUnknownCommit ro t u)
       (AwaitingReconciliation a w ro t u 0 None)"
| reconciled_committed:
    "owner_advances ro w \<Longrightarrow> command_kind_of c = result_kind res \<Longrightarrow>
     command_step c (AwaitingReconciliation a eo ro t u p le)
       (ObserveReconciliation w t (Committed ev res)) (Succeeded t res (Reconciled ev))"
| reconciled_not_committed:
    "owner_advances ro w \<Longrightarrow> checked_add a 1 = Some a' \<Longrightarrow>
     command_step c (AwaitingReconciliation a eo ro t u p le)
       (ObserveReconciliation w t (NotCommitted ev))
       (RetryReady a' (fence w) (ReconciledNotCommitted ev))"
| reconciled_indeterminate:
    "owner_advances ro w \<Longrightarrow> checked_add p 1 = Some p' \<Longrightarrow>
     command_step c (AwaitingReconciliation a eo ro t u p le)
       (ObserveReconciliation w t (Indeterminate ev))
       (AwaitingReconciliation a eo w t u p' (Some ev))"

inductive_cases step_from_admitted: "command_step c (Admitted a) e s'"
inductive_cases step_from_executing: "command_step c (Executing a w) e s'"
inductive_cases step_from_prepared: "command_step c (CommitPrepared a w t) e s'"
inductive_cases step_from_awaiting: "command_step c (AwaitingReconciliation a eo ro t u p le) e s'"
inductive_cases step_from_retry: "command_step c (RetryReady a required b) e s'"
inductive_cases step_from_succeeded: "command_step c (Succeeded t res conf) e s'"
inductive_cases step_from_failed: "command_step c (Failed f) e s'"
inductive_cases step_from_cancelled: "command_step c (Cancelled x) e s'"

lemmas command_step_elims =
  step_from_admitted step_from_executing step_from_prepared step_from_awaiting step_from_retry
  step_from_succeeded step_from_failed step_from_cancelled

definition context_current :: "command_record \<Rightarrow> command_event \<Rightarrow> reduction_context \<Rightarrow> bool" where
  "context_current r e ctx \<longleftrightarrow>
     fence (event_owner e) = ctx_active_fence ctx
     \<and> (reads_head e \<longrightarrow> ctx_current_head ctx = cmd_expected_head (command r))"

fun step_effect :: "command_event \<Rightarrow> reduction_effect" where
  "step_effect (ObserveReconciliation _ _ (Indeterminate _)) = ReconciliationStillRequired"
| "step_effect _ = StateChanged"

definition advanced :: "command_record \<Rightarrow> durable_command_state \<Rightarrow> command_record" where
  "advanced r s = r\<lparr>revision := revision r + 1, state := s\<rparr>"

definition reduction_to ::
  "command_record \<Rightarrow> reduction_effect \<Rightarrow> durable_command_state \<Rightarrow> reduction" where
  "reduction_to r eff s =
     \<lparr>red_record = advanced r s, red_effect = eff,
      red_transition = Some \<lparr>predecessor = r, successor = advanced r s, tr_effect = eff\<rparr>\<rparr>"

lemma advanced_simps [simp]:
  "command (advanced r s) = command r"
  "state (advanced r s) = s"
  "revision (advanced r s) = revision r + 1"
  by (simp_all add: advanced_def)

lemma advanced_inject [simp]: "advanced r s = advanced r s' \<longleftrightarrow> s = s'"
  by (metis advanced_simps(2))

lemma reduction_to_simps [simp]:
  "red_record (reduction_to r eff s) = advanced r s"
  "red_effect (reduction_to r eff s) = eff"
  "red_transition (reduction_to r eff s)
     = Some \<lparr>predecessor = r, successor = advanced r s, tr_effect = eff\<rparr>"
  by (simp_all add: reduction_to_def)

lemma reduction_to_inject [simp]: "reduction_to r eff s = reduction_to r eff s' \<longleftrightarrow> s = s'"
  by (metis advanced_inject reduction_to_simps(1))

lemma idempotent_simps [simp]:
  "red_record (idempotent r) = r"
  "red_effect (idempotent r) = IdempotentReplay"
  "red_transition (idempotent r) = None"
  by (simp_all add: idempotent_def)

definition revision_room :: "command_record \<Rightarrow> bool" where
  "revision_room r \<longleftrightarrow> unat (revision r) + 1 < 2 ^ 64"

lemma validate_new_or_recovery_owner_advances:
  "validate_new_or_recovery_owner required w
    = ensure (fence_advances required (fence w)) RecoveryFenceNotAdvanced"
  by (simp add: validate_new_or_recovery_owner_def fence_advances_def)

lemma validate_recovery_owner_advances:
  "validate_recovery_owner cur w = ensure (owner_advances cur w) RecoveryFenceNotAdvanced"
  by (simp add: validate_recovery_owner_def owner_advances_def eq_commute [of cur w])

lemma changed_eq:
  "changed r s = (if revision_room r then Inr (reduction_to r StateChanged s)
     else Inl (Err RevisionOverflow))"
  by (simp add: changed_def checked_add_def advanced_def reduction_to_def revision_room_def Let_def)

lemma known_failure_state_eq:
  "known_failure_state a req f =
     (if fail_class f = Permanent then Inr (Failed f)
      else bindE (next_attempt a) (\<lambda>n. Inr (RetryReady n req (KnownFailure f))))"
  by (simp add: known_failure_state_def failure_retry_classification_def split: failure_class.split)

lemmas reducer_defs =
  validate_new_or_recovery_owner_advances validate_recovery_owner_advances
  validate_current_owner_def validate_transaction_def next_attempt_def changed_eq
  known_failure_state_eq

lemma apply_reconciliation_eq:
  "apply_reconciliation r p obs =
     bindE (reconciled_state p obs) (\<lambda>(s, eff).
       if revision_room r then Inr (reduction_to r eff s) else Inl (Err RevisionOverflow))"
  by (auto simp: apply_reconciliation_def changed_eq reduction_to_def bindE_def
      split: sum.split intro!: ext)

lemma reconciled_state_effect: "reconciled_state p obs = Inr (s, eff) \<Longrightarrow> eff \<noteq> IdempotentReplay"
  by (cases obs) auto

lemmas handler_defs =
  reduce_admitted_def reduce_executing_def reduce_prepared_def reduce_awaiting_reconciliation_def
  reduce_retry_ready_def apply_reconciliation_eq

lemma panics_changed [simp]: "\<not> panics (changed r s)"
  by (simp add: changed_eq)

lemma panics_known_failure_state [simp]: "\<not> panics (known_failure_state a req f)"
  by (simp add: known_failure_state_eq next_attempt_def)

lemma panics_apply_reconciliation [simp]: "\<not> panics (apply_reconciliation r p obs)"
  by (cases obs) (auto simp: apply_reconciliation_eq next_attempt_def)

lemma reduce_state_never_panics: "\<not> panics (reduce_state r e)"
  by (auto simp: reduce_state_def reduce_admitted_def reduce_executing_def reduce_prepared_def
      reduce_awaiting_reconciliation_def reduce_retry_ready_def validate_new_or_recovery_owner_def
      validate_recovery_owner_def validate_current_owner_def validate_transaction_def
      split: durable_command_state.splits command_event.splits)

lemma terminal_replay_eq:
  "terminal_replay r e =
     (if \<not> is_terminal (state r) then Inr None
      else if (case (state r, e) of
           (Succeeded committed current _, ConfirmCommit _ transaction result) \<Rightarrow>
             committed = transaction \<and> current = result
         | (Succeeded committed current _, ObserveReconciliation _ transaction (Committed _ result)) \<Rightarrow>
             committed = transaction \<and> current = result
         | (Failed current, ReportKnownFailure _ failure) \<Rightarrow> current = failure
         | (Cancelled current, CancelBeforeCommit _ cancellation) \<Rightarrow> current = cancellation
         | _ \<Rightarrow> False)
      then Inr (Some (idempotent r)) else Inl (Err TerminalConflict))"
  by (cases "state r"; cases e)
    (simp_all add: terminal_replay_def split: reconciliation_observation.split bool.split)


lemma reduce_never_panics_raw: "\<not> panics (reduce r e ctx)"
  by (auto simp: reduce_def validate_result_kind_def validate_reduction_context_def
      terminal_replay_eq reduce_state_never_panics split: option.splits if_splits)

lemma reduce_state_changed_iff:
  "reduce_state r e = Inr red \<and> red_effect red \<noteq> IdempotentReplay \<and>
     validate_result_kind (command r) e = Inr () \<longleftrightarrow>
   (\<exists>s. command_step (command r) (state r) e s \<and> revision_room r \<and>
        red = reduction_to r (step_effect e) s)"
  (is "?L \<longleftrightarrow> ?R")
proof
  assume L: ?L
  show ?R
  proof (cases e)
    case (ObserveReconciliation w t obs)
    with L show ?thesis
      by (cases "state r"; cases obs)
        (auto simp: reduce_state_def handler_defs reducer_defs validate_result_kind_def
          intro: command_step.intros split: if_splits)
  qed (use L in \<open>cases "state r"; force simp: reduce_state_def handler_defs reducer_defs
        validate_result_kind_def owner_advances_def not_permanent_iff
        intro: command_step.intros split: if_splits\<close>)+
next
  assume ?R
  then show ?L
    by (auto elim!: command_step.cases simp: reduce_state_def handler_defs reducer_defs
        validate_result_kind_def owner_advances_def)
qed


lemma command_step_not_terminal: "command_step c s e s' \<Longrightarrow> \<not> is_terminal s"
  by (auto elim: command_step.cases)

lemma command_step_result_kind: "command_step c s e s' \<Longrightarrow> validate_result_kind c e = Inr ()"
  by (auto elim!: command_step.cases simp: validate_result_kind_def)

lemma validate_reduction_context_iff:
  "validate_reduction_context r e ctx = Inr u \<longleftrightarrow> context_current r e ctx"
  by (auto simp: validate_reduction_context_def context_current_def)

lemma reduce_effect_cases:
  assumes "reduce r e ctx = Inr red"
  obtains (replay) "red = idempotent r"
    | (step) s where "command_step (command r) (state r) e s" "context_current r e ctx"
        "revision_room r" "red = reduction_to r (step_effect e) s"
proof (cases "is_terminal (state r)")
  case True
  with assms have "red = idempotent r"
    by (auto simp: reduce_def terminal_replay_eq split: if_splits)
  then show thesis by (rule replay)
next
  case False
  with assms have kind: "validate_result_kind (command r) e = Inr ()"
    and ctx: "context_current r e ctx" and red: "reduce_state r e = Inr red"
    by (auto simp: reduce_def terminal_replay_eq validate_reduction_context_iff)
  show thesis
  proof (cases "red_effect red = IdempotentReplay")
    case True
    with red have "red = idempotent r"
      by (cases "state r"; cases e)
        (auto simp: reduce_state_def handler_defs reducer_defs split: if_splits
          dest: reconciled_state_effect)
    then show thesis by (rule replay)
  next
    case False
    with red kind obtain s where "command_step (command r) (state r) e s" "revision_room r"
      "red = reduction_to r (step_effect e) s"
      using reduce_state_changed_iff [of r e red] by blast
    with ctx show thesis by (intro step)
  qed
qed

lemma reduce_step:
  assumes "command_step (command r) (state r) e s" "context_current r e ctx" "revision_room r"
  shows "reduce r e ctx = Inr (reduction_to r (step_effect e) s)"
proof -
  have "reduce_state r e = Inr (reduction_to r (step_effect e) s)"
    using reduce_state_changed_iff [of r e "reduction_to r (step_effect e) s"] assms by blast
  with assms show ?thesis
    by (simp add: reduce_def terminal_replay_eq command_step_not_terminal
        command_step_result_kind validate_reduction_context_iff [THEN iffD2])
qed


subsection \<open>The protocol keeps the persisted invariants\<close>

lemma fence_advances_owner:
  "fence_advances f (fence a) \<Longrightarrow> owner_advances a b \<Longrightarrow> fence_advances f (fence b)"
  by (blast intro: fence_advances_trans owner_advances_fence)

lemma owner_advances_newer: "owner_generation a < owner_generation b \<Longrightarrow> owner_advances a b"
  by (simp add: owner_advances_def)

lemma command_step_state_ok:
  "command_step c s e s' \<Longrightarrow> state_ok c n s \<Longrightarrow> state_ok c (n + 1) s'"
  by (induction rule: command_step.induct)
    (auto simp: checked_add_Some_iff split: retry_basis.splits
      intro: fence_advances_trans owner_advances_trans fence_advances_owner owner_advances_newer)

lemma reduce_record_ok:
  assumes "record_ok r" "reduce r e ctx = Inr red"
  shows "record_ok (red_record red)"
  using assms(2)
proof (cases rule: reduce_effect_cases)
  case replay
  with assms(1) show ?thesis by simp
next
  case (step s)
  then have "unat (revision r + 1) = unat (revision r) + 1"
    by (simp add: revision_room_def unat_word_ariths)
  with step assms(1) show ?thesis
    by (auto simp: record_ok_def dest: command_step_state_ok)
qed


subsection \<open>Runs of the reducer\<close>

text \<open>
  A record is reachable when a fresh admission created it or the reducer produced it from a
  reachable record, whatever events and contexts were presented.
\<close>

inductive reachable :: "command_record \<Rightarrow> bool" where
  admitted: "admit None c ctx = Inr (New r) \<Longrightarrow> reachable r"
| reduced: "reachable r \<Longrightarrow> reduce r e ctx = Inr red \<Longrightarrow> reachable (red_record red)"

lemma admit_New_iff:
  "admit existing c ctx = Inr (New r) \<longleftrightarrow>
     existing = None \<and> r = admitted_record c
     \<and> adm_workspace_id ctx = own_workspace_id (ownership c)
     \<and> adm_authorization ctx = Authorized (own_authorization (ownership c))
     \<and> adm_current_head ctx = cmd_expected_head c
     \<and> adm_active_fence ctx = writer_fence c"
  by (auto simp: admit_def split: option.splits authorization_decision.splits if_splits)

lemma admitted_record_ok: "record_ok (admitted_record c)"
  by (simp add: record_ok_def admitted_record_def)

lemma reachable_record_ok: "reachable r \<Longrightarrow> record_ok r"
  by (induction rule: reachable.induct)
    (auto simp: admit_New_iff admitted_record_ok intro: reduce_record_ok)

subsection \<open>Prepared transactions\<close>

fun pending_transaction :: "durable_command_state \<Rightarrow> transaction_ref option" where
  "pending_transaction (CommitPrepared _ _ t) = Some t"
| "pending_transaction (AwaitingReconciliation _ _ _ t _ _ _) = Some t"
| "pending_transaction _ = None"

fun proves_not_committed :: "transaction_ref \<Rightarrow> command_event \<Rightarrow> bool" where
  "proves_not_committed t (ReportKnownFailure _ _) = True"
| "proves_not_committed t (ObserveReconciliation _ t' (NotCommitted _)) \<longleftrightarrow> t' = t"
| "proves_not_committed t _ = False"

fun proves_committed :: "transaction_ref \<Rightarrow> command_event \<Rightarrow> bool" where
  "proves_committed t (ConfirmCommit _ t' _) \<longleftrightarrow> t' = t"
| "proves_committed t (ObserveReconciliation _ t' (Committed _ _)) \<longleftrightarrow> t' = t"
| "proves_committed t _ = False"

lemma pending_step:
  assumes "command_step c s e s'" "pending_transaction s = Some t"
  shows "pending_transaction s' = Some t
       \<or> proves_committed t e \<and> (\<exists>res conf. s' = Succeeded t res conf)
       \<or> proves_not_committed t e \<and> (state_kind s' = KRetryReady \<or> state_kind s' = KFailed)"
  using assms by (auto elim!: command_step.cases)


subsection \<open>Delivering a sequence of events\<close>

text \<open>
  The adapters feed one observation after another; a rejected observation leaves the durable
  record as it was.
\<close>

definition deliver :: "command_record \<Rightarrow> command_event \<times> reduction_context \<Rightarrow> command_record" where
  "deliver r ec = (case reduce r (fst ec) (snd ec) of Inr red \<Rightarrow> red_record red | Inl _ \<Rightarrow> r)"

definition deliver_all ::
  "command_record \<Rightarrow> (command_event \<times> reduction_context) list \<Rightarrow> command_record" where
  "deliver_all = foldl deliver"

lemma deliver_all_simps [simp]:
  "deliver_all r [] = r"
  "deliver_all r (ec # ecs) = deliver_all (deliver r ec) ecs"
  "deliver_all r (ecs @ [ec]) = deliver (deliver_all r ecs) ec"
  by (simp_all add: deliver_all_def)

lemma deliver_cases:
  obtains (same) "deliver r ec = r"
    | (step) s where "command_step (command r) (state r) (fst ec) s"
        "context_current r (fst ec) (snd ec)" "revision_room r" "deliver r ec = advanced r s"
proof (cases "reduce r (fst ec) (snd ec)")
  case (Inl f)
  then show thesis by (simp add: deliver_def same)
next
  case (Inr red)
  then show thesis
  proof (cases rule: reduce_effect_cases)
    case replay
    with Inr show thesis by (intro same) (simp add: deliver_def)
  next
    case (step s)
    with Inr show thesis by (intro that(2) [of s]) (simp_all add: deliver_def)
  qed
qed

lemma command_deliver [simp]: "command (deliver r ec) = command r"
  by (cases rule: deliver_cases [of r ec]) simp_all

lemma command_deliver_all [simp]: "command (deliver_all r ecs) = command r"
  by (induction ecs arbitrary: r) simp_all

lemma deliver_all_invariant:
  assumes "P (state r)"
    and "\<And>s e s'. P s \<Longrightarrow> e \<in> fst ` set ecs \<Longrightarrow> command_step (command r) s e s' \<Longrightarrow> P s'"
  shows "P (state (deliver_all r ecs))"
  using assms
proof (induction ecs arbitrary: r)
  case Nil
  then show ?case by simp
next
  case (Cons ec ecs)
  have "P (state (deliver r ec))"
  proof (cases rule: deliver_cases [of r ec])
    case same
    with Cons.prems(1) show ?thesis by simp
  next
    case (step s)
    have "P s"
      by (rule Cons.prems(2) [OF Cons.prems(1) _ step(1)]) simp
    with step(4) show ?thesis by simp
  qed
  then have "P (state (deliver_all (deliver r ec) ecs))"
  proof (rule Cons.IH)
    fix s e s'
    assume "P s" "e \<in> fst ` set ecs" "command_step (command (deliver r ec)) s e s'"
    then show "P s'" by (intro Cons.prems(2) [of s e s']) simp_all
  qed
  then show ?case by simp
qed

subsection \<open>Writer authority\<close>

fun authority :: "fabric_command \<Rightarrow> durable_command_state \<Rightarrow> writer_fence option" where
  "authority c (Admitted _) = Some (writer_fence c)"
| "authority c (Executing _ w) = Some (fence w)"
| "authority c (CommitPrepared _ w _) = Some (fence w)"
| "authority c (AwaitingReconciliation _ _ ro _ _ _ _) = Some (fence ro)"
| "authority c (RetryReady _ required _) = Some required"
| "authority c _ = None"

lemma authority_step:
  assumes "command_step c s e s'" "authority c s = Some f"
  shows "fence_advances f (fence (event_owner e))
    \<and> (\<forall>f'. authority c s' = Some f' \<longrightarrow> f' = fence (event_owner e))"
  using assms
  by (auto elim!: command_step.cases intro: owner_advances_fence
      owner_advances_fence [OF owner_advances_newer])

lemma authority_terminal: "authority c s = None \<longleftrightarrow> is_terminal s"
  by (cases s) simp_all

lemma authority_deliver:
  assumes "authority (command r) (state r) = Some f"
    "authority (command r) (state (deliver r ec)) = Some f'"
  shows "fence_advances f f'"
proof (cases rule: deliver_cases [of r ec])
  case same
  with assms show ?thesis by simp
next
  case (step s)
  with assms authority_step [OF step(1) assms(1)] show ?thesis by auto
qed

lemma deliver_terminal: "is_terminal (state r) \<Longrightarrow> deliver r ec = r"
  by (cases rule: deliver_cases [of r ec]) (auto dest: command_step_not_terminal)

lemma deliver_all_terminal: "is_terminal (state r) \<Longrightarrow> deliver_all r ecs = r"
  by (induction ecs) (simp_all add: deliver_terminal)

lemma authority_deliver_all:
  assumes "authority (command r) (state r) = Some f"
    "authority (command r) (state (deliver_all r ecs)) = Some f'"
  shows "fence_advances f f'"
  using assms
proof (induction ecs arbitrary: r f)
  case Nil
  then show ?case by simp
next
  case (Cons ec ecs)
  show ?case
  proof (cases "authority (command r) (state (deliver r ec))")
    case None
    then have "deliver_all r (ec # ecs) = deliver r ec"
      by (simp add: authority_terminal deliver_all_terminal)
    with None Cons.prems show ?thesis by simp
  next
    case (Some g)
    with Cons.prems have "fence_advances f g"
      by (blast intro: authority_deliver)
    moreover have "fence_advances g f'"
      using Cons.IH [of "deliver r ec" g] Some Cons.prems(2) by simp
    ultimately show ?thesis by (rule fence_advances_trans)
  qed
qed

subsection \<open>Where a successful answer comes from\<close>

definition commit_evidence ::
  "command_event set \<Rightarrow> transaction_ref \<Rightarrow> command_result \<Rightarrow> commit_confirmation \<Rightarrow> bool" where
  "commit_evidence E t res conf \<longleftrightarrow>
     (case conf of
        Direct \<Rightarrow> \<exists>w. ConfirmCommit w t res \<in> E
      | Reconciled ev \<Rightarrow> \<exists>w. ObserveReconciliation w t (Committed ev res) \<in> E)"

fun accounted :: "command_event set \<Rightarrow> durable_command_state \<Rightarrow> bool" where
  "accounted E (CommitPrepared _ w t) \<longleftrightarrow> PrepareCommit w t \<in> E"
| "accounted E (AwaitingReconciliation _ eo _ t _ _ _) \<longleftrightarrow> PrepareCommit eo t \<in> E"
| "accounted E (Succeeded t res conf) \<longleftrightarrow>
     (\<exists>w. PrepareCommit w t \<in> E) \<and> commit_evidence E t res conf"
| "accounted E _ \<longleftrightarrow> True"

lemma accounted_step:
  "command_step c s e s' \<Longrightarrow> accounted E s \<Longrightarrow> e \<in> E \<Longrightarrow> accounted E s'"
  by (auto elim!: command_step.cases simp: commit_evidence_def)

lemma accounted_deliver_all:
  "accounted (fst ` set ecs) (state (deliver_all (admitted_record c) ecs))"
  by (rule deliver_all_invariant) (auto simp: admitted_record_def intro: accounted_step)

subsection \<open>Redelivery\<close>

fun repeatable :: "command_event \<Rightarrow> bool" where
  "repeatable (ObserveReconciliation _ _ (NotCommitted _)) = False"
| "repeatable (ObserveReconciliation _ _ (Indeterminate _)) = False"
| "repeatable _ = True"

lemma reduce_active:
  assumes "\<not> is_terminal (state r)" "validate_result_kind (command r) e = Inr ()"
    "context_current r e ctx"
  shows "reduce r e ctx = reduce_state r e"
proof -
  have "validate_reduction_context r e ctx = Inr ()"
    using assms(3) by (simp add: validate_reduction_context_iff)
  with assms(1,2) show ?thesis
    by (simp add: reduce_def terminal_replay_eq)
qed

lemma redelivered_active:
  assumes "command_step c s e s'" "repeatable e" "\<not> is_terminal s'" "command r = c" "state r = s'"
  shows "reduce_state r e = Inr (idempotent r)"
  using assms by (cases rule: command_step.cases)
    (simp_all add: reduce_state_def handler_defs reducer_defs)

lemma redelivered_terminal:
  assumes "command_step c s e s'" "is_terminal s'" "state r = s'"
  shows "terminal_replay r e = Inr (Some (idempotent r))"
  using assms by (cases rule: command_step.cases) (simp_all add: terminal_replay_eq)

lemma redelivered_idempotent:
  assumes step: "command_step (command r) (state r) e s" and ctx: "context_current r e ctx"
    and rep: "repeatable e"
  shows "reduce (advanced r s) e ctx = Inr (idempotent (advanced r s))"
proof (cases "is_terminal s")
  case True
  with redelivered_terminal [OF step] command_step_result_kind [OF step] show ?thesis
    by (simp add: reduce_def)
next
  case False
  have "context_current (advanced r s) e ctx"
    using ctx by (simp add: context_current_def)
  with False command_step_result_kind [OF step] redelivered_active [OF step rep False]
  show ?thesis
    by (simp add: reduce_active)
qed

fun conclusive :: "transaction_ref \<Rightarrow> command_event \<Rightarrow> bool" where
  "conclusive t (ObserveReconciliation _ t' (Committed _ _)) \<longleftrightarrow> t' = t"
| "conclusive t (ObserveReconciliation _ t' (NotCommitted _)) \<longleftrightarrow> t' = t"
| "conclusive t _ \<longleftrightarrow> False"


subsection \<open>A concrete command\<close>

text \<open>A small activation command on which the statements below are exercised.\<close>

definition example_fence :: "u64 \<Rightarrow> writer_fence" where
  "example_fence n = \<lparr>lease_id = LeaseId 7, generation = WriterGeneration (nz n)\<rparr>"

definition example_owner :: "u64 \<Rightarrow> execution_owner" where
  "example_owner n = \<lparr>actor_id = ActorId 3, fence = example_fence n\<rparr>"

definition example_command :: fabric_command where
  "example_command =
     \<lparr>identity = \<lparr>operation_id = OperationId 1, idempotency_key = IdempotencyKey 2\<rparr>,
      ownership = \<lparr>own_workspace_id = WorkspaceId 3, principal_id = PrincipalId 4,
                   own_authorization = AuthorizationRef 5\<rparr>,
      cmd_expected_head = Empty,
      writer_fence = example_fence 1,
      pins = \<lparr>input_release = InputReleaseRef 1, program_release = ProgramReleaseRef 2,
              application_release = ApplicationReleaseRef 3, source_authority = SourceAuthorityRef 4,
              source_generation = SourceGeneration 0, provider_release = ProviderReleaseRef 5,
              provider_set = ProviderSetRef 6\<rparr>,
      resources = ResourceEnvelopeRef 8,
      payload = ActivateEpoch (EpochId 9) (ProofReceiptRef 10)\<rparr>"

definition example_context :: "u64 \<Rightarrow> reduction_context" where
  "example_context n = \<lparr>ctx_current_head = Empty, ctx_active_fence = example_fence n\<rparr>"

definition example_admission :: admission_context where
  "example_admission =
     \<lparr>adm_workspace_id = WorkspaceId 3, adm_current_head = Empty,
      adm_active_fence = example_fence 1, adm_authorization = Authorized (AuthorizationRef 5)\<rparr>"

definition example_result :: command_result where
  "example_result = EpochActivated (EpochId 9) (OperationSelectionRef 11)"

definition example_unknown :: unknown_commit where
  "example_unknown = \<lparr>reason = Timeout, unknown_diagnostic = DiagnosticRef 12\<rparr>"

definition example_events :: "(command_event \<times> reduction_context) list" where
  "example_events =
     [(Start (example_owner 1), example_context 1),
      (PrepareCommit (example_owner 1) (TransactionRef 13), example_context 1),
      (ReportUnknownCommit (example_owner 1) (TransactionRef 13) example_unknown, example_context 1),
      (ObserveReconciliation (example_owner 2) (TransactionRef 13)
         (Indeterminate (ReconciliationEvidenceRef 14)), example_context 2),
      (ObserveReconciliation (example_owner 2) (TransactionRef 13)
         (Committed (ReconciliationEvidenceRef 15) example_result), example_context 2)]"

lemmas example_defs =
  example_fence_def example_owner_def example_command_def example_context_def
  example_admission_def example_result_def example_unknown_def

lemmas reduce_evaluation =
  reduce_def validate_result_kind_def terminal_replay_def validate_reduction_context_def
  reduce_state_def reduce_admitted_def reduce_executing_def reduce_prepared_def
  reduce_awaiting_reconciliation_def reduce_retry_ready_def apply_reconciliation_def
  validate_new_or_recovery_owner_def validate_recovery_owner_def validate_current_owner_def
  validate_transaction_def next_attempt_def changed_def known_failure_state_def
  failure_retry_classification_def idempotent_def checked_add_def command_kind_of_def Let_def

abbreviation example_awaiting :: "u32 \<Rightarrow> u64 \<Rightarrow> reconciliation_evidence_ref option \<Rightarrow> durable_command_state" where
  "example_awaiting probes n ev \<equiv>
     AwaitingReconciliation 1 (example_owner 1) (example_owner n) (TransactionRef 13)
       example_unknown probes ev"

lemma example_run:
  "deliver_all (admitted_record example_command) (take 1 example_events)
     = \<lparr>command = example_command, state = Executing 1 (example_owner 1), revision = 1\<rparr>"
  "deliver_all (admitted_record example_command) (take 2 example_events)
     = \<lparr>command = example_command,
        state = CommitPrepared 1 (example_owner 1) (TransactionRef 13), revision = 2\<rparr>"
  "deliver_all (admitted_record example_command) (take 3 example_events)
     = \<lparr>command = example_command, state = example_awaiting 0 1 None, revision = 3\<rparr>"
  "deliver_all (admitted_record example_command) (take 4 example_events)
     = \<lparr>command = example_command,
        state = example_awaiting 1 2 (Some (ReconciliationEvidenceRef 14)), revision = 4\<rparr>"
  "deliver_all (admitted_record example_command) example_events
     = \<lparr>command = example_command,
        state = Succeeded (TransactionRef 13) example_result
                  (Reconciled (ReconciliationEvidenceRef 15)), revision = 5\<rparr>"
  by (simp_all add: example_events_def example_defs admitted_record_def deliver_def reduce_evaluation)


subsection \<open>Properties of the reducer\<close>

text \<open>
  C1.  The reducer implements the command protocol exactly: it changes a record precisely when
  the presented context is current, the revision counter has room and the protocol relation
  allows the step; the successor carries the state of that step and the next revision, and the
  emitted transition binds exactly this predecessor and successor.
\<close>

theorem reduce_refines_protocol:
  "reduce r e ctx = Inr red \<and> red_effect red \<noteq> IdempotentReplay \<longleftrightarrow>
   (\<exists>s. command_step (command r) (state r) e s \<and> context_current r e ctx \<and> revision_room r
      \<and> red = reduction_to r (step_effect e) s)"
proof
  assume L: "reduce r e ctx = Inr red \<and> red_effect red \<noteq> IdempotentReplay"
  then have "reduce r e ctx = Inr red" ..
  then show "\<exists>s. command_step (command r) (state r) e s \<and> context_current r e ctx
      \<and> revision_room r \<and> red = reduction_to r (step_effect e) s"
    by (cases rule: reduce_effect_cases) (use L in auto)
next
  have "step_effect e \<noteq> IdempotentReplay"
    by (cases e rule: step_effect.cases) simp_all
  moreover assume "\<exists>s. command_step (command r) (state r) e s \<and> context_current r e ctx
      \<and> revision_room r \<and> red = reduction_to r (step_effect e) s"
  ultimately show "reduce r e ctx = Inr red \<and> red_effect red \<noteq> IdempotentReplay"
    by (auto simp: reduce_step)
qed

text \<open>
  No reduction panics: the \<open>unreachable!\<close> of the known-failure branch, the \<open>expect\<close> of the
  reconciliation branch and every counter increment are safe on all inputs.
\<close>

theorem reduce_never_panics: "\<not> panics (reduce r e ctx)"
  by (rule reduce_never_panics_raw)

text \<open>
  C2.  Every record that admission and reduction can produce passes the check that the journal
  applies to a deserialized record, so a restart never rejects a record the reducer wrote.
\<close>

theorem reachable_records_validate:
  assumes "reachable r"
  shows "validate_persisted_invariants r = Inr ()"
  using reachable_record_ok [OF assms] by (simp add: validate_persisted_invariants_iff)

theorem reachable_records_validate_witness:
  "reachable (admitted_record example_command)
   \<and> validate_persisted_invariants (admitted_record example_command) = Inr ()"
proof -
  have "admit None example_command example_admission = Inr (New (admitted_record example_command))"
    by (simp add: admit_def example_defs)
  then have "reachable (admitted_record example_command)"
    by (rule reachable.admitted)
  with reachable_records_validate [OF this] show ?thesis by simp
qed

text \<open>
  A terminal answer is immutable: once a command succeeded, failed or was cancelled, no
  sequence of later observations changes its record.
\<close>

theorem terminal_answer_immutable:
  assumes "is_terminal (state r)"
  shows "deliver_all r ecs = r"
  by (rule deliver_all_terminal [OF assms])

theorem terminal_answer_immutable_witness:
  "let done = deliver_all (admitted_record example_command) example_events in
   is_terminal (state done) \<and> deliver_all done example_events = done"
  using terminal_answer_immutable
    [of "deliver_all (admitted_record example_command) example_events" example_events]
  by (simp add: example_run Let_def)

text \<open>
  C3.  A commit of unknown outcome is never retried blindly: while no observation proves the
  transaction committed or not committed, the record stays in reconciliation for that same
  transaction, attempt and execution owner, whatever else is delivered; only the recovery owner
  may move, and only to a newer writer generation.
\<close>

theorem unknown_commit_is_never_retried_blindly:
  assumes "state r = AwaitingReconciliation a eo ro t u p le"
    and "\<forall>ec \<in> set ecs. \<not> conclusive t (fst ec)"
  shows "\<exists>ro' p' le'. state (deliver_all r ecs) = AwaitingReconciliation a eo ro' t u p' le'
           \<and> owner_advances ro ro'"
proof (rule deliver_all_invariant)
  show "\<exists>ro' p' le'. state r = AwaitingReconciliation a eo ro' t u p' le' \<and> owner_advances ro ro'"
    using assms(1) by simp
next
  fix s e s'
  assume "\<exists>ro' p' le'. s = AwaitingReconciliation a eo ro' t u p' le' \<and> owner_advances ro ro'"
    and "e \<in> fst ` set ecs" and "command_step (command r) s e s'"
  with assms(2) show
    "\<exists>ro' p' le'. s' = AwaitingReconciliation a eo ro' t u p' le' \<and> owner_advances ro ro'"
    by (fastforce elim!: step_from_awaiting intro: owner_advances_trans)
qed

theorem unknown_commit_is_never_retried_blindly_witness:
  "let r = deliver_all (admitted_record example_command) (take 3 example_events);
       ecs = [(Start (example_owner 5), example_context 5), example_events ! 3] in
   state r = example_awaiting 0 1 None \<and>
   (\<exists>ro' p' le'. state (deliver_all r ecs) = AwaitingReconciliation 1 (example_owner 1) ro'
      (TransactionRef 13) example_unknown p' le' \<and> owner_advances (example_owner 1) ro')"
proof -
  let ?r = "deliver_all (admitted_record example_command) (take 3 example_events)"
  let ?ecs = "[(Start (example_owner 5), example_context 5), example_events ! 3]"
  have s: "state ?r = example_awaiting 0 1 None"
    by (simp only: example_run) simp
  have "\<forall>ec \<in> set ?ecs. \<not> conclusive (TransactionRef 13) (fst ec)"
    by (simp add: example_events_def)
  from unknown_commit_is_never_retried_blindly [OF s this] s show ?thesis
    by (simp add: Let_def)
qed

text \<open>
  C4.  A successful answer has evidence: from the fresh admission of a command, a record that
  reports success names a transaction for which \<open>PrepareCommit\<close> was delivered, and a matching
  confirmation or a reconciliation that observed exactly this result was delivered.
\<close>

theorem success_has_commit_evidence:
  assumes "state (deliver_all (admitted_record c) ecs) = Succeeded t res conf"
  shows "(\<exists>w. PrepareCommit w t \<in> fst ` set ecs) \<and> commit_evidence (fst ` set ecs) t res conf"
  using accounted_deliver_all [of ecs c] assms by simp

theorem success_has_commit_evidence_witness:
  "state (deliver_all (admitted_record example_command) example_events)
     = Succeeded (TransactionRef 13) example_result (Reconciled (ReconciliationEvidenceRef 15))
   \<and> commit_evidence (fst ` set example_events) (TransactionRef 13) example_result
       (Reconciled (ReconciliationEvidenceRef 15))"
proof -
  have s: "state (deliver_all (admitted_record example_command) example_events)
     = Succeeded (TransactionRef 13) example_result (Reconciled (ReconciliationEvidenceRef 15))"
    by (simp add: example_run)
  from success_has_commit_evidence [OF s] s show ?thesis by simp
qed

text \<open>
  C5.  A stale writer cannot move a command: an observation presented under a writer generation
  older than the one that currently owns the command never changes the record.
\<close>

theorem stale_writer_cannot_change_state:
  assumes "authority (command r) (state r) = Some f"
    and "owner_generation (event_owner e) < fence_generation f"
    and "reduce r e ctx = Inr red"
  shows "red = idempotent r"
  using assms(3)
proof (cases rule: reduce_effect_cases)
  case (step s)
  with authority_step [OF step(1) assms(1)] have "fence_advances f (fence (event_owner e))"
    by simp
  with assms(2) show ?thesis
    by (auto dest: fence_advances_generation)
qed

theorem stale_writer_cannot_change_state_witness:
  "let r = \<lparr>command = example_command,
            state = RetryReady 2 (example_fence 4)
              (KnownFailure \<lparr>code = BackendUnavailable, fail_class = RetryableBeforeCommit,
                             failure_diagnostic = DiagnosticRef 1\<rparr>), revision = 2\<rparr>;
       e = ReportKnownFailure (example_owner 1)
             \<lparr>code = BackendUnavailable, fail_class = RetryableBeforeCommit,
              failure_diagnostic = DiagnosticRef 1\<rparr> in
   owner_generation (event_owner e) < fence_generation (example_fence 4)
   \<and> reduce r e (example_context 1) = Inr (idempotent r)"
  (is "let r = ?r; e = ?e in _")
proof -
  have red: "reduce ?r ?e (example_context 1) = Inr (idempotent ?r)"
    by (simp add: reduce_evaluation example_defs)
  have "authority (command ?r) (state ?r) = Some (example_fence 4)"
    by simp
  moreover have "owner_generation (event_owner ?e) < fence_generation (example_fence 4)"
    by (simp add: example_defs)
  ultimately have "idempotent ?r = idempotent ?r"
    using red by (rule stale_writer_cannot_change_state)
  with red show ?thesis
    by (simp add: example_defs)
qed

text \<open>
  Writer authority never regresses: between any two points of a command's history the fence
  that owns it is the same one or has a strictly larger generation.
\<close>

theorem writer_authority_never_regresses:
  assumes "authority (command r) (state r) = Some f"
    and "authority (command r) (state (deliver_all r ecs)) = Some f'"
  shows "f' = f \<or> fence_generation f < fence_generation f'"
  using authority_deliver_all [OF assms] by (simp add: fence_advances_def)

theorem writer_authority_never_regresses_witness:
  "authority example_command (state (admitted_record example_command)) = Some (example_fence 1)
   \<and> authority example_command
       (state (deliver_all (admitted_record example_command) (take 4 example_events)))
     = Some (example_fence 2)
   \<and> (example_fence 2 = example_fence 1
      \<or> fence_generation (example_fence 1) < fence_generation (example_fence 2))"
proof -
  have a: "authority (command (admitted_record example_command))
      (state (admitted_record example_command)) = Some (example_fence 1)"
    by (simp add: admitted_record_def example_command_def)
  have b: "authority (command (admitted_record example_command))
      (state (deliver_all (admitted_record example_command) (take 4 example_events)))
      = Some (example_fence 2)"
    by (simp only: example_run) (simp add: example_owner_def)
  from writer_authority_never_regresses [OF a b] a b show ?thesis
    by (simp add: admitted_record_def)
qed

text \<open>
  Redelivery is idempotent: delivering an accepted observation a second time in the same
  context leaves the record alone, for every observation except a reconciliation probe that did
  not find the commit, which legitimately counts again.
\<close>

theorem redelivery_is_idempotent:
  assumes "reduce r e ctx = Inr red" and "repeatable e"
  shows "reduce (red_record red) e ctx = Inr (idempotent (red_record red))"
  using assms(1)
proof (cases rule: reduce_effect_cases)
  case replay
  with assms(1) show ?thesis by simp
next
  case (step s)
  with assms(2) show ?thesis by (simp add: redelivered_idempotent)
qed

theorem redelivery_is_idempotent_witness:
  "let e = Start (example_owner 1);
       r = \<lparr>command = example_command, state = Executing 1 (example_owner 1), revision = 1\<rparr> in
   reduce (admitted_record example_command) e (example_context 1)
     = Inr (reduction_to (admitted_record example_command) StateChanged (Executing 1 (example_owner 1)))
   \<and> reduce r e (example_context 1) = Inr (idempotent r)"
proof -
  have red: "reduce (admitted_record example_command) (Start (example_owner 1)) (example_context 1)
     = Inr (reduction_to (admitted_record example_command) StateChanged (Executing 1 (example_owner 1)))"
    by (simp add: reduce_evaluation example_defs admitted_record_def reduction_to_def advanced_def)
  from redelivery_is_idempotent [OF red] red show ?thesis
    by (simp add: advanced_def admitted_record_def Let_def)
qed

text \<open>
  C6.  Admission is exact: a new record is created only when no record holds either admission
  key and workspace, authorization, head and fence all match, and it starts at attempt one,
  revision zero; an existing record is returned only for the identical command.
\<close>

theorem admission_is_exact:
  "admit existing c ctx = Inr out \<longleftrightarrow>
     (case existing of
        Some r \<Rightarrow> command r = c \<and> out = Existing r
      | None \<Rightarrow>
          out = New \<lparr>command = c, state = Admitted 1, revision = 0\<rparr>
          \<and> adm_workspace_id ctx = own_workspace_id (ownership c)
          \<and> adm_authorization ctx = Authorized (own_authorization (ownership c))
          \<and> adm_current_head ctx = cmd_expected_head c
          \<and> adm_active_fence ctx = writer_fence c)"
  by (auto simp: admit_def admitted_record_def
      split: option.splits authorization_decision.splits if_splits)

end
