(* ===== verification/CommandPorts.thy ===== *)
theory CommandPorts
  imports CommandReducer
begin

text \<open>
  The ports of the command actor (\<open>src/fabric/command_actor.rs\<close>): the errors a port returns, the
  outcomes of its durable writes, and the contract of the durable command-record port, which the
  SQLite journal provides and the actor relies on.

  A port method is a field of a record, the way the trait declares it, and a state program over
  the state \<open>'s\<close> of its implementation.  The contract is the locale \<open>command_record_port\<close>.  It
  speaks of a port through an invariant of its state and the abstract \<^emph>\<open>view\<close> of its contents, a
  finite table from operation identities to records.
\<close>

datatype command_port_error =
  DurableStoreUnavailable | CorruptRecord | ContextUnavailable | EffectUnavailable

datatype durable_admission_write = Inserted command_record | ExistingWrite command_record

datatype durable_transition_write = Stored command_record | RevisionConflict "command_record option"

record 's durable_command_record_port =
  lookup_admission ::
    "operation_id \<Rightarrow> idempotency_key \<Rightarrow> ('s, command_port_error, command_record option) prog"
  lookup_operation :: "operation_id \<Rightarrow> ('s, command_port_error, command_record option) prog"
  insert_if_absent :: "command_record \<Rightarrow> ('s, command_port_error, durable_admission_write) prog"
  compare_and_swap :: "reducer_transition \<Rightarrow> ('s, command_port_error, durable_transition_write) prog"
  first_nonterminal :: "('s, command_port_error, command_record option) prog"

abbreviation record_operation :: "command_record \<Rightarrow> operation_id" where
  "record_operation r \<equiv> command_operation (command r)"

abbreviation record_key :: "command_record \<Rightarrow> idempotency_key" where
  "record_key r \<equiv> command_key (command r)"

type_synonym record_view = "operation_id \<Rightarrow> command_record option"

text \<open>
  What the view of a well-formed store satisfies: a record is filed under its own operation, it
  meets the persisted invariants, and no two records share an idempotency key.
\<close>

definition view_ok :: "record_view \<Rightarrow> bool" where
  "view_ok v \<longleftrightarrow>
     (\<forall>o' r. v o' = Some r \<longrightarrow> record_operation r = o' \<and> record_ok r) \<and>
     (\<forall>o1 o2 r1 r2. v o1 = Some r1 \<longrightarrow> v o2 = Some r2 \<longrightarrow> record_key r1 = record_key r2 \<longrightarrow> o1 = o2)"

definition admission_free :: "operation_id \<Rightarrow> idempotency_key \<Rightarrow> record_view \<Rightarrow> bool" where
  "admission_free opn key v \<longleftrightarrow> (\<forall>r \<in> ran v. record_operation r \<noteq> opn \<and> record_key r \<noteq> key)"

definition admission_match :: "operation_id \<Rightarrow> idempotency_key \<Rightarrow> command_record \<Rightarrow> bool" where
  "admission_match opn key r \<longleftrightarrow> record_operation r = opn \<or> record_key r = key"

definition all_terminal :: "record_view \<Rightarrow> bool" where
  "all_terminal v \<longleftrightarrow> (\<forall>r \<in> ran v. is_terminal (state r))"

lemma view_okD: "view_ok v \<Longrightarrow> v opn = Some r \<Longrightarrow> record_operation r = opn \<and> record_ok r"
  by (simp add: view_ok_def)

lemma view_ok_ranD: "view_ok v \<Longrightarrow> r \<in> ran v \<Longrightarrow> v (record_operation r) = Some r \<and> record_ok r"
  by (auto simp: view_ok_def ran_def)

lemma view_ok_empty [simp]: "view_ok (\<lambda>_. None)"
  by (simp add: view_ok_def)

text \<open>The contract of the durable command-record port.\<close>

locale command_record_port =
  fixes port :: "'s durable_command_record_port"
    and store_ok :: "'s \<Rightarrow> bool"
    and view :: "'s \<Rightarrow> record_view"
  assumes store_view: "store_ok s \<Longrightarrow> view_ok (view s)"
    and lookup_admission_law:
      "keeps (\<lambda>s. store_ok s \<and> view s = v) (lookup_admission port opn key)
         (\<lambda>x. case x of None \<Rightarrow> admission_free opn key v
                    | Some r \<Rightarrow> r \<in> ran v \<and> admission_match opn key r)"
    and lookup_operation_law:
      "keeps (\<lambda>s. store_ok s \<and> view s = v) (lookup_operation port opn) (\<lambda>x. x = v opn)"
    and insert_if_absent_law:
      "store_ok s \<Longrightarrow> wp (insert_if_absent port r)
         (\<lambda>res s'. store_ok s' \<and> \<not> panics res \<and>
            (case res of
               Inr (Inserted r') \<Rightarrow> r' = r \<and> revision r = 0 \<and>
                 admission_free (record_operation r) (record_key r) (view s) \<and>
                 view s' = (view s)(record_operation r \<mapsto> r)
             | Inr (ExistingWrite r') \<Rightarrow> view s' = view s \<and> r' \<in> ran (view s) \<and>
                 admission_match (record_operation r) (record_key r) r'
             | Inl _ \<Rightarrow> view s' = view s)) s"
    and compare_and_swap_law:
      "store_ok s \<Longrightarrow> wp (compare_and_swap port tr)
         (\<lambda>res s'. store_ok s' \<and> \<not> panics res \<and>
            (case res of
               Inr (Stored r') \<Rightarrow> r' = successor tr \<and>
                 view s (record_operation (predecessor tr)) = Some (predecessor tr) \<and>
                 command (successor tr) = command (predecessor tr) \<and>
                 unat (revision (successor tr)) = Suc (unat (revision (predecessor tr))) \<and>
                 view s' = (view s)(record_operation (predecessor tr) \<mapsto> successor tr)
             | Inr (RevisionConflict x) \<Rightarrow> view s' = view s \<and>
                 x = view s (record_operation (predecessor tr)) \<and>
                 (\<forall>r. x = Some r \<longrightarrow> revision r \<noteq> revision (predecessor tr))
             | Inl _ \<Rightarrow> view s' = view s)) s"
    and first_nonterminal_law:
      "keeps (\<lambda>s. store_ok s \<and> view s = v) (first_nonterminal port)
         (\<lambda>x. case x of None \<Rightarrow> all_terminal v | Some r \<Rightarrow> r \<in> ran v \<and> \<not> is_terminal (state r))"

end
