(* ===== verification/CommandActor.thy ===== *)
theory CommandActor
  imports CommandPorts
begin

text \<open>
  The serial command actor (\<open>src/fabric/command_actor.rs\<close>): one handler per message, with the calls
  through its three ports in the order of the code.

  The actor is a state program.  Its state is the state of the durable store, the state \<open>'w\<close> of the
  outside world that the context and effect ports read and change, the admission gate it shares
  with the runtime, and a log of the effect calls, each with the store as it was when the call was
  made.  The log is an observation of the run and no decision depends on it.  The tasks, channels
  and reply senders of the code are not modelled: messages are handled one by one in queue order,
  and closing the gate from outside may happen between any two of them.
\<close>


section \<open>Ports, errors and state\<close>

datatype prepare_effect_outcome =
    Prepared transaction_ref
  | PrepareKnownFailure command_failure
  | PrepareCancelled command_cancellation

datatype commit_effect_outcome =
    CommitCommitted command_result
  | CommitKnownFailure command_failure
  | CommitUnknown unknown_commit

record 'w command_reduction_context_port =
  read_admission_context :: "fabric_command \<Rightarrow> ('w, command_port_error, admission_context) prog"
  read_reduction_context :: "command_record \<Rightarrow> ('w, command_port_error, reduction_context) prog"

record 'w fabric_command_effect_port =
  prepare :: "command_record \<Rightarrow> execution_owner \<Rightarrow> reduction_context
    \<Rightarrow> ('w, command_port_error, prepare_effect_outcome) prog"
  commit :: "command_record \<Rightarrow> execution_owner \<Rightarrow> transaction_ref \<Rightarrow> reduction_context
    \<Rightarrow> ('w, command_port_error, commit_effect_outcome) prog"
  reconcile :: "command_record \<Rightarrow> execution_owner \<Rightarrow> transaction_ref \<Rightarrow> reduction_context
    \<Rightarrow> ('w, command_port_error, reconciliation_observation) prog"

datatype fabric_command_actor_error =
    Contract command_contract_error
  | Port command_port_error
  | DurableAdmissionMismatch
  | DurableTransitionMismatch
  | ActorRevisionConflict u64 "u64 option"
  | QueueClosed
  | ResponseDropped
  | OperationNotFound
  | EffectStateMismatch
  | AdmissionClosedForRecovery
  | ActorRecoveryPending operation_id command_recovery_obligation

datatype fabric_command_backpressure = BackpressureRecoveryPending | Full | Closed

datatype effect_call =
    PrepareCall command_record execution_owner reduction_context
  | CommitCall command_record execution_owner transaction_ref reduction_context
  | ReconcileCall command_record execution_owner transaction_ref reduction_context

record ('s, 'w) actor_state =
  store :: 's
  world :: 'w
  gate_open :: bool
  stopped :: bool
  effect_log :: "(effect_call \<times> 's) list"

record ('s, 'w) fabric_command_actor =
  fca_actor_id :: actor_id
  records :: "'s durable_command_record_port"
  contexts :: "'w command_reduction_context_port"
  effects :: "'w fabric_command_effect_port"

type_synonym ('s, 'w, 'a) actor_prog =
  "(('s, 'w) actor_state, fabric_command_actor_error, 'a) prog"

definition on_store :: "('s, command_port_error, 'a) prog \<Rightarrow> ('s, 'w, 'a) actor_prog" where
  "on_store m st = (case m (store st) of (r, s) \<Rightarrow> (map_err Port r, st\<lparr>store := s\<rparr>))"

definition on_world :: "('w, command_port_error, 'a) prog \<Rightarrow> ('s, 'w, 'a) actor_prog" where
  "on_world m st = (case m (world st) of (r, w) \<Rightarrow> (map_err Port r, st\<lparr>world := w\<rparr>))"

definition call_effect ::
  "effect_call \<Rightarrow> ('w, command_port_error, 'a) prog \<Rightarrow> ('s, 'w, 'a) actor_prog" where
  "call_effect call m st = on_world m (st\<lparr>effect_log := effect_log st @ [(call, store st)]\<rparr>)"

definition owner_for :: "('s, 'w) fabric_command_actor \<Rightarrow> writer_fence \<Rightarrow> execution_owner" where
  "owner_for a f = \<lparr>actor_id = fca_actor_id a, fence = f\<rparr>"


section \<open>Handlers\<close>

definition replay_admission ::
  "command_record \<Rightarrow> fabric_command \<Rightarrow> (fabric_command_actor_error, command_record) result" where
  "replay_admission existing c =
     (let replay_context =
        \<lparr>adm_workspace_id = own_workspace_id (ownership c),
         adm_current_head = cmd_expected_head c,
         adm_active_fence = writer_fence c,
         adm_authorization = Authorized (own_authorization (ownership c))\<rparr>
      in bindE (map_err Contract (admit (Some existing) c replay_context)) (\<lambda>outcome.
         case outcome of
           Existing r \<Rightarrow> if r = existing then Inr r else Inl (Err DurableAdmissionMismatch)
         | New _ \<Rightarrow> Inl (Err DurableAdmissionMismatch)))"

definition transition ::
  "('s, 'w) fabric_command_actor \<Rightarrow> command_record \<Rightarrow> command_event \<Rightarrow> ('s, 'w, command_record) actor_prog" where
  "transition a r event =
     bindS (on_world (read_reduction_context (contexts a) r)) (\<lambda>context.
     bindS (liftS (map_err Contract (reduce r event context))) (\<lambda>reduction.
     if red_effect reduction = IdempotentReplay then liftS (Inr r)
     else
       bindS (liftS (ok_or (red_transition reduction) EffectStateMismatch)) (\<lambda>tr.
       bindS (liftS (ensure (\<not> (predecessor tr \<noteq> r \<or> successor tr \<noteq> red_record reduction
           \<or> tr_effect tr \<noteq> red_effect reduction)) EffectStateMismatch)) (\<lambda>_.
       bindS (on_store (compare_and_swap (records a) tr)) (\<lambda>write.
       liftS (case write of
           Stored stored \<Rightarrow>
             if stored \<noteq> red_record reduction then Inl (Err DurableTransitionMismatch) else Inr stored
         | RevisionConflict observed \<Rightarrow>
             Inl (Err (ActorRevisionConflict (revision r) (map_option revision observed)))))))))"

definition validate_idempotent ::
  "('s, 'w) fabric_command_actor \<Rightarrow> command_record \<Rightarrow> command_event \<Rightarrow> ('s, 'w, reduction_context) actor_prog" where
  "validate_idempotent a r event =
     bindS (on_world (read_reduction_context (contexts a) r)) (\<lambda>context.
     bindS (liftS (map_err Contract (reduce r event context))) (\<lambda>reduction.
     bindS (liftS (ensure (\<not> (red_effect reduction \<noteq> IdempotentReplay \<or> red_record reduction \<noteq> r))
       EffectStateMismatch)) (\<lambda>_.
     liftS (Inr context))))"

fun commit_event :: "execution_owner \<Rightarrow> transaction_ref \<Rightarrow> commit_effect_outcome \<Rightarrow> command_event" where
  "commit_event owner transaction (CommitCommitted result) = ConfirmCommit owner transaction result"
| "commit_event owner transaction (CommitKnownFailure failure) = ReportKnownFailure owner failure"
| "commit_event owner transaction (CommitUnknown unknown) = ReportUnknownCommit owner transaction unknown"

definition execute_started ::
  "('s, 'w) fabric_command_actor \<Rightarrow> command_record \<Rightarrow> execution_owner \<Rightarrow> ('s, 'w, command_record) actor_prog" where
  "execute_started a r owner =
     bindS (validate_idempotent a r (Start owner)) (\<lambda>prepare_context.
     bindS (call_effect (PrepareCall r owner prepare_context) (prepare (effects a) r owner prepare_context)) (\<lambda>outcome.
     case outcome of
       PrepareKnownFailure failure \<Rightarrow> transition a r (ReportKnownFailure owner failure)
     | PrepareCancelled cancellation \<Rightarrow> transition a r (CancelBeforeCommit owner cancellation)
     | Prepared transaction \<Rightarrow>
         bindS (transition a r (PrepareCommit owner transaction)) (\<lambda>prepared.
         bindS (validate_idempotent a prepared (PrepareCommit owner transaction)) (\<lambda>commit_context.
         bindS (call_effect (CommitCall prepared owner transaction commit_context)
                  (commit (effects a) prepared owner transaction commit_context)) (\<lambda>committed.
         transition a prepared (commit_event owner transaction committed))))))"

definition process_submit ::
  "('s, 'w) fabric_command_actor \<Rightarrow> fabric_command \<Rightarrow> ('s, 'w, command_record) actor_prog" where
  "process_submit a c =
     bindS (on_store (lookup_admission (records a) (command_operation c) (command_key c))) (\<lambda>found.
     case found of
       Some existing \<Rightarrow> liftS (replay_admission existing c)
     | None \<Rightarrow>
         bindS (on_world (read_admission_context (contexts a) c)) (\<lambda>admission_context.
         bindS (liftS (map_err Contract (admit None c admission_context))) (\<lambda>outcome.
         case outcome of
           Existing _ \<Rightarrow> liftS (Inl (Err DurableAdmissionMismatch))
         | New admitted \<Rightarrow>
             bindS (on_store (insert_if_absent (records a) admitted)) (\<lambda>write.
             case write of
               ExistingWrite existing \<Rightarrow> liftS (replay_admission existing c)
             | Inserted stored \<Rightarrow>
                 bindS (liftS (ensure (\<not> stored \<noteq> admitted) DurableAdmissionMismatch)) (\<lambda>_.
                 bindS (transition a stored (Start (owner_for a (writer_fence c)))) (\<lambda>started.
                 execute_started a started (owner_for a (writer_fence c))))))))"

definition lookup_required ::
  "('s, 'w) fabric_command_actor \<Rightarrow> operation_id \<Rightarrow> ('s, 'w, command_record) actor_prog" where
  "lookup_required a opn =
     bindS (on_store (lookup_operation (records a) opn)) (\<lambda>found.
     liftS (ok_or found OperationNotFound))"

definition process_retry ::
  "('s, 'w) fabric_command_actor \<Rightarrow> operation_id \<Rightarrow> ('s, 'w, command_record) actor_prog" where
  "process_retry a opn =
     bindS (lookup_required a opn) (\<lambda>r.
     case state r of
       RetryReady _ required_fence _ \<Rightarrow>
         bindS (on_world (read_reduction_context (contexts a) r)) (\<lambda>context.
         let owner = owner_for a (ctx_active_fence context) in
         bindS (liftS (ensure (\<not> owner_generation owner < fence_generation required_fence)
           (Contract RecoveryFenceNotAdvanced))) (\<lambda>_.
         bindS (transition a r (Start owner)) (\<lambda>started.
         execute_started a started owner)))
     | _ \<Rightarrow> liftS (Inl (Err EffectStateMismatch)))"

definition process_resume_precommit ::
  "('s, 'w) fabric_command_actor \<Rightarrow> operation_id \<Rightarrow> ('s, 'w, command_record) actor_prog" where
  "process_resume_precommit a opn =
     bindS (lookup_required a opn) (\<lambda>r.
     bindS (liftS (ensure (case state r of Admitted _ \<Rightarrow> True | Executing _ _ \<Rightarrow> True | _ \<Rightarrow> False)
       EffectStateMismatch)) (\<lambda>_.
     bindS (on_world (read_reduction_context (contexts a) r)) (\<lambda>context.
     let owner = owner_for a (ctx_active_fence context) in
     bindS (transition a r (Start owner)) (\<lambda>started.
     execute_started a started owner))))"

definition process_mark_interrupted_commit ::
  "('s, 'w) fabric_command_actor \<Rightarrow> operation_id \<Rightarrow> unknown_commit \<Rightarrow> ('s, 'w, command_record) actor_prog" where
  "process_mark_interrupted_commit a opn unknown =
     bindS (lookup_required a opn) (\<lambda>r.
     case state r of
       CommitPrepared _ _ transaction \<Rightarrow>
         bindS (on_world (read_reduction_context (contexts a) r)) (\<lambda>context.
         transition a r (ReportUnknownCommit (owner_for a (ctx_active_fence context)) transaction unknown))
     | _ \<Rightarrow> liftS (Inl (Err EffectStateMismatch)))"

definition process_cancel ::
  "('s, 'w) fabric_command_actor \<Rightarrow> operation_id \<Rightarrow> command_cancellation \<Rightarrow> ('s, 'w, command_record) actor_prog" where
  "process_cancel a opn cancellation =
     bindS (lookup_required a opn) (\<lambda>r.
     bindS (on_world (read_reduction_context (contexts a) r)) (\<lambda>context.
     let owner = owner_for a (ctx_active_fence context) in
     bindS (if (case state r of Executing _ current \<Rightarrow> current \<noteq> owner | _ \<Rightarrow> False)
            then transition a r (Start owner)
            else liftS (Inr r)) (\<lambda>r'.
     transition a r' (CancelBeforeCommit owner cancellation))))"

definition process_reconcile ::
  "('s, 'w) fabric_command_actor \<Rightarrow> operation_id \<Rightarrow> ('s, 'w, command_record) actor_prog" where
  "process_reconcile a opn =
     bindS (lookup_required a opn) (\<lambda>r.
     case state r of
       AwaitingReconciliation _ _ _ transaction _ _ _ \<Rightarrow>
         bindS (on_world (read_reduction_context (contexts a) r)) (\<lambda>context.
         let owner = owner_for a (ctx_active_fence context) in
         bindS (call_effect (ReconcileCall r owner transaction context)
                  (reconcile (effects a) r owner transaction context)) (\<lambda>observation.
         transition a r (ObserveReconciliation owner transaction observation)))
     | _ \<Rightarrow> liftS (Inl (Err EffectStateMismatch)))"


section \<open>The message loop\<close>

datatype actor_message =
    Submit fabric_command
  | Cancel operation_id command_cancellation
  | Reconcile operation_id
  | Retry operation_id
  | ResumePrecommitMessage operation_id
  | MarkInterruptedCommitMessage operation_id unknown_commit
  | OpenAdmission
  | Shutdown

datatype actor_reply =
    RecordReply "(fabric_command_actor_error, command_record) result"
  | UnitReply "(fabric_command_actor_error, unit) result"
  | ShutdownAcknowledged

text \<open>A panic in a handler ends the actor task.\<close>

definition stop_on_panic :: "('e, 'a) result \<Rightarrow> ('s, 'w) actor_state \<Rightarrow> ('s, 'w) actor_state" where
  "stop_on_panic res st = (if panics res then st\<lparr>stopped := True\<rparr> else st)"

definition handle_record ::
  "('s, 'w, command_record) actor_prog \<Rightarrow> ('s, 'w) actor_state \<Rightarrow> actor_reply \<times> ('s, 'w) actor_state" where
  "handle_record m st = (case m st of (res, st') \<Rightarrow> (RecordReply res, stop_on_panic res st'))"

definition handle_submit ::
  "('s, 'w) fabric_command_actor \<Rightarrow> fabric_command \<Rightarrow> ('s, 'w) actor_state \<Rightarrow> actor_reply \<times> ('s, 'w) actor_state" where
  "handle_submit a c st =
     (case (if gate_open st then process_submit a c st else (Inl (Err AdmissionClosedForRecovery), st)) of
        (res, st') \<Rightarrow>
          let recovery_required = (case res of Inr r \<Rightarrow> \<not> is_terminal (state r) | Inl _ \<Rightarrow> True)
          in (RecordReply res,
              stop_on_panic res
                (if recovery_required \<and> \<not> panics res then st'\<lparr>gate_open := False\<rparr> else st')))"

definition handle_open_admission ::
  "('s, 'w) fabric_command_actor \<Rightarrow> ('s, 'w) actor_state \<Rightarrow> actor_reply \<times> ('s, 'w) actor_state" where
  "handle_open_admission a st =
     (case on_store (first_nonterminal (records a)) (st\<lparr>gate_open := False\<rparr>) of
        (Inr (Some r), st') \<Rightarrow>
          let res = bindE (expect (recovery_obligation r)) (\<lambda>obligation.
                Inl (Err (ActorRecoveryPending (record_operation r) obligation)))
          in (UnitReply res, stop_on_panic res st')
      | (Inr None, st') \<Rightarrow> (UnitReply (Inr ()), st'\<lparr>gate_open := True\<rparr>)
      | (Inl e, st') \<Rightarrow> (UnitReply (Inl e), stop_on_panic (Inl e :: (_, unit) result) st'))"

fun handle_message ::
  "('s, 'w) fabric_command_actor \<Rightarrow> actor_message \<Rightarrow> ('s, 'w) actor_state \<Rightarrow> actor_reply \<times> ('s, 'w) actor_state" where
  "handle_message a (Submit c) = handle_submit a c"
| "handle_message a (Cancel opn cancellation) = handle_record (process_cancel a opn cancellation)"
| "handle_message a (Reconcile opn) = handle_record (process_reconcile a opn)"
| "handle_message a (Retry opn) = handle_record (process_retry a opn)"
| "handle_message a (ResumePrecommitMessage opn) = handle_record (process_resume_precommit a opn)"
| "handle_message a (MarkInterruptedCommitMessage opn unknown) =
     handle_record (process_mark_interrupted_commit a opn unknown)"
| "handle_message a OpenAdmission = handle_open_admission a"
| "handle_message a Shutdown = (\<lambda>st. (ShutdownAcknowledged, st\<lparr>stopped := True\<rparr>))"

text \<open>What happens to the actor from outside: a message is received, or the runtime closes the gate.\<close>

datatype actor_input = Received actor_message | GateClosed

fun actor_run ::
  "('s, 'w) fabric_command_actor \<Rightarrow> actor_input list \<Rightarrow> ('s, 'w) actor_state \<Rightarrow> actor_reply list \<times> ('s, 'w) actor_state" where
  "actor_run a [] st = ([], st)"
| "actor_run a (GateClosed # inputs) st = actor_run a inputs (st\<lparr>gate_open := False\<rparr>)"
| "actor_run a (Received message # inputs) st =
     (if stopped st then ([], st)
      else case handle_message a message st of (reply, st1) \<Rightarrow>
        (case actor_run a inputs st1 of (replies, st2) \<Rightarrow> (reply # replies, st2)))"

text \<open>
  The nonblocking ingress of a handle in front of a bounded queue, and the state the production
  actor starts in, with admission closed.
\<close>

definition try_submit ::
  "nat \<Rightarrow> bool \<Rightarrow> bool \<Rightarrow> actor_message list \<Rightarrow> fabric_command
     \<Rightarrow> (fabric_command_backpressure, actor_message list) result" where
  "try_submit queue_capacity gate closed queue c =
     bindE (ensure gate BackpressureRecoveryPending) (\<lambda>_.
     bindE (ensure (\<not> closed) Closed) (\<lambda>_.
     bindE (ensure (length queue < queue_capacity) Full) (\<lambda>_.
     Inr (queue @ [Submit c]))))"

definition spawned_closed :: "'s \<Rightarrow> 'w \<Rightarrow> ('s, 'w) actor_state" where
  "spawned_closed s w = \<lparr>store = s, world = w, gate_open = False, stopped = False, effect_log = []\<rparr>"

section \<open>What a handler may do to the store\<close>

text \<open>
  A stored record has a history: it came from the record that was stored before, or from a fresh
  admission, by deliveries of events to the reducer.
\<close>

definition history :: "command_record option \<Rightarrow> command_record \<Rightarrow> bool" where
  "history before r = (case before of
     Some r0 \<Rightarrow> \<exists>ecs. r = deliver_all r0 ecs
   | None \<Rightarrow> \<exists>c ecs. r = deliver_all (admitted_record c) ecs)"

fun logged_commit :: "effect_call \<times> 's \<Rightarrow> command_record list" where
  "logged_commit (CommitCall r _ _ _, _) = [r]"
| "logged_commit _ = []"

definition logged_commits :: "(effect_call \<times> 's) list \<Rightarrow> command_record list" where
  "logged_commits lg = concat (map logged_commit lg)"

fun call_lawful :: "('s \<Rightarrow> record_view) \<Rightarrow> effect_call \<times> 's \<Rightarrow> bool" where
  "call_lawful view (PrepareCall r owner ctx, s) \<longleftrightarrow>
     view s (record_operation r) = Some r \<and> (\<exists>att. state r = Executing att owner) \<and>
     context_current r (Start owner) ctx"
| "call_lawful view (CommitCall r owner transaction ctx, s) \<longleftrightarrow>
     view s (record_operation r) = Some r \<and> (\<exists>att. state r = CommitPrepared att owner transaction) \<and>
     context_current r (PrepareCommit owner transaction) ctx"
| "call_lawful view (ReconcileCall r owner transaction ctx, s) \<longleftrightarrow>
     view s (record_operation r) = Some r \<and> fence owner = ctx_active_fence ctx \<and>
     (\<exists>att eo ro unknown probes evidence.
        state r = AwaitingReconciliation att eo ro transaction unknown probes evidence)"

text \<open>
  The log of effect calls is sound: every call was made with the record that the store then held,
  in the state the call belongs to and under a current context, no later record went back in
  revision, and successive commit calls of one operation have increasing revisions.
\<close>

definition log_sound :: "('s \<Rightarrow> record_view) \<Rightarrow> (effect_call \<times> 's) list \<Rightarrow> record_view \<Rightarrow> bool" where
  "log_sound view lg v \<longleftrightarrow>
     (\<forall>entry \<in> set lg. call_lawful view entry) \<and>
     (\<forall>r \<in> set (logged_commits lg). \<exists>r'. v (record_operation r) = Some r' \<and> revision r \<le> revision r') \<and>
     sorted_wrt (\<lambda>r1 r2. record_operation r1 = record_operation r2 \<longrightarrow> revision r1 < revision r2)
       (logged_commits lg)"

lemma logged_commits_simps [simp]:
  "logged_commits [] = []"
  "logged_commits (lg @ [entry]) = logged_commits lg @ logged_commit entry"
  by (simp_all add: logged_commits_def)

lemma log_sound_empty [simp]: "log_sound view [] v"
  by (simp add: log_sound_def)

lemma log_sound_mono:
  assumes "log_sound view lg v"
    and "\<And>opn r. v opn = Some r \<Longrightarrow> \<exists>r'. v' opn = Some r' \<and> revision r \<le> revision r'"
  shows "log_sound view lg v'"
  using assms by (fastforce simp: log_sound_def intro: order_trans)

lemma history_refl: "history (Some r) r"
  unfolding history_def by (auto intro: exI [of _ "[]"])

lemma history_admitted: "history None (admitted_record c)"
  unfolding history_def by simp (metis deliver_all_simps(1))

lemma history_deliver: "history before r \<Longrightarrow> history before (deliver r ec)"
  unfolding history_def by (cases before) (auto intro: deliver_all_simps(3) [symmetric])

lemma history_trans:
  assumes "history before r0" "history (Some r0) r"
  shows "history before r"
proof -
  from assms(2) obtain ecs where r: "r = deliver_all r0 ecs"
    by (auto simp: history_def)
  have append: "deliver_all x (xs @ ys) = deliver_all (deliver_all x xs) ys" for x xs ys
    by (simp add: deliver_all_def)
  show ?thesis
    using assms(1) unfolding history_def r
    by (cases before) (auto intro: append [symmetric])
qed

lemma history_terminal: "is_terminal (state r0) \<Longrightarrow> history (Some r0) r \<Longrightarrow> r = r0"
  by (auto simp: history_def deliver_all_terminal)

text \<open>
  The assertions a handler for the operation \<open>opn\<close> maintains, relative to the view \<open>v\<close> it started
  from: no other operation is touched, this one only moves along its history, and it comes into
  being only if \<open>create\<close> allows it.
\<close>

definition ongoing ::
  "('s \<Rightarrow> bool) \<Rightarrow> ('s \<Rightarrow> record_view) \<Rightarrow> record_view \<Rightarrow> bool \<Rightarrow> bool \<Rightarrow> operation_id \<Rightarrow> bool
     \<Rightarrow> ('s, 'w) actor_state \<Rightarrow> bool" where
  "ongoing ok view v g b opn create st \<longleftrightarrow>
     ok (store st) \<and> gate_open st = g \<and> stopped st = b \<and>
     (\<forall>o'. o' \<noteq> opn \<longrightarrow> view (store st) o' = v o') \<and>
     (view (store st) opn = v opn \<or>
        (create \<or> v opn \<noteq> None) \<and> (\<exists>r. view (store st) opn = Some r \<and> history (v opn) r)) \<and>
     log_sound view (effect_log st) (view (store st))"

definition holding ::
  "('s \<Rightarrow> bool) \<Rightarrow> ('s \<Rightarrow> record_view) \<Rightarrow> record_view \<Rightarrow> bool \<Rightarrow> bool \<Rightarrow> operation_id \<Rightarrow> bool
     \<Rightarrow> command_record \<Rightarrow> (effect_call \<times> 's) list \<Rightarrow> ('s, 'w) actor_state \<Rightarrow> bool" where
  "holding ok view v g b opn create r lg st \<longleftrightarrow>
     ongoing ok view v g b opn create st \<and> view (store st) opn = Some r \<and> history (v opn) r \<and>
     (create \<or> v opn \<noteq> None) \<and> effect_log st = lg"

lemma holding_ongoing: "holding ok view v g b opn create r lg st \<Longrightarrow> ongoing ok view v g b opn create st"
  by (simp add: holding_def)

lemma ongoing_world [simp]:
  "ongoing ok view v g b opn create (st\<lparr>world := w\<rparr>) = ongoing ok view v g b opn create st"
  "holding ok view v g b opn create r lg (st\<lparr>world := w\<rparr>) = holding ok view v g b opn create r lg st"
  by (simp_all add: ongoing_def holding_def)

lemma on_world_triple:
  assumes "\<And>st w. P (st\<lparr>world := w\<rparr>) = P st" "\<And>st. P st \<Longrightarrow> E st"
  shows "triple P (on_world m) (\<lambda>_. P) E"
  using assms by (auto simp: triple_def wp_def on_world_def split: prod.split sum.split)

text \<open>A failed delivery changes nothing; a successful one is what the reducer computed.\<close>

lemma deliver_reduced: "reduce r e ctx = Inr red \<Longrightarrow> deliver r (e, ctx) = red_record red"
  by (simp add: deliver_def)

lemma reduced_revision:
  assumes "reduce r e ctx = Inr red"
  shows "red_record red = r \<or> revision r < revision (red_record red)"
  using assms
proof (cases rule: reduce_effect_cases)
  case (step s)
  then show ?thesis
    by (simp add: revision_room_def word_less_nat_alt unat_word_ariths)
qed simp

lemma reduce_context:
  assumes "reduce r e ctx = Inr red" "\<not> is_terminal (state r)"
  shows "context_current r e ctx"
  using assms by (auto simp: reduce_def terminal_replay_eq validate_reduction_context_iff)

lemma idempotent_start:
  assumes "reduce r (Start w) ctx = Inr red" "red_effect red = IdempotentReplay"
  shows "(\<exists>att. state r = Executing att w) \<and> context_current r (Start w) ctx"
  using assms
  by (cases "state r")
    (auto simp: reduce_evaluation reduce_context split: if_splits option.splits)

lemma idempotent_prepare:
  assumes "reduce r (PrepareCommit w t) ctx = Inr red" "red_effect red = IdempotentReplay"
  shows "(\<exists>att. state r = CommitPrepared att w t) \<and> context_current r (PrepareCommit w t) ctx"
  using assms
  by (cases "state r")
    (auto simp: reduce_evaluation reduce_context split: if_splits option.splits)


definition evolves :: "record_view \<Rightarrow> record_view \<Rightarrow> bool" where
  "evolves v v' \<longleftrightarrow> (\<forall>opn. v' opn = v opn \<or> (\<exists>r. v' opn = Some r \<and> history (v opn) r))"

lemma evolves_refl [simp]: "evolves v v"
  by (simp add: evolves_def)

lemma evolves_trans: "evolves v v' \<Longrightarrow> evolves v' v'' \<Longrightarrow> evolves v v''"
  unfolding evolves_def by (metis history_trans)

definition actor_ok :: "('s \<Rightarrow> bool) \<Rightarrow> ('s \<Rightarrow> record_view) \<Rightarrow> ('s, 'w) actor_state \<Rightarrow> bool" where
  "actor_ok ok view st \<longleftrightarrow> ok (store st) \<and> log_sound view (effect_log st) (view (store st)) \<and>
     (\<not> stopped st \<and> gate_open st \<longrightarrow> all_terminal (view (store st)))"


section \<open>The handlers over any durable store\<close>

locale command_actor = command_record_port port store_ok view
  for port :: "'s durable_command_record_port" and store_ok view +
  fixes a :: "('s, 'w) fabric_command_actor"
  assumes records_port: "records a = port"
begin

abbreviation going :: "record_view \<Rightarrow> bool \<Rightarrow> bool \<Rightarrow> operation_id \<Rightarrow> bool \<Rightarrow> ('s, 'w) actor_state \<Rightarrow> bool" where
  "going \<equiv> ongoing store_ok view"

abbreviation holds :: "record_view \<Rightarrow> bool \<Rightarrow> bool \<Rightarrow> operation_id \<Rightarrow> bool \<Rightarrow> command_record
    \<Rightarrow> (effect_call \<times> 's) list \<Rightarrow> ('s, 'w) actor_state \<Rightarrow> bool" where
  "holds \<equiv> holding store_ok view"

lemma holds_record:
  assumes "holds v g b opn create r lg st"
  shows "record_operation r = opn" "record_ok r"
  using assms store_view [of "store st"] by (auto simp: holding_def ongoing_def dest: view_okD)

lemma swap_triple:
  assumes red: "reduce r e ctx = Inr red" and tr: "predecessor tr = r" "successor tr = red_record red"
  shows "triple (holds v g b opn create r lg) (on_store (compare_and_swap port tr))
    (\<lambda>write st. (\<forall>r'. write = Stored r' \<longrightarrow> r' = red_record red \<and> holds v g b opn create (red_record red) lg st) \<and>
       going v g b opn create st) (going v g b opn create)"
proof (rule tripleI)
  fix st :: "('s, 'w) actor_state"
  assume st: "holds v g b opn create r lg st"
  then have ok: "store_ok (store st)" and opn: "record_operation r = opn"
    by (auto simp: holding_def ongoing_def holds_record)
  obtain res s' where run: "compare_and_swap port tr (store st) = (res, s')"
    by fastforce
  note law = wpD [OF compare_and_swap_law [OF ok] run]
  have same: "going v g b opn create (st\<lparr>store := s'\<rparr>)" if "view s' = view (store st)"
    using st law that by (auto simp: holding_def ongoing_def)
  have stored: "holds v g b opn create (red_record red) lg (st\<lparr>store := s'\<rparr>)"
    if "view s' = (view (store st))(opn \<mapsto> red_record red)"
  proof -
    have "history (v opn) (red_record red)"
      using st history_deliver [of "v opn" r "(e, ctx)"] deliver_reduced [OF red] by (simp add: holding_def)
    moreover have "log_sound view lg ((view (store st))(opn \<mapsto> red_record red))"
      using st reduced_revision [OF red]
      by (auto simp: holding_def ongoing_def elim!: log_sound_mono)
    ultimately show ?thesis
      using st law that by (simp add: holding_def ongoing_def)
  qed
  show "wp (on_store (compare_and_swap port tr)) (\<lambda>res st'. case res of
      Inl _ \<Rightarrow> going v g b opn create st'
    | Inr write \<Rightarrow> (\<forall>r'. write = Stored r' \<longrightarrow> r' = red_record red \<and> holds v g b opn create (red_record red) lg st') \<and>
       going v g b opn create st') st"
  proof (cases res)
    case (Inl f)
    with law same show ?thesis
      by (cases f) (simp_all add: wp_def on_store_def run)
  next
    case (Inr wr)
    show ?thesis
    proof (cases wr)
      case (Stored r')
      with Inr law opn tr stored show ?thesis
        by (auto simp: wp_def on_store_def run dest: holding_ongoing)
    next
      case (RevisionConflict x)
      with Inr law same show ?thesis
        by (simp add: wp_def on_store_def run)
    qed
  qed
qed

lemma transition_triple:
  "triple (holds v g b opn create r lg) (transition a r e)
     (\<lambda>r' st. holds v g b opn create r' lg st \<and> (r' = r \<or> revision r < revision r'))
     (going v g b opn create)"
  unfolding transition_def records_port
proof (rule triple_bindS [OF on_world_triple], simp, erule holding_ongoing, goal_cases)
  case (1 ctx)
  show ?case
  proof (cases "reduce r e ctx")
    case (Inl f)
    then show ?thesis
      by (cases f) (auto simp: triple_def dest: holding_ongoing)
  next
    case (Inr red)
    show ?thesis
    proof (cases "red_effect red = IdempotentReplay \<or> red_transition red = None")
      case True
      with Inr show ?thesis
        by (auto simp: triple_def dest: holding_ongoing)
    next
      case False
      then obtain tr where tr: "red_transition red = Some tr" and eff: "red_effect red \<noteq> IdempotentReplay"
        by auto
      show ?thesis
      proof (cases "predecessor tr = r \<and> successor tr = red_record red \<and> tr_effect tr = red_effect red")
        case False
        with Inr tr eff show ?thesis
          by (auto simp: triple_def ensure_def dest: holding_ongoing)
      next
        case True
        have "triple (holds v g b opn create r lg) (bindS (on_store (compare_and_swap port tr)) (\<lambda>write.
          liftS (case write of
              Stored stored \<Rightarrow>
                if stored \<noteq> red_record red then Inl (Err DurableTransitionMismatch) else Inr stored
            | RevisionConflict observed \<Rightarrow>
                Inl (Err (ActorRevisionConflict (revision r) (map_option revision observed))))))
          (\<lambda>r' st. holds v g b opn create r' lg st \<and> (r' = r \<or> revision r < revision r'))
          (going v g b opn create)"
          by (rule triple_bindS [OF swap_triple [OF Inr]], simp_all add: True)
            (rule triple_liftS; use reduced_revision [OF Inr] in \<open>auto split: durable_transition_write.splits if_splits\<close>)
        with Inr tr eff True show ?thesis
          by (simp add: triple_def)
      qed
    qed
  qed
qed

lemma validate_triple:
  assumes P: "\<And>st w. P (st\<lparr>world := w\<rparr>) = P st" "\<And>st. P st \<Longrightarrow> E st"
  shows "triple P (validate_idempotent a r e)
    (\<lambda>ctx st. P st \<and> (\<exists>red. reduce r e ctx = Inr red \<and> red_effect red = IdempotentReplay)) E"
  unfolding validate_idempotent_def
  by (intro triple_bindS [OF on_world_triple [OF P]]) (auto simp: triple_def ensure_def P(2) split: sum.split)

lemma effect_triple:
  assumes "logged_commit (call, undefined :: 's) = []" "\<And>s :: 's. view s (record_operation r) = Some r \<Longrightarrow> call_lawful view (call, s)"
  shows "triple (\<lambda>st. \<exists>lg. holds v g b opn create r lg st) (call_effect call m)
    (\<lambda>_ st. \<exists>lg. holds v g b opn create r lg st) (going v g b opn create)"
proof (rule tripleI)
  fix st :: "('s, 'w) actor_state"
  assume "\<exists>lg. holds v g b opn create r lg st"
  then obtain lg where st: "holds v g b opn create r lg st" ..
  moreover have "logged_commit (call, s) = []" for s :: 's
    using assms(1) by (cases call) simp_all
  ultimately have "holds v g b opn create r (effect_log st @ [(call, store st)])
      (st\<lparr>effect_log := effect_log st @ [(call, store st)]\<rparr>)"
    using assms(2) [of "store st"] holds_record(1) [OF st] by (auto simp: holding_def ongoing_def log_sound_def)
  then show "wp (call_effect call m) (\<lambda>res st'. case res of
      Inl _ \<Rightarrow> going v g b opn create st'
    | Inr _ \<Rightarrow> \<exists>lg. holds v g b opn create r lg st') st"
    by (auto simp: wp_def call_effect_def on_world_def split: prod.split sum.split dest: holding_ongoing)
qed

lemma commit_effect_triple:
  assumes "state r' = CommitPrepared att owner t" and "revision r < revision r'"
    and "context_current r' (PrepareCommit owner t) ctx"
  shows "triple (\<lambda>st. \<exists>lg. holds v g b opn create r' lg st \<and>
       (\<forall>x \<in> set (logged_commits lg). record_operation x = opn \<longrightarrow> revision x \<le> revision r))
    (call_effect (CommitCall r' owner t ctx) m)
    (\<lambda>_ st. \<exists>lg. holds v g b opn create r' lg st) (going v g b opn create)"
proof (rule tripleI)
  fix st :: "('s, 'w) actor_state"
  let ?call = "CommitCall r' owner t ctx"
  assume "\<exists>lg. holds v g b opn create r' lg st \<and>
       (\<forall>x \<in> set (logged_commits lg). record_operation x = opn \<longrightarrow> revision x \<le> revision r)"
  then have st: "holds v g b opn create r' (effect_log st) st"
    and below: "\<forall>x \<in> set (logged_commits (effect_log st)). record_operation x = opn \<longrightarrow> revision x < revision r'"
    using assms(2) by (auto simp: holding_def intro: le_less_trans)
  have "holds v g b opn create r' (effect_log st @ [(?call, store st)])
      (st\<lparr>effect_log := effect_log st @ [(?call, store st)]\<rparr>)"
    using st below holds_record(1) [OF st] assms(1,3)
    by (auto simp: holding_def ongoing_def log_sound_def sorted_wrt_append)
  then show "wp (call_effect ?call m) (\<lambda>res st'. case res of
      Inl _ \<Rightarrow> going v g b opn create st'
    | Inr _ \<Rightarrow> \<exists>lg. holds v g b opn create r' lg st') st"
    by (auto simp: wp_def call_effect_def on_world_def split: prod.split sum.split dest: holding_ongoing)
qed

lemma transition_triple_log:
  "triple (\<lambda>st. \<exists>lg. holds v g b opn create r lg st) (transition a r e)
     (\<lambda>r' st. \<exists>lg. holds v g b opn create r' lg st) (going v g b opn create)"
  using transition_triple [of v g b opn create r _ e]
  by (fastforce simp: triple_def wp_def split: prod.splits sum.splits)

lemma holds_logged:
  "holds v g b opn create r lg st \<Longrightarrow>
     \<forall>x \<in> set (logged_commits lg). record_operation x = opn \<longrightarrow> revision x \<le> revision r"
  by (fastforce simp: holding_def ongoing_def log_sound_def)

lemma commit_prepared_triple:
  assumes exec: "state r = Executing att owner"
  shows "triple (\<lambda>st. \<exists>lg. holds v g b opn create r lg st)
    (bindS (transition a r (PrepareCommit owner t)) (\<lambda>prepared.
     bindS (validate_idempotent a prepared (PrepareCommit owner t)) (\<lambda>ctx.
     bindS (call_effect (CommitCall prepared owner t ctx) (commit (effects a) prepared owner t ctx)) (\<lambda>committed.
     transition a prepared (commit_event owner t committed)))))
    (\<lambda>r' st. \<exists>lg. holds v g b opn create r' lg st) (going v g b opn create)"
proof (rule triple_bindS)
  show "triple (\<lambda>st. \<exists>lg. holds v g b opn create r lg st) (transition a r (PrepareCommit owner t))
      (\<lambda>r' st. (\<exists>lg. holds v g b opn create r' lg st \<and>
          (\<forall>x \<in> set (logged_commits lg). record_operation x = opn \<longrightarrow> revision x \<le> revision r)) \<and>
        (r' = r \<or> revision r < revision r')) (going v g b opn create)"
    using transition_triple [of v g b opn create r _ "PrepareCommit owner t"] holds_logged
    by (fastforce simp: triple_def wp_def split: prod.splits sum.splits)
next
  fix prepared
  show "triple (\<lambda>st. (\<exists>lg. holds v g b opn create prepared lg st \<and>
          (\<forall>x \<in> set (logged_commits lg). record_operation x = opn \<longrightarrow> revision x \<le> revision r)) \<and>
        (prepared = r \<or> revision r < revision prepared))
    (bindS (validate_idempotent a prepared (PrepareCommit owner t)) (\<lambda>ctx.
     bindS (call_effect (CommitCall prepared owner t ctx) (commit (effects a) prepared owner t ctx)) (\<lambda>committed.
     transition a prepared (commit_event owner t committed))))
    (\<lambda>r' st. \<exists>lg. holds v g b opn create r' lg st) (going v g b opn create)"
  proof (rule triple_assume, rule triple_bindS [OF validate_triple], goal_cases)
    case (3 ctx)
    show ?case
    proof (rule triple_assume, rule triple_bindS [OF _ transition_triple_log])
      assume "\<exists>red. reduce prepared (PrepareCommit owner t) ctx = Inr red \<and> red_effect red = IdempotentReplay"
      then obtain att' where prep: "state prepared = CommitPrepared att' owner t"
        and ctx: "context_current prepared (PrepareCommit owner t) ctx"
        using idempotent_prepare by blast
      with exec 3 have "revision r < revision prepared"
        by auto
      from prep this ctx show "triple (\<lambda>st. \<exists>lg. holds v g b opn create prepared lg st \<and>
          (\<forall>x \<in> set (logged_commits lg). record_operation x = opn \<longrightarrow> revision x \<le> revision r))
        (call_effect (CommitCall prepared owner t ctx) (commit (effects a) prepared owner t ctx))
        (\<lambda>_ st. \<exists>lg. holds v g b opn create prepared lg st) (going v g b opn create)"
        by (rule commit_effect_triple)
    qed
  qed (auto dest: holding_ongoing)
qed

lemma execute_started_triple:
  "triple (\<lambda>st. \<exists>lg. holds v g b opn create r lg st) (execute_started a r owner)
     (\<lambda>r' st. \<exists>lg. holds v g b opn create r' lg st) (going v g b opn create)"
  unfolding execute_started_def
proof (rule triple_bindS [OF validate_triple], goal_cases)
  case (3 ctx)
  show ?case (is "triple (\<lambda>st. ?P st \<and> ?idem) ?m ?Q ?E")
  proof (rule triple_assume)
    assume "\<exists>red. reduce r (Start owner) ctx = Inr red \<and> red_effect red = IdempotentReplay"
    then obtain att where exec: "state r = Executing att owner" and ctx: "context_current r (Start owner) ctx"
      using idempotent_start by blast
    show "triple ?P ?m ?Q ?E"
    proof (rule triple_bindS [OF effect_triple], goal_cases)
      case (3 outcome)
      show ?case
      proof (cases outcome)
        case (Prepared t)
        then show ?thesis
          using commit_prepared_triple [OF exec] by simp
      qed (simp_all add: transition_triple_log)
    qed (simp_all add: exec ctx)
  qed
qed (auto dest: holding_ongoing)

abbreviation fresh :: "record_view \<Rightarrow> bool \<Rightarrow> bool \<Rightarrow> operation_id \<Rightarrow> bool \<Rightarrow> ('s, 'w) actor_state \<Rightarrow> bool" where
  "fresh v g b opn create st \<equiv> going v g b opn create st \<and> view (store st) = v"

abbreviation held :: "record_view \<Rightarrow> bool \<Rightarrow> bool \<Rightarrow> operation_id \<Rightarrow> bool \<Rightarrow> command_record
    \<Rightarrow> ('s, 'w) actor_state \<Rightarrow> bool" where
  "held v g b opn create r st \<equiv> \<exists>lg. holds v g b opn create r lg st"

lemma on_store_triple:
  assumes law: "keeps (\<lambda>s. store_ok s \<and> view s = v) m P"
  shows "triple (fresh v g b opn create) (on_store m) (\<lambda>x st. fresh v g b opn create st \<and> P x)
    (going v g b opn create)"
proof (rule tripleI)
  fix st :: "('s, 'w) actor_state"
  assume st: "fresh v g b opn create st"
  obtain res s' where run: "m (store st) = (res, s')"
    by fastforce
  from st have "store_ok (store st) \<and> view (store st) = v"
    by (simp add: ongoing_def)
  from keeps_run [OF law this run] st have "fresh v g b opn create (st\<lparr>store := s'\<rparr>)" "returns P res"
    by (auto simp: ongoing_def)
  then show "wp (on_store m) (\<lambda>res st'. case res of Inl _ \<Rightarrow> going v g b opn create st'
      | Inr x \<Rightarrow> fresh v g b opn create st' \<and> P x) st"
    by (cases res) (auto simp: wp_def on_store_def run returns_iff split: sum.split)
qed

lemma lookup_required_triple:
  "triple (fresh v g b opn create) (lookup_required a opn) (held v g b opn create) (going v g b opn create)"
  unfolding lookup_required_def records_port
  by (rule triple_bindS [OF on_store_triple [OF lookup_operation_law]], rule triple_liftS)
    (auto simp: holding_def history_refl)

lemma world_triple:
  "triple (held v g b opn create r) (on_world m) (\<lambda>_. held v g b opn create r) (going v g b opn create)"
  by (rule on_world_triple) (auto dest: holding_ongoing)

lemma refuse_triple: "triple (held v g b opn create r) (liftS (Inl e)) Q (going v g b opn create)"
  by (auto simp: triple_def dest: holding_ongoing)

lemma ensure_triple: "triple (held v g b opn create r) (liftS (ensure p e)) (\<lambda>_. held v g b opn create r) (going v g b opn create)"
  by (auto simp: triple_def ensure_def dest: holding_ongoing)

lemmas handler_triples =
  triple_bindS [OF lookup_required_triple] triple_bindS [OF world_triple] triple_bindS [OF ensure_triple]
  triple_bindS [OF transition_triple_log] transition_triple_log execute_started_triple refuse_triple

lemma process_retry_triple:
  "triple (fresh v g b opn create) (process_retry a opn) (held v g b opn create) (going v g b opn create)"
  unfolding process_retry_def Let_def
  by (intro handler_triples) (auto split: durable_command_state.split intro!: handler_triples)

lemma process_resume_precommit_triple:
  "triple (fresh v g b opn create) (process_resume_precommit a opn) (held v g b opn create) (going v g b opn create)"
  unfolding process_resume_precommit_def Let_def
  by (intro handler_triples)

lemma process_mark_interrupted_commit_triple:
  "triple (fresh v g b opn create) (process_mark_interrupted_commit a opn unknown) (held v g b opn create)
     (going v g b opn create)"
  unfolding process_mark_interrupted_commit_def Let_def
  by (intro handler_triples) (auto split: durable_command_state.split intro!: handler_triples)

lemma process_cancel_triple:
  "triple (fresh v g b opn create) (process_cancel a opn cancellation) (held v g b opn create) (going v g b opn create)"
  unfolding process_cancel_def Let_def
proof (intro handler_triples, rule triple_bindS [OF _ transition_triple_log])
  fix r and ctx :: reduction_context
  have "triple (held v g b opn create r) (liftS (Inr r)) (held v g b opn create) (going v g b opn create)"
    by (auto simp: triple_def)
  then show "triple (held v g b opn create r)
      (if (case state r of Executing _ current \<Rightarrow> current \<noteq> owner_for a (ctx_active_fence ctx) | _ \<Rightarrow> False)
       then transition a r (Start (owner_for a (ctx_active_fence ctx))) else liftS (Inr r))
      (held v g b opn create) (going v g b opn create)"
    by (auto intro: transition_triple_log split: if_split)
qed

lemma process_reconcile_triple:
  "triple (fresh v g b opn create) (process_reconcile a opn) (held v g b opn create) (going v g b opn create)"
  unfolding process_reconcile_def Let_def
  by (intro handler_triples)
    (auto simp: owner_for_def split: durable_command_state.split
      intro!: handler_triples triple_bindS [OF effect_triple])

lemma replay_admission_eq_Inr:
  "replay_admission existing c = Inr r \<longleftrightarrow> r = existing \<and> command existing = c"
  by (auto simp: replay_admission_def admit_def Let_def split: if_splits)

lemma replay_triple:
  assumes "r \<in> ran v"
  shows "triple (fresh v g b (command_operation c) True) (liftS (replay_admission r c))
    (held v g b (command_operation c) True) (going v g b (command_operation c) True)"
proof (rule triple_liftS)
  fix x and st :: "('s, 'w) actor_state"
  assume x: "replay_admission r c = Inr x" and st: "fresh v g b (command_operation c) True st"
  then have "view_ok v"
    using store_view by (auto simp: ongoing_def)
  with assms x have "v (command_operation c) = Some x"
    using view_ok_ranD [of v r] by (auto simp: replay_admission_eq_Inr)
  with st show "held v g b (command_operation c) True x st"
    by (auto simp: holding_def history_refl)
qed simp

lemma insert_triple:
  "triple (fresh v g b (command_operation c) True) (on_store (insert_if_absent port (admitted_record c)))
     (\<lambda>res st. case res of
        Inserted r \<Rightarrow> r = admitted_record c \<and> held v g b (command_operation c) True r st
      | ExistingWrite r \<Rightarrow> r \<in> ran v \<and> fresh v g b (command_operation c) True st)
     (going v g b (command_operation c) True)"
proof (rule tripleI)
  fix st :: "('s, 'w) actor_state"
  let ?opn = "command_operation c"
  assume st: "fresh v g b ?opn True st"
  then have ok: "store_ok (store st)" and v: "view_ok v"
    using store_view by (auto simp: ongoing_def)
  have cmd: "command (admitted_record c) = c"
    by (simp add: admitted_record_def)
  obtain res s' where run: "insert_if_absent port (admitted_record c) (store st) = (res, s')"
    by fastforce
  note law = wpD [OF insert_if_absent_law [OF ok] run, unfolded cmd]
  have same: "fresh v g b ?opn True (st\<lparr>store := s'\<rparr>)" if "view s' = view (store st)"
    using st law that by (auto simp: ongoing_def)
  have inserted: "held v g b ?opn True (admitted_record c) (st\<lparr>store := s'\<rparr>)"
    if "admission_free ?opn (command_key c) v" "view s' = v(?opn \<mapsto> admitted_record c)"
  proof -
    have none: "v ?opn = None"
      using that(1) view_okD [OF v, of ?opn] by (cases "v ?opn") (auto simp: admission_free_def ran_def)
    then have "log_sound view (effect_log st) (v(?opn \<mapsto> admitted_record c))"
      using st by (auto simp: ongoing_def elim!: log_sound_mono)
    with none st law that(2) show ?thesis
      by (auto simp: holding_def ongoing_def history_admitted)
  qed
  show "wp (on_store (insert_if_absent port (admitted_record c))) (\<lambda>res st'. case res of
      Inl _ \<Rightarrow> going v g b ?opn True st'
    | Inr wr \<Rightarrow> (case wr of
        Inserted r \<Rightarrow> r = admitted_record c \<and> held v g b ?opn True r st'
      | ExistingWrite r \<Rightarrow> r \<in> ran v \<and> fresh v g b ?opn True st')) st"
  proof (cases res)
    case (Inl f)
    with law same show ?thesis
      by (cases f) (simp_all add: wp_def on_store_def run)
  next
    case (Inr wr)
    with law same inserted st show ?thesis
      by (cases wr) (simp_all add: wp_def on_store_def run)
  qed
qed

lemma process_submit_triple:
  "triple (fresh v g b (command_operation c) True) (process_submit a c)
     (held v g b (command_operation c) True) (going v g b (command_operation c) True)"
  unfolding process_submit_def records_port
proof (rule triple_bindS [OF on_store_triple [OF lookup_admission_law]], rule triple_assume, goal_cases)
  case (1 found)
  show ?case
  proof (cases found)
    case (Some r)
    with 1 replay_triple [of r v] show ?thesis by simp
  next
    case None
    show ?thesis
      unfolding None option.case
    proof (rule triple_bindS [OF on_world_triple], simp, simp, goal_cases)
      case (1 ctx)
      show ?case
      proof (cases "admit None c ctx")
        case (Inl f)
        then show ?thesis by (cases f) (auto simp: triple_def)
      next
        case (Inr out)
        then have out: "out = New (admitted_record c)"
          by (auto simp: admit_def admitted_record_def split: if_splits authorization_decision.splits)
        have "triple (fresh v g b (command_operation c) True)
          (bindS (on_store (insert_if_absent port (admitted_record c))) (\<lambda>wr.
             case wr of
               ExistingWrite existing \<Rightarrow> liftS (replay_admission existing c)
             | Inserted stored \<Rightarrow>
                 bindS (liftS (ensure (\<not> stored \<noteq> admitted_record c) DurableAdmissionMismatch)) (\<lambda>_.
                 bindS (transition a stored (Start (owner_for a (writer_fence c)))) (\<lambda>started.
                 execute_started a started (owner_for a (writer_fence c))))))
          (held v g b (command_operation c) True) (going v g b (command_operation c) True)"
        proof (rule triple_bindS [OF insert_triple])
          fix wr
          show "triple (\<lambda>st. case wr of
               Inserted r \<Rightarrow> r = admitted_record c \<and> held v g b (command_operation c) True r st
             | ExistingWrite r \<Rightarrow> r \<in> ran v \<and> fresh v g b (command_operation c) True st)
            (case wr of
               ExistingWrite existing \<Rightarrow> liftS (replay_admission existing c)
             | Inserted stored \<Rightarrow>
                 bindS (liftS (ensure (\<not> stored \<noteq> admitted_record c) DurableAdmissionMismatch)) (\<lambda>_.
                 bindS (transition a stored (Start (owner_for a (writer_fence c)))) (\<lambda>started.
                 execute_started a started (owner_for a (writer_fence c)))))
            (held v g b (command_operation c) True) (going v g b (command_operation c) True)"
          proof (cases wr)
            case (Inserted r)
            have "triple (held v g b (command_operation c) True r)
              (bindS (liftS (ensure (\<not> r \<noteq> admitted_record c) DurableAdmissionMismatch)) (\<lambda>_.
                 bindS (transition a r (Start (owner_for a (writer_fence c)))) (\<lambda>started.
                 execute_started a started (owner_for a (writer_fence c)))))
              (held v g b (command_operation c) True) (going v g b (command_operation c) True)"
              by (intro handler_triples)
            with Inserted show ?thesis
              by (auto simp: triple_def)
          next
            case (ExistingWrite r)
            with replay_triple [of r v g b c] show ?thesis
              by (auto simp: triple_def)
          qed
        qed
        with Inr out show ?thesis
          by (simp add: triple_def)
      qed
    qed
  qed
qed

lemma going_start:
  assumes "actor_ok store_ok view st" "stopped st = b"
  shows "fresh (view (store st)) (gate_open st) b opn create st"
  using assms by (simp add: actor_ok_def ongoing_def)

lemma going_keeps_terminal:
  assumes st': "going v g b opn False st'" and "all_terminal v"
  shows "all_terminal (view (store st'))"
proof -
  have "view (store st') o' = v o'" for o'
  proof (cases "o' = opn \<and> view (store st') opn \<noteq> v opn")
    case True
    with st' obtain r0 r where r: "v opn = Some r0" "view (store st') opn = Some r" "history (Some r0) r"
      by (auto simp: ongoing_def)
    with assms(2) have "r = r0"
      by (auto simp: all_terminal_def ran_def intro: history_terminal)
    with r True show ?thesis by simp
  next
    case False
    with st' show ?thesis by (auto simp: ongoing_def)
  qed
  then have "view (store st') = v" by (rule ext)
  with assms(2) show ?thesis by simp
qed

lemma held_view:
  assumes "held v g b opn create r st"
  shows "view (store st) opn = Some r" "record_operation r = opn"
proof -
  from assms obtain lg where lg: "holds v g b opn create r lg st" ..
  then show "record_operation r = opn"
    by (rule holds_record(1))
  from lg show "view (store st) opn = Some r"
    by (simp add: holding_def)
qed

lemma going_evolves: "going v g b opn create st' \<Longrightarrow> evolves v (view (store st'))"
  by (auto simp: evolves_def ongoing_def)

lemma store_stop [simp]: "store (stop_on_panic res st) = store st"
  by (simp add: stop_on_panic_def)

lemma handle_record_ok:
  assumes m: "\<And>v g b. triple (fresh v g b opn False) m (held v g b opn False) (going v g b opn False)"
    and st: "actor_ok store_ok view st" and run: "handle_record m st = (rp, st')"
  shows "actor_ok store_ok view st' \<and> evolves (view (store st)) (view (store st')) \<and>
    (\<forall>r. rp = RecordReply (Inr r) \<longrightarrow> view (store st') (record_operation r) = Some r)"
proof -
  let ?v = "view (store st)"
  obtain res st1 where m_run: "m st = (res, st1)"
    by fastforce
  with run have out: "rp = RecordReply res" "st' = stop_on_panic res st1"
    by (simp_all add: handle_record_def)
  have post: "case res of Inl _ \<Rightarrow> going ?v (gate_open st) (stopped st) opn False st1
      | Inr r \<Rightarrow> held ?v (gate_open st) (stopped st) opn False r st1"
    by (rule triple_run [OF m going_start [OF st refl] m_run])
  then have going: "going ?v (gate_open st) (stopped st) opn False st1"
    by (auto split: sum.splits dest: holding_ongoing)
  have "view (store st') (record_operation r) = Some r" if "res = Inr r" for r
    using post that held_view [of ?v "gate_open st" "stopped st" opn False r st1] by (simp add: out)
  moreover from going have "\<not> stopped st1 \<and> gate_open st1 \<longrightarrow> all_terminal (view (store st1))"
    using going going_keeps_terminal [OF going] st by (auto simp: ongoing_def actor_ok_def)
  then have "actor_ok store_ok view st'"
    using going by (auto simp: out(2) stop_on_panic_def actor_ok_def ongoing_def)
  ultimately show ?thesis
    using going_evolves [OF going] out by auto
qed

lemma handle_submit_ok:
  assumes st: "actor_ok store_ok view st" "\<not> stopped st" and run: "handle_submit a c st = (rp, st')"
  shows "actor_ok store_ok view st' \<and> evolves (view (store st)) (view (store st')) \<and>
    (\<forall>r. rp = RecordReply (Inr r) \<longrightarrow> view (store st') (record_operation r) = Some r)"
proof (cases "gate_open st")
  case False
  with run have "rp = RecordReply (Inl (Err AdmissionClosedForRecovery))" "st' = st\<lparr>gate_open := False\<rparr>"
    by (simp_all add: handle_submit_def stop_on_panic_def)
  with st show ?thesis
    by (simp add: actor_ok_def)
next
  case True
  let ?v = "view (store st)" and ?opn = "command_operation c"
  obtain res st1 where m_run: "process_submit a c st = (res, st1)"
    by fastforce
  let ?required = "case res of Inr r \<Rightarrow> \<not> is_terminal (state r) | Inl _ \<Rightarrow> True"
  from run True m_run have out: "rp = RecordReply res"
      "st' = stop_on_panic res (if ?required \<and> \<not> panics res then st1\<lparr>gate_open := False\<rparr> else st1)"
    by (simp_all add: handle_submit_def Let_def)
  have post: "case res of Inl _ \<Rightarrow> going ?v True False ?opn True st1
      | Inr r \<Rightarrow> held ?v True False ?opn True r st1"
    by (rule triple_run [OF process_submit_triple _ m_run])
      (use going_start [OF st(1), of False ?opn True] st(2) True in simp)
  then have going: "going ?v True False ?opn True st1"
    by (auto split: sum.splits dest: holding_ongoing)
  have held: "view (store st1) ?opn = Some r" "record_operation r = ?opn" if "res = Inr r" for r
    using post that held_view [of ?v True False ?opn True r st1] by simp_all
  have "all_terminal (view (store st1))" if "res = Inr r" "is_terminal (state r)" for r
    unfolding all_terminal_def
  proof
    fix x
    assume "x \<in> ran (view (store st1))"
    then obtain o' where o': "view (store st1) o' = Some x"
      by (auto simp: ran_def)
    show "is_terminal (state x)"
    proof (cases "o' = ?opn")
      case True
      with o' held [OF that(1)] that show ?thesis by simp
    next
      case False
      with o' going have "?v o' = Some x" by (simp add: ongoing_def)
      with st True show ?thesis by (auto simp: actor_ok_def all_terminal_def ran_def)
    qed
  qed
  then have "actor_ok store_ok view st'"
    using going by (cases res) (auto simp: out(2) stop_on_panic_def actor_ok_def ongoing_def)
  with held going_evolves [OF going] show ?thesis
    by (auto simp: out)
qed

lemma handle_open_admission_ok:
  assumes st: "actor_ok store_ok view st" and run: "handle_open_admission a st = (rp, st')"
  shows "actor_ok store_ok view st' \<and> view (store st') = view (store st) \<and> rp \<noteq> UnitReply (Inl Panic) \<and>
    (if rp = UnitReply (Inr ()) then gate_open st' \<and> all_terminal (view (store st')) else \<not> gate_open st')"
proof -
  obtain res s' where first: "first_nonterminal port (store st) = (res, s')"
    by fastforce
  have "store_ok (store st) \<and> view (store st) = view (store st)"
    using st by (simp add: actor_ok_def)
  from keeps_run [OF first_nonterminal_law this first] run first st show ?thesis
    by (auto simp: handle_open_admission_def on_store_def records_port actor_ok_def returns_def stop_on_panic_def
        recovery_obligation_None_iff [symmetric] Let_def split: sum.splits failure.splits option.splits)
qed

text \<open>A handler other than admission leaves the gate and the set of known operations alone.\<close>

lemma handle_record_frame:
  assumes m: "\<And>v g b. triple (fresh v g b opn False) m (held v g b opn False) (going v g b opn False)"
    and st: "actor_ok store_ok view st" and run: "handle_record m st = (rp, st')"
  shows "gate_open st' = gate_open st \<and> dom (view (store st')) = dom (view (store st))"
proof -
  let ?v = "view (store st)"
  obtain res st1 where m_run: "m st = (res, st1)"
    by fastforce
  with run have out: "st' = stop_on_panic res st1"
    by (simp add: handle_record_def)
  have "case res of Inl _ \<Rightarrow> going ?v (gate_open st) (stopped st) opn False st1
      | Inr r \<Rightarrow> held ?v (gate_open st) (stopped st) opn False r st1"
    by (rule triple_run [OF m going_start [OF st refl] m_run])
  then have going: "going ?v (gate_open st) (stopped st) opn False st1"
    by (auto split: sum.splits dest: holding_ongoing)
  then have "view (store st1) o' = None \<longleftrightarrow> ?v o' = None" for o'
    by (cases "o' = opn") (auto simp: ongoing_def)
  then have "dom (view (store st1)) = dom ?v"
    by (auto simp: dom_def)
  with going show ?thesis
    by (simp add: out stop_on_panic_def ongoing_def)
qed

lemmas record_frames =
  handle_record_frame [OF process_cancel_triple] handle_record_frame [OF process_reconcile_triple]
  handle_record_frame [OF process_retry_triple] handle_record_frame [OF process_resume_precommit_triple]
  handle_record_frame [OF process_mark_interrupted_commit_triple]

lemmas record_handlers =
  handle_record_ok [OF process_cancel_triple] handle_record_ok [OF process_reconcile_triple]
  handle_record_ok [OF process_retry_triple] handle_record_ok [OF process_resume_precommit_triple]
  handle_record_ok [OF process_mark_interrupted_commit_triple]

lemma handle_message_ok:
  assumes "actor_ok store_ok view st" "\<not> stopped st" "handle_message a message st = (rp, st')"
  shows "actor_ok store_ok view st' \<and> evolves (view (store st)) (view (store st')) \<and>
    (\<forall>r. rp = RecordReply (Inr r) \<longrightarrow> view (store st') (record_operation r) = Some r)"
proof (cases message)
  case (Submit c)
  with assms show ?thesis
    using handle_submit_ok by simp
next
  case OpenAdmission
  with assms have "handle_open_admission a st = (rp, st')" by simp
  from handle_open_admission_ok [OF assms(1) this] this show ?thesis
    by (auto simp: handle_open_admission_def Let_def split: prod.splits sum.splits option.splits)
next
  case Shutdown
  with assms show ?thesis
    by (auto simp: actor_ok_def)
qed (use assms record_handlers [OF assms(1)] in simp_all)

lemma actor_run_ok:
  "actor_ok store_ok view st \<Longrightarrow> actor_run a inputs st = (replies, st') \<Longrightarrow>
     actor_ok store_ok view st' \<and> evolves (view (store st)) (view (store st'))"
proof (induction inputs arbitrary: st replies)
  case (Cons input inputs)
  show ?case
  proof (cases input)
    case GateClosed
    with Cons.prems have "actor_ok store_ok view (st\<lparr>gate_open := False\<rparr>)"
        "actor_run a inputs (st\<lparr>gate_open := False\<rparr>) = (replies, st')"
      by (simp_all add: actor_ok_def)
    from Cons.IH [OF this] show ?thesis by simp
  next
    case (Received message)
    show ?thesis
    proof (cases "stopped st")
      case True
      with Received Cons.prems show ?thesis by simp
    next
      case False
      obtain rp st1 where msg: "handle_message a message st = (rp, st1)"
        by fastforce
      obtain rps where rest: "actor_run a inputs st1 = (rps, st')"
        using Cons.prems(2) Received False msg by (auto split: prod.splits)
      from handle_message_ok [OF Cons.prems(1) False msg] Cons.IH [OF _ rest] show ?thesis
        by (auto intro: evolves_trans)
    qed
  qed
qed simp

end

end
