(* ===== verification/CommandJournal.thy ===== *)
theory CommandJournal
  imports CommandPorts
begin

text \<open>
  The SQLite command journal (\<open>src/fabric/command_record_sqlite.rs\<close>): the stored row and its
  codec, the statements over the table, and the operations of the store that the command actor
  uses through the durable command-record port.  The file shows that a row and a record determine
  each other, that every operation keeps the table invariant, and that the store satisfies the
  contract \<open>command_record_port\<close>.

  The table is the list of its rows in primary-key order.  SQLite itself is third-party code: what
  is modelled is the documented effect of each statement, and an oracle decides which calls fail.
  Opening the database (private files, pragmas, schema comparison) and the worker thread with its
  channels are not modelled.
\<close>


section \<open>Rows\<close>

text \<open>
  Canonical JSON is code of the \<open>serde_json\<close> and \<open>serde_json_canonicalizer\<close> packages: a
  parameter of the definitions below.  \<open>to_vec\<close> and \<open>from_slice\<close> return \<open>None\<close> where the package
  returns an error.
\<close>

record record_codec =
  to_vec :: "command_record \<Rightarrow> u8 list option"
  from_slice :: "u8 list \<Rightarrow> command_record option"

text \<open>
  Canonical JSON writes integers as doubles, so the packages keep a record only if its integers
  are at most \<open>2 ^ 53\<close>.  The revision, the writer generations and the source generations are the
  integers of a record that can be wider.
\<close>

definition exact_u64 :: "u64 \<Rightarrow> bool" where
  "exact_u64 n \<longleftrightarrow> n \<le> 2 ^ 53"

fun exact_source :: "source_generation \<Rightarrow> bool" where
  "exact_source (SourceGeneration n) = exact_u64 n"

fun exact_payload :: "fabric_command_payload \<Rightarrow> bool" where
  "exact_payload (PublishSourceWave _ g) = exact_source g"
| "exact_payload _ = True"

fun exact_result :: "command_result \<Rightarrow> bool" where
  "exact_result (SourceWavePublished g _ _) = exact_source g"
| "exact_result _ = True"

fun exact_state :: "durable_command_state \<Rightarrow> bool" where
  "exact_state (Executing _ w) = exact_u64 (owner_generation w)"
| "exact_state (CommitPrepared _ w _) = exact_u64 (owner_generation w)"
| "exact_state (AwaitingReconciliation _ w v _ _ _ _) = (exact_u64 (owner_generation w) \<and> exact_u64 (owner_generation v))"
| "exact_state (RetryReady _ f _) = exact_u64 (fence_generation f)"
| "exact_state (Succeeded _ r _) = exact_result r"
| "exact_state _ = True"

definition exact_integers :: "command_record \<Rightarrow> bool" where
  "exact_integers r \<longleftrightarrow>
     exact_u64 (revision r) \<and> exact_u64 (fence_generation (writer_fence (command r))) \<and>
     exact_source (source_generation (pins (command r))) \<and> exact_payload (payload (command r)) \<and> exact_state (state r)"

text \<open>What the packages promise: a record with exact integers that serialises deserialises to itself.\<close>

definition codec_exact :: "record_codec \<Rightarrow> bool" where
  "codec_exact c \<longleftrightarrow> (\<forall>r bs. exact_integers r \<longrightarrow> to_vec c r = Some bs \<longrightarrow> from_slice c bs = Some r)"

text \<open>
  What the journal relies on: whatever serialises deserialises to itself.  The packages give it on
  the records with exact integers; \<open>encode_record\<close> does not check that it has such a record.
\<close>

definition codec_ok :: "record_codec \<Rightarrow> bool" where
  "codec_ok c \<longleftrightarrow> (\<forall>r bs. to_vec c r = Some bs \<longrightarrow> from_slice c bs = Some r)"

definition exact_part :: "record_codec \<Rightarrow> record_codec" where
  "exact_part c = c\<lparr>to_vec := (\<lambda>r. if exact_integers r then to_vec c r else None)\<rparr>"

lemma exact_part_ok: "codec_exact c \<Longrightarrow> codec_ok (exact_part c)"
  by (simp add: codec_exact_def codec_ok_def exact_part_def)

definition MAX_RECORD_BYTES :: nat where
  "MAX_RECORD_BYTES = 64 * 1024"

fun operation_blob :: "operation_id \<Rightarrow> u8 list" where
  "operation_blob (OperationId b) = be_bytes 16 (unat b)"

fun key_blob :: "idempotency_key \<Rightarrow> u8 list" where
  "key_blob (IdempotencyKey b) = be_bytes 32 (unat b)"

fun workspace_blob :: "workspace_id \<Rightarrow> u8 list" where
  "workspace_blob (WorkspaceId b) = be_bytes 16 (unat b)"

fun state_kind_name :: "command_state_kind \<Rightarrow> string" where
  "state_kind_name KAdmitted = ''ADMITTED''"
| "state_kind_name KExecuting = ''EXECUTING''"
| "state_kind_name KCommitPrepared = ''COMMIT_PREPARED''"
| "state_kind_name KAwaitingReconciliation = ''AWAITING_RECONCILIATION''"
| "state_kind_name KRetryReady = ''RETRY_READY''"
| "state_kind_name KSucceeded = ''SUCCEEDED''"
| "state_kind_name KFailed = ''FAILED''"
| "state_kind_name KCancelled = ''CANCELLED''"

record stored_row =
  row_operation_id :: "u8 list"
  row_idempotency_key :: "u8 list"
  row_workspace_id :: "u8 list"
  row_revision :: "u8 list"
  row_state_kind :: string
  row_is_terminal :: int
  record_jcs :: "u8 list"

text \<open>The \<open>CHECK\<close> constraints of the table.\<close>

definition schema_v1_checks :: "stored_row \<Rightarrow> bool" where
  "schema_v1_checks row \<longleftrightarrow>
     length (row_operation_id row) = 16 \<and>
     length (row_idempotency_key row) = 32 \<and>
     length (row_workspace_id row) = 16 \<and>
     length (row_revision row) = 8 \<and>
     row_state_kind row \<in> set [''ADMITTED'', ''EXECUTING'', ''COMMIT_PREPARED'',
       ''AWAITING_RECONCILIATION'', ''RETRY_READY'', ''SUCCEEDED'', ''FAILED'', ''CANCELLED''] \<and>
     row_is_terminal row \<in> set [0, 1] \<and>
     2 \<le> length (record_jcs row) \<and> length (record_jcs row) \<le> 65536"

definition encode_record :: "record_codec \<Rightarrow> command_record \<Rightarrow> (command_port_error, u8 list) result" where
  "encode_record c r =
     bindE (map_err (\<lambda>_. CorruptRecord) (validate_persisted_invariants r)) (\<lambda>_.
     bindE (ok_or (to_vec c r) CorruptRecord) (\<lambda>bytes.
     bindE (ensure (2 \<le> length bytes \<and> length bytes \<le> MAX_RECORD_BYTES) CorruptRecord) (\<lambda>_.
     Inr bytes)))"

text \<open>The column values both writing statements bind.\<close>

definition record_columns :: "command_record \<Rightarrow> u8 list \<Rightarrow> stored_row" where
  "record_columns r encoded = \<lparr>
     row_operation_id = operation_blob (record_operation r),
     row_idempotency_key = key_blob (record_key r),
     row_workspace_id = workspace_blob (own_workspace_id (ownership (command r))),
     row_revision = to_be_bytes (revision r),
     row_state_kind = state_kind_name (state_kind (state r)),
     row_is_terminal = (if is_terminal (state r) then 1 else 0),
     record_jcs = encoded \<rparr>"

definition decode_row :: "record_codec \<Rightarrow> stored_row \<Rightarrow> (command_port_error, command_record) result" where
  "decode_row c row =
     bindE (ensure (\<not> (length (row_operation_id row) \<noteq> 16 \<or> length (row_idempotency_key row) \<noteq> 32
         \<or> length (row_workspace_id row) \<noteq> 16 \<or> length (row_revision row) \<noteq> 8
         \<or> length (record_jcs row) > MAX_RECORD_BYTES
         \<or> \<not> (row_is_terminal row = 0 \<or> row_is_terminal row = 1))) CorruptRecord) (\<lambda>_.
     bindE (ok_or (from_slice c (record_jcs row)) CorruptRecord) (\<lambda>r.
     bindE (map_err (\<lambda>_. CorruptRecord) (validate_persisted_invariants r)) (\<lambda>_.
     bindE (encode_record c r) (\<lambda>encoded.
     bindE (ensure (encoded = record_jcs row) CorruptRecord) (\<lambda>_.
     let rev' = from_be_bytes (row_revision row) in
     bindE (ensure (\<not> (operation_blob (record_operation r) \<noteq> row_operation_id row
         \<or> key_blob (record_key r) \<noteq> row_idempotency_key row
         \<or> workspace_blob (own_workspace_id (ownership (command r))) \<noteq> row_workspace_id row
         \<or> revision r \<noteq> rev'
         \<or> state_kind_name (state_kind (state r)) \<noteq> row_state_kind row
         \<or> is_terminal (state r) \<noteq> (row_is_terminal row = 1))) CorruptRecord) (\<lambda>_.
     Inr r))))))"


section \<open>The table and its statements\<close>

text \<open>
  The database: the rows in primary-key order, and which of the successive calls into SQLite fail.
  A failed call returns \<open>DurableStoreUnavailable\<close> and leaves the table as it was.
\<close>

record journal =
  rows :: "stored_row list"
  clock :: nat
  faults :: "nat \<Rightarrow> bool"

definition sql_call :: "(journal, command_port_error, unit) prog" where
  "sql_call j = (if faults j (clock j) then Inl (Err DurableStoreUnavailable) else Inr (),
                 j\<lparr>clock := Suc (clock j)\<rparr>)"

definition select_rows :: "(stored_row \<Rightarrow> bool) \<Rightarrow> (journal, command_port_error, stored_row list) prog" where
  "select_rows P = bindS sql_call (\<lambda>_ j. (Inr (filter P (rows j)), j))"

text \<open>\<open>INSERT OR IGNORE\<close>: a row that violates a constraint of the table is skipped.\<close>

definition insert_row :: "stored_row \<Rightarrow> stored_row list \<Rightarrow> stored_row list" where
  "insert_row row rs =
     takeWhile (\<lambda>x. memcmp_less (row_operation_id x) (row_operation_id row)) rs @
     row # dropWhile (\<lambda>x. memcmp_less (row_operation_id x) (row_operation_id row)) rs"

definition violates_unique :: "stored_row \<Rightarrow> stored_row list \<Rightarrow> bool" where
  "violates_unique row rs \<longleftrightarrow> list_ex (\<lambda>x. row_operation_id x = row_operation_id row
     \<or> row_idempotency_key x = row_idempotency_key row) rs"

definition execute_insert_or_ignore :: "stored_row \<Rightarrow> (journal, command_port_error, nat) prog" where
  "execute_insert_or_ignore row = bindS sql_call (\<lambda>_ j.
     if \<not> schema_v1_checks row \<or> violates_unique row (rows j) then (Inr 0, j)
     else (Inr 1, j\<lparr>rows := insert_row row (rows j)\<rparr>))"

text \<open>
  \<open>UPDATE ... WHERE operation_id = ?1 AND revision = ?8\<close>: a violated constraint aborts the
  statement with an error.
\<close>

definition execute_update :: "u8 list \<Rightarrow> u8 list \<Rightarrow> stored_row \<Rightarrow> (journal, command_port_error, nat) prog" where
  "execute_update opn expected row = bindS sql_call (\<lambda>_ j.
     let hit = (\<lambda>x. row_operation_id x = opn \<and> row_revision x = expected);
         kept = filter (\<lambda>x. \<not> hit x) (rows j);
         affected = length (filter hit (rows j))
     in if 0 < affected \<and>
           (\<not> schema_v1_checks row \<or> list_ex (\<lambda>x. row_idempotency_key x = row_idempotency_key row) kept)
        then (Inl (Err DurableStoreUnavailable), j)
        else (Inr affected, j\<lparr>rows := map (\<lambda>x. if hit x then row\<lparr>row_operation_id := row_operation_id x\<rparr>
                                                  else x) (rows j)\<rparr>))"

text \<open>
  An immediate transaction: the body ends with a commit or with an explicit rollback, and an
  early return drops the transaction, which rolls back.
\<close>

datatype 'a transaction_end = CommitWith 'a | RollbackWith 'a

definition transactional ::
  "(journal, command_port_error, 'a transaction_end) prog \<Rightarrow> (journal, command_port_error, 'a) prog" where
  "transactional body = bindS sql_call (\<lambda>_ j.
     case body j of
       (Inl e, j') \<Rightarrow> (Inl e, j'\<lparr>rows := rows j\<rparr>)
     | (Inr (RollbackWith x), j') \<Rightarrow>
         bindS sql_call (\<lambda>_. liftS (Inr x)) (j'\<lparr>rows := rows j\<rparr>)
     | (Inr (CommitWith x), j') \<Rightarrow>
         (case sql_call j' of
            (Inl e, j'') \<Rightarrow> (Inl e, j''\<lparr>rows := rows j\<rparr>)
          | (Inr _, j'') \<Rightarrow> (Inr x, j'')))"


section \<open>Operations\<close>

fun fetch_rows :: "record_codec \<Rightarrow> stored_row list \<Rightarrow> (journal, command_port_error, command_record list) prog" where
  "fetch_rows c [] = bindS sql_call (\<lambda>_. liftS (Inr []))"
| "fetch_rows c (row # rest) =
     bindS sql_call (\<lambda>_.
     bindS (liftS (decode_row c row)) (\<lambda>r.
     bindS (fetch_rows c rest) (\<lambda>rs.
     liftS (Inr (r # rs)))))"

definition lookup_admission_on ::
  "record_codec \<Rightarrow> operation_id \<Rightarrow> idempotency_key \<Rightarrow> (journal, command_port_error, command_record option) prog" where
  "lookup_admission_on c opn key =
     bindS sql_call (\<lambda>_.
     bindS (select_rows (\<lambda>row. row_operation_id row = operation_blob opn
                             \<or> row_idempotency_key row = key_blob key)) (\<lambda>selected.
     bindS (fetch_rows c selected) (\<lambda>records.
     liftS (case records of
        [] \<Rightarrow> Inr None
      | [r] \<Rightarrow> Inr (Some r)
      | _ \<Rightarrow> Inl (Err CorruptRecord)))))"

definition lookup_operation_sync ::
  "record_codec \<Rightarrow> operation_id \<Rightarrow> (journal, command_port_error, command_record option) prog" where
  "lookup_operation_sync c opn =
     bindS (select_rows (\<lambda>row. row_operation_id row = operation_blob opn)) (\<lambda>selected.
     liftS (case selected of
        [] \<Rightarrow> Inr None
      | row # _ \<Rightarrow> bindE (decode_row c row) (\<lambda>r. Inr (Some r))))"

definition insert_record :: "record_codec \<Rightarrow> command_record \<Rightarrow> (journal, command_port_error, nat) prog" where
  "insert_record c r =
     bindS (liftS (encode_record c r)) (\<lambda>encoded.
     execute_insert_or_ignore (record_columns r encoded))"

text \<open>The body of each writing operation, between the start of its transaction and its end.\<close>

definition insert_transaction ::
  "record_codec \<Rightarrow> command_record \<Rightarrow> (journal, command_port_error, durable_admission_write transaction_end) prog" where
  "insert_transaction c admitted =
     bindS (insert_record c admitted) (\<lambda>affected.
     if affected = 1 then liftS (Inr (CommitWith (Inserted admitted)))
     else
       bindS (lookup_admission_on c (record_operation admitted) (record_key admitted)) (\<lambda>found.
       bindS (liftS (ok_or found CorruptRecord)) (\<lambda>existing.
       liftS (Inr (CommitWith (ExistingWrite existing))))))"

definition insert_if_absent_sync ::
  "record_codec \<Rightarrow> command_record \<Rightarrow> (journal, command_port_error, durable_admission_write) prog" where
  "insert_if_absent_sync c admitted =
     bindS (liftS (ensure (\<not> revision admitted \<noteq> 0) CorruptRecord)) (\<lambda>_.
     transactional (insert_transaction c admitted))"

definition swap_transaction ::
  "record_codec \<Rightarrow> reducer_transition \<Rightarrow> u64
     \<Rightarrow> (journal, command_port_error, durable_transition_write transaction_end) prog" where
  "swap_transaction c tr next_revision =
     (let opn = record_operation (predecessor tr);
          expected_revision = revision (predecessor tr)
      in
     bindS (lookup_operation_sync c opn) (\<lambda>observed.
     case observed of
       None \<Rightarrow> liftS (Inr (RollbackWith (RevisionConflict None)))
     | Some current \<Rightarrow>
         if revision current \<noteq> expected_revision
         then liftS (Inr (RollbackWith (RevisionConflict (Some current))))
         else
           bindS (liftS (ensure (\<not> current \<noteq> predecessor tr) CorruptRecord)) (\<lambda>_.
           bindS (liftS (ensure (\<not> (tr_effect tr = IdempotentReplay
               \<or> command (successor tr) \<noteq> command current
               \<or> record_operation (successor tr) \<noteq> opn
               \<or> revision (successor tr) \<noteq> next_revision)) CorruptRecord)) (\<lambda>_.
           bindS (liftS (encode_record c (successor tr))) (\<lambda>encoded.
           bindS (execute_update (operation_blob opn) (to_be_bytes expected_revision)
                    (record_columns (successor tr) encoded)) (\<lambda>affected.
           bindS (liftS (ensure (\<not> affected \<noteq> 1) CorruptRecord)) (\<lambda>_.
           liftS (Inr (CommitWith (Stored (successor tr)))))))))))"

definition compare_and_swap_sync ::
  "record_codec \<Rightarrow> reducer_transition \<Rightarrow> (journal, command_port_error, durable_transition_write) prog" where
  "compare_and_swap_sync c tr =
     bindS (liftS (ok_or (checked_add (revision (predecessor tr)) 1) CorruptRecord)) (\<lambda>next_revision.
     transactional (swap_transaction c tr next_revision))"

datatype command_recovery_page_size = CommandRecoveryPageSize u16

definition page_size_new :: "u16 \<Rightarrow> command_recovery_page_size option" where
  "page_size_new v = (if v \<noteq> 0 \<and> v \<le> 1024 then Some (CommandRecoveryPageSize v) else None)"

fun page_size_get :: "command_recovery_page_size \<Rightarrow> u16" where
  "page_size_get (CommandRecoveryPageSize v) = v"

record command_recovery_page =
  page_records :: "command_record list"
  next_after :: "operation_id option"

fun decode_nonterminal_rows ::
  "record_codec \<Rightarrow> nat \<Rightarrow> command_record list \<Rightarrow> stored_row list
     \<Rightarrow> (journal, command_port_error, command_record list) prog" where
  "decode_nonterminal_rows c target records [] = bindS sql_call (\<lambda>_. liftS (Inr records))"
| "decode_nonterminal_rows c target records (row # rest) =
     bindS sql_call (\<lambda>_.
     bindS (liftS (decode_row c row)) (\<lambda>r.
     if \<not> is_terminal (state r) then
       if length (records @ [r]) = target then liftS (Inr (records @ [r]))
       else decode_nonterminal_rows c target (records @ [r]) rest
     else decode_nonterminal_rows c target records rest))"

definition after_cursor :: "operation_id option \<Rightarrow> stored_row \<Rightarrow> bool" where
  "after_cursor after row = (case after of
     None \<Rightarrow> True
   | Some opn \<Rightarrow> memcmp_less (operation_blob opn) (row_operation_id row))"

definition load_nonterminal_page_sync ::
  "record_codec \<Rightarrow> operation_id option \<Rightarrow> command_recovery_page_size
     \<Rightarrow> (journal, command_port_error, command_recovery_page) prog" where
  "load_nonterminal_page_sync c after page_size =
     bindS sql_call (\<lambda>_.
     bindS (select_rows (after_cursor after)) (\<lambda>selected.
     bindS (decode_nonterminal_rows c (unat (page_size_get page_size) + 1) [] selected) (\<lambda>records.
     let has_more = length records > unat (page_size_get page_size);
         records' = (if has_more then butlast records else records)
     in
     bindS (liftS (if has_more
                   then bindE (expect (if records' = [] then None else Some (last records')))
                          (\<lambda>r. Inr (Some (record_operation r)))
                   else Inr None)) (\<lambda>nxt.
     liftS (Inr \<lparr>page_records = records', next_after = nxt\<rparr>)))))"

text \<open>A request is sent to the worker that owns the connection; a closed channel is an error.\<close>

definition store_request :: "(journal, command_port_error, 'a) prog \<Rightarrow> (journal, command_port_error, 'a) prog" where
  "store_request m = bindS sql_call (\<lambda>_. m)"

definition load_nonterminal_page ::
  "record_codec \<Rightarrow> operation_id option \<Rightarrow> command_recovery_page_size
     \<Rightarrow> (journal, command_port_error, command_recovery_page) prog" where
  "load_nonterminal_page c after page_size = store_request (load_nonterminal_page_sync c after page_size)"

definition first_nonterminal_record ::
  "record_codec \<Rightarrow> (journal, command_port_error, command_record option) prog" where
  "first_nonterminal_record c =
     bindS (liftS (expect (page_size_new 1))) (\<lambda>one.
     bindS (load_nonterminal_page c None one) (\<lambda>page.
     liftS (Inr (case page_records page of [] \<Rightarrow> None | r # _ \<Rightarrow> Some r))))"

definition sqlite_command_record_store :: "record_codec \<Rightarrow> journal durable_command_record_port" where
  "sqlite_command_record_store c = \<lparr>
     lookup_admission = (\<lambda>opn key. store_request (lookup_admission_on c opn key)),
     lookup_operation = (\<lambda>opn. store_request (lookup_operation_sync c opn)),
     insert_if_absent = (\<lambda>r. store_request (insert_if_absent_sync c r)),
     compare_and_swap = (\<lambda>tr. store_request (compare_and_swap_sync c tr)),
     first_nonterminal = first_nonterminal_record c \<rparr>"


section \<open>Rows and records\<close>

lemma blob_lengths [simp]:
  "length (operation_blob opn) = 16" "length (key_blob k) = 32" "length (workspace_blob w) = 16"
  by (cases opn, simp only: operation_blob.simps length_be_bytes,
      cases k, simp only: key_blob.simps length_be_bytes,
      cases w, simp only: workspace_blob.simps length_be_bytes)

lemma operation_blob_inject [simp]: "operation_blob a = operation_blob b \<longleftrightarrow> a = b"
proof (cases a; cases b)
  fix x y
  assume "a = OperationId x" "b = OperationId y"
  then show ?thesis
    by (simp only: operation_blob.simps be_bytes_inject [OF unat_b16_less unat_b16_less]
        operation_id.inject word_unat_eq_iff)
qed

lemma key_blob_inject [simp]: "key_blob a = key_blob b \<longleftrightarrow> a = b"
proof (cases a; cases b)
  fix x y
  assume "a = IdempotencyKey x" "b = IdempotencyKey y"
  then show ?thesis
    by (simp only: key_blob.simps be_bytes_inject [OF unat_b32_less unat_b32_less]
        idempotency_key.inject word_unat_eq_iff)
qed

lemma memcmp_less_operation_blob [simp]:
  "memcmp_less (operation_blob a) (operation_blob b) \<longleftrightarrow> a < b"
proof (cases a; cases b)
  fix x y
  assume ab: "a = OperationId x" "b = OperationId y"
  have "memcmp_less (operation_blob a) (operation_blob b) \<longleftrightarrow> unat x < unat y"
    by (simp only: ab memcmp_less_iff length_be_bytes operation_blob.simps be_value_be_bytes
        mod_less [OF unat_b16_less])
  with ab show ?thesis
    by (simp add: less_operation_id_def word_less_nat_alt)
qed

lemma encode_record_eq_Inr:
  "encode_record c r = Inr bs \<longleftrightarrow> record_ok r \<and> to_vec c r = Some bs \<and>
     2 \<le> length bs \<and> length bs \<le> MAX_RECORD_BYTES"
  by (auto simp: encode_record_def validate_persisted_invariants_iff)

text \<open>A row holds a record when it is exactly what the journal writes for it.\<close>

definition row_of :: "record_codec \<Rightarrow> command_record \<Rightarrow> stored_row \<Rightarrow> bool" where
  "row_of c r row \<longleftrightarrow> encode_record c r = Inr (record_jcs row) \<and> row = record_columns r (record_jcs row)"

lemma decode_row_eq_Inr:
  "decode_row c row = Inr r \<longleftrightarrow> from_slice c (record_jcs row) = Some r \<and> row_of c r row"
proof
  assume dec: "decode_row c row = Inr r"
  then have len: "length (row_revision row) = 8" and slice: "from_slice c (record_jcs row) = Some r"
    and enc: "encode_record c r = Inr (record_jcs row)"
    and cols: "operation_blob (record_operation r) = row_operation_id row"
      "key_blob (record_key r) = row_idempotency_key row"
      "workspace_blob (own_workspace_id (ownership (command r))) = row_workspace_id row"
      "revision r = from_be_bytes (row_revision row)"
      "state_kind_name (state_kind (state r)) = row_state_kind row"
      "is_terminal (state r) = (row_is_terminal row = 1)"
      "row_is_terminal row = 0 \<or> row_is_terminal row = 1"
    by (auto simp: decode_row_def Let_def)
  have "row = record_columns r (record_jcs row)"
    by (rule stored_row.equality)
      (use cols to_from_be_bytes [OF len] in \<open>auto simp: record_columns_def\<close>)
  with slice enc show "from_slice c (record_jcs row) = Some r \<and> row_of c r row"
    by (simp add: row_of_def)
next
  assume asm: "from_slice c (record_jcs row) = Some r \<and> row_of c r row"
  obtain bs where bs: "record_jcs row = bs" by simp
  with asm have enc: "encode_record c r = Inr bs" and row: "row = record_columns r bs"
    by (simp_all add: row_of_def)
  have "validate_persisted_invariants r = Inr ()" "length bs \<le> MAX_RECORD_BYTES"
    using enc by (simp_all add: encode_record_eq_Inr validate_persisted_invariants_iff)
  with asm bs enc show "decode_row c row = Inr r"
    by (simp add: row decode_row_def record_columns_def)
qed

lemma workspace_blob_inject: "workspace_blob a = workspace_blob b \<longleftrightarrow> a = b"
  by (cases a; cases b) (simp only: workspace_blob.simps b16_bytes_def [symmetric] b16_bytes_inject workspace_id.inject)

lemma state_kind_name_inject [simp]: "state_kind_name a = state_kind_name b \<longleftrightarrow> a = b"
  by (cases a; cases b) simp_all

lemma decode_row_iff: "codec_ok c \<Longrightarrow> decode_row c row = Inr r \<longleftrightarrow> row_of c r row"
  by (auto simp: decode_row_eq_Inr row_of_def codec_ok_def encode_record_eq_Inr)

lemma validate_never_panics [simp]: "\<not> panics (validate_persisted_invariants r)"
  by (auto simp: validate_persisted_invariants_def validate_persisted_attempt_def
      validate_minimum_revision_def validate_persisted_execution_fence_def Let_def
      split: durable_command_state.splits)

lemma encode_record_never_panics [simp]: "\<not> panics (encode_record c r)"
  by (simp add: encode_record_def)

lemma decode_row_never_panics [simp]: "\<not> panics (decode_row c row)"
  by (simp add: decode_row_def Let_def)

lemma row_ofD:
  assumes "row_of c r row"
  shows "row_operation_id row = operation_blob (record_operation r)"
    "row_idempotency_key row = key_blob (record_key r)"
    "row_revision row = to_be_bytes (revision r)" "record_ok r"
  using assms by (auto simp: row_of_def record_columns_def encode_record_eq_Inr
      dest: arg_cong [of _ _ row_operation_id] arg_cong [of _ _ row_idempotency_key]
        arg_cong [of _ _ row_revision])

lemma record_columns_checks:
  assumes "encode_record c r = Inr bs"
  shows "schema_v1_checks (record_columns r bs)"
  using assms
  by (cases "state r") (auto simp: schema_v1_checks_def record_columns_def encode_record_eq_Inr
      MAX_RECORD_BYTES_def)

lemma row_of_columns: "encode_record c r = Inr bs \<Longrightarrow> row_of c r (record_columns r bs)"
  by (simp add: row_of_def record_columns_def)


section \<open>The contents of the table\<close>

definition decoded :: "record_codec \<Rightarrow> stored_row \<Rightarrow> command_record option" where
  "decoded c row = (case decode_row c row of Inl _ \<Rightarrow> None | Inr r \<Rightarrow> Some r)"

definition table_records :: "record_codec \<Rightarrow> stored_row list \<Rightarrow> command_record list" where
  "table_records c rs = List.map_filter (decoded c) rs"

definition table_view :: "record_codec \<Rightarrow> stored_row list \<Rightarrow> record_view" where
  "table_view c rs opn = find (\<lambda>r. record_operation r = opn) (table_records c rs)"

abbreviation journal_view :: "record_codec \<Rightarrow> journal \<Rightarrow> record_view" where
  "journal_view c j \<equiv> table_view c (rows j)"

text \<open>
  The table invariant: rows strictly in primary-key order, unique idempotency keys, and every row
  decodes.
\<close>

definition table_ok :: "record_codec \<Rightarrow> stored_row list \<Rightarrow> bool" where
  "table_ok c rs \<longleftrightarrow>
     sorted_wrt (\<lambda>x y. memcmp_less (row_operation_id x) (row_operation_id y)) rs \<and>
     distinct (map row_idempotency_key rs) \<and>
     list_all (\<lambda>row. is_ok (decode_row c row)) rs"

abbreviation journal_ok :: "record_codec \<Rightarrow> journal \<Rightarrow> bool" where
  "journal_ok c j \<equiv> table_ok c (rows j)"

lemma decoded_eq_Some [simp]: "decoded c row = Some r \<longleftrightarrow> decode_row c row = Inr r"
  by (simp add: decoded_def split: sum.split)

lemma table_records_simps [simp]:
  "table_records c [] = []"
  "decode_row c row = Inr r \<Longrightarrow> table_records c (row # rs) = r # table_records c rs"
  by (simp_all add: table_records_def List.map_filter_def decoded_def)

lemma set_table_records: "r \<in> set (table_records c rs) \<longleftrightarrow> (\<exists>row \<in> set rs. decode_row c row = Inr r)"
  by (force simp: table_records_def List.map_filter_def decoded_def split: sum.splits)

lemma sorted_rows_unique:
  assumes "sorted_wrt (\<lambda>x y. memcmp_less (f x) (f y)) rs" "x \<in> set rs" "y \<in> set rs" "f x = f y"
  shows "x = y"
  using assms
proof (induction rs)
  case (Cons a rs)
  then show ?case
    by (metis memcmp_less_irrefl set_ConsD sorted_wrt.simps(2))
qed simp

lemma distinct_map_middle:
  "distinct (map f (us @ y # vs)) \<longleftrightarrow> f y \<notin> f ` set (us @ vs) \<and> distinct (map f (us @ vs))"
  by auto

lemma decode_operation:
  "decode_row c row = Inr r \<Longrightarrow> row_operation_id row = operation_blob (record_operation r)"
  by (auto simp: decode_row_eq_Inr dest: row_ofD)

lemma decode_key:
  "decode_row c row = Inr r \<Longrightarrow> row_idempotency_key row = key_blob (record_key r)"
  by (auto simp: decode_row_eq_Inr dest: row_ofD)

lemma decode_revision:
  "decode_row c row = Inr r \<Longrightarrow> row_revision row = to_be_bytes (revision r)"
  by (auto simp: decode_row_eq_Inr dest: row_ofD)

lemma decode_record_ok: "decode_row c row = Inr r \<Longrightarrow> record_ok r"
  by (auto simp: decode_row_eq_Inr dest: row_ofD)

lemma journal_view_Some_iff:
  assumes "journal_ok c j"
  shows "journal_view c j opn = Some r \<longleftrightarrow>
    (\<exists>row \<in> set (rows j). decode_row c row = Inr r) \<and> record_operation r = opn"
proof -
  have unique: "r1 = r2"
    if "row1 \<in> set (rows j)" "decode_row c row1 = Inr r1" "row2 \<in> set (rows j)"
      "decode_row c row2 = Inr r2" "record_operation r1 = record_operation r2" for row1 row2 r1 r2
  proof -
    from that have "row_operation_id row1 = row_operation_id row2"
      by (simp add: decode_operation)
    with that assms have "row1 = row2"
      by (auto simp: table_ok_def dest: sorted_rows_unique)
    with that show ?thesis by simp
  qed
  show ?thesis
  proof
    assume "journal_view c j opn = Some r"
    then have "r \<in> set (table_records c (rows j))" "record_operation r = opn"
      by (auto simp: table_view_def find_Some_iff)
    then show "(\<exists>row \<in> set (rows j). decode_row c row = Inr r) \<and> record_operation r = opn"
      by (simp add: set_table_records)
  next
    assume r: "(\<exists>row \<in> set (rows j). decode_row c row = Inr r) \<and> record_operation r = opn"
    then have "r \<in> set (table_records c (rows j))"
      by (simp add: set_table_records)
    with r have "find (\<lambda>r. record_operation r = opn) (table_records c (rows j)) \<noteq> None"
      by (auto simp: find_None_iff)
    then obtain r' where r': "journal_view c j opn = Some r'"
      by (auto simp: table_view_def)
    then have "r' \<in> set (table_records c (rows j))" "record_operation r' = opn"
      by (auto simp: table_view_def find_Some_iff)
    with r unique have "r' = r"
      by (auto simp: set_table_records)
    with r' show "journal_view c j opn = Some r" by simp
  qed
qed

lemma ran_journal_view:
  "journal_ok c j \<Longrightarrow> r \<in> ran (journal_view c j) \<longleftrightarrow> (\<exists>row \<in> set (rows j). decode_row c row = Inr r)"
  by (auto simp: ran_def journal_view_Some_iff)

lemma journal_row_decodes: "journal_ok c j \<Longrightarrow> row \<in> set (rows j) \<Longrightarrow> \<exists>r. decode_row c row = Inr r"
  by (auto simp: table_ok_def list_all_iff is_ok_iff)

lemma journal_view_ok: "journal_ok c j \<Longrightarrow> view_ok (journal_view c j)"
  unfolding view_ok_def
proof (intro conjI allI impI)
  fix o' r
  assume "journal_ok c j" "journal_view c j o' = Some r"
  then show "record_operation r = o'" "record_ok r"
    by (auto simp: journal_view_Some_iff dest: decode_record_ok)
next
  fix o1 o2 r1 r2
  assume ok: "journal_ok c j" and views: "journal_view c j o1 = Some r1" "journal_view c j o2 = Some r2"
    and keys: "record_key r1 = record_key r2"
  then obtain row1 row2 where rws: "row1 \<in> set (rows j)" "decode_row c row1 = Inr r1"
      "row2 \<in> set (rows j)" "decode_row c row2 = Inr r2"
    by (auto simp: journal_view_Some_iff)
  with keys have "row_idempotency_key row1 = row_idempotency_key row2"
    by (simp add: decode_key)
  with ok rws have "row1 = row2"
    by (auto simp: table_ok_def distinct_map dest: inj_onD)
  with rws views ok show "o1 = o2"
    by (auto simp: journal_view_Some_iff)
qed

lemma journal_insert:
  assumes cod: "codec_ok c" and ok: "journal_ok c j" and enc: "encode_record c r = Inr bs"
    and fresh: "\<not> violates_unique (record_columns r bs) (rows j)"
    and j': "rows j' = insert_row (record_columns r bs) (rows j)"
  shows "journal_ok c j'" and "journal_view c j' = (journal_view c j)(record_operation r \<mapsto> r)"
proof -
  let ?row = "record_columns r bs"
  have set': "set (rows j') = insert ?row (set (rows j))"
    using set_takeWhile_dropWhile [of "\<lambda>x. memcmp_less (row_operation_id x) (row_operation_id ?row)" "rows j"]
    by (auto simp: j' insert_row_def)
  have dec: "decode_row c ?row = Inr r"
    using enc cod by (simp add: decode_row_iff row_of_columns)
  have fresh': "row_operation_id x \<noteq> row_operation_id ?row"
      "row_idempotency_key x \<noteq> row_idempotency_key ?row" if "x \<in> set (rows j)" for x
    using fresh that by (auto simp: violates_unique_def list_ex_iff)
  have "sorted_wrt (\<lambda>x y. memcmp_less (row_operation_id x) (row_operation_id y)) (rows j')"
    unfolding j' insert_row_def
  proof (rule sorted_wrt_insert)
    show "sorted_wrt (\<lambda>x y. memcmp_less (row_operation_id x) (row_operation_id y)) (rows j)"
      using ok by (simp add: table_ok_def)
  qed (auto intro: memcmp_less_trans dest: fresh' memcmp_less_total)
  moreover have "distinct (map row_idempotency_key (rows j'))"
  proof -
    have "row_idempotency_key ?row \<notin> row_idempotency_key ` set (rows j)"
      using fresh by (auto simp: violates_unique_def list_ex_iff)
    with ok show ?thesis
      unfolding j' insert_row_def distinct_map_middle by (simp add: table_ok_def)
  qed
  moreover have "list_all (\<lambda>row. is_ok (decode_row c row)) (rows j')"
    using ok dec by (simp add: table_ok_def list_all_iff set' is_ok_iff)
  ultimately show ok': "journal_ok c j'"
    by (simp add: table_ok_def)
  show "journal_view c j' = (journal_view c j)(record_operation r \<mapsto> r)"
  proof (rule ext, rule option_eq_by_Some)
    fix opn x
    have "record_operation x \<noteq> record_operation r" if "row \<in> set (rows j)" "decode_row c row = Inr x" for row
      using fresh'(1) [OF that(1)] that(2) dec by (simp add: decode_operation)
    then show "journal_view c j' opn = Some x \<longleftrightarrow>
        ((journal_view c j)(record_operation r \<mapsto> r)) opn = Some x"
      using ok ok' dec by (auto simp: journal_view_Some_iff set')
  qed
qed

lemma journal_update:
  assumes cod: "codec_ok c" and ok: "journal_ok c j" and enc: "encode_record c r = Inr bs"
    and old: "journal_view c j (record_operation r) = Some r0"
    and key: "record_key r = record_key r0"
    and j': "rows j' = map (\<lambda>x. if row_operation_id x = operation_blob (record_operation r) \<and>
          row_revision x = to_be_bytes (revision r0)
        then (record_columns r bs)\<lparr>row_operation_id := row_operation_id x\<rparr> else x) (rows j)"
  shows "journal_ok c j'" and "journal_view c j' = (journal_view c j)(record_operation r \<mapsto> r)"
proof -
  let ?row = "record_columns r bs"
  obtain row0 where row0: "row0 \<in> set (rows j)" "decode_row c row0 = Inr r0"
      and op0: "record_operation r0 = record_operation r"
    using old ok by (auto simp: journal_view_Some_iff)
  have row_op: "row_operation_id ?row = operation_blob (record_operation r)"
    by (simp add: record_columns_def)
  define g where "g x = (if x = row0 then ?row else x)" for x
  have hit: "row_operation_id x = operation_blob (record_operation r) \<and>
      row_revision x = to_be_bytes (revision r0) \<longleftrightarrow> x = row0" if "x \<in> set (rows j)" for x
    using sorted_rows_unique [of row_operation_id "rows j" x row0] that row0 op0 ok
    by (auto simp: table_ok_def decode_operation decode_revision)
  have rows': "rows j' = map g (rows j)"
  proof -
    have "?row\<lparr>row_operation_id := row_operation_id row0\<rparr> = ?row"
      using row0 op0 by (simp add: record_columns_def decode_operation)
    with hit show ?thesis
      unfolding j' by (intro map_cong) (auto simp: g_def)
  qed
  have dec: "decode_row c ?row = Inr r"
    using enc cod by (simp add: decode_row_iff row_of_columns)
  have g_op: "row_operation_id (g x) = row_operation_id x" for x
    using row0 op0 row_op by (simp add: g_def decode_operation)
  have g_key: "row_idempotency_key (g x) = row_idempotency_key x" for x
    using row0 key dec by (simp add: g_def decode_key)
  have "\<exists>x. decode_row c (g row) = Inr x" if "row \<in> set (rows j)" for row
    using journal_row_decodes [OF ok that] dec by (auto simp: g_def)
  then show ok': "journal_ok c j'"
    using ok by (auto simp: table_ok_def rows' sorted_wrt_map g_op g_key comp_def list_all_iff is_ok_iff)
  have others: "record_operation x \<noteq> record_operation r"
    if "row \<in> set (rows j)" "decode_row c row = Inr x" "row \<noteq> row0" for row x
    using sorted_rows_unique [of row_operation_id "rows j" row row0] that row0 op0 ok
    by (auto simp: table_ok_def decode_operation)
  show "journal_view c j' = (journal_view c j)(record_operation r \<mapsto> r)"
  proof (rule ext, rule option_eq_by_Some)
    fix opn x
    have "(\<exists>row \<in> set (rows j'). decode_row c row = Inr x) \<longleftrightarrow>
        x = r \<or> (\<exists>row \<in> set (rows j). row \<noteq> row0 \<and> decode_row c row = Inr x)"
      using row0 dec by (auto simp: rows' g_def)
    moreover have "(\<exists>row \<in> set (rows j). row \<noteq> row0 \<and> decode_row c row = Inr x) \<longleftrightarrow>
        (\<exists>row \<in> set (rows j). decode_row c row = Inr x) \<and> record_operation x \<noteq> record_operation r"
      using row0 op0 others by (metis Inr_inject)
    ultimately show "journal_view c j' opn = Some x \<longleftrightarrow>
        ((journal_view c j)(record_operation r \<mapsto> r)) opn = Some x"
      using ok ok' by (auto simp: journal_view_Some_iff)
  qed
qed

lemma journal_update_affected:
  assumes ok: "journal_ok c j" and old: "journal_view c j opn = Some r0"
  shows "filter (\<lambda>x. row_operation_id x = operation_blob opn \<and> row_revision x = to_be_bytes (revision r0))
     (rows j) \<noteq> []"
  using assms by (auto simp: journal_view_Some_iff filter_empty_conv dest: decode_operation decode_revision)



section \<open>Laws of the operations\<close>

abbreviation same_rows :: "stored_row list \<Rightarrow> journal \<Rightarrow> bool" where
  "same_rows rs j \<equiv> rows j = rs"

lemma sql_call_keeps: "keeps (same_rows rs) sql_call (\<lambda>_. True)"
  by (auto simp: keeps_def wp_def sql_call_def)

lemma select_rows_keeps: "keeps (same_rows rs) (select_rows P) (\<lambda>x. x = filter P rs)"
  unfolding select_rows_def
  by (rule keeps_bindS [OF sql_call_keeps]) (simp add: keeps_def wp_def)

lemma returns_decode_row: "returns (\<lambda>r. decode_row c row = Inr r) (decode_row c row)"
  using decode_row_never_panics [of c row] by (auto simp: returns_iff)

lemma fetch_rows_keeps:
  "keeps (same_rows rs) (fetch_rows c sel) (list_all2 (\<lambda>row r. decode_row c row = Inr r) sel)"
proof (induction sel)
  case Nil
  show ?case
    unfolding fetch_rows.simps
    by (rule keeps_bindS [OF sql_call_keeps]) (simp add: keeps_liftS)
next
  case (Cons row sel)
  show ?case
    unfolding fetch_rows.simps
    by (intro keeps_bindS [OF sql_call_keeps] keeps_bindS [OF keeps_liftS [OF returns_decode_row]]
        keeps_bindS [OF Cons.IH]) (simp add: keeps_liftS)
qed

lemma lookup_operation_keeps:
  assumes "journal_ok c j"
  shows "keeps (same_rows (rows j)) (lookup_operation_sync c opn) (\<lambda>x. x = journal_view c j opn)"
  unfolding lookup_operation_sync_def
proof (rule keeps_bindS [OF select_rows_keeps], rule keeps_liftS)
  fix sel
  assume sel: "sel = filter (\<lambda>row. row_operation_id row = operation_blob opn) (rows j)"
  show "returns (\<lambda>x. x = journal_view c j opn)
    (case sel of [] \<Rightarrow> Inr None | row # _ \<Rightarrow> bindE (decode_row c row) (\<lambda>r. Inr (Some r)))"
  proof (cases sel)
    case Nil
    with sel have "journal_view c j opn \<noteq> Some r" for r
      using assms by (auto simp: journal_view_Some_iff filter_empty_conv dest!: sym [of "[]"]
          dest: decode_operation)
    then have "journal_view c j opn = None"
      by auto
    with Nil show ?thesis by simp
  next
    case (Cons row rest)
    with sel have "row \<in> set (filter (\<lambda>row. row_operation_id row = operation_blob opn) (rows j))"
      by (metis list.set_intros(1))
    then have row: "row \<in> set (rows j)" "row_operation_id row = operation_blob opn"
      by simp_all
    then obtain r where r: "decode_row c row = Inr r"
      using assms journal_row_decodes by blast
    with row have "record_operation r = opn"
      using decode_operation [OF r] by simp
    with row r have "journal_view c j opn = Some r"
      using assms by (auto simp: journal_view_Some_iff)
    with Cons r show ?thesis by simp
  qed
qed

lemma lookup_admission_keeps:
  assumes "journal_ok c j"
  shows "keeps (same_rows (rows j)) (lookup_admission_on c opn key)
    (\<lambda>x. case x of None \<Rightarrow> admission_free opn key (journal_view c j)
           | Some r \<Rightarrow> r \<in> ran (journal_view c j) \<and> admission_match opn key r)"
  unfolding lookup_admission_on_def
proof (rule keeps_bindS [OF sql_call_keeps], rule keeps_bindS [OF select_rows_keeps],
    rule keeps_bindS [OF fetch_rows_keeps], rule keeps_liftS)
  fix sel xs
  assume sel: "sel = filter (\<lambda>row. row_operation_id row = operation_blob opn
      \<or> row_idempotency_key row = key_blob key) (rows j)"
    and xs: "list_all2 (\<lambda>row r. decode_row c row = Inr r) sel xs"
  have all: "\<forall>row \<in> set (rows j). \<forall>r. decode_row c row = Inr r \<longrightarrow> admission_match opn key r \<longrightarrow> row \<in> set sel"
    by (auto simp: sel admission_match_def dest: decode_operation decode_key)
  have one: "r \<in> ran (journal_view c j) \<and> admission_match opn key r"
    if "row \<in> set sel" "decode_row c row = Inr r" for row r
    using that assms by (auto simp: sel ran_journal_view admission_match_def
        dest: decode_operation decode_key)
  show "returns (\<lambda>x. case x of None \<Rightarrow> admission_free opn key (journal_view c j)
       | Some r \<Rightarrow> r \<in> ran (journal_view c j) \<and> admission_match opn key r)
     (case xs of [] \<Rightarrow> Inr None | [r] \<Rightarrow> Inr (Some r) | _ \<Rightarrow> Inl (Err CorruptRecord))"
  proof (cases xs)
    case Nil
    with xs have "sel = []" by simp
    with all assms have "admission_free opn key (journal_view c j)"
      by (fastforce simp: admission_free_def ran_journal_view admission_match_def)
    with Nil show ?thesis by simp
  next
    case (Cons r rest)
    with xs obtain row where "row \<in> set sel" "decode_row c row = Inr r"
      by (fastforce simp: list_all2_Cons2)
    with Cons one show ?thesis
      by (simp split: list.split)
  qed
qed

lemma wp_sql_call:
  assumes "\<And>j'. rows j' = rows j \<Longrightarrow> Q (Inl (Err DurableStoreUnavailable)) j'"
    and "\<And>j'. rows j' = rows j \<Longrightarrow> Q (Inr ()) j'"
  shows "wp sql_call Q j"
  using assms by (simp add: wp_def sql_call_def)

lemma wp_transactional:
  assumes unavailable: "\<And>j'. rows j' = rows j \<Longrightarrow> Q (Inl (Err DurableStoreUnavailable)) j'"
    and body: "\<And>j0. rows j0 = rows j \<Longrightarrow> wp body (\<lambda>res j1.
        case res of
          Inl e \<Rightarrow> \<forall>j'. rows j' = rows j \<longrightarrow> Q (Inl e) j'
        | Inr (RollbackWith x) \<Rightarrow> \<forall>j'. rows j' = rows j \<longrightarrow> Q (Inr x) j'
        | Inr (CommitWith x) \<Rightarrow> \<forall>j'. rows j' = rows j1 \<longrightarrow> Q (Inr x) j') j0"
  shows "wp (transactional body) Q j"
proof -
  let ?j0 = "j\<lparr>clock := Suc (clock j)\<rparr>"
  obtain res j1 where run: "body ?j0 = (res, j1)"
    by fastforce
  with body [of ?j0] unavailable show ?thesis
    by (auto simp: transactional_def wp_def sql_call_def bindS_def
        split: sum.splits transaction_end.splits)
qed

lemma wp_execute_insert_or_ignore:
  assumes "\<And>j'. rows j' = rows j \<Longrightarrow> Q (Inl (Err DurableStoreUnavailable)) j'"
    and "\<And>j'. rows j' = rows j \<Longrightarrow> \<not> schema_v1_checks row \<or> violates_unique row (rows j) \<Longrightarrow> Q (Inr 0) j'"
    and "\<And>j'. rows j' = insert_row row (rows j) \<Longrightarrow> \<not> violates_unique row (rows j) \<Longrightarrow> Q (Inr 1) j'"
  shows "wp (execute_insert_or_ignore row) Q j"
  using assms by (simp add: execute_insert_or_ignore_def bindS_def sql_call_def wp_def)

lemma insert_transaction_law:
  assumes ok: "journal_ok c j" and j0: "rows j0 = rows j"
  shows "wp (insert_transaction c r) (\<lambda>res j1. case res of
      Inl e \<Rightarrow> e \<noteq> Panic
    | Inr (RollbackWith _) \<Rightarrow> False
    | Inr (CommitWith (Inserted r')) \<Rightarrow> r' = r \<and> (\<exists>bs. encode_record c r = Inr bs \<and>
        \<not> violates_unique (record_columns r bs) (rows j) \<and>
        rows j1 = insert_row (record_columns r bs) (rows j))
    | Inr (CommitWith (ExistingWrite r')) \<Rightarrow> rows j1 = rows j \<and> r' \<in> ran (journal_view c j) \<and>
        admission_match (record_operation r) (record_key r) r') j0" (is "wp _ ?Q j0")
proof (cases "encode_record c r")
  case (Inl e)
  with encode_record_never_panics [of c r] show ?thesis
    by (simp add: insert_transaction_def insert_record_def panics_def)
next
  case (Inr bs)
  show ?thesis
    unfolding insert_transaction_def insert_record_def wp_bindS wp_liftS Inr sum.case
  proof (rule wp_execute_insert_or_ignore, goal_cases)
    case (2 j')
    with j0 have j': "rows j' = rows j" by simp
    show ?case
      by (simp only: sum.case wp_bindS if_False zero_neq_one,
          rule wp_keeps [OF lookup_admission_keeps [OF ok] j'])
        (auto simp: returns_def split: sum.splits failure.splits option.splits)
  qed (use j0 Inr in auto)
qed

lemma insert_if_absent_sync_law:
  assumes cod: "codec_ok c" and ok: "journal_ok c j"
  shows "wp (insert_if_absent_sync c r) (\<lambda>res j'. journal_ok c j' \<and> \<not> panics res \<and>
     (case res of
        Inr (Inserted r') \<Rightarrow> r' = r \<and> revision r = 0 \<and>
          admission_free (record_operation r) (record_key r) (journal_view c j) \<and>
          journal_view c j' = (journal_view c j)(record_operation r \<mapsto> r)
      | Inr (ExistingWrite r') \<Rightarrow> journal_view c j' = journal_view c j \<and> r' \<in> ran (journal_view c j) \<and>
          admission_match (record_operation r) (record_key r) r'
      | Inl _ \<Rightarrow> journal_view c j' = journal_view c j)) j" (is "wp _ ?post j")
proof (cases "revision r = 0")
  case False
  with ok show ?thesis
    by (simp add: insert_if_absent_sync_def)
next
  case rev0: True
  have inserted: "?post (Inr (Inserted r)) j'"
    if "encode_record c r = Inr bs" "\<not> violates_unique (record_columns r bs) (rows j)"
      "rows j' = insert_row (record_columns r bs) (rows j)" for bs j'
  proof -
    have "admission_free (record_operation r) (record_key r) (journal_view c j)"
      unfolding admission_free_def
    proof
      fix r'
      assume "r' \<in> ran (journal_view c j)"
      then obtain row where row: "row \<in> set (rows j)" "decode_row c row = Inr r'"
        using ok by (auto simp: ran_journal_view)
      with that(2) have "row_operation_id row \<noteq> operation_blob (record_operation r)"
          "row_idempotency_key row \<noteq> key_blob (record_key r)"
        by (auto simp: violates_unique_def list_ex_iff record_columns_def)
      with row show "record_operation r' \<noteq> record_operation r \<and> record_key r' \<noteq> record_key r"
        by (simp add: decode_operation decode_key)
    qed
    with journal_insert [OF cod ok that] rev0 show ?thesis
      by simp
  qed
  show ?thesis
    unfolding insert_if_absent_sync_def wp_bindS wp_liftS
  proof (simp only: rev0 simp_thms ensure_simps sum.case, rule wp_transactional, goal_cases)
    case (1 j')
    with ok show ?case by simp
  next
    case (2 j0)
    show ?case
    proof (rule wp_mono [OF insert_transaction_law [OF ok 2]], goal_cases)
      case (1 res j1)
      then show ?case
        using ok inserted
        by (auto simp: panics_def split: sum.splits transaction_end.splits durable_admission_write.splits)
    qed
  qed
qed

lemma wp_execute_update:
  assumes "\<And>j'. rows j' = rows j \<Longrightarrow> Q (Inl (Err DurableStoreUnavailable)) j'"
    and "\<And>j'. rows j' = map (\<lambda>x. if row_operation_id x = opn \<and> row_revision x = expected
           then row\<lparr>row_operation_id := row_operation_id x\<rparr> else x) (rows j) \<Longrightarrow>
         Q (Inr (length (filter (\<lambda>x. row_operation_id x = opn \<and> row_revision x = expected) (rows j)))) j'"
  shows "wp (execute_update opn expected row) Q j"
  using assms by (simp add: execute_update_def bindS_def sql_call_def wp_def Let_def)

abbreviation swapped :: "record_codec \<Rightarrow> reducer_transition \<Rightarrow> stored_row list \<Rightarrow> stored_row list \<Rightarrow> bool" where
  "swapped c tr rs rs' \<equiv>
     table_view c rs (record_operation (predecessor tr)) = Some (predecessor tr) \<and>
     command (successor tr) = command (predecessor tr) \<and>
     table_ok c rs' \<and>
     table_view c rs' = (table_view c rs)(record_operation (predecessor tr) \<mapsto> successor tr)"

lemma swap_transaction_law:
  assumes cod: "codec_ok c" and ok: "journal_ok c j" and j0: "rows j0 = rows j"
  shows "wp (swap_transaction c tr n) (\<lambda>res j1. case res of
      Inl e \<Rightarrow> e \<noteq> Panic
    | Inr (RollbackWith w) \<Rightarrow> (\<exists>x. w = RevisionConflict x \<and>
        x = journal_view c j (record_operation (predecessor tr)) \<and>
        (\<forall>r. x = Some r \<longrightarrow> revision r \<noteq> revision (predecessor tr)))
    | Inr (CommitWith w) \<Rightarrow> w = Stored (successor tr) \<and> revision (successor tr) = n \<and>
        swapped c tr (rows j) (rows j1)) j0" (is "wp _ ?Q j0")
  unfolding swap_transaction_def Let_def wp_bindS
proof (rule wp_keeps [OF lookup_operation_keeps [OF ok] j0], goal_cases)
  case (1 res j1)
  show ?case
  proof (cases res)
    case (Inl e)
    with 1 show ?thesis by (cases e) simp_all
  next
    case (Inr observed)
    with 1 have observed: "observed = journal_view c j (record_operation (predecessor tr))"
      by simp
    show ?thesis
    proof (cases "observed = Some (predecessor tr) \<and> tr_effect tr \<noteq> IdempotentReplay \<and>
        command (successor tr) = command (predecessor tr) \<and> revision (successor tr) = n")
      case False
      with Inr observed show ?thesis
        by (auto simp: ensure_def split: option.split)
    next
      case True
      note pred = this
      show ?thesis
      proof (cases "encode_record c (successor tr)")
        case (Inl e)
        with pred \<open>res = Inr observed\<close> encode_record_never_panics [of c "successor tr"] show ?thesis
          by (simp add: panics_def)
      next
        case (Inr bs)
        have upd: "swapped c tr (rows j) (rows j')"
          if "rows j' = map (\<lambda>x. if row_operation_id x = operation_blob (record_operation (predecessor tr)) \<and>
              row_revision x = to_be_bytes (revision (predecessor tr))
            then (record_columns (successor tr) bs)\<lparr>row_operation_id := row_operation_id x\<rparr> else x) (rows j)" for j' :: journal
          using journal_update [OF cod ok Inr, of "predecessor tr" j'] that pred observed by simp
        from Inr pred \<open>res = Inr observed\<close> show ?thesis
          by simp (rule wp_execute_update; use 1 upd in \<open>simp split: sum.split\<close>)
      qed
    qed
  qed
qed

lemma compare_and_swap_sync_law:
  assumes cod: "codec_ok c" and ok: "journal_ok c j"
  shows "wp (compare_and_swap_sync c tr) (\<lambda>res j'. journal_ok c j' \<and> \<not> panics res \<and>
     (case res of
        Inr (Stored r') \<Rightarrow> r' = successor tr \<and>
          journal_view c j (record_operation (predecessor tr)) = Some (predecessor tr) \<and>
          command (successor tr) = command (predecessor tr) \<and>
          unat (revision (successor tr)) = Suc (unat (revision (predecessor tr))) \<and>
          journal_view c j' = (journal_view c j)(record_operation (predecessor tr) \<mapsto> successor tr)
      | Inr (RevisionConflict x) \<Rightarrow> journal_view c j' = journal_view c j \<and>
          x = journal_view c j (record_operation (predecessor tr)) \<and>
          (\<forall>r. x = Some r \<longrightarrow> revision r \<noteq> revision (predecessor tr))
      | Inl _ \<Rightarrow> journal_view c j' = journal_view c j)) j"
proof (cases "checked_add (revision (predecessor tr)) 1")
  case None
  with ok show ?thesis
    by (simp add: compare_and_swap_sync_def)
next
  case (Some n)
  then have n: "unat n = Suc (unat (revision (predecessor tr)))"
    by (simp add: checked_add_Some_iff)
  show ?thesis
    unfolding compare_and_swap_sync_def wp_bindS wp_liftS Some ok_or_simps sum.case
  proof (rule wp_transactional, goal_cases)
    case (1 j')
    with ok show ?case by simp
  next
    case (2 j0)
    show ?case
      by (rule wp_mono [OF swap_transaction_law [OF cod ok 2]])
        (use ok n in \<open>auto simp: panics_def split: sum.splits transaction_end.splits\<close>)
  qed
qed


section \<open>Recovery pages\<close>

abbreviation pending :: "command_record \<Rightarrow> bool" where
  "pending r \<equiv> \<not> is_terminal (state r)"

definition pending_after :: "record_codec \<Rightarrow> journal \<Rightarrow> operation_id option \<Rightarrow> command_record list" where
  "pending_after c j after =
     filter (\<lambda>r. pending r \<and> (case after of None \<Rightarrow> True | Some opn \<Rightarrow> opn < record_operation r))
       (table_records c (rows j))"

lemma decode_nonterminal_rows_keeps:
  assumes "length records < target"
    and "list_all (\<lambda>row. is_ok (decode_row c row)) sel"
  shows "keeps (same_rows rs) (decode_nonterminal_rows c target records sel)
    (\<lambda>xs. xs = take target (records @ filter pending (table_records c sel)))"
  using assms
proof (induction sel arbitrary: records)
  case Nil
  then show ?case
    unfolding decode_nonterminal_rows.simps
    by (intro keeps_bindS [OF sql_call_keeps] keeps_liftS) simp
next
  case (Cons row sel)
  then obtain r where r: "decode_row c row = Inr r"
    by (auto simp: is_ok_iff)
  show ?case
    unfolding decode_nonterminal_rows.simps
  proof (rule keeps_bindS [OF sql_call_keeps], rule keeps_bindS [OF keeps_liftS [OF returns_decode_row]])
    fix r'
    assume "decode_row c row = Inr r'"
    with r have [simp]: "r' = r" by simp
    have more: "keeps (same_rows rs) (decode_nonterminal_rows c target (records @ [r]) sel)
        (\<lambda>xs. xs = take target (records @ filter pending (table_records c (row # sel))))"
      if "pending r" "Suc (length records) \<noteq> target"
      using Cons.IH [of "records @ [r]"] Cons.prems that r by simp
    have skip: "keeps (same_rows rs) (decode_nonterminal_rows c target records sel)
        (\<lambda>xs. xs = take target (records @ filter pending (table_records c (row # sel))))"
      if "is_terminal (state r)"
      using Cons.IH [of records] Cons.prems that r by simp
    show "keeps (same_rows rs)
      (if pending r' then
         if length (records @ [r']) = target then liftS (Inr (records @ [r']))
         else decode_nonterminal_rows c target (records @ [r']) sel
       else decode_nonterminal_rows c target records sel)
      (\<lambda>xs. xs = take target (records @ filter pending (table_records c (row # sel))))"
      using more skip r by (auto intro!: keeps_liftS)
  qed
qed

lemma pending_after_filter:
  assumes "journal_ok c j"
  shows "filter pending (table_records c (filter (after_cursor after) (rows j))) = pending_after c j after"
proof -
  have "filter pending (table_records c (filter (after_cursor after) rs)) =
      filter (\<lambda>r. pending r \<and> (case after of None \<Rightarrow> True | Some opn \<Rightarrow> opn < record_operation r))
        (table_records c rs)" if "list_all (\<lambda>row. is_ok (decode_row c row)) rs" for rs
    using that
  proof (induction rs)
    case Nil
    then show ?case by simp
  next
    case (Cons row rs)
    then obtain r where "decode_row c row = Inr r"
      by (auto simp: is_ok_iff)
    with Cons show ?case
      by (simp add: after_cursor_def decode_operation split: option.split)
  qed
  with assms show ?thesis
    by (simp add: table_ok_def pending_after_def)
qed

lemma load_nonterminal_page_keeps:
  assumes ok: "journal_ok c j" and size: "page_size_get p \<noteq> 0"
  shows "keeps (same_rows (rows j)) (load_nonterminal_page c after p)
    (\<lambda>page. let todo = pending_after c j after; n = unat (page_size_get p) in
       page_records page = take n todo \<and>
       next_after page = (if n < length todo then Some (record_operation (todo ! (n - 1))) else None))"
  unfolding load_nonterminal_page_def store_request_def load_nonterminal_page_sync_def
proof (rule keeps_bindS [OF sql_call_keeps], rule keeps_bindS [OF sql_call_keeps],
    rule keeps_bindS [OF select_rows_keeps], rule keeps_bindS)
  fix sel
  let ?n = "unat (page_size_get p)"
  let ?todo = "pending_after c j after"
  assume sel: "sel = filter (after_cursor after) (rows j)"
  then have "list_all (\<lambda>row. is_ok (decode_row c row)) sel"
    using ok by (auto simp: table_ok_def list_all_iff)
  then show "keeps (same_rows (rows j)) (decode_nonterminal_rows c (?n + 1) [] sel)
      (\<lambda>xs. xs = take (?n + 1) ?todo)"
    using decode_nonterminal_rows_keeps [of "[]" "?n + 1" c sel "rows j"] pending_after_filter [OF ok, of after] sel
    by simp
next
  fix records :: "command_record list"
  let ?n = "unat (page_size_get p)"
  let ?todo = "pending_after c j after"
  assume records: "records = take (?n + 1) ?todo"
  have n: "0 < ?n"
    using size by (simp add: unat_gt_0)
  show "keeps (same_rows (rows j))
     (let has_more = ?n < length records; records' = if has_more then butlast records else records
      in bindS (liftS (if has_more
              then bindE (expect (if records' = [] then None else Some (last records')))
                     (\<lambda>r. Inr (Some (record_operation r)))
              else Inr None))
           (\<lambda>nxt. liftS (Inr \<lparr>page_records = records', next_after = nxt\<rparr>)))
     (\<lambda>page. let todo = ?todo; n = ?n in
        page_records page = take n todo \<and>
        next_after page = (if n < length todo then Some (record_operation (todo ! (n - 1))) else None))"
  proof (cases "?n < length ?todo")
    case True
    then have "butlast records = take ?n ?todo" "?n < length records"
      by (simp_all add: records butlast_take_Suc)
    moreover have "take ?n ?todo \<noteq> []" "last (take ?n ?todo) = ?todo ! (?n - 1)"
      using True n by (auto simp: last_take)
    ultimately show ?thesis
      using True by (simp add: Let_def keeps_def)
  next
    case False
    then show ?thesis
      by (simp add: records Let_def keeps_def)
  qed
qed

lemma first_nonterminal_keeps:
  assumes ok: "journal_ok c j"
  shows "keeps (same_rows (rows j)) (first_nonterminal_record c)
    (\<lambda>x. case x of None \<Rightarrow> all_terminal (journal_view c j)
           | Some r \<Rightarrow> r \<in> ran (journal_view c j) \<and> pending r)"
  unfolding first_nonterminal_record_def
proof (rule keeps_bindS [OF keeps_liftS])
  show "returns (\<lambda>p. page_size_get p = 1) (expect (page_size_new 1))"
    by (simp add: page_size_new_def)
next
  fix p
  assume p: "page_size_get p = 1"
  have view: "r \<in> ran (journal_view c j) \<and> pending r \<longleftrightarrow> r \<in> set (pending_after c j None)" for r
    using ok by (auto simp: pending_after_def ran_journal_view set_table_records)
  have size: "page_size_get p \<noteq> 0"
    using p by simp
  show "keeps (same_rows (rows j))
      (bindS (load_nonterminal_page c None p) (\<lambda>page. liftS (Inr (case page_records page of [] \<Rightarrow> None | r # _ \<Rightarrow> Some r))))
      (\<lambda>x. case x of None \<Rightarrow> all_terminal (journal_view c j)
           | Some r \<Rightarrow> r \<in> ran (journal_view c j) \<and> pending r)"
  proof (rule keeps_bindS [OF load_nonterminal_page_keeps [OF ok size]], rule keeps_liftS)
    fix page
    assume "let todo = pending_after c j None; n = unat (page_size_get p) in
       page_records page = take n todo \<and>
       next_after page = (if n < length todo then Some (record_operation (todo ! (n - 1))) else None)"
    then have page: "page_records page = take 1 (pending_after c j None)"
      by (simp add: p Let_def)
    show "returns (\<lambda>x. case x of None \<Rightarrow> all_terminal (journal_view c j)
           | Some r \<Rightarrow> r \<in> ran (journal_view c j) \<and> pending r)
        (Inr (case page_records page of [] \<Rightarrow> None | r # _ \<Rightarrow> Some r))"
      using page view by (cases "pending_after c j None") (auto simp: all_terminal_def)
  qed
qed

section \<open>The journal is a durable command-record port\<close>

lemma keeps_rows:
  "(\<And>j :: journal. I (rows j) \<Longrightarrow> keeps (same_rows (rows j)) m P) \<Longrightarrow> keeps (\<lambda>j. I (rows j)) m P"
proof (rule keepsI)
  fix j :: journal
  assume keep: "\<And>j :: journal. I (rows j) \<Longrightarrow> keeps (same_rows (rows j)) m P" and I: "I (rows j)"
  show "wp m (\<lambda>res j'. I (rows j') \<and> returns P res) j"
    by (rule wp_keeps [OF keep [OF I]]) (simp_all add: I)
qed

lemma wp_store_request:
  assumes "\<And>j'. rows j' = rows j \<Longrightarrow> Q (Inl (Err DurableStoreUnavailable)) j'"
    and "\<And>j'. rows j' = rows j \<Longrightarrow> wp m Q j'"
  shows "wp (store_request m) Q j"
  unfolding store_request_def wp_bindS by (rule wp_sql_call) (simp_all add: assms)

lemma store_request_keeps: "keeps (same_rows rs) m P \<Longrightarrow> keeps (same_rows rs) (store_request m) P"
  unfolding store_request_def by (rule keeps_bindS [OF sql_call_keeps])

interpretation sqlite: command_record_port "sqlite_command_record_store c"
  "\<lambda>j. codec_ok c \<and> journal_ok c j" "\<lambda>j. journal_view c j" for c
proof (unfold_locales, goal_cases)
  case (1 j)
  then show ?case
    by (simp add: journal_view_ok)
next
  case (2 v opn key)
  show ?case
    unfolding sqlite_command_record_store_def durable_command_record_port.simps
    by (rule keeps_rows [where I = "\<lambda>rs. (codec_ok c \<and> table_ok c rs) \<and> table_view c rs = v"])
      (use store_request_keeps [OF lookup_admission_keeps] in blast)
next
  case (3 v opn)
  show ?case
    unfolding sqlite_command_record_store_def durable_command_record_port.simps
    by (rule keeps_rows [where I = "\<lambda>rs. (codec_ok c \<and> table_ok c rs) \<and> table_view c rs = v"])
      (use store_request_keeps [OF lookup_operation_keeps] in blast)
next
  case (4 j r)
  then have cod: "codec_ok c" and ok: "journal_ok c j"
    by simp_all
  show ?case
    unfolding sqlite_command_record_store_def durable_command_record_port.simps
  proof (rule wp_store_request, goal_cases)
    case (2 j')
    with ok have "journal_ok c j'" by simp
    note law = insert_if_absent_sync_law [OF cod this, of r]
    show ?case
      by (rule wp_mono [OF law [unfolded 2]]) (use cod in simp)
  qed (use cod ok in simp)
next
  case (5 j tr)
  then have cod: "codec_ok c" and ok: "journal_ok c j"
    by simp_all
  show ?case
    unfolding sqlite_command_record_store_def durable_command_record_port.simps
  proof (rule wp_store_request, goal_cases)
    case (2 j')
    with ok have "journal_ok c j'" by simp
    note law = compare_and_swap_sync_law [OF cod this, of tr]
    show ?case
      by (rule wp_mono [OF law [unfolded 2]]) (use cod in simp)
  qed (use cod ok in simp)
next
  case (6 v)
  show ?case
    unfolding sqlite_command_record_store_def durable_command_record_port.simps
    by (rule keeps_rows [where I = "\<lambda>rs. (codec_ok c \<and> table_ok c rs) \<and> table_view c rs = v"])
      (use first_nonterminal_keeps in blast)
qed

lemma table_records_sorted:
  assumes "table_ok c rs"
  shows "sorted_wrt (\<lambda>x y. record_operation x < record_operation y) (table_records c rs)"
proof -
  have "sorted_wrt (\<lambda>x y. memcmp_less (row_operation_id x) (row_operation_id y)) rs \<Longrightarrow>
      list_all (\<lambda>row. is_ok (decode_row c row)) rs \<Longrightarrow>
      sorted_wrt (\<lambda>x y. record_operation x < record_operation y) (table_records c rs)"
  proof (induction rs)
    case (Cons row rs)
    then obtain r where r: "decode_row c row = Inr r"
      by (auto simp: is_ok_iff)
    have "record_operation r < record_operation x" if "x \<in> set (table_records c rs)" for x
    proof -
      from that obtain row' where row': "row' \<in> set rs" "decode_row c row' = Inr x"
        by (auto simp: set_table_records)
      with Cons.prems(1) have "memcmp_less (row_operation_id row) (row_operation_id row')"
        by simp
      then show ?thesis
        by (simp add: decode_operation [OF r] decode_operation [OF row'(2)])
    qed
    with Cons r show ?case by simp
  qed simp
  with assms show ?thesis
    by (simp add: table_ok_def)
qed

lemma pending_after_advance:
  assumes ok: "journal_ok c j" and n: "0 < n" "n \<le> length (pending_after c j after)"
  shows "pending_after c j (Some (record_operation (pending_after c j after ! (n - 1))))
     = drop n (pending_after c j after)"
proof -
  let ?todo = "pending_after c j after"
  let ?o = "record_operation (?todo ! (n - 1))"
  have "?todo ! (n - 1) \<in> set ?todo"
    using n by (intro nth_mem) simp
  moreover have "case after of None \<Rightarrow> True | Some opn \<Rightarrow> opn < record_operation r" if "r \<in> set ?todo" for r
    using that by (simp add: pending_after_def)
  ultimately have "case after of None \<Rightarrow> True | Some opn \<Rightarrow> opn < ?o"
    by blast
  then have "pending_after c j (Some ?o) = filter (\<lambda>r. ?o < record_operation r) ?todo"
    by (auto simp: pending_after_def intro!: filter_cong split: option.splits)
  also have "\<dots> = drop n ?todo"
    using sorted_wrt_filter [OF table_records_sorted [OF ok]] n
    by (intro filter_greater_sorted) (simp_all add: pending_after_def)
  finally show ?thesis .
qed

lemma page_size_new_Some: "page_size_new n = Some p \<Longrightarrow> page_size_get p = n \<and> n \<noteq> 0"
  by (auto simp: page_size_new_def split: if_splits)

text \<open>A journal none of whose further calls fails.\<close>

definition fault_free :: "journal \<Rightarrow> bool" where
  "fault_free j \<longleftrightarrow> faults j = (\<lambda>_. False)"

lemma sql_call_fault_free:
  "fault_free j \<Longrightarrow> sql_call j = (Inr (), j\<lparr>clock := Suc (clock j)\<rparr>)"
  "fault_free (j\<lparr>clock := n\<rparr>) \<longleftrightarrow> fault_free j"
  by (simp_all add: fault_free_def sql_call_def)

lemma decode_nonterminal_rows_returns:
  assumes "list_all (\<lambda>row. is_ok (decode_row c row)) sel" "fault_free j"
  shows "\<exists>xs j'. decode_nonterminal_rows c target records sel j = (Inr xs, j') \<and> fault_free j'"
  using assms
proof (induction sel arbitrary: records j)
  case Nil
  then show ?case
    by (simp add: bindS_def sql_call_fault_free)
next
  case (Cons row sel)
  then obtain r where "decode_row c row = Inr r"
    by (auto simp: is_ok_iff)
  with Cons show ?case
    by (simp add: bindS_def sql_call_fault_free)
qed

lemma load_nonterminal_page_returns:
  assumes ok: "journal_ok c j" and free: "fault_free j" and size: "page_size_get p \<noteq> 0"
  shows "\<exists>page j'. load_nonterminal_page c after p j = (Inr page, j')"
proof -
  let ?j = "j\<lparr>clock := Suc (Suc (Suc (clock j)))\<rparr>"
  let ?sel = "filter (after_cursor after) (rows j)"
  have "list_all (\<lambda>row. is_ok (decode_row c row)) ?sel"
    using ok by (auto simp: table_ok_def list_all_iff)
  then obtain xs j' where xs: "decode_nonterminal_rows c (unat (page_size_get p) + 1) [] ?sel ?j = (Inr xs, j')"
    using decode_nonterminal_rows_returns free sql_call_fault_free(2) by blast
  have "0 < unat (page_size_get p)"
    using size by (simp add: unat_gt_0)
  then have "butlast xs \<noteq> []" if "unat (page_size_get p) < length xs"
    using that by (cases xs rule: rev_cases) auto
  with xs show ?thesis
    by (auto simp: load_nonterminal_page_def store_request_def load_nonterminal_page_sync_def
        select_rows_def bindS_def sql_call_fault_free free Let_def)
qed


section \<open>Properties of the journal\<close>

definition pair_codec :: "command_record \<Rightarrow> command_record \<Rightarrow> record_codec" where
  "pair_codec a b = \<lparr>
     to_vec = (\<lambda>r. if r = a then Some [1, 0] else if r = b then Some [1, 1] else None),
     from_slice = (\<lambda>bs. if bs = [1, 0] then Some a else if bs = [1, 1] then Some b else None) \<rparr>"

definition example_admitted :: command_record where
  "example_admitted = \<lparr>command = example_command, state = Admitted 1, revision = 0\<rparr>"

definition example_executing :: command_record where
  "example_executing = \<lparr>command = example_command, state = Executing 1 (example_owner 1), revision = 1\<rparr>"

abbreviation example_codec :: record_codec where
  "example_codec \<equiv> pair_codec example_admitted example_executing"

definition example_journal :: journal where
  "example_journal = \<lparr>rows = [record_columns example_admitted [1, 0]], clock = 0, faults = (\<lambda>_. False)\<rparr>"

lemma example_eqs:
  "record_operation example_admitted = OperationId 1" "revision example_admitted = 0"
  "record_operation example_executing = OperationId 1" "revision example_executing = 1"
  "command example_executing = command example_admitted" "state example_admitted = Admitted 1"
  by (simp_all add: example_admitted_def example_executing_def example_command_def)

lemma pair_codec_ok [simp]: "codec_ok (pair_codec a b)"
  by (simp add: codec_ok_def pair_codec_def)

lemma example_records_ok [simp]: "record_ok example_admitted" "record_ok example_executing"
  by (simp_all add: record_ok_def example_admitted_def example_executing_def example_defs)

lemma example_encode [simp]:
  "encode_record example_codec example_admitted = Inr [1, 0]"
  "encode_record example_codec example_executing = Inr [1, 1]"
  by (simp_all add: encode_record_eq_Inr MAX_RECORD_BYTES_def)
    (simp_all add: pair_codec_def example_admitted_def example_executing_def)

lemma example_decode [simp]:
  "decode_row example_codec (record_columns example_admitted [1, 0]) = Inr example_admitted"
  by (simp add: decode_row_iff row_of_columns)

lemma example_journal_ok [simp]: "journal_ok example_codec example_journal"
  by (simp add: table_ok_def example_journal_def is_ok_def)



text \<open>
  Admission writes are atomic and unique: a record is inserted only at revision zero when
  neither its operation nor its idempotency key is present, the view then gains exactly this
  record, and every other outcome leaves the stored records as they were.
\<close>

theorem insert_is_atomic:
  assumes "codec_ok c" and "journal_ok c j"
    and "insert_if_absent (sqlite_command_record_store c) r j = (res, j')"
  shows "journal_ok c j' \<and>
    (if res = Inr (Inserted r)
     then revision r = 0 \<and> admission_free (record_operation r) (record_key r) (journal_view c j) \<and>
          journal_view c j' = (journal_view c j)(record_operation r \<mapsto> r)
     else journal_view c j' = journal_view c j)"
proof -
  have "codec_ok c \<and> journal_ok c j" using assms by simp
  from wpD [OF sqlite.insert_if_absent_law [OF this] assms(3)] show ?thesis
    by (auto split: sum.splits durable_admission_write.splits)
qed

theorem insert_is_atomic_witness:
  "let (res, j') = insert_if_absent (sqlite_command_record_store example_codec) example_admitted
         (example_journal\<lparr>rows := []\<rparr>)
   in res = Inr (Inserted example_admitted) \<and>
      journal_view example_codec j' = Map.empty(OperationId 1 \<mapsto> example_admitted)"
proof -
  let ?j = "example_journal\<lparr>rows := []\<rparr>"
  have run: "insert_if_absent (sqlite_command_record_store example_codec) example_admitted ?j =
      (Inr (Inserted example_admitted), example_journal\<lparr>clock := 4\<rparr>)"
    by (simp add: sqlite_command_record_store_def store_request_def bindS_def sql_call_def
        insert_if_absent_sync_def transactional_def insert_transaction_def insert_record_def
        execute_insert_or_ignore_def violates_unique_def insert_row_def
        record_columns_checks [of example_codec] example_journal_def example_eqs)
  have "journal_ok example_codec ?j"
    by (simp add: table_ok_def)
  from insert_is_atomic [OF pair_codec_ok this run] run show ?thesis
    by (simp add: table_view_def [abs_def] example_eqs)
qed

text \<open>
  C14.  Compare-and-swap is exact: a transition is stored only when the journal holds precisely its
  predecessor, the successor carries the same command and the next revision, and the view changes
  at this operation only; every other outcome, including a failing commit, changes nothing.
\<close>

theorem compare_and_swap_is_exact:
  assumes "codec_ok c" and "journal_ok c j"
    and "compare_and_swap (sqlite_command_record_store c) tr j = (res, j')"
  shows "journal_ok c j' \<and> \<not> panics res \<and>
    (if \<exists>r. res = Inr (Stored r)
     then res = Inr (Stored (successor tr)) \<and>
          journal_view c j (record_operation (predecessor tr)) = Some (predecessor tr) \<and>
          command (successor tr) = command (predecessor tr) \<and>
          unat (revision (successor tr)) = Suc (unat (revision (predecessor tr))) \<and>
          journal_view c j' = (journal_view c j)(record_operation (predecessor tr) \<mapsto> successor tr)
     else journal_view c j' = journal_view c j)"
proof -
  have "codec_ok c \<and> journal_ok c j" using assms by simp
  from wpD [OF sqlite.compare_and_swap_law [OF this] assms(3)] show ?thesis
    by (auto split: sum.splits durable_transition_write.splits)
qed

abbreviation example_transition :: reducer_transition where
  "example_transition \<equiv>
     \<lparr>predecessor = example_admitted, successor = example_executing, tr_effect = StateChanged\<rparr>"

theorem compare_and_swap_is_exact_witness:
  "let (res, j') = compare_and_swap (sqlite_command_record_store example_codec) example_transition example_journal
   in res = Inr (Stored example_executing) \<and>
      journal_view example_codec j' = Map.empty(OperationId 1 \<mapsto> example_executing)"
proof -
  let ?j' = "example_journal\<lparr>rows := [record_columns example_executing [1, 1]], clock := 5\<rparr>"
  have cols: "row_operation_id (record_columns example_admitted [1, 0]) = operation_blob (OperationId 1)"
      "row_revision (record_columns example_admitted [1, 0]) = to_be_bytes 0"
      "(record_columns example_executing [1, 1])\<lparr>row_operation_id := operation_blob (OperationId 1)\<rparr>
        = record_columns example_executing [1, 1]"
    by (simp_all add: record_columns_def example_eqs del: operation_blob.simps)
  have run: "compare_and_swap (sqlite_command_record_store example_codec) example_transition example_journal =
      (Inr (Stored example_executing), ?j')"
    by (simp add: sqlite_command_record_store_def store_request_def bindS_def sql_call_def
        compare_and_swap_sync_def transactional_def swap_transaction_def lookup_operation_sync_def
        select_rows_def execute_update_def record_columns_checks [of example_codec]
        example_journal_def checked_add_def Let_def example_eqs cols del: operation_blob.simps)
  have view: "journal_view example_codec example_journal = Map.empty(OperationId 1 \<mapsto> example_admitted)"
    by (auto simp: table_view_def [abs_def] example_journal_def example_eqs)
  from compare_and_swap_is_exact [OF pair_codec_ok example_journal_ok run] run show ?thesis
    by (simp add: view example_eqs)
qed

text \<open>
  C15.  Recovery pages neither skip nor repeat: a page holds the first unfinished records after the
  cursor, in operation order and up to the requested size.  It carries a cursor exactly when more
  unfinished records exist; the cursor is the last operation of the page, and the records after it
  are exactly the rest.
\<close>

theorem recovery_page_is_exact:
  assumes "journal_ok c j" and "page_size_new n = Some p"
    and "load_nonterminal_page c after p j = (Inr page, j')"
  shows "rows j' = rows j \<and> page_records page = take (unat n) (pending_after c j after) \<and>
    (case next_after page of
       None \<Rightarrow> length (pending_after c j after) \<le> unat n
     | Some opn \<Rightarrow>
         unat n < length (pending_after c j after) \<and> opn = record_operation (last (page_records page)) \<and>
         pending_after c j' (Some opn) = drop (unat n) (pending_after c j after))"
proof -
  let ?todo = "pending_after c j after"
  have size: "page_size_get p \<noteq> 0" "page_size_get p = n" "0 < unat n"
    using page_size_new_Some [OF assms(2)] by (auto simp: unat_gt_0)
  from keeps_run [OF load_nonterminal_page_keeps [OF assms(1) size(1)] refl assms(3)]
  have j': "rows j' = rows j" and page: "page_records page = take (unat n) ?todo"
    and nxt: "next_after page = (if unat n < length ?todo then Some (record_operation (?todo ! (unat n - 1))) else None)"
    by (simp_all add: Let_def size)
  have same: "pending_after c j' = pending_after c j"
    by (simp add: pending_after_def [abs_def] j')
  have last: "last (take (unat n) ?todo) = ?todo ! (unat n - 1)" if "unat n < length ?todo"
    using that size(3) by (subst last_conv_nth) auto
  show ?thesis
    using pending_after_advance [OF assms(1) size(3), of after] last
    by (cases "unat n < length ?todo") (simp_all add: j' page nxt same)
qed

text \<open>Two unfinished commands and pages of one record.\<close>

definition example_second :: command_record where
  "example_second = \<lparr>command = example_command\<lparr>identity := \<lparr>operation_id = OperationId 7, idempotency_key = IdempotencyKey 8\<rparr>\<rparr>,
     state = Admitted 1, revision = 0\<rparr>"

abbreviation two_codec :: record_codec where
  "two_codec \<equiv> pair_codec example_admitted example_second"

definition two_journal :: journal where
  "two_journal = \<lparr>rows = [record_columns example_admitted [1, 0], record_columns example_second [1, 1]], clock = 0,
     faults = (\<lambda>_. False)\<rparr>"

lemma example_second_eqs:
  "record_operation example_second = OperationId 7" "record_key example_second = IdempotencyKey 8"
  "state example_second = Admitted 1" "record_key example_admitted = IdempotencyKey 2"
  by (simp_all add: example_second_def example_admitted_def example_command_def)

lemma two_decode [simp]:
  "decode_row two_codec (record_columns example_admitted [1, 0]) = Inr example_admitted"
  "decode_row two_codec (record_columns example_second [1, 1]) = Inr example_second"
proof -
  have "record_ok example_second" "example_second \<noteq> example_admitted"
    by (simp_all add: record_ok_def example_second_def example_admitted_def example_defs)
  then have "encode_record two_codec example_admitted = Inr [1, 0]" "encode_record two_codec example_second = Inr [1, 1]"
    by (simp_all add: encode_record_eq_Inr MAX_RECORD_BYTES_def) (simp_all add: pair_codec_def)
  then show "decode_row two_codec (record_columns example_admitted [1, 0]) = Inr example_admitted"
    "decode_row two_codec (record_columns example_second [1, 1]) = Inr example_second"
    by (simp_all add: decode_row_iff row_of_columns)
qed

lemma two_journal_ok: "journal_ok two_codec two_journal"
  by (simp add: table_ok_def two_journal_def is_ok_def)
     (simp add: record_columns_def example_eqs example_second_eqs less_operation_id_def del: operation_blob.simps key_blob.simps)

theorem recovery_page_is_exact_witness:
  "let (res, j') = load_nonterminal_page two_codec None (CommandRecoveryPageSize 1) two_journal
   in res = Inr \<lparr>page_records = [example_admitted], next_after = Some (OperationId 1)\<rparr> \<and>
      pending_after two_codec j' (Some (OperationId 1)) = [example_second]"
proof -
  have run: "load_nonterminal_page two_codec None (CommandRecoveryPageSize 1) two_journal =
      (Inr \<lparr>page_records = [example_admitted], next_after = Some (OperationId 1)\<rparr>, two_journal\<lparr>clock := 5\<rparr>)"
    by (simp add: load_nonterminal_page_def store_request_def load_nonterminal_page_sync_def
        select_rows_def bindS_def sql_call_def after_cursor_def two_journal_def example_eqs example_second_eqs)
  have size: "page_size_new 1 = Some (CommandRecoveryPageSize 1)"
    by (simp add: page_size_new_def)
  have "pending_after two_codec two_journal None = [example_admitted, example_second]"
    by (simp add: pending_after_def two_journal_def example_eqs example_second_eqs)
  with recovery_page_is_exact [OF two_journal_ok size run] run show ?thesis
    by (simp add: example_eqs)
qed

text \<open>
  A recovery read of an undamaged, reachable journal always produces its page.
\<close>

theorem recovery_page_returns:
  assumes "journal_ok c j" and "fault_free j" and "page_size_new n = Some p"
  shows "\<exists>page j'. load_nonterminal_page c after p j = (Inr page, j')"
  by (rule load_nonterminal_page_returns [OF assms(1,2)]) (use page_size_new_Some [OF assms(3)] in simp)

theorem recovery_page_returns_witness:
  "fault_free example_journal \<and>
   (\<exists>page j'. load_nonterminal_page example_codec None (CommandRecoveryPageSize 1024) example_journal = (Inr page, j'))"
proof -
  have free: "fault_free example_journal"
    by (simp add: fault_free_def example_journal_def)
  have size: "page_size_new 1024 = Some (CommandRecoveryPageSize 1024)"
    by (simp add: page_size_new_def)
  from recovery_page_returns [OF example_journal_ok free size] free show ?thesis
    by simp
qed

end
