(* ===== verification/WriterAuthority.thy ===== *)
theory WriterAuthority
  imports Command
begin

text \<open>
  Writer authority of a workspace: the SQLite store of writer generations
  (\<open>src/fabric/writer_generation_sqlite.rs\<close>) and the operating-system lease that pairs it with a
  file lock (\<open>src/fabric/writer_lease.rs\<close>).

  The contract \<open>writer_generation_port\<close> is what the lease and the command runtime rely on: an
  allocation records a fence with a strictly larger generation, an observation returns the current
  one.  The SQLite store is its interpretation.  The lemmas show that authority only moves forward:
  an acquired fence is the only current one, a superseded fence never validates again, and the
  64-bit generation counter reports exhaustion instead of wrapping.  Creating and validating the
  database file is not modelled; the answers of the operating system to one acquisition are an
  input of the model.
\<close>


section \<open>The generation port and its contract\<close>

datatype writer_generation_port_error = Unavailable | Exhausted | Corrupt

record 's durable_writer_generation_port =
  allocate_next :: "workspace_id \<Rightarrow> lease_id \<Rightarrow> ('s, writer_generation_port_error, writer_generation) prog"
  observe_current :: "workspace_id \<Rightarrow> ('s, writer_generation_port_error, writer_fence option) prog"

type_synonym fence_view = "workspace_id \<Rightarrow> writer_fence option"

locale writer_generation_port =
  fixes port :: "'s durable_writer_generation_port"
    and store_ok :: "'s \<Rightarrow> bool"
    and current :: "'s \<Rightarrow> fence_view"
  assumes allocate_next_law:
      "store_ok s \<Longrightarrow> wp (allocate_next port w l)
         (\<lambda>res s'. store_ok s' \<and> \<not> panics res \<and>
            (case res of
               Inr g \<Rightarrow> current s' = (current s)(w \<mapsto> \<lparr>lease_id = l, generation = g\<rparr>) \<and>
                 (\<forall>f. current s w = Some f \<longrightarrow> fence_generation f < generation_get g)
             | Inl _ \<Rightarrow> current s' = current s)) s"
    and observe_current_law:
      "keeps (\<lambda>s. store_ok s \<and> current s = v) (observe_current port w) (\<lambda>x. x = v w)"


section \<open>The SQLite generation store\<close>

datatype sql_value = SqlNull | SqlInteger int | SqlReal u64 | SqlText string | SqlBlob "u8 list"

record generation_row =
  current_generation :: sql_value
  current_lease_id :: sql_value
  acquired_at_unix_micros :: sql_value

text \<open>
  The database by workspace key, an oracle for the calls that fail (a poisoned lock, an error of
  SQLite), and the system clock in microseconds since the epoch at each call.
\<close>

record generation_store =
  generation_rows :: "u8 list \<Rightarrow> generation_row option"
  gs_clock :: nat
  gs_faults :: "nat \<Rightarrow> bool"
  gs_micros :: "nat \<Rightarrow> int"

fun lease_blob :: "lease_id \<Rightarrow> u8 list" where
  "lease_blob (LeaseId b) = be_bytes 16 (unat b)"

fun workspace_key :: "workspace_id \<Rightarrow> u8 list" where
  "workspace_key (WorkspaceId b) = be_bytes 16 (unat b)"

definition lease_from_bytes :: "u8 list \<Rightarrow> lease_id" where
  "lease_from_bytes bs = LeaseId (of_nat (be_value bs))"

definition gs_call :: "(generation_store, writer_generation_port_error, unit) prog" where
  "gs_call s = (if gs_faults s (gs_clock s) then Inl (Err Unavailable) else Inr (),
                s\<lparr>gs_clock := Suc (gs_clock s)\<rparr>)"

text \<open>The \<open>CHECK\<close> constraints of the table.\<close>

definition generation_checks :: "u8 list \<Rightarrow> generation_row \<Rightarrow> bool" where
  "generation_checks key row \<longleftrightarrow>
     length key = 16 \<and>
     (case current_generation row of SqlBlob bs \<Rightarrow> length bs = 8 \<and> bs \<noteq> replicate 8 0 | _ \<Rightarrow> False) \<and>
     (case current_lease_id row of SqlBlob bs \<Rightarrow> length bs = 16 | _ \<Rightarrow> False) \<and>
     (case acquired_at_unix_micros row of SqlInteger n \<Rightarrow> 0 \<le> n | _ \<Rightarrow> False)"

definition decode_temporal_row :: "generation_row \<Rightarrow> (writer_generation_port_error, writer_fence) result" where
  "decode_temporal_row row =
     (case current_generation row of
        SqlBlob generation_bytes \<Rightarrow>
          bindE (ensure (length generation_bytes = 8) Corrupt) (\<lambda>_.
          bindE (ok_or (writer_generation_new (from_be_bytes generation_bytes)) Corrupt) (\<lambda>g.
          case current_lease_id row of
            SqlBlob lease \<Rightarrow>
              bindE (ensure (length lease = 16) Corrupt) (\<lambda>_.
              bindE (ensure (case acquired_at_unix_micros row of SqlInteger n \<Rightarrow> 0 \<le> n | _ \<Rightarrow> False) Corrupt) (\<lambda>_.
              Inr \<lparr>lease_id = lease_from_bytes lease, generation = g\<rparr>))
          | _ \<Rightarrow> Inl (Err Corrupt)))
      | _ \<Rightarrow> Inl (Err Corrupt))"

definition unix_micros :: "(generation_store, writer_generation_port_error, int) prog" where
  "unix_micros s =
     (let now = gs_micros s (gs_clock s)
      in (if now < 0 \<or> 2 ^ 63 \<le> now then Inl (Err Unavailable) else Inr now, s))"

definition select_generation ::
  "workspace_id \<Rightarrow> (generation_store, writer_generation_port_error, generation_row option) prog" where
  "select_generation w = bindS gs_call (\<lambda>_ s. (Inr (generation_rows s (workspace_key w)), s))"

definition upsert_generation ::
  "workspace_id \<Rightarrow> generation_row \<Rightarrow> (generation_store, writer_generation_port_error, nat) prog" where
  "upsert_generation w row = bindS gs_call (\<lambda>_ s.
     if generation_checks (workspace_key w) row
     then (Inr 1, s\<lparr>generation_rows := (generation_rows s)(workspace_key w \<mapsto> row)\<rparr>)
     else (Inl (Err Unavailable), s))"

text \<open>The body of the allocation between the start of its transaction and the commit.\<close>

definition allocate_transaction ::
  "workspace_id \<Rightarrow> lease_id \<Rightarrow> (generation_store, writer_generation_port_error, writer_generation) prog" where
  "allocate_transaction w l =
     bindS (select_generation w) (\<lambda>current.
     bindS (liftS (case current of
         Some row \<Rightarrow> bindE (decode_temporal_row row) (\<lambda>f. ok_or (checked_add (fence_generation f) 1) Exhausted)
       | None \<Rightarrow> Inr 1)) (\<lambda>nxt.
     bindS (liftS (ok_or (writer_generation_new nxt) Exhausted)) (\<lambda>g.
     bindS unix_micros (\<lambda>acquired_at.
     bindS (upsert_generation w \<lparr>current_generation = SqlBlob (to_be_bytes nxt),
         current_lease_id = SqlBlob (lease_blob l),
         acquired_at_unix_micros = SqlInteger acquired_at\<rparr>) (\<lambda>affected.
     bindS (liftS (ensure (\<not> affected \<noteq> 1) Corrupt)) (\<lambda>_.
     liftS (Inr g)))))))"

text \<open>An error before or at the commit rolls the transaction back.\<close>

definition sqlite_allocate_next ::
  "workspace_id \<Rightarrow> lease_id \<Rightarrow> (generation_store, writer_generation_port_error, writer_generation) prog" where
  "sqlite_allocate_next w l =
     bindS gs_call (\<lambda>_. bindS gs_call (\<lambda>_ s.
       case bindS (allocate_transaction w l) (\<lambda>g. bindS gs_call (\<lambda>_. liftS (Inr g))) s of
         (Inl e, s') \<Rightarrow> (Inl e, s'\<lparr>generation_rows := generation_rows s\<rparr>)
       | (Inr g, s') \<Rightarrow> (Inr g, s')))"

definition sqlite_observe_current ::
  "workspace_id \<Rightarrow> (generation_store, writer_generation_port_error, writer_fence option) prog" where
  "sqlite_observe_current w =
     bindS gs_call (\<lambda>_.
     bindS (select_generation w) (\<lambda>row.
     liftS (case row of
        None \<Rightarrow> Inr None
      | Some row \<Rightarrow> bindE (decode_temporal_row row) (\<lambda>f. Inr (Some f)))))"

definition sqlite_writer_generation_store :: "generation_store durable_writer_generation_port" where
  "sqlite_writer_generation_store =
     \<lparr>allocate_next = sqlite_allocate_next, observe_current = sqlite_observe_current\<rparr>"


section \<open>The workspace writer lease\<close>

datatype errno = LOOP | WOULDBLOCK | AGAIN | OtherErrno nat

datatype workspace_writer_lease_error =
    UnsafeAdminDirectory
  | UnsafeLockFile
  | AlreadyHeld
  | LeaseIo errno
  | Generation writer_generation_port_error
  | StaleFence

record path_metadata =
  md_is_dir :: bool
  md_is_symlink :: bool
  md_is_file :: bool
  md_nlink :: u64
  md_mode :: u32

text \<open>
  What the operating system answers to the calls of one acquisition.  Whether the lock is already
  held is state: a lock excludes a second holder until it is released.
\<close>

record lease_io =
  io_admin_metadata :: "path_metadata option"
  io_open_directory :: "errno option"
  io_open_lock :: "errno option"
  io_lock_metadata :: "path_metadata option"
  io_flock :: "errno option"

record 's lease_system =
  ls_generations :: 's
  ls_locked :: "workspace_id \<Rightarrow> bool"

record workspace_writer_lease =
  wl_workspace_id :: workspace_id
  wl_fence :: writer_fence

definition validate_writer_fence ::
  "'s durable_writer_generation_port \<Rightarrow> workspace_id \<Rightarrow> writer_fence
     \<Rightarrow> ('s, workspace_writer_lease_error, unit) prog" where
  "validate_writer_fence generations w f s =
     (case observe_current generations w s of
        (Inl e, s') \<Rightarrow> (map_err Generation (Inl e), s')
      | (Inr x, s') \<Rightarrow> (if x = Some f then Inr () else Inl (Err StaleFence), s'))"

definition lease_validate ::
  "workspace_writer_lease \<Rightarrow> 's durable_writer_generation_port \<Rightarrow> ('s, workspace_writer_lease_error, unit) prog" where
  "lease_validate lease generations =
     validate_writer_fence generations (wl_workspace_id lease) (wl_fence lease)"

unbundle bit_operations_syntax

definition prepare_lock :: "lease_io \<Rightarrow> (workspace_writer_lease_error, unit) result" where
  "prepare_lock io =
     bindE (ok_or (io_admin_metadata io) UnsafeAdminDirectory) (\<lambda>dir.
     bindE (ensure (\<not> (\<not> md_is_dir dir \<or> md_is_symlink dir \<or> md_mode dir AND 63 \<noteq> 0))
       UnsafeAdminDirectory) (\<lambda>_.
     bindE (case io_open_directory io of None \<Rightarrow> Inr () | Some e \<Rightarrow> Inl (Err (LeaseIo e))) (\<lambda>_.
     bindE (case io_open_lock io of
         None \<Rightarrow> Inr ()
       | Some e \<Rightarrow> Inl (Err (if e = LOOP then UnsafeLockFile else LeaseIo e))) (\<lambda>_.
     bindE (ok_or (io_lock_metadata io) UnsafeLockFile) (\<lambda>file.
     ensure (\<not> (\<not> md_is_file file \<or> md_nlink file \<noteq> 1 \<or> md_mode file AND 511 \<noteq> 384))
       UnsafeLockFile)))))"

text \<open>
  The lock is held from the successful \<open>flock\<close> on; a failure after it drops the file, which gives
  the lock back.
\<close>

definition lease_acquire ::
  "lease_io \<Rightarrow> workspace_id \<Rightarrow> lease_id \<Rightarrow> 's durable_writer_generation_port
     \<Rightarrow> ('s lease_system, workspace_writer_lease_error, workspace_writer_lease) prog" where
  "lease_acquire io w l generations =
     bindS (liftS (prepare_lock io)) (\<lambda>_ sys.
       case (if ls_locked sys w then Some WOULDBLOCK else io_flock io) of
         Some e \<Rightarrow> (Inl (Err (if e = WOULDBLOCK \<or> e = AGAIN then AlreadyHeld else LeaseIo e)), sys)
       | None \<Rightarrow>
           (case allocate_next generations w l (ls_generations sys) of
              (Inl e, s) \<Rightarrow> (map_err Generation (Inl e), sys\<lparr>ls_generations := s\<rparr>)
            | (Inr g, s) \<Rightarrow>
                let fence' = \<lparr>lease_id = l, generation = g\<rparr> in
                (case validate_writer_fence generations w fence' s of
                   (Inl e, s') \<Rightarrow> (Inl e, sys\<lparr>ls_generations := s'\<rparr>)
                 | (Inr _, s') \<Rightarrow>
                     (Inr \<lparr>wl_workspace_id = w, wl_fence = fence'\<rparr>,
                      sys\<lparr>ls_generations := s', ls_locked := (ls_locked sys)(w := True)\<rparr>))))"

text \<open>
  \<open>release\<close> consumes the guard: after a failed unlock its \<open>Drop\<close> tries again and closes the lock file,
  which gives the lock up in any case.
\<close>

definition lease_release ::
  "errno option \<Rightarrow> workspace_writer_lease \<Rightarrow> ('s lease_system, workspace_writer_lease_error, unit) prog" where
  "lease_release unlock lease sys =
     (let sys' = sys\<lparr>ls_locked := (ls_locked sys)(wl_workspace_id lease := False)\<rparr> in
      case unlock of
        Some e \<Rightarrow> (Inl (Err (LeaseIo e)), sys')
      | None \<Rightarrow> (Inr (), sys'))"

definition hex_digit :: "nat \<Rightarrow> char" where
  "hex_digit n = (if n < 10 then char_of (n + 48) else char_of (n + 87))"

definition hex_byte :: "u8 \<Rightarrow> string" where
  "hex_byte b = [hex_digit (unat b div 16), hex_digit (unat b mod 16)]"

definition lock_file_name :: "workspace_id \<Rightarrow> string" where
  "lock_file_name w = concat (map hex_byte (workspace_key w)) @ ''.writer.lock''"


section \<open>Laws of the generation store\<close>

lemma lease_blob_length [simp]: "length (lease_blob l) = 16"
  by (cases l) (simp only: lease_blob.simps length_be_bytes)

lemma workspace_key_length [simp]: "length (workspace_key w) = 16"
  by (cases w) (simp only: workspace_key.simps length_be_bytes)

lemma lease_from_blob [simp]: "lease_from_bytes (lease_blob l) = l"
  by (cases l) (simp only: lease_blob.simps lease_from_bytes_def be_value_be_bytes
      mod_less [OF unat_b16_less] of_nat_unat ucast_id)

lemma workspace_key_inject [simp]: "workspace_key a = workspace_key b \<longleftrightarrow> a = b"
proof (cases a; cases b)
  fix x y
  assume "a = WorkspaceId x" "b = WorkspaceId y"
  then show ?thesis
    by (simp only: workspace_key.simps be_bytes_inject [OF unat_b16_less unat_b16_less]
        workspace_id.inject word_unat_eq_iff)
qed

lemma to_be_bytes_zero_iff [simp]: "to_be_bytes n = replicate 8 0 \<longleftrightarrow> n = 0"
proof -
  have "be_bytes k 0 = replicate k 0" for k
    by (induction k) (simp_all add: replicate_append_same)
  then have "to_be_bytes 0 = replicate 8 0"
    by (simp add: to_be_bytes_def)
  then show ?thesis
    by (metis to_be_bytes_inject)
qed

declare lease_blob.simps [simp del] workspace_key.simps [simp del]

type_synonym generation_table = "u8 list \<Rightarrow> generation_row option"

definition generation_fences :: "generation_table \<Rightarrow> fence_view" where
  "generation_fences rs w =
     (case rs (workspace_key w) of
        None \<Rightarrow> None
      | Some row \<Rightarrow> (case decode_temporal_row row of Inr f \<Rightarrow> Some f | Inl _ \<Rightarrow> None))"

definition generation_rows_ok :: "generation_table \<Rightarrow> bool" where
  "generation_rows_ok rs \<longleftrightarrow> (\<forall>w row. rs (workspace_key w) = Some row \<longrightarrow> is_ok (decode_temporal_row row))"

abbreviation generation_current :: "generation_store \<Rightarrow> fence_view" where
  "generation_current s \<equiv> generation_fences (generation_rows s)"

abbreviation generation_store_ok :: "generation_store \<Rightarrow> bool" where
  "generation_store_ok s \<equiv> generation_rows_ok (generation_rows s)"

lemma decode_temporal_row_never_panics [simp]: "\<not> panics (decode_temporal_row row)"
  by (auto simp: decode_temporal_row_def split: sql_value.split)

lemma decode_written_row:
  assumes "writer_generation_new n = Some g" "0 \<le> t"
  shows "decode_temporal_row \<lparr>current_generation = SqlBlob (to_be_bytes n),
      current_lease_id = SqlBlob (lease_blob l), acquired_at_unix_micros = SqlInteger t\<rparr>
    = Inr \<lparr>lease_id = l, generation = g\<rparr>"
  using assms by (simp add: decode_temporal_row_def)

abbreviation same_generations :: "(u8 list \<Rightarrow> generation_row option) \<Rightarrow> generation_store \<Rightarrow> bool" where
  "same_generations rs s \<equiv> generation_rows s = rs"

lemma gs_call_keeps: "keeps (same_generations rs) gs_call (\<lambda>_. True)"
  by (auto simp: keeps_def wp_def gs_call_def)

lemma select_generation_keeps:
  "keeps (same_generations rs) (select_generation w) (\<lambda>x. x = rs (workspace_key w))"
  unfolding select_generation_def
  by (rule keeps_bindS [OF gs_call_keeps]) (simp add: keeps_def wp_def)

lemma generation_row_ok:
  assumes "generation_store_ok s" "generation_rows s (workspace_key w) = Some row"
  obtains f where "decode_temporal_row row = Inr f" "generation_current s w = Some f"
proof -
  from assms obtain f where "decode_temporal_row row = Inr f"
    by (fastforce simp: generation_rows_ok_def is_ok_iff)
  with assms that show thesis by (simp add: generation_fences_def)
qed

lemma observe_current_keeps:
  assumes "generation_store_ok s"
  shows "keeps (same_generations (generation_rows s)) (sqlite_observe_current w)
    (\<lambda>x. x = generation_current s w)"
  unfolding sqlite_observe_current_def
proof (rule keeps_bindS [OF gs_call_keeps], rule keeps_bindS [OF select_generation_keeps], rule keeps_liftS)
  fix x
  assume x: "x = generation_rows s (workspace_key w)"
  show "returns (\<lambda>x. x = generation_current s w)
    (case x of None \<Rightarrow> Inr None | Some row \<Rightarrow> bindE (decode_temporal_row row) (\<lambda>f. Inr (Some f)))"
  proof (cases x)
    case None
    with x show ?thesis by (simp add: generation_fences_def)
  next
    case (Some row)
    with x obtain f where "decode_temporal_row row = Inr f" "generation_current s w = Some f"
      using generation_row_ok [OF assms] by metis
    with Some show ?thesis by simp
  qed
qed

lemma allocate_transaction_law:
  assumes ok: "generation_store_ok s"
  shows "wp (allocate_transaction w l)
     (\<lambda>res s'. case res of
          Inr g \<Rightarrow> generation_store_ok s' \<and>
            generation_current s' = (generation_current s)(w \<mapsto> \<lparr>lease_id = l, generation = g\<rparr>) \<and>
            (\<forall>f. generation_current s w = Some f \<longrightarrow> fence_generation f < generation_get g)
        | Inl e \<Rightarrow> e \<noteq> Panic) s"
  unfolding allocate_transaction_def wp_bindS
proof (rule wp_keeps [OF select_generation_keeps refl], goal_cases)
  case (1 res s1)
  show ?case
  proof (cases res)
    case (Inl e)
    with 1 show ?thesis by (cases e) simp_all
  next
    case (Inr x)
    let ?nxt = "case x of
         Some row \<Rightarrow> bindE (decode_temporal_row row) (\<lambda>f. ok_or (checked_add (fence_generation f) 1) Exhausted)
       | None \<Rightarrow> Inr 1"
    from Inr 1 have x: "x = generation_rows s (workspace_key w)" and s1: "generation_rows s1 = generation_rows s"
      by simp_all
    have np: "\<not> panics ?nxt"
      by (simp split: option.split)
    have bigger: "fence_generation f < n" if "generation_current s w = Some f" "?nxt = Inr n" for f n
    proof -
      from that(1) obtain row where row: "x = Some row" "decode_temporal_row row = Inr f"
        by (auto simp: generation_fences_def x split: option.splits sum.splits)
      with that(2) have "unat n = Suc (unat (fence_generation f))"
        by (simp add: checked_add_Some_iff)
      then show ?thesis by (simp add: word_less_nat_alt)
    qed
    show ?thesis
    proof (cases ?nxt)
      case (Inl e)
      with np \<open>res = Inr x\<close> show ?thesis by (cases e) (simp_all add: panics_def)
    next
      case nxt: (Inr n)
      show ?thesis
      proof (cases "writer_generation_new n")
        case None
        with nxt \<open>res = Inr x\<close> show ?thesis by simp
      next
        case (Some g)
        have gt: "\<forall>f. generation_current s w = Some f \<longrightarrow> fence_generation f < generation_get g"
          using bigger nxt generation_get_new [OF Some] by simp
        let ?row = "\<lambda>t. \<lparr>current_generation = SqlBlob (to_be_bytes n), current_lease_id = SqlBlob (lease_blob l),
             acquired_at_unix_micros = SqlInteger t\<rparr>"
        have upsert: "generation_rows_ok ((generation_rows s)(workspace_key w \<mapsto> ?row t))"
            "generation_fences ((generation_rows s)(workspace_key w \<mapsto> ?row t)) =
              (generation_current s)(w \<mapsto> \<lparr>lease_id = l, generation = g\<rparr>)" if "0 \<le> t" for t
          using ok decode_written_row [OF Some that, of l]
          by (auto simp: generation_rows_ok_def generation_fences_def fun_eq_iff is_ok_def)
        from nxt Some \<open>res = Inr x\<close> s1 gt upsert show ?thesis
          by (simp add: wp_def bindS_def unix_micros_def upsert_generation_def gs_call_def Let_def
              split: if_split)
      qed
    qed
  qed
qed

lemma keeps_generations:
  assumes "\<And>s. generation_store_ok s \<Longrightarrow> generation_current s = v \<Longrightarrow>
      keeps (same_generations (generation_rows s)) m P"
  shows "keeps (\<lambda>s. generation_store_ok s \<and> generation_current s = v) m P"
proof (rule keepsI)
  fix s
  assume s: "generation_store_ok s \<and> generation_current s = v"
  then have keep: "keeps (same_generations (generation_rows s)) m P"
    using assms by simp
  show "wp m (\<lambda>res s'. (generation_store_ok s' \<and> generation_current s' = v) \<and> returns P res) s"
    by (rule wp_keeps [OF keep refl]) (use s in simp)
qed

lemma wp_gs_call:
  assumes "\<And>s'. generation_rows s' = generation_rows s \<Longrightarrow> Q (Inl (Err Unavailable)) s'"
    and "\<And>s'. generation_rows s' = generation_rows s \<Longrightarrow> Q (Inr ()) s'"
  shows "wp gs_call Q s"
  using assms by (simp add: wp_def gs_call_def)

lemma allocate_next_keeps:
  assumes ok: "generation_store_ok s"
  shows "wp (sqlite_allocate_next w l)
     (\<lambda>res s'. generation_store_ok s' \<and> \<not> panics res \<and>
        (case res of
           Inr g \<Rightarrow> generation_current s' = (generation_current s)(w \<mapsto> \<lparr>lease_id = l, generation = g\<rparr>) \<and>
             (\<forall>f. generation_current s w = Some f \<longrightarrow> fence_generation f < generation_get g)
         | Inl _ \<Rightarrow> generation_current s' = generation_current s)) s" (is "wp _ ?Q s")
proof -
  have frame: "?Q (Inl (Err e)) s'" if "generation_rows s' = generation_rows s" for s' e
    using that ok by simp
  let ?body = "\<lambda>s. case bindS (allocate_transaction w l) (\<lambda>g. bindS gs_call (\<lambda>_. liftS (Inr g))) s of
      (Inl e, s') \<Rightarrow> (Inl e, s'\<lparr>generation_rows := generation_rows s\<rparr>) | (Inr g, s') \<Rightarrow> (Inr g, s')"
  have body: "wp ?body ?Q s2" if s2: "generation_rows s2 = generation_rows s" for s2
  proof -
    have ok2: "generation_store_ok s2" and cur2: "generation_current s2 = generation_current s"
      using s2 ok by simp_all
    obtain res s3 where run: "allocate_transaction w l s2 = (res, s3)"
      by fastforce
    note law = wpD [OF allocate_transaction_law [OF ok2] run]
    let ?s4 = "s3\<lparr>gs_clock := Suc (gs_clock s3)\<rparr>"
    show ?thesis
    proof (cases res)
      case (Inl e)
      then have "?body s2 = (Inl e, s3\<lparr>generation_rows := generation_rows s2\<rparr>)"
        by (simp add: run)
      with frame [of "s3\<lparr>generation_rows := generation_rows s2\<rparr>"] Inl law s2 show ?thesis
        by (cases e) (simp_all add: wp_def)
    next
      case (Inr g)
      show ?thesis
      proof (cases "gs_faults s3 (gs_clock s3)")
        case True
        with Inr have "?body s2 = (Inl (Err Unavailable), ?s4\<lparr>generation_rows := generation_rows s2\<rparr>)"
          by (simp add: bindS_def gs_call_def run)
        with frame [of "?s4\<lparr>generation_rows := generation_rows s2\<rparr>"] s2 show ?thesis
          by (simp add: wp_def)
      next
        case False
        with Inr have "?body s2 = (Inr g, ?s4)"
          by (simp add: bindS_def gs_call_def run)
        with Inr law cur2 show ?thesis
          by (simp add: wp_def)
      qed
    qed
  qed
  show ?thesis
    unfolding sqlite_allocate_next_def wp_bindS
  proof (rule wp_gs_call, goal_cases)
    case (1 s1)
    then show ?case using frame by simp
  next
    case (2 s1)
    show ?case
      unfolding sum.case
    proof (rule wp_gs_call, goal_cases)
      case (1 s2)
      then show ?case using frame 2 by simp
    next
      case (2 s2)
      with \<open>generation_rows s1 = generation_rows s\<close> show ?case
        using body [of s2] by simp
    qed
  qed
qed

interpretation generations: writer_generation_port
  sqlite_writer_generation_store generation_store_ok generation_current
proof (unfold_locales, goal_cases)
  case (1 s w l)
  then show ?case
    using allocate_next_keeps by (simp add: sqlite_writer_generation_store_def)
next
  case (2 v w)
  show ?case
    unfolding sqlite_writer_generation_store_def durable_writer_generation_port.simps
    by (rule keeps_generations) (use observe_current_keeps in fastforce)
qed



section \<open>The lease over any generation store\<close>

definition advances :: "fence_view \<Rightarrow> fence_view \<Rightarrow> bool" where
  "advances v v' \<longleftrightarrow> (\<forall>w f. v w = Some f \<longrightarrow>
     (\<exists>f'. v' w = Some f' \<and> (f' = f \<or> fence_generation f < fence_generation f')))"

lemma advances_refl [simp]: "advances v v"
  by (simp add: advances_def)

lemma advances_trans:
  assumes "advances u v" "advances v v'"
  shows "advances u v'"
  unfolding advances_def
proof (intro allI impI)
  fix w f
  assume "u w = Some f"
  with assms(1) obtain f1 where f1: "v w = Some f1" "f1 = f \<or> fence_generation f < fence_generation f1"
    unfolding advances_def by blast
  with assms(2) obtain f2 where "v' w = Some f2" "f2 = f1 \<or> fence_generation f1 < fence_generation f2"
    unfolding advances_def by blast
  with f1 show "\<exists>f'. v' w = Some f' \<and> (f' = f \<or> fence_generation f < fence_generation f')"
    using less_trans by blast
qed

text \<open>A fence is superseded when its workspace has a strictly newer generation.\<close>

definition superseded :: "fence_view \<Rightarrow> workspace_id \<Rightarrow> writer_fence \<Rightarrow> bool" where
  "superseded v w f \<longleftrightarrow> (\<exists>f'. v w = Some f' \<and> fence_generation f < fence_generation f')"

lemma superseded_advances:
  assumes "superseded v w f" "advances v v'"
  shows "superseded v' w f"
proof -
  from assms(1) obtain f1 where f1: "v w = Some f1" "fence_generation f < fence_generation f1"
    unfolding superseded_def by blast
  with assms(2) obtain f2 where "v' w = Some f2" "f2 = f1 \<or> fence_generation f1 < fence_generation f2"
    unfolding advances_def by blast
  with f1 show ?thesis
    unfolding superseded_def using less_trans by blast
qed

datatype lease_operation =
    Acquire lease_io workspace_id lease_id
  | Release "errno option" workspace_writer_lease
  | Validate workspace_id writer_fence

fun lease_step :: "'s durable_writer_generation_port \<Rightarrow> lease_operation \<Rightarrow> 's lease_system \<Rightarrow> 's lease_system" where
  "lease_step port (Acquire io w l) sys = snd (lease_acquire io w l port sys)"
| "lease_step port (Release unlock lease) sys = snd (lease_release unlock lease sys)"
| "lease_step port (Validate w f) sys =
     sys\<lparr>ls_generations := snd (validate_writer_fence port w f (ls_generations sys))\<rparr>"

context writer_generation_port
begin

lemma validate_law:
  assumes "store_ok s" "validate_writer_fence port w f s = (res, s')"
  shows "store_ok s' \<and> current s' = current s \<and> \<not> panics res \<and> (res = Inr () \<longrightarrow> current s w = Some f) \<and>
    (current s w = Some f \<longrightarrow> res \<noteq> Inl (Err StaleFence))"
proof -
  obtain x s1 where run: "observe_current port w s = (x, s1)"
    by fastforce
  have "store_ok s \<and> current s = current s"
    using assms by simp
  from keeps_run [OF observe_current_law this run] assms(2) run show ?thesis
    by (auto simp: validate_writer_fence_def returns_def panics_def map_err_def
        split: sum.splits failure.splits if_splits)
qed

lemma acquire_law:
  assumes ok: "store_ok (ls_generations sys)" and run: "lease_acquire io w l port sys = (res, sys')"
  shows "store_ok (ls_generations sys') \<and> advances (current (ls_generations sys)) (current (ls_generations sys')) \<and>
    (case res of
       Inl _ \<Rightarrow> ls_locked sys' = ls_locked sys
     | Inr lease \<Rightarrow> \<not> ls_locked sys w \<and> ls_locked sys' = (ls_locked sys)(w := True) \<and>
         wl_workspace_id lease = w \<and> lease_id (wl_fence lease) = l \<and>
         current (ls_generations sys') w = Some (wl_fence lease) \<and>
         (\<forall>f. current (ls_generations sys) w = Some f \<longrightarrow> superseded (current (ls_generations sys')) w f))"
proof (cases "is_ok (prepare_lock io) \<and> \<not> ls_locked sys w \<and> io_flock io = None")
  case False
  with ok run show ?thesis
    by (cases "prepare_lock io") (auto simp: lease_acquire_def is_ok_def split: if_splits option.splits)
next
  case True
  then have prep: "prepare_lock io = Inr ()"
    by (cases "prepare_lock io") (simp_all add: is_ok_def)
  obtain x s1 where alloc: "allocate_next port w l (ls_generations sys) = (x, s1)"
    by fastforce
  note law = wpD [OF allocate_next_law [OF ok] alloc]
  show ?thesis
  proof (cases x)
    case (Inl e)
    with True prep alloc run law show ?thesis
      by (cases e) (auto simp: lease_acquire_def)
  next
    case (Inr g)
    let ?f = "\<lparr>lease_id = l, generation = g\<rparr>"
    obtain y s2 where val: "validate_writer_fence port w ?f s1 = (y, s2)"
      by fastforce
    have s1: "store_ok s1" "current s1 = (current (ls_generations sys))(w \<mapsto> ?f)"
      and gt: "\<forall>f. current (ls_generations sys) w = Some f \<longrightarrow> fence_generation f < generation_get g"
      using law Inr by simp_all
    have s2: "store_ok s2" "current s2 = (current (ls_generations sys))(w \<mapsto> ?f)"
      using validate_law [OF s1(1) val] s1(2) by simp_all
    have adv: "advances (current (ls_generations sys)) (current s2)"
      using gt by (auto simp: advances_def s2)
    show ?thesis
    proof (cases y)
      case (Inl e)
      with True prep alloc val Inr run have "res = Inl e" "sys' = sys\<lparr>ls_generations := s2\<rparr>"
        by (simp_all add: lease_acquire_def Let_def)
      with adv s2 show ?thesis by simp
    next
      case y: (Inr u)
      with True prep alloc val Inr run have "res = Inr \<lparr>wl_workspace_id = w, wl_fence = ?f\<rparr>"
          "sys' = sys\<lparr>ls_generations := s2, ls_locked := (ls_locked sys)(w := True)\<rparr>"
        by (simp_all add: lease_acquire_def Let_def)
      with adv s2 gt True show ?thesis by (simp add: superseded_def)
    qed
  qed
qed

lemma lease_step_law:
  assumes "store_ok (ls_generations sys)"
  shows "store_ok (ls_generations (lease_step port opn sys)) \<and>
    advances (current (ls_generations sys)) (current (ls_generations (lease_step port opn sys)))"
proof (cases opn)
  case (Acquire io w l)
  then show ?thesis
    using acquire_law [OF assms, of io w l] by (cases "lease_acquire io w l port sys") auto
next
  case (Release unlock lease)
  with assms show ?thesis
    by (simp add: lease_release_def Let_def split: option.split)
next
  case (Validate w f)
  then show ?thesis
    using validate_law [OF assms, of w f] by (cases "validate_writer_fence port w f (ls_generations sys)") auto
qed

lemma lease_steps_law:
  "store_ok (ls_generations sys) \<Longrightarrow>
     store_ok (ls_generations (fold (lease_step port) ops sys)) \<and>
     advances (current (ls_generations sys)) (current (ls_generations (fold (lease_step port) ops sys)))"
proof (induction ops arbitrary: sys)
  case (Cons opn ops)
  from lease_step_law [OF Cons.prems] Cons.IH show ?case
    by (auto intro: advances_trans)
qed simp

lemma superseded_never_validates:
  assumes ok: "store_ok (ls_generations sys)" and old: "superseded (current (ls_generations sys)) w f"
    and run: "validate_writer_fence port w f (ls_generations (fold (lease_step port) ops sys)) = (res, s')"
  shows "res \<noteq> Inr ()"
proof -
  let ?sys = "fold (lease_step port) ops sys"
  note law = lease_steps_law [OF ok, of ops]
  with old have "superseded (current (ls_generations ?sys)) w f"
    by (auto intro: superseded_advances)
  with validate_law [OF _ run] law show ?thesis
    by (auto simp: superseded_def)
qed

end

section \<open>Properties of writer authority\<close>

text \<open>A store without failing calls in which workspace 3 is at generation \<open>n\<close>, and a private lock directory.\<close>

definition example_generations :: "u64 \<Rightarrow> generation_store" where
  "example_generations n = \<lparr>
     generation_rows = [workspace_key (WorkspaceId 3) \<mapsto>
       \<lparr>current_generation = SqlBlob (to_be_bytes n), current_lease_id = SqlBlob (lease_blob (LeaseId 7)),
        acquired_at_unix_micros = SqlInteger 1\<rparr>],
     gs_clock = 0, gs_faults = (\<lambda>_. False), gs_micros = (\<lambda>k. int k)\<rparr>"

definition example_lease_io :: lease_io where
  "example_lease_io = \<lparr>
     io_admin_metadata = Some \<lparr>md_is_dir = True, md_is_symlink = False, md_is_file = False, md_nlink = 2, md_mode = 448\<rparr>,
     io_open_directory = None, io_open_lock = None,
     io_lock_metadata = Some \<lparr>md_is_dir = False, md_is_symlink = False, md_is_file = True, md_nlink = 1, md_mode = 384\<rparr>,
     io_flock = None\<rparr>"

definition example_lease_system :: "u64 \<Rightarrow> generation_store lease_system" where
  "example_lease_system n = \<lparr>ls_generations = example_generations n, ls_locked = (\<lambda>_. False)\<rparr>"

definition example_writer_fence :: "u64 \<Rightarrow> writer_fence" where
  "example_writer_fence n = \<lparr>lease_id = LeaseId 7, generation = WriterGeneration (nz n)\<rparr>"

lemma example_row_decodes:
  "n \<noteq> 0 \<Longrightarrow> decode_temporal_row \<lparr>current_generation = SqlBlob (to_be_bytes n),
      current_lease_id = SqlBlob (lease_blob (LeaseId 7)), acquired_at_unix_micros = SqlInteger 1\<rparr>
    = Inr (example_writer_fence n)"
  by (simp add: decode_written_row [of n "WriterGeneration (nz n)"] writer_generation_new_def
      nz_new_def example_writer_fence_def)

lemma example_generations_current:
  "n \<noteq> 0 \<Longrightarrow> generation_current (example_generations n) (WorkspaceId 3) = Some (example_writer_fence n)"
  by (simp add: generation_fences_def example_generations_def example_row_decodes)

lemma example_generations_ok: "n \<noteq> 0 \<Longrightarrow> generation_store_ok (example_generations n)"
  by (simp add: generation_rows_ok_def example_generations_def example_row_decodes is_ok_def)

text \<open>
  C17.  Acquiring a lease yields the only current authority: the workspace lock was free and is now
  held, the returned fence carries the requested lease and is the current one, and the fence that
  was current before is superseded by a strictly larger generation; a failed acquisition leaves no
  lock behind.
\<close>

theorem acquired_lease_is_current:
  assumes "generation_store_ok (ls_generations sys)"
    and "lease_acquire io w l sqlite_writer_generation_store sys = (res, sys')"
  shows "generation_store_ok (ls_generations sys') \<and>
    (case res of
       Inl _ \<Rightarrow> ls_locked sys' = ls_locked sys
     | Inr lease \<Rightarrow> \<not> ls_locked sys w \<and> ls_locked sys' = (ls_locked sys)(w := True) \<and>
         wl_workspace_id lease = w \<and> lease_id (wl_fence lease) = l \<and>
         generation_current (ls_generations sys') w = Some (wl_fence lease) \<and>
         (\<forall>f. generation_current (ls_generations sys) w = Some f \<longrightarrow>
            superseded (generation_current (ls_generations sys')) w f))"
  using generations.acquire_law [OF assms] by (simp split: sum.splits)

theorem acquired_lease_is_current_witness:
  "let (res, sys') = lease_acquire example_lease_io (WorkspaceId 3) (LeaseId 9)
         sqlite_writer_generation_store (example_lease_system 4)
   in (\<exists>lease. res = Inr lease \<and> fence_generation (wl_fence lease) = 5) \<and>
      ls_locked sys' (WorkspaceId 3) \<and>
      superseded (generation_current (ls_generations sys')) (WorkspaceId 3) (example_writer_fence 4)"
proof -
  let ?run = "lease_acquire example_lease_io (WorkspaceId 3) (LeaseId 9)
         sqlite_writer_generation_store (example_lease_system 4)"
  obtain res sys' where run: "?run = (res, sys')" by fastforce
  have ok: "generation_store_ok (ls_generations (example_lease_system 4))"
    by (simp add: example_lease_system_def example_generations_ok)
  have res: "res = Inr \<lparr>wl_workspace_id = WorkspaceId 3,
      wl_fence = \<lparr>lease_id = LeaseId 9, generation = WriterGeneration (nz 5)\<rparr>\<rparr>"
    using run
    by (simp add: lease_acquire_def prepare_lock_def example_lease_io_def example_lease_system_def
        example_generations_def sqlite_writer_generation_store_def sqlite_allocate_next_def
        allocate_transaction_def select_generation_def bindS_def gs_call_def unix_micros_def
        upsert_generation_def Let_def validate_writer_fence_def sqlite_observe_current_def
        example_row_decodes example_writer_fence_def checked_add_def writer_generation_new_def nz_new_def
        generation_checks_def decode_written_row [of 5 "WriterGeneration (nz 5)"])
  from acquired_lease_is_current [OF ok run] res run show ?thesis
    by (simp add: example_lease_system_def example_generations_current)
qed

text \<open>
  C18.  A superseded fence is dead: whatever acquisitions, releases and validations follow, with any
  failures of the store in between, the durable boundary never accepts it again.
\<close>

theorem superseded_fence_is_dead:
  assumes "generation_store_ok (ls_generations sys)"
    and "superseded (generation_current (ls_generations sys)) w f"
    and "validate_writer_fence sqlite_writer_generation_store w f
           (ls_generations (fold (lease_step sqlite_writer_generation_store) ops sys)) = (res, s')"
  shows "res \<noteq> Inr ()"
  using assms by (rule generations.superseded_never_validates)

theorem superseded_fence_is_dead_witness:
  "superseded (generation_current (ls_generations (example_lease_system 4))) (WorkspaceId 3) (example_writer_fence 2) \<and>
   fst (validate_writer_fence sqlite_writer_generation_store (WorkspaceId 3) (example_writer_fence 2)
     (ls_generations (fold (lease_step sqlite_writer_generation_store)
        [Acquire example_lease_io (WorkspaceId 3) (LeaseId 9), Validate (WorkspaceId 3) (example_writer_fence 4)]
        (example_lease_system 4)))) \<noteq> Inr ()"
proof -
  have ok: "generation_store_ok (ls_generations (example_lease_system 4))"
    by (simp add: example_lease_system_def example_generations_ok)
  have old: "superseded (generation_current (ls_generations (example_lease_system 4))) (WorkspaceId 3) (example_writer_fence 2)"
    by (simp add: superseded_def example_lease_system_def example_generations_current example_writer_fence_def)
  from superseded_fence_is_dead [OF ok old surjective_pairing] old show ?thesis
    by blast
qed

text \<open>
  Generations do not wrap: at the largest 64-bit generation a further allocation reports
  exhaustion and leaves the durable state as it was.
\<close>

theorem generation_exhaustion:
  assumes "generation_store_ok s" and "gs_faults s = (\<lambda>_. False)"
    and "generation_current s w = Some f" and "fence_generation f = - 1"
    and "sqlite_allocate_next w l s = (res, s')"
  shows "res = Inl (Err Exhausted) \<and> generation_rows s' = generation_rows s"
proof -
  from assms(3) obtain row where row: "generation_rows s (workspace_key w) = Some row"
      "decode_temporal_row row = Inr f"
    by (auto simp: generation_fences_def split: option.splits sum.splits)
  have "checked_add (fence_generation f) 1 = None"
    by (simp add: checked_add_None_iff assms(4) unsigned_minus_1_eq_mask mask_eq_exp_minus_1)
  with row assms(2,5) show ?thesis
    by (auto simp: sqlite_allocate_next_def allocate_transaction_def select_generation_def bindS_def gs_call_def)
qed

theorem generation_exhaustion_witness:
  "let (res, s') = sqlite_allocate_next (WorkspaceId 3) (LeaseId 9) (example_generations (- 1))
   in res = Inl (Err Exhausted) \<and> generation_rows s' = generation_rows (example_generations (- 1))"
proof -
  obtain res s' where run: "sqlite_allocate_next (WorkspaceId 3) (LeaseId 9) (example_generations (- 1)) = (res, s')"
    by fastforce
  have "gs_faults (example_generations (- 1)) = (\<lambda>_. False)" "fence_generation (example_writer_fence (- 1)) = - 1"
    by (simp_all add: example_generations_def example_writer_fence_def)
  from generation_exhaustion [OF example_generations_ok this(1) example_generations_current this(2) run] run
  show ?thesis by simp
qed

lemma hex_digit_inject:
  assumes "m < 16" "n < 16"
  shows "hex_digit m = hex_digit n \<longleftrightarrow> m = n"
proof -
  have code: "of_char (hex_digit k) = (if k < 10 then k + 48 else k + 87)" if "k < 16" for k :: nat
    using that by (simp add: hex_digit_def)
  show ?thesis
  proof
    assume "hex_digit m = hex_digit n"
    then have "(of_char (hex_digit m) :: nat) = of_char (hex_digit n)" by simp
    then show "m = n"
      unfolding code [OF assms(1)] code [OF assms(2)] using assms by (simp split: if_splits)
  qed simp
qed

lemma hex_byte_inject: "hex_byte a = hex_byte b \<longleftrightarrow> a = b"
proof -
  have lt: "unat x div 16 < 16" for x :: u8
    using unat_u8_less [of x] by (simp add: less_mult_imp_div_less del: unat_u8_less)
  have "unat a = unat b" if "unat a div 16 = unat b div 16" "unat a mod 16 = unat b mod 16"
    using that by (metis mult_div_mod_eq)
  then show ?thesis
    by (auto simp: hex_byte_def hex_digit_inject lt word_unat_eq_iff)
qed

lemma concat_hex_inject:
  "length xs = length ys \<Longrightarrow> concat (map hex_byte xs) = concat (map hex_byte ys) \<longleftrightarrow> xs = ys"
proof (induction xs ys rule: list_induct2)
  case (Cons x xs y ys)
  have "length (hex_byte x) = length (hex_byte y)"
    by (simp add: hex_byte_def)
  with Cons show ?case
    by (simp add: hex_byte_inject)
qed simp

text \<open>
  Workspaces never share a lock: distinct workspace identities have distinct lock file names.
\<close>

theorem lock_file_name_is_unique: "lock_file_name a = lock_file_name b \<longleftrightarrow> a = b"
  by (simp add: lock_file_name_def concat_hex_inject)

end
