(* ===== verification/CommandRuntime.thy ===== *)
theory CommandRuntime
  imports CommandActor CommandJournal WriterAuthority
begin

text \<open>
  The command runtime (\<open>src/fabric/command_runtime.rs\<close>): the actor over the SQLite journal, its
  context port bound to the writer lease, and bounded startup recovery.

  The two contracts meet here.  The actor is interpreted over the journal, so that its laws are
  facts about stored rows; the context port is built on the generation store, so that a runtime
  whose fence is no longer current can neither write a record nor call an effect.  Recovery sweeps
  follow the page cursor of the journal; a sweep needs at most one page more than there are rows,
  and that much fuel is shown to be enough.  The Tokio tasks, the opening of the databases and the
  release of the lock file are not modelled.
\<close>


section \<open>The lease-bound context port\<close>

record semantic_admission_context =
  sem_workspace_id :: workspace_id
  sem_current_head :: expected_head
  sem_authorization :: authorization_decision

record 'x command_semantic_context_port =
  read_admission_semantics :: "fabric_command \<Rightarrow> ('x, command_port_error, semantic_admission_context) prog"
  read_current_head :: "command_record \<Rightarrow> ('x, command_port_error, expected_head) prog"

text \<open>The world outside the journal: the generation store, and what the semantic and effect ports see.\<close>

record 'x runtime_world =
  rw_generations :: generation_store
  rw_semantics :: 'x

definition on_generations :: "(generation_store, 'e, 'a) prog \<Rightarrow> ('x runtime_world, 'e, 'a) prog" where
  "on_generations m w = (case m (rw_generations w) of (r, g) \<Rightarrow> (r, w\<lparr>rw_generations := g\<rparr>))"

definition on_semantics :: "('x, 'e, 'a) prog \<Rightarrow> ('x runtime_world, 'e, 'a) prog" where
  "on_semantics m w = (case m (rw_semantics w) of (r, x) \<Rightarrow> (r, w\<lparr>rw_semantics := x\<rparr>))"

definition map_errS :: "('e \<Rightarrow> 'f) \<Rightarrow> ('s, 'e, 'a) prog \<Rightarrow> ('s, 'f, 'a) prog" where
  "map_errS g m s = (case m s of (r, s') \<Rightarrow> (map_err g r, s'))"

record 'x lease_bound_command_context_port =
  lb_workspace_id :: workspace_id
  lb_fence :: writer_fence
  lb_semantics :: "'x command_semantic_context_port"

definition validate_active_authority ::
  "'x lease_bound_command_context_port \<Rightarrow> ('x runtime_world, command_port_error, unit) prog" where
  "validate_active_authority p =
     map_errS (\<lambda>_. ContextUnavailable)
       (on_generations (validate_writer_fence sqlite_writer_generation_store (lb_workspace_id p) (lb_fence p)))"

definition validate_admission ::
  "'x lease_bound_command_context_port \<Rightarrow> fabric_command \<Rightarrow> ('x runtime_world, command_port_error, unit) prog" where
  "validate_admission p c =
     bindS (liftS (ensure (\<not> (own_workspace_id (ownership c) \<noteq> lb_workspace_id p \<or> writer_fence c \<noteq> lb_fence p))
       ContextUnavailable)) (\<lambda>_.
     validate_active_authority p)"

definition validate_reduction ::
  "'x lease_bound_command_context_port \<Rightarrow> fabric_command \<Rightarrow> ('x runtime_world, command_port_error, unit) prog" where
  "validate_reduction p c =
     bindS (liftS (ensure (\<not> (own_workspace_id (ownership c) \<noteq> lb_workspace_id p
         \<or> (writer_fence c \<noteq> lb_fence p \<and> fence_generation (lb_fence p) \<le> fence_generation (writer_fence c))))
       ContextUnavailable)) (\<lambda>_.
     validate_active_authority p)"

definition lease_bound_admission_context ::
  "'x lease_bound_command_context_port \<Rightarrow> fabric_command \<Rightarrow> ('x runtime_world, command_port_error, admission_context) prog" where
  "lease_bound_admission_context p c =
     bindS (validate_admission p c) (\<lambda>_.
     bindS (on_semantics (read_admission_semantics (lb_semantics p) c)) (\<lambda>semantics.
     bindS (liftS (ensure (\<not> sem_workspace_id semantics \<noteq> lb_workspace_id p) ContextUnavailable)) (\<lambda>_.
     liftS (Inr \<lparr>adm_workspace_id = sem_workspace_id semantics,
                 adm_current_head = sem_current_head semantics,
                 adm_active_fence = lb_fence p,
                 adm_authorization = sem_authorization semantics\<rparr>))))"

definition lease_bound_reduction_context ::
  "'x lease_bound_command_context_port \<Rightarrow> command_record \<Rightarrow> ('x runtime_world, command_port_error, reduction_context) prog" where
  "lease_bound_reduction_context p r =
     bindS (validate_reduction p (command r)) (\<lambda>_.
     bindS (on_semantics (read_current_head (lb_semantics p) r)) (\<lambda>current_head.
     liftS (Inr \<lparr>ctx_current_head = current_head, ctx_active_fence = lb_fence p\<rparr>)))"

definition lease_bound_port ::
  "'x lease_bound_command_context_port \<Rightarrow> 'x runtime_world command_reduction_context_port" where
  "lease_bound_port p = \<lparr>read_admission_context = lease_bound_admission_context p,
                         read_reduction_context = lease_bound_reduction_context p\<rparr>"


section \<open>The runtime\<close>

record runtime_config =
  cfg_workspace_id :: workspace_id
  cfg_writer_generation_database :: string
  cfg_actor_id :: actor_id

record 'x fabric_command_runtime =
  rt_workspace_id :: workspace_id
  rt_fence :: writer_fence
  rt_actor :: "(journal, 'x runtime_world) fabric_command_actor"
  rt_codec :: record_codec
  rt_writer_lease :: "workspace_writer_lease option"

type_synonym 'x runtime_state = "(journal, 'x runtime_world) actor_state"

datatype runtime_start_error = StartWriterLease workspace_writer_lease_error

definition start_with_held_authority ::
  "record_codec \<Rightarrow> runtime_config \<Rightarrow> string \<Rightarrow> workspace_writer_lease \<Rightarrow> 'x command_semantic_context_port
     \<Rightarrow> 'x runtime_world fabric_command_effect_port
     \<Rightarrow> (generation_store, runtime_start_error, 'x fabric_command_runtime) prog" where
  "start_with_held_authority c config database_path lease semantics effs =
     bindS (liftS (ensure (\<not> (wl_workspace_id lease \<noteq> cfg_workspace_id config
         \<or> database_path \<noteq> cfg_writer_generation_database config)) (StartWriterLease StaleFence))) (\<lambda>_.
     bindS (map_errS StartWriterLease (lease_validate lease sqlite_writer_generation_store)) (\<lambda>_.
     let f = wl_fence lease in
     liftS (Inr \<lparr>rt_workspace_id = cfg_workspace_id config, rt_fence = f,
       rt_actor = \<lparr>fca_actor_id = cfg_actor_id config, records = sqlite_command_record_store c,
         contexts = lease_bound_port \<lparr>lb_workspace_id = cfg_workspace_id config, lb_fence = f, lb_semantics = semantics\<rparr>,
         effects = effs\<rparr>,
       rt_codec = c, rt_writer_lease = Some lease\<rparr>)))"

datatype fabric_command_admission_open_error =
    OpenWriterAuthority workspace_writer_lease_error
  | CommandStore command_port_error
  | RecoveryPending operation_id command_recovery_obligation
  | OpenActor fabric_command_actor_error

datatype fabric_command_recovery_error =
    RecoveryWriterAuthority workspace_writer_lease_error
  | TerminalRecord operation_id
  | InterruptionDiagnostic command_port_error
  | Journal command_port_error
  | RecoveryActor fabric_command_actor_error

datatype fabric_command_startup_recovery_error =
    Recovery fabric_command_recovery_error
  | Admission fabric_command_admission_open_error
  | TransitionCountOverflow

definition close_gate :: "('s, 'w) actor_state \<Rightarrow> ('s, 'w) actor_state" where
  "close_gate st = st\<lparr>gate_open := False\<rparr>"

definition validate_writer_authority ::
  "'x fabric_command_runtime \<Rightarrow> ('x runtime_state, workspace_writer_lease_error, unit) prog" where
  "validate_writer_authority rt =
     bindS (liftS (ok_or (rt_writer_lease rt) StaleFence)) (\<lambda>lease st.
       case lease_validate lease sqlite_writer_generation_store (rw_generations (world st)) of
         (res, g) \<Rightarrow> (res, st\<lparr>world := (world st)\<lparr>rw_generations := g\<rparr>\<rparr>))"

text \<open>
  A call through the handle: the message goes to the serial actor.  A stopped actor has closed its
  queue, and an actor that dies while handling the message drops the reply.
\<close>

definition record_call ::
  "('s, 'w) fabric_command_actor \<Rightarrow> actor_message \<Rightarrow> (('s, 'w) actor_state, fabric_command_actor_error, command_record) prog" where
  "record_call a message st =
     (if stopped st then (Inl (Err QueueClosed), st)
      else case handle_message a message st of
        (RecordReply res, st') \<Rightarrow> (if panics res then Inl (Err ResponseDropped) else res, st')
      | (_, st') \<Rightarrow> (Inl (Err ResponseDropped), st'))"

definition open_call ::
  "('s, 'w) fabric_command_actor \<Rightarrow> (('s, 'w) actor_state, fabric_command_actor_error, unit) prog" where
  "open_call a st =
     (if stopped st then (Inl (Err QueueClosed), st)
      else case handle_message a OpenAdmission st of
        (UnitReply res, st') \<Rightarrow> (if panics res then Inl (Err ResponseDropped) else res, st')
      | (_, st') \<Rightarrow> (Inl (Err ResponseDropped), st'))"

fun admission_open_error :: "fabric_command_actor_error \<Rightarrow> fabric_command_admission_open_error" where
  "admission_open_error (ActorRecoveryPending opn obligation) = RecoveryPending opn obligation"
| "admission_open_error (Port e) = CommandStore e"
| "admission_open_error e = OpenActor e"

definition open_command_admission ::
  "'x fabric_command_runtime \<Rightarrow> ('x runtime_state, fabric_command_admission_open_error, unit) prog" where
  "open_command_admission rt st =
     bindS (map_errS OpenWriterAuthority (validate_writer_authority rt)) (\<lambda>_.
     map_errS admission_open_error (open_call (rt_actor rt))) (close_gate st)"

record 'x interrupted_commit_diagnostic_port =
  interruption_diagnostic ::
    "command_record \<Rightarrow> transaction_ref \<Rightarrow> writer_fence \<Rightarrow> ('x runtime_world, command_port_error, diagnostic_ref) prog"

record command_recovery_transition =
  rec_operation_id :: operation_id
  rec_prior_obligation :: command_recovery_obligation
  rec_resulting_record :: command_record

record command_recovery_pass =
  pass_transitions :: "command_recovery_transition list"
  pass_next_after :: "operation_id option"

definition ask_diagnostic ::
  "('x runtime_world, command_port_error, diagnostic_ref) prog
     \<Rightarrow> ('x runtime_state, fabric_command_recovery_error, diagnostic_ref) prog" where
  "ask_diagnostic m st =
     (case m (world st) of (r, w) \<Rightarrow> (map_err InterruptionDiagnostic r, st\<lparr>world := w\<rparr>))"

definition recover_record ::
  "'x fabric_command_runtime \<Rightarrow> 'x interrupted_commit_diagnostic_port \<Rightarrow> command_record
     \<Rightarrow> ('x runtime_state, fabric_command_recovery_error, command_recovery_transition) prog" where
  "recover_record rt diagnostics r =
     (let opn = record_operation r in
     bindS (liftS (ok_or (recovery_obligation r) (TerminalRecord opn))) (\<lambda>obligation.
     bindS (case obligation of
         ResumePrecommit \<Rightarrow>
           map_errS RecoveryActor (record_call (rt_actor rt) (ResumePrecommitMessage opn))
       | MarkInterruptedCommit transaction \<Rightarrow>
           bindS (ask_diagnostic (interruption_diagnostic diagnostics r transaction (rt_fence rt))) (\<lambda>diagnostic.
           map_errS RecoveryActor (record_call (rt_actor rt) (MarkInterruptedCommitMessage opn
             \<lparr>reason = ProcessInterrupted, unknown_diagnostic = diagnostic\<rparr>)))
       | ReconcileCommit _ \<Rightarrow>
           map_errS RecoveryActor (record_call (rt_actor rt) (Reconcile opn))
       | RetryProvedNotCommitted \<Rightarrow>
           map_errS RecoveryActor (record_call (rt_actor rt) (Retry opn))) (\<lambda>resulting_record.
     liftS (Inr \<lparr>rec_operation_id = opn, rec_prior_obligation = obligation,
                 rec_resulting_record = resulting_record\<rparr>))))"

fun recover_records ::
  "'x fabric_command_runtime \<Rightarrow> 'x interrupted_commit_diagnostic_port \<Rightarrow> command_record list
     \<Rightarrow> ('x runtime_state, fabric_command_recovery_error, command_recovery_transition list) prog" where
  "recover_records rt diagnostics [] = liftS (Inr [])"
| "recover_records rt diagnostics (r # rs) =
     bindS (recover_record rt diagnostics r) (\<lambda>t.
     bindS (recover_records rt diagnostics rs) (\<lambda>ts.
     liftS (Inr (t # ts))))"

definition load_page ::
  "'x fabric_command_runtime \<Rightarrow> operation_id option \<Rightarrow> command_recovery_page_size
     \<Rightarrow> ('x runtime_state, fabric_command_recovery_error, command_recovery_page) prog" where
  "load_page rt after page_size st =
     (case load_nonterminal_page (rt_codec rt) after page_size (store st) of
        (r, j) \<Rightarrow> (map_err Journal r, st\<lparr>store := j\<rparr>))"

definition recover_nonterminal_page ::
  "'x fabric_command_runtime \<Rightarrow> 'x interrupted_commit_diagnostic_port \<Rightarrow> operation_id option
     \<Rightarrow> command_recovery_page_size \<Rightarrow> ('x runtime_state, fabric_command_recovery_error, command_recovery_pass) prog" where
  "recover_nonterminal_page rt diagnostics after page_size st =
     bindS (map_errS RecoveryWriterAuthority (validate_writer_authority rt)) (\<lambda>_.
     bindS (load_page rt after page_size) (\<lambda>page.
     bindS (recover_records rt diagnostics (page_records page)) (\<lambda>transitions.
     liftS (Inr \<lparr>pass_transitions = transitions, pass_next_after = next_after page\<rparr>)))) (close_gate st)"

datatype startup_recovery_state = Ready | Pending operation_id command_recovery_obligation

record fabric_command_startup_recovery =
  startup_state :: startup_recovery_state
  startup_sweeps :: nat
  startup_transitions :: u64

text \<open>
  The inner loop of a sweep follows the cursor from page to page; the fuel bounds the number of
  pages, and \<open>None\<close> is the value of a sweep that ran out of it.
\<close>

fun recover_sweep ::
  "nat \<Rightarrow> 'x fabric_command_runtime \<Rightarrow> 'x interrupted_commit_diagnostic_port \<Rightarrow> command_recovery_page_size
     \<Rightarrow> operation_id option \<Rightarrow> u64 \<Rightarrow> 'x runtime_state
     \<Rightarrow> ((fabric_command_startup_recovery_error, u64) result \<times> 'x runtime_state) option" where
  "recover_sweep 0 rt diagnostics page_size after transitions st = None"
| "recover_sweep (Suc fuel) rt diagnostics page_size after transitions st =
     (case recover_nonterminal_page rt diagnostics after page_size st of
        (Inl e, st') \<Rightarrow> Some (map_err Recovery (Inl e), st')
      | (Inr pass, st') \<Rightarrow>
          (case checked_add transitions (of_nat (length (pass_transitions pass))) of
             None \<Rightarrow> Some (Inl (Err TransitionCountOverflow), st')
           | Some transitions' \<Rightarrow>
               (case pass_next_after pass of
                  None \<Rightarrow> Some (Inr transitions', st')
                | Some nxt \<Rightarrow> recover_sweep fuel rt diagnostics page_size (Some nxt) transitions' st')))"

fun recover_sweeps ::
  "nat \<Rightarrow> nat \<Rightarrow> nat \<Rightarrow> 'x fabric_command_runtime \<Rightarrow> 'x interrupted_commit_diagnostic_port
     \<Rightarrow> command_recovery_page_size \<Rightarrow> u64 \<Rightarrow> 'x runtime_state
     \<Rightarrow> ((fabric_command_startup_recovery_error, fabric_command_startup_recovery) result \<times> 'x runtime_state) option" where
  "recover_sweeps fuel sweep_index 0 rt diagnostics page_size transitions st = Some (Inl Panic, st)"
| "recover_sweeps fuel sweep_index (Suc remaining) rt diagnostics page_size transitions st =
     (case recover_sweep fuel rt diagnostics page_size None transitions st of
        None \<Rightarrow> None
      | Some (Inl e, st') \<Rightarrow> Some (Inl e, st')
      | Some (Inr transitions', st') \<Rightarrow>
          (case open_command_admission rt st' of
             (Inr _, st'') \<Rightarrow> Some (Inr \<lparr>startup_state = Ready, startup_sweeps = sweep_index + 1,
                 startup_transitions = transitions'\<rparr>, st'')
           | (Inl (Err (RecoveryPending opn obligation)), st'') \<Rightarrow>
               if remaining = 0
               then Some (Inr \<lparr>startup_state = Pending opn obligation, startup_sweeps = sweep_index + 1,
                 startup_transitions = transitions'\<rparr>, st'')
               else recover_sweeps fuel (sweep_index + 1) remaining rt diagnostics page_size transitions' st''
           | (Inl e, st'') \<Rightarrow> Some (map_err Admission (Inl e), st'')))"

definition recover_and_open_bounded ::
  "nat \<Rightarrow> 'x fabric_command_runtime \<Rightarrow> 'x interrupted_commit_diagnostic_port \<Rightarrow> command_recovery_page_size
     \<Rightarrow> nonzero_u64 \<Rightarrow> 'x runtime_state
     \<Rightarrow> ((fabric_command_startup_recovery_error, fabric_command_startup_recovery) result \<times> 'x runtime_state) option" where
  "recover_and_open_bounded fuel rt diagnostics page_size maximum_sweeps st =
     recover_sweeps fuel 0 (unat (nz_get maximum_sweeps)) rt diagnostics page_size 0 st"

datatype fabric_command_runtime_shutdown_error =
    ShutdownActor fabric_command_actor_error
  | ShutdownWriterLease workspace_writer_lease_error

definition shutdown ::
  "errno option \<Rightarrow> 'x fabric_command_runtime \<Rightarrow> ('x runtime_state, fabric_command_runtime_shutdown_error, unit) prog" where
  "shutdown unlock rt st =
     (if stopped st then (Inl (Err (ShutdownActor QueueClosed)), st)
      else case handle_message (rt_actor rt) Shutdown st of
        (_, st') \<Rightarrow>
          (case rt_writer_lease rt of
             None \<Rightarrow> (Inr (), st')
           | Some lease \<Rightarrow>
               (case unlock of
                  None \<Rightarrow> (Inr (), st')
                | Some e \<Rightarrow> (Inl (Err (ShutdownWriterLease (LeaseIo e))), st'))))"


section \<open>The actor over the SQLite journal\<close>

abbreviation sqlite_ok :: "record_codec \<Rightarrow> journal \<Rightarrow> bool" where
  "sqlite_ok c j \<equiv> codec_ok c \<and> journal_ok c j"

interpretation wired: command_actor "sqlite_command_record_store c" "sqlite_ok c" "\<lambda>j. journal_view c j"
  "a\<lparr>records := sqlite_command_record_store c\<rparr>" for c and a :: "(journal, 'w) fabric_command_actor"
  by unfold_locales simp

definition wired_to :: "record_codec \<Rightarrow> (journal, 'w) fabric_command_actor \<Rightarrow> bool" where
  "wired_to c a \<longleftrightarrow> records a = sqlite_command_record_store c"

lemma wired_to_update: "wired_to c a \<Longrightarrow> a\<lparr>records := sqlite_command_record_store c\<rparr> = a"
  by (simp add: wired_to_def)

abbreviation actor_invariant :: "record_codec \<Rightarrow> (journal, 'w) actor_state \<Rightarrow> bool" where
  "actor_invariant c \<equiv> actor_ok (sqlite_ok c) (\<lambda>j. journal_view c j)"

lemma spawned_invariant: "sqlite_ok c j \<Longrightarrow> actor_invariant c (spawned_closed j w)"
  by (simp add: actor_ok_def spawned_closed_def)

lemma run_from_spawn:
  assumes "wired_to c a" "sqlite_ok c j" "actor_run a inputs (spawned_closed j w) = (replies, st')"
  shows "actor_invariant c st' \<and> evolves (journal_view c j) (journal_view c (store st'))"
proof -
  have inv: "actor_invariant c (spawned_closed j w)"
    by (rule spawned_invariant [OF assms(2)])
  have "actor_run (a\<lparr>records := sqlite_command_record_store c\<rparr>) inputs (spawned_closed j w) = (replies, st')"
    using assms(1,3) by (simp add: wired_to_update)
  from wired.actor_run_ok [OF inv this] show ?thesis
    by (simp add: spawned_closed_def)
qed


section \<open>A runtime that lost its authority\<close>

text \<open>The fence of the runtime is not the current one of its workspace.\<close>

definition stale :: "'x lease_bound_command_context_port \<Rightarrow> 'x runtime_world \<Rightarrow> bool" where
  "stale p w \<longleftrightarrow> generation_store_ok (rw_generations w) \<and>
     generation_current (rw_generations w) (lb_workspace_id p) \<noteq> Some (lb_fence p)"

lemma validate_active_authority_stale:
  assumes "stale p w" "validate_active_authority p w = (res, w')"
  shows "stale p w' \<and> (\<exists>e. res = Inl e)"
proof -
  obtain x g where run: "validate_writer_fence sqlite_writer_generation_store (lb_workspace_id p) (lb_fence p)
      (rw_generations w) = (x, g)"
    by fastforce
  have ok: "generation_store_ok (rw_generations w)"
    using assms(1) by (simp add: stale_def)
  from generations.validate_law [OF ok run] assms run show ?thesis
    by (cases x) (auto simp: validate_active_authority_def map_errS_def on_generations_def stale_def map_err_def
        split: failure.split)
qed

lemma lease_bound_reduction_stale:
  assumes "stale p w" "lease_bound_reduction_context p r w = (res, w')"
  shows "stale p w' \<and> (\<exists>e. res = Inl e)"
proof (cases "validate_active_authority p w")
  case (Pair x w1)
  from validate_active_authority_stale [OF assms(1) Pair] assms Pair show ?thesis
    by (auto simp: lease_bound_reduction_context_def validate_reduction_def bindS_def ensure_def split: if_splits)
qed

lemma lease_bound_admission_stale:
  assumes "stale p w" "lease_bound_admission_context p c w = (res, w')"
  shows "stale p w' \<and> (\<exists>e. res = Inl e)"
proof (cases "validate_active_authority p w")
  case (Pair x w1)
  from validate_active_authority_stale [OF assms(1) Pair] assms Pair show ?thesis
    by (auto simp: lease_bound_admission_context_def validate_admission_def bindS_def ensure_def split: if_splits)
qed

text \<open>What stays fixed while the authority is gone: the stored records and the log of effect calls.\<close>

definition inert ::
  "record_codec \<Rightarrow> 'x lease_bound_command_context_port \<Rightarrow> record_view \<Rightarrow> (effect_call \<times> journal) list
     \<Rightarrow> 'x runtime_state \<Rightarrow> bool" where
  "inert c p v lg st \<longleftrightarrow> sqlite_ok c (store st) \<and> journal_view c (store st) = v \<and> effect_log st = lg \<and>
     stale p (world st)"

lemma triple_False [simp]: "triple (\<lambda>_. False) m Q E"
  by (simp add: triple_def)

lemma inert_reads:
  "triple (inert c p v lg) (on_world (lease_bound_reduction_context p r)) (\<lambda>_ _. False) (inert c p v lg)"
  "triple (inert c p v lg) (on_world (lease_bound_admission_context p d)) (\<lambda>_ _. False) (inert c p v lg)"
  by (auto simp: triple_def wp_def on_world_def inert_def split: prod.splits sum.splits
      dest: lease_bound_reduction_stale lease_bound_admission_stale)

lemma inert_store:
  fixes p :: "'x lease_bound_command_context_port"
  assumes "keeps (\<lambda>j. sqlite_ok c j \<and> journal_view c j = v) m P"
  shows "triple (inert c p v lg) (on_store m) (\<lambda>_. inert c p v lg) (inert c p v lg)"
proof (rule tripleI)
  fix st :: "'x runtime_state"
  assume st: "inert c p v lg st"
  obtain res j where run: "m (store st) = (res, j)" by fastforce
  have "sqlite_ok c (store st) \<and> journal_view c (store st) = v"
    using st by (simp add: inert_def)
  from keeps_run [OF assms this run] st run
  show "wp (on_store m) (\<lambda>res st'. case res of Inl _ \<Rightarrow> inert c p v lg st' | Inr _ \<Rightarrow> inert c p v lg st') st"
    by (auto simp: wp_def on_store_def inert_def split: sum.split)
qed

lemma inert_lift: "triple (inert c p v lg) (liftS m) (\<lambda>_. inert c p v lg) (inert c p v lg)"
  by (rule triple_liftS)

lemmas inert_rules =
  triple_bindS [OF inert_store [OF sqlite.lookup_operation_law]]
  triple_bindS [OF inert_store [OF sqlite.lookup_admission_law]]
  triple_bindS [OF inert_reads(1)] triple_bindS [OF inert_reads(2)] triple_bindS [OF inert_lift] inert_lift
  triple_False

definition bound_to ::
  "record_codec \<Rightarrow> 'x lease_bound_command_context_port \<Rightarrow> (journal, 'x runtime_world) fabric_command_actor \<Rightarrow> bool" where
  "bound_to c p a \<longleftrightarrow> wired_to c a \<and> contexts a = lease_bound_port p"

lemma bound_ports:
  assumes "bound_to c p a"
  shows "records a = sqlite_command_record_store c"
    "read_reduction_context (contexts a) = lease_bound_reduction_context p"
    "read_admission_context (contexts a) = lease_bound_admission_context p"
  using assms by (simp_all add: bound_to_def wired_to_def lease_bound_port_def)

lemma inert_lookup:
  assumes "bound_to c p a" "\<And>r. triple (inert c p v lg) (f r) Q (inert c p v lg)"
  shows "triple (inert c p v lg) (bindS (lookup_required a opn) f) Q (inert c p v lg)"
  unfolding lookup_required_def bound_ports [OF assms(1)]
  by (rule triple_bindS, rule triple_bindS, rule inert_store [OF sqlite.lookup_operation_law],
      rule inert_lift, rule assms(2))

lemma inert_transition:
  assumes "bound_to c p a"
  shows "triple (inert c p v lg) (transition a r e) Q (inert c p v lg)"
  unfolding transition_def bound_ports [OF assms] by (intro inert_rules)

lemma inert_handlers:
  fixes p :: "'x lease_bound_command_context_port"
  assumes b: "bound_to c p a"
  shows "triple (inert c p v lg) (process_submit a d) (\<lambda>_. inert c p v lg) (inert c p v lg)"
    "triple (inert c p v lg) (process_retry a opn) (\<lambda>_. inert c p v lg) (inert c p v lg)"
    "triple (inert c p v lg) (process_resume_precommit a opn) (\<lambda>_. inert c p v lg) (inert c p v lg)"
    "triple (inert c p v lg) (process_mark_interrupted_commit a opn unknown) (\<lambda>_. inert c p v lg) (inert c p v lg)"
    "triple (inert c p v lg) (process_cancel a opn cancellation) (\<lambda>_. inert c p v lg) (inert c p v lg)"
    "triple (inert c p v lg) (process_reconcile a opn) (\<lambda>_. inert c p v lg) (inert c p v lg)"
proof -
  show "triple (inert c p v lg) (process_submit a d) (\<lambda>_. inert c p v lg) (inert c p v lg)"
    unfolding process_submit_def bound_ports [OF b]
    by (intro inert_rules) (auto split: option.split intro!: inert_rules)
  show "triple (inert c p v lg) (process_retry a opn) (\<lambda>_. inert c p v lg) (inert c p v lg)"
    unfolding process_retry_def bound_ports [OF b]
    by (intro inert_lookup [OF b]) (auto split: durable_command_state.split intro!: inert_rules)
  show "triple (inert c p v lg) (process_resume_precommit a opn) (\<lambda>_. inert c p v lg) (inert c p v lg)"
    unfolding process_resume_precommit_def bound_ports [OF b]
    by (intro inert_lookup [OF b] inert_rules)
  show "triple (inert c p v lg) (process_mark_interrupted_commit a opn unknown) (\<lambda>_. inert c p v lg) (inert c p v lg)"
    unfolding process_mark_interrupted_commit_def bound_ports [OF b]
    by (intro inert_lookup [OF b]) (auto split: durable_command_state.split intro!: inert_rules)
  show "triple (inert c p v lg) (process_cancel a opn cancellation) (\<lambda>_. inert c p v lg) (inert c p v lg)"
    unfolding process_cancel_def bound_ports [OF b]
    by (intro inert_lookup [OF b] inert_rules)
  show "triple (inert c p v lg) (process_reconcile a opn) (\<lambda>_. inert c p v lg) (inert c p v lg)"
    unfolding process_reconcile_def bound_ports [OF b]
    by (intro inert_lookup [OF b]) (auto split: durable_command_state.split intro!: inert_rules)
qed

lemma inert_stop [simp]: "inert c p v lg (stop_on_panic res st) = inert c p v lg st"
  "inert c p v lg (st\<lparr>gate_open := g\<rparr>) = inert c p v lg st"
  "inert c p v lg (st\<lparr>stopped := b\<rparr>) = inert c p v lg st"
  by (simp_all add: inert_def stop_on_panic_def)

lemma inert_handle_record:
  assumes "triple (inert c p v lg) m (\<lambda>_. inert c p v lg) (inert c p v lg)" "inert c p v lg st"
    "handle_record m st = (rp, st')"
  shows "inert c p v lg st'"
  using triple_run [OF assms(1,2)] assms(3)
  by (auto simp: handle_record_def split: prod.splits sum.splits)

lemma inert_message:
  assumes b: "bound_to c p a" and st: "inert c p v lg st" and run: "handle_message a message st = (rp, st')"
  shows "inert c p v lg st'"
proof (cases message)
  case (Submit d)
  with run triple_run [OF inert_handlers(1) [OF b] st, of d] st show ?thesis
    by (auto simp: handle_submit_def Let_def split: prod.splits sum.splits if_splits)
next
  case OpenAdmission
  obtain res st1 where first: "on_store (first_nonterminal (records a)) (st\<lparr>gate_open := False\<rparr>) = (res, st1)"
    by fastforce
  have "inert c p v lg (st\<lparr>gate_open := False\<rparr>)"
    using st by simp
  from triple_run [OF inert_store [OF sqlite.first_nonterminal_law] this first [unfolded bound_ports [OF b]]]
  have "inert c p v lg st1"
    by (simp split: sum.splits)
  with run OpenAdmission first show ?thesis
    by (auto simp: handle_open_admission_def Let_def split: prod.splits sum.splits option.splits)
next
  case Shutdown
  with run st show ?thesis by auto
qed (use run inert_handle_record [OF inert_handlers(2) [OF b] st] inert_handle_record [OF inert_handlers(3) [OF b] st]
      inert_handle_record [OF inert_handlers(4) [OF b] st] inert_handle_record [OF inert_handlers(5) [OF b] st]
      inert_handle_record [OF inert_handlers(6) [OF b] st] in simp_all)

lemma inert_run:
  assumes b: "bound_to c p a"
  shows "inert c p v lg st \<Longrightarrow> actor_run a inputs st = (replies, st') \<Longrightarrow> inert c p v lg st'"
proof (induction inputs arbitrary: st replies)
  case (Cons input inputs)
  show ?case
  proof (cases input)
    case GateClosed
    with Cons.IH [of "st\<lparr>gate_open := False\<rparr>" replies] Cons.prems show ?thesis by simp
  next
    case (Received message)
    show ?thesis
    proof (cases "stopped st")
      case True
      with Received Cons.prems show ?thesis by simp
    next
      case False
      obtain rp st1 where msg: "handle_message a message st = (rp, st1)" by fastforce
      obtain rps where rest: "actor_run a inputs st1 = (rps, st')"
        using Cons.prems(2) Received False msg by (auto split: prod.splits)
      from Cons.IH [OF inert_message [OF b Cons.prems(1) msg] rest] show ?thesis .
    qed
  qed
qed simp



section \<open>Startup recovery\<close>

text \<open>A runtime as \<open>start_with_held_authority\<close> wires it.\<close>

definition runtime_wired :: "'x fabric_command_runtime \<Rightarrow> bool" where
  "runtime_wired rt \<longleftrightarrow> wired_to (rt_codec rt) (rt_actor rt)"

text \<open>
  The invariant of recovery: the actor's own, a closed gate, and a fixed set \<open>D\<close> of operations.
\<close>

definition recovering :: "record_codec \<Rightarrow> operation_id set \<Rightarrow> 'x runtime_state \<Rightarrow> bool" where
  "recovering c D st \<longleftrightarrow> actor_invariant c st \<and> \<not> gate_open st \<and> dom (journal_view c (store st)) = D"

lemma recovering_world [simp]: "recovering c D (st\<lparr>world := w\<rparr>) = recovering c D st"
  by (simp add: recovering_def actor_ok_def)

lemma triple_map_errS: "triple P m Q E \<Longrightarrow> triple P (map_errS g m) Q E"
proof (rule tripleI)
  fix s
  assume t: "triple P m Q E" and s: "P s"
  obtain res s' where run: "m s = (res, s')" by fastforce
  from triple_run [OF t s run] run
  show "wp (map_errS g m) (\<lambda>res s'. case res of Inl _ \<Rightarrow> E s' | Inr x \<Rightarrow> Q x s') s"
    by (auto simp: wp_def map_errS_def map_err_def split: sum.splits failure.splits)
qed

lemma validate_authority_recovering:
  "triple (recovering c D) (validate_writer_authority rt) (\<lambda>_. recovering c D) (recovering c D)"
  unfolding validate_writer_authority_def
  by (rule triple_bindS [OF triple_liftS [of _ _ "\<lambda>_. recovering c D"]])
    (auto simp: triple_def wp_def split: prod.splits sum.splits)

lemma diagnostic_recovering:
  "triple (recovering c D) (ask_diagnostic m) (\<lambda>_. recovering c D) (recovering c D)"
  by (auto simp: triple_def wp_def ask_diagnostic_def split: prod.splits sum.splits)

lemma record_call_recovering:
  assumes w: "wired_to c a"
    and m: "message \<in> {ResumePrecommitMessage opn, MarkInterruptedCommitMessage opn unknown, Reconcile opn, Retry opn}"
  shows "triple (recovering c D) (record_call a message) (\<lambda>_. recovering c D) (recovering c D)"
proof (rule tripleI)
  fix st :: "(journal, 'a runtime_world) actor_state"
  let ?a = "a\<lparr>records := sqlite_command_record_store c\<rparr>"
  assume st: "recovering c D st"
  then have inv: "actor_invariant c st"
    by (simp add: recovering_def)
  obtain rp st' where run: "handle_message ?a message st = (rp, st')"
    by fastforce
  have step: "recovering c D st'" if "\<not> stopped st"
  proof -
    have "gate_open st' = gate_open st \<and> dom (journal_view c (store st')) = dom (journal_view c (store st))"
      using m
    proof (elim insertE emptyE)
      assume "message = ResumePrecommitMessage opn"
      with run wired.record_frames(4) [OF inv, of a opn rp st'] show ?thesis by simp
    next
      assume "message = MarkInterruptedCommitMessage opn unknown"
      with run wired.record_frames(5) [OF inv, of a opn unknown rp st'] show ?thesis by simp
    next
      assume "message = Reconcile opn"
      with run wired.record_frames(2) [OF inv, of a opn rp st'] show ?thesis by simp
    next
      assume "message = Retry opn"
      with run wired.record_frames(3) [OF inv, of a opn rp st'] show ?thesis by simp
    qed
    with wired.handle_message_ok [OF inv that run] st show ?thesis
      by (simp add: recovering_def)
  qed
  have "\<exists>res. rp = RecordReply res"
    using m run by (auto simp: handle_record_def split: prod.splits)
  with st step run wired_to_update [OF w]
  show "wp (record_call a message) (\<lambda>res st'. case res of Inl _ \<Rightarrow> recovering c D st' | Inr _ \<Rightarrow> recovering c D st') st"
    by (auto simp: wp_def record_call_def split: sum.split)
qed

lemma recover_record_recovering:
  assumes "runtime_wired rt"
  shows "triple (recovering (rt_codec rt) D) (recover_record rt diagnostics r)
    (\<lambda>_. recovering (rt_codec rt) D) (recovering (rt_codec rt) D)"
proof -
  have w: "wired_to (rt_codec rt) (rt_actor rt)"
    using assms by (simp add: runtime_wired_def)
  let ?R = "recovering (rt_codec rt) D"
  have "triple ?R (case obligation of
         ResumePrecommit \<Rightarrow>
           map_errS RecoveryActor (record_call (rt_actor rt) (ResumePrecommitMessage (record_operation r)))
       | MarkInterruptedCommit transaction \<Rightarrow>
           bindS (ask_diagnostic (interruption_diagnostic diagnostics r transaction (rt_fence rt))) (\<lambda>diagnostic.
           map_errS RecoveryActor (record_call (rt_actor rt) (MarkInterruptedCommitMessage (record_operation r)
             \<lparr>reason = ProcessInterrupted, unknown_diagnostic = diagnostic\<rparr>)))
       | ReconcileCommit _ \<Rightarrow>
           map_errS RecoveryActor (record_call (rt_actor rt) (Reconcile (record_operation r)))
       | RetryProvedNotCommitted \<Rightarrow>
           map_errS RecoveryActor (record_call (rt_actor rt) (Retry (record_operation r)))) (\<lambda>_. ?R) ?R" for obligation
    by (cases obligation)
      (simp_all, (intro triple_map_errS triple_bindS [OF diagnostic_recovering]
        record_call_recovering [OF w, of _ "record_operation r"]; simp)+)
  then show ?thesis
    unfolding recover_record_def Let_def
    by (intro triple_bindS [OF triple_liftS] triple_bindS [of _ _ "\<lambda>_. ?R"]) (auto intro!: triple_liftS)
qed

lemma recover_records_recovering:
  assumes "runtime_wired rt"
  shows "triple (recovering (rt_codec rt) D) (recover_records rt diagnostics rs)
    (\<lambda>_. recovering (rt_codec rt) D) (recovering (rt_codec rt) D)"
proof (induction rs)
  case Nil
  show ?case
    unfolding recover_records.simps by (rule triple_liftS)
next
  case (Cons r rs)
  show ?case
    unfolding recover_records.simps
    by (intro triple_bindS [OF recover_record_recovering [OF assms]] triple_bindS [OF Cons.IH] triple_liftS)
qed

definition beyond :: "operation_id set \<Rightarrow> operation_id option \<Rightarrow> operation_id set" where
  "beyond D after = {opn \<in> D. case after of None \<Rightarrow> True | Some a \<Rightarrow> a < opn}"

lemma pending_after_dom:
  assumes "journal_ok c j" "r \<in> set (pending_after c j after)"
  shows "record_operation r \<in> beyond (dom (journal_view c j)) after"
proof -
  from assms(2) obtain row where row: "row \<in> set (rows j)" "decode_row c row = Inr r"
    and after: "case after of None \<Rightarrow> True | Some a \<Rightarrow> a < record_operation r"
    by (auto simp: pending_after_def set_table_records)
  from row have "journal_view c j (record_operation r) = Some r"
    using assms(1) by (auto simp: journal_view_Some_iff)
  with after show ?thesis
    by (auto simp: beyond_def)
qed

lemma load_page_recovering:
  fixes rt :: "'x fabric_command_runtime"
  assumes size: "page_size_get p \<noteq> 0"
  shows "triple (recovering (rt_codec rt) D) (load_page rt after p)
    (\<lambda>page st. recovering (rt_codec rt) D st \<and> set_option (next_after page) \<subseteq> beyond D after)
    (recovering (rt_codec rt) D)"
proof (rule tripleI)
  fix st :: "'x runtime_state"
  let ?c = "rt_codec rt"
  assume st: "recovering ?c D st"
  then have ok: "journal_ok ?c (store st)" and D: "dom (journal_view ?c (store st)) = D"
    by (simp_all add: recovering_def actor_ok_def)
  obtain res j where run: "load_nonterminal_page ?c after p (store st) = (res, j)" by fastforce
  note law = keeps_run [OF load_nonterminal_page_keeps [OF ok size] refl run]
  let ?todo = "pending_after ?c (store st) after" and ?n = "unat (page_size_get p)"
  have "set_option (next_after page) \<subseteq> beyond D after" if "res = Inr page" for page
  proof (cases "?n < length ?todo")
    case True
    then have "?todo ! (?n - 1) \<in> set ?todo"
      by (intro nth_mem) simp
    from pending_after_dom [OF ok this] law that True show ?thesis
      by (simp add: Let_def D)
  next
    case False
    with law that show ?thesis by (simp add: Let_def)
  qed
  with st law run
  show "wp (load_page rt after p) (\<lambda>res st'. case res of Inl _ \<Rightarrow> recovering ?c D st'
      | Inr page \<Rightarrow> recovering ?c D st' \<and> set_option (next_after page) \<subseteq> beyond D after) st"
    by (auto simp: wp_def load_page_def recovering_def actor_ok_def split: sum.split)
qed

lemma close_gate_recovering:
  "actor_invariant c st \<Longrightarrow> dom (journal_view c (store st)) = D \<Longrightarrow> recovering c D (close_gate st)"
  by (simp add: recovering_def close_gate_def actor_ok_def)

lemma recover_page_recovering:
  assumes w: "runtime_wired rt" and size: "page_size_get p \<noteq> 0"
    and st: "actor_invariant (rt_codec rt) st" "dom (journal_view (rt_codec rt) (store st)) = D"
    and run: "recover_nonterminal_page rt diagnostics after p st = (res, st')"
  shows "recovering (rt_codec rt) D st' \<and>
    (\<forall>pass. res = Inr pass \<longrightarrow> set_option (pass_next_after pass) \<subseteq> beyond D after)"
proof -
  let ?R = "recovering (rt_codec rt) D"
  have page: "triple (\<lambda>st. ?R st \<and> set_option (next_after page) \<subseteq> beyond D after)
      (bindS (recover_records rt diagnostics (page_records page)) (\<lambda>transitions.
        liftS (Inr \<lparr>pass_transitions = transitions, pass_next_after = next_after page\<rparr>)))
      (\<lambda>pass st. ?R st \<and> set_option (pass_next_after pass) \<subseteq> beyond D after) ?R" for page
    by (rule triple_assume, rule triple_bindS [OF recover_records_recovering [OF w]], rule triple_liftS) auto
  have "triple ?R (bindS (map_errS RecoveryWriterAuthority (validate_writer_authority rt)) (\<lambda>_.
     bindS (load_page rt after p) (\<lambda>page.
     bindS (recover_records rt diagnostics (page_records page)) (\<lambda>transitions.
     liftS (Inr \<lparr>pass_transitions = transitions, pass_next_after = next_after page\<rparr>)))))
     (\<lambda>pass st. ?R st \<and> set_option (pass_next_after pass) \<subseteq> beyond D after) ?R"
    by (intro triple_bindS [OF triple_map_errS [OF validate_authority_recovering]]
        triple_bindS [OF load_page_recovering [OF size]] page)
  from triple_run [OF this close_gate_recovering [OF st] run [unfolded recover_nonterminal_page_def]]
  show ?thesis
    by (auto split: sum.splits)
qed

lemma beyond_psubset: "n \<in> beyond D after \<Longrightarrow> beyond D (Some n) \<subset> beyond D after"
  by (auto simp: beyond_def split: option.splits)

lemma recover_sweep_returns:
  assumes w: "runtime_wired rt" and size: "page_size_get p \<noteq> 0" and fin: "finite D"
  shows "actor_invariant (rt_codec rt) st \<Longrightarrow> dom (journal_view (rt_codec rt) (store st)) = D \<Longrightarrow>
    card (beyond D after) < fuel \<Longrightarrow>
    \<exists>res st'. recover_sweep fuel rt diagnostics p after n st = Some (res, st') \<and> recovering (rt_codec rt) D st'"
proof (induction fuel arbitrary: after n st)
  case (Suc fuel)
  obtain res st1 where run: "recover_nonterminal_page rt diagnostics after p st = (res, st1)" by fastforce
  note law = recover_page_recovering [OF w size Suc.prems(1,2) run]
  show ?case
  proof (cases res)
    case (Inl e)
    with run law show ?thesis by simp
  next
    case (Inr pass)
    show ?thesis
    proof (cases "checked_add n (of_nat (length (pass_transitions pass)))")
      case None
      with run law Inr show ?thesis by simp
    next
      case (Some n')
      show ?thesis
      proof (cases "pass_next_after pass")
        case None
        with run law Inr Some show ?thesis by simp
      next
        case nxt: (Some m)
        have "finite (beyond D after)"
          using fin by (simp add: beyond_def)
        moreover have "beyond D (Some m) \<subset> beyond D after"
          using law Inr nxt by (intro beyond_psubset) auto
        ultimately have "card (beyond D (Some m)) < card (beyond D after)"
          by (rule psubset_card_mono)
        then have "card (beyond D (Some m)) < fuel"
          using Suc.prems(3) by simp
        moreover have "actor_invariant (rt_codec rt) st1" "dom (journal_view (rt_codec rt) (store st1)) = D"
          using law by (simp_all add: recovering_def)
        ultimately obtain res' st' where
            "recover_sweep fuel rt diagnostics p (Some m) n' st1 = Some (res', st')" "recovering (rt_codec rt) D st'"
          using Suc.IH by blast
        with run Inr Some nxt show ?thesis by simp
      qed
    qed
  qed
qed simp

lemma open_call_law:
  assumes w: "wired_to c a" and st: "recovering c D st" and run: "open_call a st = (res, st')"
  shows "actor_invariant c st' \<and> dom (journal_view c (store st')) = D \<and>
    (if res = Inr () then gate_open st' \<and> all_terminal (journal_view c (store st')) else \<not> gate_open st')"
proof (cases "stopped st")
  case True
  with run st show ?thesis
    by (auto simp: open_call_def recovering_def)
next
  case False
  let ?a = "a\<lparr>records := sqlite_command_record_store c\<rparr>"
  obtain rp st1 where msg: "handle_open_admission ?a st = (rp, st1)" by fastforce
  have inv: "actor_invariant c st"
    using st by (simp add: recovering_def)
  have "\<exists>r. rp = UnitReply r"
    using msg by (auto simp: handle_open_admission_def Let_def split: prod.splits sum.splits option.splits)
  then obtain r where rp: "rp = UnitReply r" ..
  have out: "st' = st1" "res = (if panics r then Inl (Err ResponseDropped) else r)"
    using run msg False rp by (simp_all add: open_call_def wired_to_update [OF w])
  from wired.handle_open_admission_ok [OF inv msg] st rp show ?thesis
    unfolding out by (auto simp: recovering_def panics_def)
qed

lemma open_admission_law:
  assumes w: "runtime_wired rt"
    and st: "actor_invariant (rt_codec rt) st" "dom (journal_view (rt_codec rt) (store st)) = D"
    and run: "open_command_admission rt st = (res, st')"
  shows "actor_invariant (rt_codec rt) st' \<and> dom (journal_view (rt_codec rt) (store st')) = D \<and>
    (if res = Inr () then gate_open st' \<and> all_terminal (journal_view (rt_codec rt) (store st')) else \<not> gate_open st')"
proof -
  let ?c = "rt_codec rt"
  obtain v st1 where val: "validate_writer_authority rt (close_gate st) = (v, st1)" by fastforce
  have st1: "recovering ?c D st1"
    using triple_run [OF validate_authority_recovering close_gate_recovering [OF st] val] by (simp split: sum.splits)
  obtain o' st2 where call: "open_call (rt_actor rt) st1 = (o', st2)" by fastforce
  have "wired_to ?c (rt_actor rt)"
    using w by (simp add: runtime_wired_def)
  note law = open_call_law [OF this st1 call]
  show ?thesis
  proof (cases v)
    case (Inl e)
    with run val have "st' = st1" "res \<noteq> Inr ()"
      by (auto simp: open_command_admission_def bindS_def map_errS_def map_err_def split: failure.splits)
    with st1 show ?thesis by (simp add: recovering_def)
  next
    case (Inr u)
    with run val call have "st' = st2" "res = Inr () \<longleftrightarrow> o' = Inr ()"
      by (auto simp: open_command_admission_def bindS_def map_errS_def map_err_def split: failure.splits sum.splits)
    with law show ?thesis by simp
  qed
qed

lemma recover_sweeps_returns:
  assumes w: "runtime_wired rt" and size: "page_size_get p \<noteq> 0" and fin: "finite D" and fuel: "card D < fuel"
  shows "actor_invariant (rt_codec rt) st \<Longrightarrow> dom (journal_view (rt_codec rt) (store st)) = D \<Longrightarrow> 0 < remaining \<Longrightarrow>
    \<exists>res st'. recover_sweeps fuel k remaining rt diagnostics p n st = Some (res, st') \<and>
      actor_invariant (rt_codec rt) st' \<and> dom (journal_view (rt_codec rt) (store st')) = D \<and>
      (if \<exists>out. res = Inr out \<and> startup_state out = Ready
       then gate_open st' \<and> all_terminal (journal_view (rt_codec rt) (store st')) else \<not> gate_open st')"
proof (induction remaining arbitrary: k n st)
  case (Suc remaining)
  have "beyond D None = D"
    by (simp add: beyond_def)
  with recover_sweep_returns [OF w size fin Suc.prems(1,2), of None fuel diagnostics n] fuel
  obtain res st1 where sweep: "recover_sweep fuel rt diagnostics p None n st = Some (res, st1)"
    and st1: "recovering (rt_codec rt) D st1"
    by auto
  then have st1': "actor_invariant (rt_codec rt) st1" "dom (journal_view (rt_codec rt) (store st1)) = D"
    by (simp_all add: recovering_def)
  show ?case
  proof (cases res)
    case (Inl e)
    with sweep st1 show ?thesis by (simp add: recovering_def)
  next
    case (Inr n')
    obtain o' st2 where opened: "open_command_admission rt st1 = (o', st2)" by fastforce
    note law = open_admission_law [OF w st1' opened]
    consider (ready) "o' = Inr ()" | (pending) opn ob where "o' = Inl (Err (RecoveryPending opn ob))"
      | (other) e where "o' = Inl e" "\<forall>opn ob. e \<noteq> Err (RecoveryPending opn ob)"
      by (cases o') auto
    then show ?thesis
    proof cases
      case ready
      with sweep Inr opened law show ?thesis by simp
    next
      case pending
      show ?thesis
      proof (cases "remaining = 0")
        case True
        with pending sweep Inr opened law show ?thesis by simp
      next
        case False
        have "actor_invariant (rt_codec rt) st2" "dom (journal_view (rt_codec rt) (store st2)) = D" "0 < remaining"
          using law False by simp_all
        from Suc.IH [OF this, of "k + 1" n'] False pending sweep Inr opened show ?thesis
          by simp
      qed
    next
      case other
      have "recover_sweeps fuel k (Suc remaining) rt diagnostics p n st = Some (map_err Admission (Inl e), st2)"
        using other sweep Inr opened by (cases e) (auto split: fabric_command_admission_open_error.split)
      with other law show ?thesis by (cases e) simp_all
    qed
  qed
qed simp

lemma dom_journal_view:
  assumes "journal_ok c j"
  shows "finite (dom (journal_view c j))" "card (dom (journal_view c j)) \<le> length (rows j)"
proof -
  have sub: "dom (journal_view c j) \<subseteq> record_operation ` set (table_records c (rows j))"
    using assms by (fastforce simp: journal_view_Some_iff set_table_records dom_def)
  then show "finite (dom (journal_view c j))"
    by (rule finite_subset) simp
  have "length (table_records c rs) \<le> length rs" for rs
    by (simp add: table_records_def List.map_filter_def)
  with card_mono [OF _ sub] card_image_le [of "set (table_records c (rows j))" record_operation]
    card_length [of "table_records c (rows j)"]
  show "card (dom (journal_view c j)) \<le> length (rows j)"
    by (meson List.finite_set finite_imageI le_trans)
qed

section \<open>Properties of the running system\<close>

text \<open>A journal with one stored record, no failing calls.\<close>

definition single_row :: "command_record \<Rightarrow> u8 list \<Rightarrow> nat \<Rightarrow> journal" where
  "single_row r bs n = \<lparr>rows = [record_columns r bs], clock = n, faults = (\<lambda>_. False)\<rparr>"

lemma single_row_decode: "codec_ok c \<Longrightarrow> encode_record c r = Inr bs \<Longrightarrow> decode_row c (record_columns r bs) = Inr r"
  by (simp add: decode_row_iff row_of_columns)

lemma single_row_ok: "codec_ok c \<Longrightarrow> encode_record c r = Inr bs \<Longrightarrow> journal_ok c (single_row r bs n)"
  by (simp add: single_row_def table_ok_def is_ok_def single_row_decode)

lemma single_row_columns [simp]:
  "row_operation_id (record_columns r bs) = operation_blob (record_operation r)"
  "row_revision (record_columns r bs) = to_be_bytes (revision r)"
  "row_idempotency_key (record_columns r bs) = key_blob (record_key r)"
  by (simp_all add: record_columns_def)

lemma single_row_lookup:
  assumes "codec_ok c" "encode_record c r = Inr bs"
  shows "lookup_operation (sqlite_command_record_store c) (record_operation r) (single_row r bs n)
    = (Inr (Some r), single_row r bs (n + 2))"
  by (simp add: sqlite_command_record_store_def store_request_def bindS_def sql_call_def lookup_operation_sync_def
      select_rows_def single_row_def single_row_decode [OF assms])

lemma single_row_swap:
  assumes c: "codec_ok c" "encode_record c r = Inr bs" "encode_record c s = Inr bs'"
    and s: "command s = command r" "checked_add (revision r) 1 = Some (revision s)" "eff \<noteq> IdempotentReplay"
  shows "compare_and_swap (sqlite_command_record_store c) \<lparr>predecessor = r, successor = s, tr_effect = eff\<rparr> (single_row r bs n)
    = (Inr (Stored s), single_row s bs' (n + 5))"
proof -
  have "(record_columns s bs')\<lparr>row_operation_id := operation_blob (record_operation r)\<rparr> = record_columns s bs'"
    by (simp add: record_columns_def s)
  then show ?thesis
    by (simp add: sqlite_command_record_store_def store_request_def bindS_def sql_call_def
        compare_and_swap_sync_def transactional_def swap_transaction_def lookup_operation_sync_def
        select_rows_def execute_update_def record_columns_checks [OF c(3)] single_row_def
        single_row_decode [OF c(1,2)] Let_def s c)
qed

definition example_prepared :: command_record where
  "example_prepared = \<lparr>command = example_command,
     state = CommitPrepared 1 (example_owner 1) (TransactionRef 13), revision = 2\<rparr>"

abbreviation resume_codec :: record_codec where
  "resume_codec \<equiv> pair_codec example_executing example_prepared"

lemma example_prepared_ok [simp]: "record_ok example_prepared"
  by (simp add: record_ok_def example_prepared_def example_defs)

lemma resume_encode [simp]:
  "encode_record resume_codec example_executing = Inr [1, 0]"
  "encode_record resume_codec example_prepared = Inr [1, 1]"
  by (simp_all add: encode_record_eq_Inr MAX_RECORD_BYTES_def)
    (simp_all add: pair_codec_def example_prepared_def example_executing_def)

text \<open>
  An actor whose head and fence are current, whose preparation names transaction 13 and whose
  commit does not come back with an outcome.
\<close>

definition example_actor :: "(journal, unit) fabric_command_actor" where
  "example_actor = \<lparr>
     fca_actor_id = ActorId 3, records = sqlite_command_record_store resume_codec,
     contexts = \<lparr>read_admission_context = (\<lambda>_ w. (Inr example_admission, w)),
                 read_reduction_context = (\<lambda>_ w. (Inr (example_context 1), w))\<rparr>,
     effects = \<lparr>prepare = (\<lambda>_ _ _ w. (Inr (Prepared (TransactionRef 13)), w)),
                commit = (\<lambda>_ _ _ _ w. (Inl (Err EffectUnavailable), w)),
                reconcile = (\<lambda>_ _ _ _ w. (Inl (Err EffectUnavailable), w))\<rparr>\<rparr>"

lemma example_actor_wired: "wired_to resume_codec example_actor"
  by (simp add: wired_to_def example_actor_def)

lemma example_lookup:
  "lookup_operation (sqlite_command_record_store resume_codec) (OperationId 1) (single_row example_executing [1, 0] n)
    = (Inr (Some example_executing), single_row example_executing [1, 0] (n + 2))"
  using single_row_lookup [of resume_codec example_executing "[1, 0]" n] by (simp add: example_eqs)

lemma example_resume:
  "actor_run example_actor [Received (ResumePrecommitMessage (OperationId 1))]
     (spawned_closed (single_row example_executing [1, 0] 0) ())
   = ([RecordReply (Inl (Err (Port EffectUnavailable)))],
      \<lparr>store = single_row example_prepared [1, 1] 7, world = (), gate_open = False, stopped = False,
       effect_log = [(PrepareCall example_executing (example_owner 1) (example_context 1), single_row example_executing [1, 0] (Suc (Suc 0))),
         (CommitCall example_prepared (example_owner 1) (TransactionRef 13) (example_context 1),
          single_row example_prepared [1, 1] 7)]\<rparr>)"
proof -
  have owner: "owner_for example_actor (ctx_active_fence (example_context 1)) = example_owner 1"
    by (simp add: owner_for_def example_actor_def example_owner_def example_context_def)
  have start: "reduce example_executing (Start (example_owner 1)) (example_context 1) = Inr (idempotent example_executing)"
    by (simp add: reduce_evaluation example_executing_def example_defs)
  have prep: "reduce example_executing (PrepareCommit (example_owner 1) (TransactionRef 13)) (example_context 1)
      = Inr (reduction_to example_executing StateChanged (state example_prepared))"
    by (simp add: reduce_evaluation example_executing_def example_prepared_def example_defs reduction_to_def advanced_def)
  have adv: "advanced example_executing (state example_prepared) = example_prepared"
    by (simp add: advanced_def example_executing_def example_prepared_def)
  have again: "reduce example_prepared (PrepareCommit (example_owner 1) (TransactionRef 13)) (example_context 1)
      = Inr (idempotent example_prepared)"
    by (simp add: reduce_evaluation example_prepared_def example_defs)
  have swap: "compare_and_swap (sqlite_command_record_store resume_codec)
      \<lparr>predecessor = example_executing, successor = example_prepared, tr_effect = StateChanged\<rparr>
      (single_row example_executing [1, 0] (Suc (Suc 0))) = (Inr (Stored example_prepared), single_row example_prepared [1, 1] 7)"
    using single_row_swap [of resume_codec example_executing "[1, 0]" example_prepared "[1, 1]" StateChanged "Suc (Suc 0)"]
    by (simp add: checked_add_def) (simp add: example_executing_def example_prepared_def)
  have st: "state example_executing = Executing 1 (example_owner 1)"
    by (simp add: example_executing_def)
  have ports: "records example_actor = sqlite_command_record_store resume_codec"
      "read_reduction_context (contexts example_actor) r w = (Inr (example_context 1), w)"
      "prepare (effects example_actor) r' o' x w = (Inr (Prepared (TransactionRef 13)), w)"
      "commit (effects example_actor) r'' o'' t'' x'' w = (Inl (Err EffectUnavailable), w)" for r w r' o' x r'' o'' t'' x''
    by (simp_all add: example_actor_def)
  show ?thesis
    by (simp add: handle_record_def process_resume_precommit_def lookup_required_def bindS_def on_store_def on_world_def
        spawned_closed_def ports example_lookup st owner Let_def transition_def start execute_started_def
        validate_idempotent_def call_effect_def prep adv again swap stop_on_panic_def
        idempotent_def reduction_to_def)
qed

text \<open>
  C7.  The commit effect runs only behind a durable preparation: whatever messages the actor over
  the journal handles and whatever its ports answer, at the moment of every commit call the
  journal holds exactly the record passed to the call, in the state that names this owner and this
  transaction.
\<close>

theorem commit_follows_durable_preparation:
  assumes "wired_to c a" and "codec_ok c" and "journal_ok c j"
    and "actor_run a inputs (spawned_closed j w) = (replies, st)"
    and "(CommitCall r owner transaction ctx, j') \<in> set (effect_log st)"
  shows "journal_view c j' (record_operation r) = Some r \<and>
    (\<exists>attempt. state r = CommitPrepared attempt owner transaction)"
proof -
  have "actor_invariant c st"
    using run_from_spawn [OF assms(1) _ assms(4)] assms(2,3) by simp
  with assms(5) show ?thesis
    by (auto simp: actor_ok_def log_sound_def)
qed

theorem commit_follows_durable_preparation_witness:
  "let (replies, st) = actor_run example_actor [Received (ResumePrecommitMessage (OperationId 1))]
         (spawned_closed (single_row example_executing [1, 0] 0) ())
   in \<exists>j'. (CommitCall example_prepared (example_owner 1) (TransactionRef 13) (example_context 1), j') \<in> set (effect_log st)
      \<and> journal_view resume_codec j' (OperationId 1) = Some example_prepared"
proof -
  have ok: "journal_ok resume_codec (single_row example_executing [1, 0] 0)"
    by (rule single_row_ok) simp_all
  have "(CommitCall example_prepared (example_owner 1) (TransactionRef 13) (example_context 1),
      single_row example_prepared [1, 1] 7) \<in> set (effect_log (snd (actor_run example_actor
        [Received (ResumePrecommitMessage (OperationId 1))] (spawned_closed (single_row example_executing [1, 0] 0) ()))))"
    by (simp only: example_resume) simp
  from commit_follows_durable_preparation [OF example_actor_wired pair_codec_ok ok surjective_pairing this]
  show ?thesis
    by (simp only: example_resume) (auto simp: example_prepared_def example_command_def)
qed

text \<open>
  C8.  A prepared commit is attempted at most once: in any run, later commit calls of an operation
  are made for strictly later revisions of its record.
\<close>

theorem commits_are_never_repeated:
  assumes "wired_to c a" and "codec_ok c" and "journal_ok c j"
    and "actor_run a inputs (spawned_closed j w) = (replies, st)"
  shows "sorted_wrt (\<lambda>r1 r2. record_operation r1 = record_operation r2 \<longrightarrow> revision r1 < revision r2)
    (logged_commits (effect_log st))"
  using run_from_spawn [OF assms(1) _ assms(4)] assms(2,3) by (simp add: actor_ok_def log_sound_def)

theorem commits_are_never_repeated_witness:
  "let (replies, st) = actor_run example_actor
         [Received (ResumePrecommitMessage (OperationId 1)), Received (ResumePrecommitMessage (OperationId 1))]
         (spawned_closed (single_row example_executing [1, 0] 0) ())
   in sorted_wrt (\<lambda>r1 r2. record_operation r1 = record_operation r2 \<longrightarrow> revision r1 < revision r2)
        (logged_commits (effect_log st))"
proof -
  have ok: "journal_ok resume_codec (single_row example_executing [1, 0] 0)"
    by (rule single_row_ok) simp_all
  from commits_are_never_repeated [OF example_actor_wired pair_codec_ok ok surjective_pairing] show ?thesis
    unfolding Let_def case_prod_beta by blast
qed


definition empty_journal :: journal where
  "empty_journal = \<lparr>rows = [], clock = 0, faults = (\<lambda>_. False)\<rparr>"

lemma empty_journal_ok [simp]: "journal_ok c empty_journal"
  by (simp add: empty_journal_def table_ok_def)


text \<open>
  C10.  The journal's records have a lawful history: across any run a record of an operation moves
  only by deliveries of events to the reducer, a new one starts from its admission, and a record
  with a final answer stays exactly as it is.
\<close>

theorem journal_history_is_lawful:
  assumes "wired_to c a" and "codec_ok c" and "journal_ok c j"
    and "actor_run a inputs (spawned_closed j w) = (replies, st)"
  shows "(\<forall>r. journal_view c j opn = Some r \<longrightarrow>
      (\<exists>ecs. journal_view c (store st) opn = Some (deliver_all r ecs)) \<and>
      (is_terminal (state r) \<longrightarrow> journal_view c (store st) opn = Some r)) \<and>
    (journal_view c j opn = None \<longrightarrow> journal_view c (store st) opn \<noteq> None \<longrightarrow>
      (\<exists>d ecs. journal_view c (store st) opn = Some (deliver_all (admitted_record d) ecs)))"
proof -
  have ev: "evolves (journal_view c j) (journal_view c (store st))"
    using run_from_spawn [OF assms(1) _ assms(4)] assms(2,3) by simp
  show ?thesis
  proof (cases "journal_view c j opn")
    case None
    with ev show ?thesis by (auto simp: evolves_def history_def dest!: spec [of _ opn])
  next
    case (Some r)
    with ev have "\<exists>ecs. journal_view c (store st) opn = Some (deliver_all r ecs)"
      by (auto simp: evolves_def history_def dest!: spec [of _ opn] intro: exI [of _ "[]"])
    with Some show ?thesis by (auto simp: deliver_all_terminal)
  qed
qed

theorem journal_history_is_lawful_witness:
  "let (replies, st) = actor_run example_actor [Received (ResumePrecommitMessage (OperationId 1))]
         (spawned_closed (single_row example_executing [1, 0] 0) ())
   in \<exists>ecs. journal_view resume_codec (store st) (OperationId 1) = Some (deliver_all example_executing ecs)"
proof -
  have ok: "journal_ok resume_codec (single_row example_executing [1, 0] 0)"
    by (rule single_row_ok) simp_all
  have "journal_view resume_codec (single_row example_executing [1, 0] 0) (OperationId 1) = Some example_executing"
    using single_row_decode [of resume_codec example_executing "[1, 0]"]
    by (simp add: single_row_def table_view_def example_eqs)
  with journal_history_is_lawful [OF example_actor_wired pair_codec_ok ok surjective_pairing] show ?thesis
    unfolding Let_def case_prod_beta by blast
qed

text \<open>
  C11.  What the actor answers is durable: a record it returns is the one the journal holds when the
  reply is sent.
\<close>

theorem answers_are_durable:
  assumes "wired_to c a" and "actor_ok (sqlite_ok c) (\<lambda>j. journal_view c j) st" and "\<not> stopped st"
    and "handle_message a message st = (RecordReply (Inr r), st')"
  shows "journal_view c (store st') (record_operation r) = Some r"
proof -
  have "handle_message (a\<lparr>records := sqlite_command_record_store c\<rparr>) message st = (RecordReply (Inr r), st')"
    using assms(1,4) by (simp add: wired_to_update)
  from wired.handle_message_ok [OF assms(2,3) this] show ?thesis by simp
qed

definition example_cancelled :: command_record where
  "example_cancelled = \<lparr>command = example_command,
     state = Cancelled \<lparr>cancellation_diagnostic = DiagnosticRef 5\<rparr>, revision = 2\<rparr>"

abbreviation cancel_codec :: record_codec where
  "cancel_codec \<equiv> pair_codec example_executing example_cancelled"

lemma cancel_encode [simp]:
  "encode_record cancel_codec example_executing = Inr [1, 0]"
  "encode_record cancel_codec example_cancelled = Inr [1, 1]"
  by (simp_all add: encode_record_eq_Inr MAX_RECORD_BYTES_def)
    (simp_all add: pair_codec_def example_cancelled_def example_executing_def record_ok_def example_defs)

theorem answers_are_durable_witness:
  "let (reply, st) = handle_message (example_actor\<lparr>records := sqlite_command_record_store cancel_codec\<rparr>)
         (Cancel (OperationId 1) \<lparr>cancellation_diagnostic = DiagnosticRef 5\<rparr>)
         (spawned_closed (single_row example_executing [1, 0] 0) ())
   in reply = RecordReply (Inr example_cancelled) \<and>
      journal_view cancel_codec (store st) (OperationId 1) = Some example_cancelled"
proof -
  let ?a = "example_actor\<lparr>records := sqlite_command_record_store cancel_codec\<rparr>"
  let ?e = "CancelBeforeCommit (example_owner 1) \<lparr>cancellation_diagnostic = DiagnosticRef 5\<rparr>"
  let ?st = "spawned_closed (single_row example_executing [1, 0] 0) () :: (journal, unit) actor_state"
  have owner: "owner_for ?a (ctx_active_fence (example_context 1)) = example_owner 1"
    by (simp add: owner_for_def example_actor_def example_owner_def example_context_def)
  have look: "lookup_operation (sqlite_command_record_store cancel_codec) (OperationId 1) (single_row example_executing [1, 0] 0)
      = (Inr (Some example_executing), single_row example_executing [1, 0] (Suc (Suc 0)))"
    using single_row_lookup [of cancel_codec example_executing "[1, 0]" 0] by (simp add: example_eqs)
  have red: "reduce example_executing ?e (example_context 1)
      = Inr (reduction_to example_executing StateChanged (state example_cancelled))"
    by (simp add: reduce_evaluation example_executing_def example_cancelled_def example_defs reduction_to_def advanced_def)
  have adv: "advanced example_executing (state example_cancelled) = example_cancelled"
    by (simp add: advanced_def example_executing_def example_cancelled_def)
  have swap: "compare_and_swap (sqlite_command_record_store cancel_codec)
      \<lparr>predecessor = example_executing, successor = example_cancelled, tr_effect = StateChanged\<rparr>
      (single_row example_executing [1, 0] (Suc (Suc 0))) = (Inr (Stored example_cancelled), single_row example_cancelled [1, 1] 7)"
    using single_row_swap [of cancel_codec example_executing "[1, 0]" example_cancelled "[1, 1]" StateChanged "Suc (Suc 0)"]
    by (simp add: checked_add_def) (simp add: example_executing_def example_cancelled_def)
  have st: "state example_executing = Executing 1 (example_owner 1)"
    by (simp add: example_executing_def)
  have ctx: "read_reduction_context (contexts example_actor) r w = (Inr (example_context 1), w)" for r w
    by (simp add: example_actor_def)
  have run: "handle_message ?a (Cancel (OperationId 1) \<lparr>cancellation_diagnostic = DiagnosticRef 5\<rparr>) ?st
      = (RecordReply (Inr example_cancelled), ?st\<lparr>store := single_row example_cancelled [1, 1] 7\<rparr>)"
    by (simp add: handle_record_def process_cancel_def lookup_required_def bindS_def on_store_def on_world_def
        spawned_closed_def ctx look st owner Let_def transition_def red adv swap stop_on_panic_def reduction_to_def)
  have wired: "wired_to cancel_codec ?a"
    by (simp add: wired_to_def)
  have inv: "actor_invariant cancel_codec ?st"
    by (rule spawned_invariant) (simp add: single_row_ok)
  have "\<not> stopped ?st"
    by (simp add: spawned_closed_def)
  from answers_are_durable [OF wired inv this run] run show ?thesis
    by (simp add: example_cancelled_def example_command_def)
qed

text \<open>
  C12.  A runtime that lost its fence is inert: once the generation store no longer names its fence,
  no message makes it change a stored record or call an effect.
\<close>

theorem stale_runtime_is_inert:
  assumes "bound_to c p a" and "codec_ok c" and "journal_ok c (store st)" and "stale p (world st)"
    and "actor_run a inputs st = (replies, st')"
  shows "journal_view c (store st') = journal_view c (store st) \<and> effect_log st' = effect_log st"
proof -
  have "inert c p (journal_view c (store st)) (effect_log st) st"
    using assms(2-4) by (simp add: inert_def)
  from inert_run [OF assms(1) this assms(5)] show ?thesis
    by (simp add: inert_def)
qed

definition example_context_port :: "unit lease_bound_command_context_port" where
  "example_context_port = \<lparr>lb_workspace_id = WorkspaceId 3, lb_fence = example_writer_fence 2,
     lb_semantics = \<lparr>read_admission_semantics = (\<lambda>_ x. (Inl (Err ContextUnavailable), x)),
                     read_current_head = (\<lambda>_ x. (Inr Empty, x))\<rparr>\<rparr>"

definition example_runtime_actor :: "(journal, unit runtime_world) fabric_command_actor" where
  "example_runtime_actor = \<lparr>
     fca_actor_id = ActorId 3, records = sqlite_command_record_store resume_codec,
     contexts = lease_bound_port example_context_port,
     effects = \<lparr>prepare = (\<lambda>_ _ _ w. (Inl (Err EffectUnavailable), w)),
                commit = (\<lambda>_ _ _ _ w. (Inl (Err EffectUnavailable), w)),
                reconcile = (\<lambda>_ _ _ _ w. (Inl (Err EffectUnavailable), w))\<rparr>\<rparr>"

definition example_world :: "u64 \<Rightarrow> unit runtime_world" where
  "example_world n = \<lparr>rw_generations = example_generations n, rw_semantics = ()\<rparr>"

theorem stale_runtime_is_inert_witness:
  "let st = spawned_closed (single_row example_executing [1, 0] 0) (example_world 4);
       (replies, st') = actor_run example_runtime_actor
         [Received (ResumePrecommitMessage (OperationId 1)), Received (Submit example_command)] st
   in stale example_context_port (world st) \<and> journal_view resume_codec (store st') = journal_view resume_codec (store st) \<and>
      effect_log st' = []"
proof -
  let ?st = "spawned_closed (single_row example_executing [1, 0] 0) (example_world 4)"
  have bound: "bound_to resume_codec example_context_port example_runtime_actor"
    by (simp add: bound_to_def wired_to_def example_runtime_actor_def)
  have ok: "journal_ok resume_codec (store ?st)"
    by (simp add: spawned_closed_def single_row_ok)
  have stale: "stale example_context_port (world ?st)"
    by (simp add: stale_def spawned_closed_def example_world_def example_context_port_def
        example_generations_current example_generations_ok example_writer_fence_def)
  have "effect_log ?st = []"
    by (simp add: spawned_closed_def)
  with stale_runtime_is_inert [OF bound pair_codec_ok ok stale surjective_pairing] stale show ?thesis
    unfolding Let_def case_prod_beta by metis
qed

text \<open>
  C13.  Bounded recovery terminates and opens admission exactly when it is over: given one page of
  fuel more than the journal has rows, recovery returns for every number of sweeps and every
  behaviour of the ports; if it reports \<open>Ready\<close> the gate is open and all commands are answered, in
  every other case, errors included, the gate is closed.
\<close>

theorem recovery_terminates_and_fails_closed:
  assumes "runtime_wired rt" and "page_size_new n = Some p"
    and "actor_invariant (rt_codec rt) st" and "length (rows (store st)) < fuel"
  shows "\<exists>res st'. recover_and_open_bounded fuel rt diagnostics p sweeps st = Some (res, st') \<and>
    (if \<exists>out. res = Inr out \<and> startup_state out = Ready
     then gate_open st' \<and> all_terminal (journal_view (rt_codec rt) (store st')) else \<not> gate_open st')"
proof -
  have ok: "journal_ok (rt_codec rt) (store st)"
    using assms(3) by (simp add: actor_ok_def)
  have "card (dom (journal_view (rt_codec rt) (store st))) < fuel"
    using dom_journal_view(2) [OF ok] assms(4) by simp
  moreover have "0 < unat (nz_get sweeps)"
    by (simp add: unat_gt_0)
  moreover have "page_size_get p \<noteq> 0"
    using page_size_new_Some [OF assms(2)] by simp
  ultimately show ?thesis
    using recover_sweeps_returns [OF assms(1) _ dom_journal_view(1) [OF ok] _ assms(3) refl]
    unfolding recover_and_open_bounded_def by blast
qed

definition example_runtime :: "unit fabric_command_runtime" where
  "example_runtime = \<lparr>rt_workspace_id = WorkspaceId 3, rt_fence = example_writer_fence 2,
     rt_actor = example_runtime_actor, rt_codec = resume_codec,
     rt_writer_lease = Some \<lparr>wl_workspace_id = WorkspaceId 3, wl_fence = example_writer_fence 2\<rparr>\<rparr>"

definition example_diagnostics :: "unit interrupted_commit_diagnostic_port" where
  "example_diagnostics = \<lparr>interruption_diagnostic = (\<lambda>_ _ _ w. (Inr (DiagnosticRef 1), w))\<rparr>"

theorem recovery_terminates_and_fails_closed_witness:
  "\<exists>res st'. recover_and_open_bounded 2 example_runtime example_diagnostics (CommandRecoveryPageSize 8) (nz 3)
       (spawned_closed (single_row example_executing [1, 0] 0) (example_world 2)) = Some (res, st') \<and>
    (if \<exists>out. res = Inr out \<and> startup_state out = Ready
     then gate_open st' \<and> all_terminal (journal_view (rt_codec example_runtime) (store st')) else \<not> gate_open st')"
proof (rule recovery_terminates_and_fails_closed)
  show "runtime_wired example_runtime"
    by (simp add: runtime_wired_def wired_to_def example_runtime_def example_runtime_actor_def)
  show "page_size_new 8 = Some (CommandRecoveryPageSize 8)"
    by (simp add: page_size_new_def)
  show "actor_invariant (rt_codec example_runtime)
      (spawned_closed (single_row example_executing [1, 0] 0) (example_world 2))"
    by (rule spawned_invariant) (simp add: example_runtime_def single_row_ok)
  show "length (rows (store (spawned_closed (single_row example_executing [1, 0] 0) (example_world 2)))) < 2"
    by (simp add: spawned_closed_def single_row_def)
qed

text \<open>
  A runtime starts only under current authority: starting with a held lease succeeds only for
  the configured workspace and while the generation store names the lease's fence, and the actor
  it builds uses the journal and the context port bound to that very fence.
\<close>

theorem start_requires_current_lease:
  assumes "generation_store_ok g"
    and "start_with_held_authority c config path lease semantics effs g = (Inr rt, g')"
  shows "wl_workspace_id lease = cfg_workspace_id config \<and>
    generation_current g (cfg_workspace_id config) = Some (wl_fence lease) \<and> rt_fence rt = wl_fence lease \<and>
    runtime_wired rt \<and>
    bound_to c \<lparr>lb_workspace_id = cfg_workspace_id config, lb_fence = wl_fence lease, lb_semantics = semantics\<rparr>
      (rt_actor rt)"
proof -
  obtain x g1 where val: "validate_writer_fence sqlite_writer_generation_store (wl_workspace_id lease) (wl_fence lease) g = (x, g1)"
    by fastforce
  from generations.validate_law [OF assms(1) val] val assms(2) show ?thesis
    by (cases x) (auto simp: start_with_held_authority_def lease_validate_def map_errS_def bindS_def ensure_def Let_def
        runtime_wired_def bound_to_def wired_to_def map_err_def split: if_splits failure.splits)
qed

theorem start_requires_current_lease_witness:
  "let lease = \<lparr>wl_workspace_id = WorkspaceId 3, wl_fence = example_writer_fence 4\<rparr>;
       config = \<lparr>cfg_workspace_id = WorkspaceId 3, cfg_writer_generation_database = ''g.db'', cfg_actor_id = ActorId 3\<rparr>;
       (res, g') = start_with_held_authority resume_codec config ''g.db'' lease
         (lb_semantics example_context_port) (effects example_runtime_actor) (example_generations 4)
   in \<exists>rt. res = Inr rt \<and> runtime_wired rt \<and> rt_fence rt = example_writer_fence 4"
proof -
  let ?lease = "\<lparr>wl_workspace_id = WorkspaceId 3, wl_fence = example_writer_fence 4\<rparr>"
  let ?config = "\<lparr>cfg_workspace_id = WorkspaceId 3, cfg_writer_generation_database = ''g.db'', cfg_actor_id = ActorId 3\<rparr>"
  let ?run = "start_with_held_authority resume_codec ?config ''g.db'' ?lease
         (lb_semantics example_context_port) (effects example_runtime_actor) (example_generations 4)"
  have "\<exists>rt g'. ?run = (Inr rt, g')"
    by (simp add: start_with_held_authority_def lease_validate_def map_errS_def bindS_def Let_def
        validate_writer_fence_def sqlite_writer_generation_store_def sqlite_observe_current_def select_generation_def
        gs_call_def example_generations_def example_row_decodes)
  then obtain rt g' where run: "?run = (Inr rt, g')" by blast
  from start_requires_current_lease [OF example_generations_ok run] run show ?thesis
    by (simp add: Let_def)
qed

end
