(* ===== verification/EffectContract.thy ===== *)
theory EffectContract
  imports CommandRuntime
begin

text \<open>
  The shared effect contract (\<open>fabric/command_effect_contract.rs\<close>): the tokens that the typed
  effect adapters require, and the validation that issues them for a record, an owner and a
  context.  The main result composes the contract with the command actor: it is met by every
  effect call the actor makes over the SQLite journal.
\<close>

section \<open>Tokens and validation\<close>

record validated_command_attempt =
  va_command :: fabric_command
  va_attempt :: u32
  va_execution_owner :: execution_owner
  va_prepared_transaction :: "transaction_ref option"

record validated_command_recovery =
  vr_attempt :: validated_command_attempt
  vr_active_recovery_owner :: execution_owner

type_synonym 'a contract_result = "(command_port_error, 'a) result"

definition validate_receipt_generation ::
  "validated_command_attempt \<Rightarrow> writer_generation \<Rightarrow> unit contract_result" where
  "validate_receipt_generation attempt g =
     (if g = generation (fence (va_execution_owner attempt)) then Inr () else Inl (Err CorruptRecord))"

definition validate_context ::
  "command_record \<Rightarrow> execution_owner \<Rightarrow> reduction_context \<Rightarrow> bool \<Rightarrow> unit contract_result" where
  "validate_context r owner ctx require_expected_head =
     bindE (ensure (\<not> ctx_active_fence ctx \<noteq> fence owner) ContextUnavailable) (\<lambda>_.
     ensure (\<not> (require_expected_head \<and> ctx_current_head ctx \<noteq> cmd_expected_head (command r)))
       ContextUnavailable)"

definition validate_kind :: "command_record \<Rightarrow> command_kind \<Rightarrow> unit contract_result" where
  "validate_kind r expected_kind = ensure (command_kind_of (command r) = expected_kind) CorruptRecord"

definition validated_attempt ::
  "command_record \<Rightarrow> u32 \<Rightarrow> execution_owner \<Rightarrow> transaction_ref option
     \<Rightarrow> validated_command_attempt contract_result" where
  "validated_attempt r attempt owner prepared =
     (let admitted = writer_fence (command r) in
      bindE (ensure (\<not> (fence owner \<noteq> admitted \<and> owner_generation owner \<le> fence_generation admitted))
        CorruptRecord) (\<lambda>_.
      Inr \<lparr>va_command = command r, va_attempt = attempt, va_execution_owner = owner,
           va_prepared_transaction = prepared\<rparr>))"

definition validate_owner_advance ::
  "execution_owner \<Rightarrow> execution_owner \<Rightarrow> bool \<Rightarrow> unit contract_result" where
  "validate_owner_advance prior observed corrupt_on_failure =
     ensure (prior = observed \<or> owner_generation observed > owner_generation prior)
       (if corrupt_on_failure then CorruptRecord else ContextUnavailable)"

definition executing_attempt ::
  "command_record \<Rightarrow> execution_owner \<Rightarrow> reduction_context \<Rightarrow> command_kind
     \<Rightarrow> validated_command_attempt contract_result" where
  "executing_attempt r owner ctx expected_kind =
     bindE (validate_context r owner ctx True) (\<lambda>_.
     bindE (validate_kind r expected_kind) (\<lambda>_.
     case state r of
       Executing attempt recorded \<Rightarrow>
         bindE (ensure (\<not> recorded \<noteq> owner) ContextUnavailable) (\<lambda>_.
         validated_attempt r attempt owner None)
     | _ \<Rightarrow> Inl (Err CorruptRecord)))"

definition prepared_attempt ::
  "command_record \<Rightarrow> execution_owner \<Rightarrow> transaction_ref \<Rightarrow> reduction_context \<Rightarrow> command_kind
     \<Rightarrow> validated_command_attempt contract_result" where
  "prepared_attempt r owner transaction ctx expected_kind =
     bindE (validate_context r owner ctx True) (\<lambda>_.
     bindE (validate_kind r expected_kind) (\<lambda>_.
     case state r of
       CommitPrepared attempt recorded prepared \<Rightarrow>
         bindE (ensure (\<not> (recorded \<noteq> owner \<or> prepared \<noteq> transaction)) ContextUnavailable) (\<lambda>_.
         validated_attempt r attempt owner (Some transaction))
     | _ \<Rightarrow> Inl (Err CorruptRecord)))"

definition reconciliation_attempt ::
  "command_record \<Rightarrow> execution_owner \<Rightarrow> transaction_ref \<Rightarrow> reduction_context \<Rightarrow> command_kind
     \<Rightarrow> validated_command_recovery contract_result" where
  "reconciliation_attempt r active transaction ctx expected_kind =
     bindE (validate_context r active ctx False) (\<lambda>_.
     bindE (validate_kind r expected_kind) (\<lambda>_.
     case state r of
       AwaitingReconciliation attempt execution recovery prepared _ _ _ \<Rightarrow>
         bindE (validate_owner_advance execution recovery True) (\<lambda>_.
         bindE (validate_owner_advance recovery active False) (\<lambda>_.
         bindE (ensure (\<not> prepared \<noteq> transaction) ContextUnavailable) (\<lambda>_.
         bindE (validated_attempt r attempt execution (Some transaction)) (\<lambda>validated.
         Inr \<lparr>vr_attempt = validated, vr_active_recovery_owner = active\<rparr>))))
     | _ \<Rightarrow> Inl (Err CorruptRecord)))"

lemmas contract_defs = executing_attempt_def prepared_attempt_def reconciliation_attempt_def
  validate_context_def validate_kind_def validated_attempt_def validate_owner_advance_def Let_def


section \<open>The contract and the reducer\<close>

lemma journal_record_ok: "journal_view c j opn = Some r \<Longrightarrow> record_ok r"
  by (auto simp: table_view_def find_Some_iff dest!: nth_mem [of _ "table_records c (rows j)"]
      simp: set_table_records decode_row_eq_Inr dest: row_ofD(4))

lemma executing_attempt_accepts:
  assumes "state r = Executing attempt owner" "record_ok r" "context_current r (Start owner) ctx"
  shows "executing_attempt r owner ctx (command_kind_of (command r)) =
    Inr \<lparr>va_command = command r, va_attempt = attempt, va_execution_owner = owner,
         va_prepared_transaction = None\<rparr>"
  using assms
  by (auto simp: contract_defs context_current_def record_ok_def fence_advances_def)

lemma prepared_attempt_accepts:
  assumes "state r = CommitPrepared attempt owner t" "record_ok r"
    and "context_current r (PrepareCommit owner t) ctx"
  shows "prepared_attempt r owner t ctx (command_kind_of (command r)) =
    Inr \<lparr>va_command = command r, va_attempt = attempt, va_execution_owner = owner,
         va_prepared_transaction = Some t\<rparr>"
  using assms
  by (auto simp: contract_defs context_current_def record_ok_def fence_advances_def)

lemma reconciliation_attempt_eq:
  assumes "state r = AwaitingReconciliation attempt eo ro t unknown probes evidence" "record_ok r"
    and "fence owner = ctx_active_fence ctx"
  shows "reconciliation_attempt r owner t ctx (command_kind_of (command r)) =
    (if owner_advances ro owner
     then Inr \<lparr>vr_attempt = \<lparr>va_command = command r, va_attempt = attempt, va_execution_owner = eo,
               va_prepared_transaction = Some t\<rparr>, vr_active_recovery_owner = owner\<rparr>
     else Inl (Err ContextUnavailable))"
  using assms
  by (auto simp: contract_defs record_ok_def fence_advances_def owner_advances_def)



end
