(* ===== verification/Collections.thy ===== *)
theory Collections
  imports Prelude "HOL-Library.Multiset" "HOL-Library.List_Lexorder"
begin

text \<open>
  The ordered collections of the Rust standard library as the components use them: a \<open>BTreeMap\<close>
  is its list of entries in key order, byte strings (\<open>str\<close> is its UTF-8 encoding) are ordered
  lexicographically.
\<close>

section \<open>Strings\<close>

type_synonym str = "u8 list"

definition ascii :: "string \<Rightarrow> str" where
  "ascii s = map of_char s"


section \<open>Ordered maps\<close>

type_synonym ('k, 'v) btree_map = "('k \<times> 'v) list"

fun btree_insert :: "'k::linorder \<Rightarrow> 'v \<Rightarrow> ('k, 'v) btree_map \<Rightarrow> ('k, 'v) btree_map" where
  "btree_insert k v [] = [(k, v)]"
| "btree_insert k v ((k', v') # m) =
     (if k < k' then (k, v) # (k', v') # m
      else if k = k' then (k, v) # m
      else (k', v') # btree_insert k v m)"

abbreviation btree_get :: "('k, 'v) btree_map \<Rightarrow> 'k \<Rightarrow> 'v option" where
  "btree_get \<equiv> map_of"

abbreviation btree_values :: "('k, 'v) btree_map \<Rightarrow> 'v list" where
  "btree_values \<equiv> map snd"

definition btree_ok :: "('k::linorder, 'v) btree_map \<Rightarrow> bool" where
  "btree_ok m \<longleftrightarrow> sorted_wrt (<) (map fst m)"

lemma btree_ok_Nil [simp]: "btree_ok []"
  by (simp add: btree_ok_def)

lemma btree_ok_distinct: "btree_ok m \<Longrightarrow> distinct (map fst m)"
  by (simp add: btree_ok_def strict_sorted_iff)

lemma btree_get_insert [simp]: "btree_get (btree_insert k v m) = (btree_get m)(k \<mapsto> v)"
  by (induction m rule: btree_insert.induct) auto

lemma btree_insert_keys [simp]: "fst ` set (btree_insert k v m) = insert k (fst ` set m)"
  by (induction m rule: btree_insert.induct) auto

lemma btree_ok_insert [simp]: "btree_ok m \<Longrightarrow> btree_ok (btree_insert k v m)"
proof (induction m rule: btree_insert.induct)
  case (2 k v k' v' m)
  have "fst ` set (btree_insert k v m) = insert k (fst ` set m)"
    by simp
  with 2 show ?case
    by (auto simp: btree_ok_def)
qed (simp add: btree_ok_def)

lemma mset_btree_insert:
  "btree_get m k = None \<Longrightarrow> mset (btree_insert k v m) = add_mset (k, v) (mset m)"
  by (induction m rule: btree_insert.induct) (auto split: if_splits)

lemma btree_ext:
  assumes "btree_ok m" "btree_ok n" "btree_get m = btree_get n"
  shows "m = n"
proof -
  have "set m = set n"
    using assms by (simp add: map_of_inject_set btree_ok_distinct)
  then have "map fst m = map fst n"
    using strict_sorted_equal [of "map fst m" "map fst n"] assms(1,2) by (simp add: btree_ok_def)
  note keys = this
  then have len: "length m = length n"
    by (metis length_map)
  show ?thesis
  proof (rule nth_equalityI [OF len])
    fix i assume i: "i < length m"
    then have fst: "fst (m ! i) = fst (n ! i)"
      using keys len by (metis nth_map)
    have "btree_get m (fst (m ! i)) = Some (snd (m ! i))" "btree_get n (fst (n ! i)) = Some (snd (n ! i))"
      using i len assms(1,2) by (simp_all add: btree_ok_distinct map_of_eq_Some_iff)
    with fst assms(3) show "m ! i = n ! i"
      by (simp add: prod_eq_iff)
  qed
qed


section \<open>Maps that agree with keyed entries\<close>

text \<open>A map agrees with what a list of entries assigns to its keys.\<close>

definition agrees :: "('k \<rightharpoonup> 'v) \<Rightarrow> ('a \<Rightarrow> 'k) \<Rightarrow> ('a \<Rightarrow> 'v) \<Rightarrow> 'a set \<Rightarrow> bool" where
  "agrees m key val X \<longleftrightarrow>
     (\<forall>x \<in> X. \<forall>e. m (key x) = Some e \<longrightarrow> e = val x) \<and> (\<forall>x \<in> X. \<forall>y \<in> X. key x = key y \<longrightarrow> val x = val y)"

lemma agreesD:
  "agrees m key val X \<Longrightarrow> x \<in> X \<Longrightarrow> m (key x) = Some e \<Longrightarrow> e = val x"
  "agrees m key val X \<Longrightarrow> x \<in> X \<Longrightarrow> y \<in> X \<Longrightarrow> key x = key y \<Longrightarrow> val x = val y"
  unfolding agrees_def by blast+

lemma agreesI:
  assumes "\<And>x e. x \<in> X \<Longrightarrow> m (key x) = Some e \<Longrightarrow> e = val x"
    and "\<And>x y. x \<in> X \<Longrightarrow> y \<in> X \<Longrightarrow> key x = key y \<Longrightarrow> val x = val y"
  shows "agrees m key val X"
  unfolding agrees_def using assms by blast

lemma agrees_insert:
  assumes "\<forall>e. m (key x) = Some e \<longrightarrow> e = val x"
  shows "agrees m key val (insert x X) \<longleftrightarrow> agrees (m(key x \<mapsto> val x)) key val X"
proof
  assume *: "agrees m key val (insert x X)"
  show "agrees (m(key x \<mapsto> val x)) key val X"
  proof (rule agreesI)
    fix y e assume y: "y \<in> X" "(m(key x \<mapsto> val x)) (key y) = Some e"
    show "e = val y"
    proof (cases "key y = key x")
      case True
      with y(2) have "e = val x"
        by simp
      also have "val x = val y"
        using agreesD(2) [OF * _ _ True [symmetric]] y(1) by simp
      finally show ?thesis .
    next
      case False
      with y show ?thesis
        using agreesD(1) [OF *, of y e] by simp
    qed
  next
    fix y z assume "y \<in> X" "z \<in> X" "key y = key z"
    then show "val y = val z"
      by (intro agreesD(2) [OF *]) simp_all
  qed
next
  assume *: "agrees (m(key x \<mapsto> val x)) key val X"
  have same: "val x = val y" if "y \<in> insert x X" "key y = key x" for y
    using that agreesD(1) [OF *, of y "val x"] by (cases "y = x") simp_all
  show "agrees m key val (insert x X)"
  proof (rule agreesI)
    fix y e assume y: "y \<in> insert x X" "m (key y) = Some e"
    show "e = val y"
    proof (cases "key y = key x")
      case True
      with y(2) assms have "e = val x"
        by simp
      with same [OF y(1) True] show ?thesis
        by simp
    next
      case False
      with y have "y \<in> X" "(m(key x \<mapsto> val x)) (key y) = Some e"
        by auto
      then show ?thesis
        by (rule agreesD(1) [OF *])
    qed
  next
    fix y z assume yz: "y \<in> insert x X" "z \<in> insert x X" "key y = key z"
    show "val y = val z"
    proof (cases "key y = key x")
      case True
      with same [OF yz(1)] same [OF yz(2)] yz(3) show ?thesis
        by simp
    next
      case False
      with yz have "y \<in> X" "z \<in> X"
        by auto
      then show ?thesis
        using agreesD(2) [OF *] yz(3) by blast
    qed
  qed
qed

lemma agrees_conflict: "m (key x) = Some e \<Longrightarrow> e \<noteq> val x \<Longrightarrow> \<not> agrees m key val (insert x X)"
  using agreesD(1) [of m key val "insert x X" x e] by blast

lemma agrees_Map_empty: "agrees Map.empty key val X \<longleftrightarrow> (\<forall>x \<in> X. \<forall>y \<in> X. key x = key y \<longrightarrow> val x = val y)"
  by (simp add: agrees_def)

end
