(* ===== verification/Evidence.thy ===== *)
theory Evidence
  imports EffectContract Collections
begin

text \<open>
  Canonical evidence of \<open>fabric/activation.rs\<close>: length-framed digests, exact Delta pins, the sealed
  control binding, the canonical table-version set of an epoch, and the commit evidence that an
  activation append has to show.  The hash function (\<open>blake3\<close>) and the Arrow schema encoding are
  parameters.  A \<open>str\<close> is its UTF-8 bytes.
\<close>

section \<open>Strings and digests\<close>

type_synonym hash = "u8 list \<Rightarrow> b32"

text \<open>
  \<open>s.trim().is_empty()\<close>: every character is Unicode white space; the byte patterns are the UTF-8
  encodings of these characters.
\<close>

fun is_blank :: "str \<Rightarrow> bool" where
  "is_blank [] = True"
| "is_blank (b # bs) =
     (if b = 32 \<or> 9 \<le> b \<and> b \<le> 13 then is_blank bs
      else case bs of
        c # cs \<Rightarrow>
          if b = 0xC2 \<and> (c = 0x85 \<or> c = 0xA0) then is_blank cs
          else (case cs of
            d # ds \<Rightarrow>
              if b = 0xE1 \<and> c = 0x9A \<and> d = 0x80 \<or>
                 b = 0xE2 \<and> c = 0x80 \<and> (0x80 \<le> d \<and> d \<le> 0x8A \<or> d = 0xA8 \<or> d = 0xA9 \<or> d = 0xAF) \<or>
                 b = 0xE2 \<and> c = 0x81 \<and> d = 0x9F \<or>
                 b = 0xE3 \<and> c = 0x80 \<and> d = 0x80
              then is_blank ds else False
          | [] \<Rightarrow> False)
      | [] \<Rightarrow> False)"

definition frame :: "u8 list \<Rightarrow> u8 list" where
  "frame bs = to_be_bytes (of_nat (length bs)) @ bs"

fun optional_frame :: "u8 list option \<Rightarrow> u8 list list" where
  "optional_frame None = [[0]]"
| "optional_frame (Some bs) = [[1], bs]"

definition frames :: "u8 list list \<Rightarrow> u8 list" where
  "frames fs = concat (map frame fs)"

text \<open>A digest over a domain and the frames that were added to it in order.\<close>

definition canonical_digest :: "hash \<Rightarrow> str \<Rightarrow> u8 list list \<Rightarrow> b32" where
  "canonical_digest h tag fs = h (frames (tag # fs))"

definition CONTROL_BINDING_DIGEST_DOMAIN :: str where
  "CONTROL_BINDING_DIGEST_DOMAIN = ascii ''codefabric.activation-control.binding.v1''"

definition CONTROL_RELATION_DIGEST_DOMAIN :: str where
  "CONTROL_RELATION_DIGEST_DOMAIN = ascii ''codefabric.activation-control.relation-pin.v1''"

definition BACKEND_COMMIT_DIGEST_DOMAIN :: str where
  "BACKEND_COMMIT_DIGEST_DOMAIN = ascii ''codefabric.activation.backend-commit.v1''"

definition TABLE_VERSION_SET_DIGEST_DOMAIN :: str where
  "TABLE_VERSION_SET_DIGEST_DOMAIN = ascii ''codefabric.activation.table-version-set.v1''"


section \<open>Table-version sets\<close>

record exact_delta_pin =
  canonical_root :: str
  pin_version :: u64

datatype table_version_set_ref = TableVersionSetRef b32

record table_version_set =
  tvs_reference :: table_version_set_ref
  tvs_components :: "(str, exact_delta_pin) btree_map"

datatype table_version_set_error =
    EmptySet
  | EmptyRelationIdentity
  | DuplicateRelationIdentity str
  | ComponentCountOverflow

fun collect_components ::
  "(str \<times> exact_delta_pin) list \<Rightarrow> (str, exact_delta_pin) btree_map
     \<Rightarrow> (table_version_set_error, (str, exact_delta_pin) btree_map) result" where
  "collect_components [] ordered = Inr ordered"
| "collect_components ((relation_id, pin) # rest) ordered =
     bindE (ensure (\<not> is_blank relation_id) EmptyRelationIdentity) (\<lambda>_.
     bindE (ensure (\<not> btree_get ordered relation_id \<noteq> None) (DuplicateRelationIdentity relation_id)) (\<lambda>_.
     collect_components rest (btree_insert relation_id pin ordered)))"

definition component_fields :: "(str, exact_delta_pin) btree_map \<Rightarrow> u8 list list" where
  "component_fields ordered = to_be_bytes (of_nat (length ordered)) #
     concat (map (\<lambda>(relation_id, pin). [relation_id, canonical_root pin, to_be_bytes (pin_version pin)]) ordered)"

definition table_version_set_try_new ::
  "hash \<Rightarrow> (str \<times> exact_delta_pin) list \<Rightarrow> (table_version_set_error, table_version_set) result" where
  "table_version_set_try_new h components =
     bindE (collect_components components []) (\<lambda>ordered.
     bindE (ensure (\<not> ordered = []) EmptySet) (\<lambda>_.
     bindE (ensure (length ordered < 2 ^ 64) ComponentCountOverflow) (\<lambda>_.
     Inr \<lparr>tvs_reference = TableVersionSetRef
            (canonical_digest h TABLE_VERSION_SET_DIGEST_DOMAIN (component_fields ordered)),
          tvs_components = ordered\<rparr>)))"

definition table_version_pin :: "table_version_set \<Rightarrow> str \<Rightarrow> exact_delta_pin option" where
  "table_version_pin s relation_id = btree_get (tvs_components s) relation_id"


section \<open>Control bindings and control pins\<close>

text \<open>The schema contract as this module observes it; the type of schemas is a parameter.\<close>

record 'schema schema_contract =
  logical_schema :: 'schema
  storage_schema :: 'schema
  source_schema_identity :: str
  contract_qualifier :: str

record sealed_activation_control_binding =
  session_id :: str
  physical_binding_id :: str
  binding_source_schema_identity :: str
  qualifier :: str
  logical_schema_digest :: b32
  storage_schema_digest :: b32
  binding_fingerprint :: b32

datatype activation_control_binding_error =
    EmptySessionId
  | EmptyPhysicalBindingId
  | ObservationMismatch
  | CanonicalSchema str

type_synonym 'schema schema_encoding = "'schema \<Rightarrow> (activation_control_binding_error, u8 list) result"

definition try_from_session_identity_and_contract ::
  "hash \<Rightarrow> 'schema schema_encoding \<Rightarrow> str \<Rightarrow> str \<Rightarrow> 'schema schema_contract
     \<Rightarrow> (activation_control_binding_error, sealed_activation_control_binding) result" where
  "try_from_session_identity_and_contract h canonical_arrow_schema session physical contract =
     bindE (ensure (\<not> is_blank session) EmptySessionId) (\<lambda>_.
     bindE (ensure (\<not> is_blank physical) EmptyPhysicalBindingId) (\<lambda>_.
     bindE (canonical_arrow_schema (logical_schema contract)) (\<lambda>logical.
     bindE (canonical_arrow_schema (storage_schema contract)) (\<lambda>storage.
     Inr \<lparr>session_id = session, physical_binding_id = physical,
          binding_source_schema_identity = source_schema_identity contract,
          qualifier = contract_qualifier contract,
          logical_schema_digest = h logical, storage_schema_digest = h storage,
          binding_fingerprint = canonical_digest h CONTROL_BINDING_DIGEST_DOMAIN
            [session, physical, source_schema_identity contract, contract_qualifier contract,
             logical, storage]\<rparr>))))"

definition binding_revalidate ::
  "hash \<Rightarrow> 'schema schema_encoding \<Rightarrow> sealed_activation_control_binding \<Rightarrow> str \<Rightarrow> str
     \<Rightarrow> 'schema schema_contract \<Rightarrow> (activation_control_binding_error, unit) result" where
  "binding_revalidate h canonical_arrow_schema binding session physical contract =
     bindE (try_from_session_identity_and_contract h canonical_arrow_schema session physical contract) (\<lambda>observed.
     ensure (\<not> observed \<noteq> binding) ObservationMismatch)"

record activation_control_relation_pin =
  control_table :: exact_delta_pin
  control_binding :: sealed_activation_control_binding
  control_fingerprint :: b32

definition control_relation_pin_new ::
  "hash \<Rightarrow> exact_delta_pin \<Rightarrow> sealed_activation_control_binding \<Rightarrow> activation_control_relation_pin" where
  "control_relation_pin_new h table binding = \<lparr>
     control_table = table, control_binding = binding,
     control_fingerprint = canonical_digest h CONTROL_RELATION_DIGEST_DOMAIN
       [canonical_root table, to_be_bytes (pin_version table), b32_bytes (binding_fingerprint binding)]\<rparr>"


section \<open>Commit evidence\<close>

record application_transaction_marker =
  application_id :: str
  application_version :: "64 word"

fun from_transaction_ref :: "transaction_ref \<Rightarrow> application_transaction_marker" where
  "from_transaction_ref (TransactionRef b) = \<lparr>
     application_id = ascii (''codefabric/transaction/'' @ concat (map hex_byte (b32_bytes b))),
     application_version = 0\<rparr>"

datatype activation_delta_read_version_evidence = ExactReadVersion u64 | NotExposedByCommitHistory

record activation_delta_commit_observation =
  obs_predecessor :: exact_delta_pin
  obs_committed :: exact_delta_pin
  obs_marker :: application_transaction_marker
  obs_marker_observed_in :: exact_delta_pin
  obs_operation_id :: operation_id
  obs_writer_generation :: writer_generation
  obs_session_id :: str
  obs_read_version :: activation_delta_read_version_evidence
  obs_num_retries :: u64

datatype backend_commit_ref = BackendCommitRef b32

record activation_delta_commit_evidence =
  ev_control_predecessor :: activation_control_relation_pin
  ev_committed :: exact_delta_pin
  ev_marker_observed_in :: exact_delta_pin
  ev_operation_id :: operation_id
  ev_transaction :: transaction_ref
  ev_execution_fence :: writer_fence
  ev_read_version :: activation_delta_read_version_evidence
  ev_num_retries :: u64
  ev_backend_commit :: backend_commit_ref

datatype activation_delta_evidence_error =
    EmptyObservedSessionId
  | ControlVersionOverflow u64
  | PredecessorObservationMismatch
  | CommittedRootMismatch
  | CommittedVersionMismatch u64 u64
  | MarkerObservationMismatch
  | TransactionMarkerMismatch
  | OperationMismatch
  | WriterGenerationMismatch
  | SessionBindingMismatch
  | ReadVersionMismatch u64 u64
  | NonzeroRetryCount u64
  | RowTransactionMismatch
  | RowFenceMismatch
  | RowReadbackPinMismatch

definition commit_observation_try_new ::
  "activation_delta_commit_observation
     \<Rightarrow> (activation_delta_evidence_error, activation_delta_commit_observation) result" where
  "commit_observation_try_new observation =
     bindE (ensure (\<not> is_blank (obs_session_id observation)) EmptyObservedSessionId) (\<lambda>_.
     Inr observation)"

fun transaction_blob :: "transaction_ref \<Rightarrow> u8 list" where
  "transaction_blob (TransactionRef b) = b32_bytes b"

fun read_version_frames :: "activation_delta_read_version_evidence \<Rightarrow> u8 list list" where
  "read_version_frames (ExactReadVersion v) = [[1], to_be_bytes v]"
| "read_version_frames NotExposedByCommitHistory = [[0]]"

text \<open>\<open>i64::to_be_bytes\<close>: a signed word has the bytes of its two's complement.\<close>

definition i64_to_be_bytes :: "64 word \<Rightarrow> u8 list" where
  "i64_to_be_bytes n = to_be_bytes n"

definition backend_commit_fields ::
  "activation_control_relation_pin \<Rightarrow> transaction_ref \<Rightarrow> operation_id \<Rightarrow> writer_fence
     \<Rightarrow> activation_delta_commit_observation \<Rightarrow> u8 list list" where
  "backend_commit_fields control t opn f observation =
     [b32_bytes (control_fingerprint control),
      canonical_root (obs_committed observation),
      to_be_bytes (pin_version (obs_committed observation)),
      application_id (obs_marker observation),
      i64_to_be_bytes (application_version (obs_marker observation)),
      canonical_root (obs_marker_observed_in observation),
      to_be_bytes (pin_version (obs_marker_observed_in observation)),
      operation_blob opn, transaction_blob t, lease_blob (lease_id f),
      to_be_bytes (fence_generation f)] @
     read_version_frames (obs_read_version observation) @
     [to_be_bytes (obs_num_retries observation)]"

definition commit_evidence_try_new ::
  "hash \<Rightarrow> activation_control_relation_pin \<Rightarrow> transaction_ref \<Rightarrow> operation_id \<Rightarrow> writer_fence
     \<Rightarrow> activation_delta_commit_observation
     \<Rightarrow> (activation_delta_evidence_error, activation_delta_commit_evidence) result" where
  "commit_evidence_try_new h control t opn f observation =
     (let prior = control_table control in
      bindE (ensure (\<not> obs_predecessor observation \<noteq> prior) PredecessorObservationMismatch) (\<lambda>_.
      bindE (ok_or (checked_add (pin_version prior) 1) (ControlVersionOverflow (pin_version prior))) (\<lambda>expected_version.
      bindE (ensure (\<not> canonical_root (obs_committed observation) \<noteq> canonical_root prior) CommittedRootMismatch) (\<lambda>_.
      bindE (ensure (\<not> pin_version (obs_committed observation) \<noteq> expected_version)
        (CommittedVersionMismatch expected_version (pin_version (obs_committed observation)))) (\<lambda>_.
      bindE (ensure (\<not> obs_marker_observed_in observation \<noteq> obs_committed observation) MarkerObservationMismatch) (\<lambda>_.
      bindE (ensure (\<not> obs_marker observation \<noteq> from_transaction_ref t) TransactionMarkerMismatch) (\<lambda>_.
      bindE (ensure (\<not> obs_operation_id observation \<noteq> opn) OperationMismatch) (\<lambda>_.
      bindE (ensure (\<not> obs_writer_generation observation \<noteq> generation f) WriterGenerationMismatch) (\<lambda>_.
      bindE (ensure (\<not> obs_session_id observation \<noteq> session_id (control_binding control)) SessionBindingMismatch) (\<lambda>_.
      bindE (case obs_read_version observation of
          ExactReadVersion v \<Rightarrow> ensure (\<not> v \<noteq> pin_version prior) (ReadVersionMismatch (pin_version prior) v)
        | NotExposedByCommitHistory \<Rightarrow> Inr ()) (\<lambda>_.
      bindE (ensure (\<not> obs_num_retries observation \<noteq> 0) (NonzeroRetryCount (obs_num_retries observation))) (\<lambda>_.
      Inr \<lparr>ev_control_predecessor = control, ev_committed = obs_committed observation,
           ev_marker_observed_in = obs_marker_observed_in observation,
           ev_operation_id = opn, ev_transaction = t, ev_execution_fence = f,
           ev_read_version = obs_read_version observation,
           ev_num_retries = obs_num_retries observation,
           ev_backend_commit = BackendCommitRef
             (canonical_digest h BACKEND_COMMIT_DIGEST_DOMAIN (backend_commit_fields control t opn f observation))\<rparr>))))))))))))"


section \<open>Framing is injective\<close>

definition framable :: "u8 list \<Rightarrow> bool" where
  "framable bs \<longleftrightarrow> length bs < 2 ^ 64"

lemma frame_append_inject:
  assumes "framable a" "framable b"
  shows "frame a @ x = frame b @ y \<longleftrightarrow> a = b \<and> x = y"
proof -
  have "unat (of_nat (length z) :: u64) = length z" if "framable z" for z
    using that by (simp add: framable_def unat_of_nat)
  with assms have "(of_nat (length a) :: u64) = of_nat (length b) \<longleftrightarrow> length a = length b"
    by (metis word_unat_eq_iff)
  then show ?thesis
    by (auto simp: frame_def append_eq_append_conv)
qed

lemma frame_not_Nil [simp]: "frame a \<noteq> []"
  by (simp add: frame_def length_0_conv [symmetric] del: length_0_conv)

lemma frames_inject:
  assumes "list_all framable as" "list_all framable bs"
  shows "frames as = frames bs \<longleftrightarrow> as = bs"
  using assms
proof (induction as arbitrary: bs)
  case Nil
  then show ?case by (cases bs) (simp_all add: frames_def)
next
  case (Cons a as)
  show ?case
  proof (cases bs)
    case Nil
    then show ?thesis by (simp add: frames_def)
  next
    case (Cons b bs')
    with Cons.prems Cons.IH [of bs'] show ?thesis
      by (simp add: frames_def frame_append_inject)
  qed
qed


section \<open>Table-version sets are canonical\<close>

lemma collect_components_eq_Inr:
  "btree_ok ordered \<Longrightarrow> collect_components cs ordered = Inr m \<longleftrightarrow>
     list_all (\<lambda>k. \<not> is_blank k) (map fst cs) \<and> distinct (map fst cs) \<and>
     fst ` set cs \<inter> dom (btree_get ordered) = {} \<and>
     btree_ok m \<and> btree_get m = btree_get ordered ++ map_of cs"
proof (induction cs ordered rule: collect_components.induct)
  case (1 ordered)
  then show ?case by (auto dest: btree_ext)
next
  case (2 k p cs ordered)
  show ?case
  proof (cases "is_blank k \<or> btree_get ordered k \<noteq> None")
    case False
    have upd: "(btree_get ordered)(k \<mapsto> p) ++ map_of cs = btree_get ordered ++ (map_of cs)(k \<mapsto> p)"
      if "k \<notin> fst ` set cs"
      using that by (auto simp: map_add_def fun_eq_iff dom_map_of_conv_image_fst [symmetric] split: option.splits)
    have ok: "btree_ok (btree_insert k p ordered)"
      using 2 by simp
    have disj: "fst ` set cs \<inter> insert k D = {} \<longleftrightarrow> k \<notin> fst ` set cs \<and> fst ` set cs \<inter> D = {}" for D
      by auto
    have ih: "collect_components cs (btree_insert k p ordered) = Inr m \<longleftrightarrow>
        list_all (\<lambda>k. \<not> is_blank k) (map fst cs) \<and> distinct (map fst cs) \<and>
        fst ` set cs \<inter> insert k (dom (btree_get ordered)) = {} \<and>
        btree_ok m \<and> btree_get m = (btree_get ordered)(k \<mapsto> p) ++ map_of cs"
      unfolding 2(1) [OF ok] btree_get_insert dom_fun_upd by (simp only: option.distinct if_False)
    from False have "collect_components ((k, p) # cs) ordered = Inr m \<longleftrightarrow>
        collect_components cs (btree_insert k p ordered) = Inr m"
      by simp
    also have "\<dots> \<longleftrightarrow> list_all (\<lambda>k. \<not> is_blank k) (map fst cs) \<and> distinct (map fst cs) \<and>
        k \<notin> fst ` set cs \<and> fst ` set cs \<inter> dom (btree_get ordered) = {} \<and>
        btree_ok m \<and> btree_get m = btree_get ordered ++ (map_of cs)(k \<mapsto> p)"
      unfolding ih using upd by (cases "k \<in> fst ` set cs") (simp_all add: disj)
    also have "\<dots> \<longleftrightarrow> list_all (\<lambda>k. \<not> is_blank k) (map fst ((k, p) # cs)) \<and> distinct (map fst ((k, p) # cs)) \<and>
        fst ` set ((k, p) # cs) \<inter> dom (btree_get ordered) = {} \<and>
        btree_ok m \<and> btree_get m = btree_get ordered ++ map_of ((k, p) # cs)"
      using False by auto
    finally show ?thesis .
  qed auto
qed

lemma try_new_eq_Inr:
  "table_version_set_try_new h cs = Inr s \<longleftrightarrow>
     list_all (\<lambda>k. \<not> is_blank k) (map fst cs) \<and> distinct (map fst cs) \<and>
     btree_ok (tvs_components s) \<and> btree_get (tvs_components s) = map_of cs \<and>
     tvs_components s \<noteq> [] \<and> length (tvs_components s) < 2 ^ 64 \<and>
     s = \<lparr>tvs_reference = TableVersionSetRef (canonical_digest h TABLE_VERSION_SET_DIGEST_DOMAIN
            (component_fields (tvs_components s))), tvs_components = tvs_components s\<rparr>"
  by (auto simp: table_version_set_try_new_def collect_components_eq_Inr)

lemma pin_eq_iff: "p = q \<longleftrightarrow> canonical_root p = canonical_root q \<and> pin_version p = pin_version q"
  for p q :: exact_delta_pin
  by (cases p; cases q) simp

abbreviation component_frames :: "(str, exact_delta_pin) btree_map \<Rightarrow> u8 list list" where
  "component_frames m \<equiv>
     concat (map (\<lambda>(relation_id, pin). [relation_id, canonical_root pin, to_be_bytes (pin_version pin)]) m)"

lemma component_frames_inject: "component_frames m = component_frames n \<longleftrightarrow> m = n"
proof (induction m arbitrary: n)
  case Nil
  show ?case by (cases n) auto
next
  case (Cons a m)
  show ?case
  proof (cases n)
    case (Cons b n')
    with Cons.IH [of n'] show ?thesis
      by (cases a; cases b) (simp add: pin_eq_iff)
  qed (cases a, simp)
qed

lemma component_fields_inject: "component_fields m = component_fields n \<longleftrightarrow> m = n"
proof
  assume "component_fields m = component_fields n"
  then have "tl (component_fields m) = tl (component_fields n)"
    by simp
  then show "m = n"
    by (simp only: component_fields_def list.sel component_frames_inject)
qed simp

text \<open>
  The version set of an epoch is canonical: constructing it succeeds for an input in every
  order if it succeeds in one, always with the same components and the same reference, and it
  resolves exactly the given pins.
\<close>

theorem version_set_is_canonical:
  assumes "table_version_set_try_new h cs = Inr s" and "mset cs' = mset cs"
  shows "table_version_set_try_new h cs' = Inr s \<and>
    (\<forall>k p. table_version_pin s k = Some p \<longleftrightarrow> (k, p) \<in> set cs)"
proof -
  from assms(2) have keys: "mset (map fst cs') = mset (map fst cs)"
    by simp
  then have "distinct (map fst cs') \<longleftrightarrow> distinct (map fst cs)" "set (map fst cs') = set (map fst cs)"
    by (rule mset_eq_imp_distinct_iff, metis set_mset_mset)
  moreover have "map_of cs' = map_of cs"
    using assms calculation(1) by (simp add: map_of_inject_set try_new_eq_Inr) (metis set_mset_mset)
  moreover have "distinct (map fst cs)" "btree_get (tvs_components s) = map_of cs"
    using assms(1) by (simp_all add: try_new_eq_Inr)
  ultimately show ?thesis
    using assms(1) by (simp add: try_new_eq_Inr list_all_iff table_version_pin_def map_of_eq_Some_iff)
qed

definition example_pin :: "string \<Rightarrow> u64 \<Rightarrow> exact_delta_pin" where
  "example_pin root v = \<lparr>canonical_root = ascii root, pin_version = v\<rparr>"

definition example_hash :: hash where
  "example_hash bs = of_nat (length bs)"

theorem version_set_is_canonical_witness:
  "\<exists>s. table_version_set_try_new example_hash
       [(ascii ''b'', example_pin ''file:///b'' 2), (ascii ''a'', example_pin ''file:///a'' 7)] = Inr s \<and>
     table_version_set_try_new example_hash
       [(ascii ''a'', example_pin ''file:///a'' 7), (ascii ''b'', example_pin ''file:///b'' 2)] = Inr s \<and>
     table_version_pin s (ascii ''a'') = Some (example_pin ''file:///a'' 7)"
proof -
  let ?cs = "[(ascii ''b'', example_pin ''file:///b'' 2), (ascii ''a'', example_pin ''file:///a'' 7)]"
  let ?cs' = "[(ascii ''a'', example_pin ''file:///a'' 7), (ascii ''b'', example_pin ''file:///b'' 2)]"
  have keys: "ascii ''a'' = [97]" "ascii ''b'' = [98]"
    by (simp_all add: ascii_def)
  obtain s where s: "table_version_set_try_new example_hash ?cs = Inr s"
    by (simp add: table_version_set_try_new_def keys)
  from version_set_is_canonical [OF s, of ?cs'] s show ?thesis
    by (auto simp: keys)
qed

end
