(* ===== verification/Activation.thy ===== *)
theory Activation
  imports Evidence
begin

text \<open>
  Activation events and the current head (\<open>fabric/activation.rs\<close>): the durable activation row,
  its construction from a validated command attempt, the event reconstructed from a row and its
  commit evidence, and \<open>ActivationChain::derive\<close>, which computes the one linear history from an
  unordered set of rows.
\<close>

section \<open>Rows and events\<close>

datatype activation_event_id = ActivationEventId b32
datatype overlay_segment_set_ref = OverlaySegmentSetRef b32
datatype policy_set_ref = PolicySetRef b32
datatype compatibility_class_ref = CompatibilityClassRef b32
datatype activation_readback_ref = ActivationReadbackRef b32

fun event_bytes :: "activation_event_id \<Rightarrow> b32" where
  "event_bytes (ActivationEventId b) = b"

lemma event_bytes_inject: "event_bytes a = event_bytes b \<longleftrightarrow> a = b"
  by (cases a; cases b) simp

instantiation activation_event_id :: linorder
begin

definition less_eq_activation_event_id :: "activation_event_id \<Rightarrow> activation_event_id \<Rightarrow> bool" where
  "less_eq_activation_event_id a b \<longleftrightarrow> event_bytes a \<le> event_bytes b"

definition less_activation_event_id :: "activation_event_id \<Rightarrow> activation_event_id \<Rightarrow> bool" where
  "less_activation_event_id a b \<longleftrightarrow> event_bytes a < event_bytes b"

instance
  by standard
    (auto simp: less_eq_activation_event_id_def less_activation_event_id_def order.strict_iff_order
      event_bytes_inject)

end

datatype activation_ordinal = ActivationOrdinal nonzero_u64

definition activation_ordinal_new :: "u64 \<Rightarrow> activation_ordinal option" where
  "activation_ordinal_new value = map_option ActivationOrdinal (nz_new value)"

fun ordinal_get :: "activation_ordinal \<Rightarrow> u64" where
  "ordinal_get (ActivationOrdinal n) = nz_get n"

record fabric_epoch_pins =
  epoch :: epoch_id
  ep_input_release :: input_release_ref
  ep_program_release :: program_release_ref
  ep_application_release :: application_release_ref
  ep_source_authority :: source_authority_ref
  ep_source_generation :: source_generation
  ep_provider_release :: provider_release_ref
  ep_provider_set :: provider_set_ref
  ep_table_versions :: table_version_set_ref
  ep_overlay_segments :: overlay_segment_set_ref
  ep_policy_set :: policy_set_ref
  ep_resource_envelope :: resource_envelope_ref
  ep_proof_receipt :: proof_receipt_ref

definition command_pins_match :: "fabric_epoch_pins \<Rightarrow> fabric_command \<Rightarrow> bool" where
  "command_pins_match p c \<longleftrightarrow>
     ep_input_release p = input_release (pins c) \<and>
     ep_program_release p = program_release (pins c) \<and>
     ep_application_release p = application_release (pins c) \<and>
     ep_source_authority p = source_authority (pins c) \<and>
     ep_source_generation p = source_generation (pins c) \<and>
     ep_provider_release p = provider_release (pins c) \<and>
     ep_provider_set p = provider_set (pins c) \<and>
     ep_resource_envelope p = resources c"

record durable_activation_commit =
  dc_operation_selection :: operation_selection_ref
  dc_transaction :: transaction_ref

record durable_activation_row =
  row_event_id :: activation_event_id
  row_workspace_id :: workspace_id
  row_operation :: operation_id
  row_predecessor_event_id :: "activation_event_id option"
  row_predecessor_epoch :: expected_head
  row_ordinal :: activation_ordinal
  row_execution_fence :: writer_fence
  row_pins :: fabric_epoch_pins
  row_compatibility :: compatibility_class_ref
  row_retention :: retention_policy_ref
  row_commit :: durable_activation_commit

record activation_commit =
  ac_operation_selection :: operation_selection_ref
  ac_transaction :: transaction_ref
  ac_backend_commit :: backend_commit_ref
  ac_readback :: activation_readback_ref

record activation_event =
  event_id :: activation_event_id
  workspace :: workspace_id
  operation :: operation_id
  predecessor_event :: "activation_event_id option"
  predecessor_epoch :: expected_head
  ordinal :: activation_ordinal
  execution_fence :: writer_fence
  event_pins :: fabric_epoch_pins
  compatibility :: compatibility_class_ref
  retention :: retention_policy_ref
  event_commit :: activation_commit

datatype activation_error =
    CommandDoesNotSelectEpoch
  | ProofReceiptMismatch
  | SelectedEpochMismatch epoch_id epoch_id
  | CommandPinMismatch
  | ActivationWorkspaceMismatch workspace_id workspace_id
  | DuplicateEvent activation_event_id
  | DuplicateOperation operation_id
  | DuplicateOperationSelection operation_selection_ref
  | DuplicateTransaction transaction_ref
  | RootCount nat
  | InvalidRoot activation_event_id
  | MissingPredecessor activation_event_id activation_event_id
  | Fork activation_event_id
  | PredecessorEpochMismatch activation_event_id activation_event_id
  | OrdinalGap activation_event_id u64 u64
  | WriterGenerationRegression activation_event_id activation_event_id
  | DisconnectedOrCyclicHistory nat nat

definition row_try_from_attempt ::
  "activation_event_id \<Rightarrow> validated_command_attempt \<Rightarrow> activation_event_id option \<Rightarrow> activation_ordinal
     \<Rightarrow> fabric_epoch_pins \<Rightarrow> compatibility_class_ref \<Rightarrow> retention_policy_ref \<Rightarrow> durable_activation_commit
     \<Rightarrow> (activation_error, durable_activation_row) result" where
  "row_try_from_attempt eid attempt prior ord p cc rp cm =
     (let c = va_command attempt in
      bindE (case payload c of
          ActivateEpoch candidate receipt \<Rightarrow>
            bindE (ensure (\<not> receipt \<noteq> ep_proof_receipt p) ProofReceiptMismatch) (\<lambda>_. Inr candidate)
        | RollbackEpoch target _ \<Rightarrow> Inr target
        | _ \<Rightarrow> Inl (Err CommandDoesNotSelectEpoch)) (\<lambda>expected_target.
      bindE (ensure (\<not> expected_target \<noteq> epoch p) (SelectedEpochMismatch expected_target (epoch p))) (\<lambda>_.
      bindE (ensure (command_pins_match p c) CommandPinMismatch) (\<lambda>_.
      Inr \<lparr>row_event_id = eid, row_workspace_id = own_workspace_id (ownership c),
           row_operation = command_operation c, row_predecessor_event_id = prior,
           row_predecessor_epoch = cmd_expected_head c, row_ordinal = ord,
           row_execution_fence = fence (va_execution_owner attempt), row_pins = p,
           row_compatibility = cc, row_retention = rp, row_commit = cm\<rparr>))))"

definition from_durable_parts ::
  "durable_activation_row \<Rightarrow> backend_commit_ref \<Rightarrow> activation_readback_ref \<Rightarrow> activation_event" where
  "from_durable_parts row backend readback = \<lparr>
     event_id = row_event_id row, workspace = row_workspace_id row, operation = row_operation row,
     predecessor_event = row_predecessor_event_id row, predecessor_epoch = row_predecessor_epoch row,
     ordinal = row_ordinal row, execution_fence = row_execution_fence row, event_pins = row_pins row,
     compatibility = row_compatibility row, retention = row_retention row,
     event_commit = \<lparr>ac_operation_selection = dc_operation_selection (row_commit row),
       ac_transaction = dc_transaction (row_commit row), ac_backend_commit = backend,
       ac_readback = readback\<rparr>\<rparr>"

definition event_try_from_attempt ::
  "activation_event_id \<Rightarrow> validated_command_attempt \<Rightarrow> activation_event_id option \<Rightarrow> activation_ordinal
     \<Rightarrow> fabric_epoch_pins \<Rightarrow> compatibility_class_ref \<Rightarrow> retention_policy_ref \<Rightarrow> activation_commit
     \<Rightarrow> (activation_error, activation_event) result" where
  "event_try_from_attempt eid attempt prior ord p cc rp cm =
     bindE (row_try_from_attempt eid attempt prior ord p cc rp
       \<lparr>dc_operation_selection = ac_operation_selection cm, dc_transaction = ac_transaction cm\<rparr>) (\<lambda>row.
     Inr (from_durable_parts row (ac_backend_commit cm) (ac_readback cm)))"

definition durable_row :: "activation_event \<Rightarrow> durable_activation_row" where
  "durable_row e = \<lparr>
     row_event_id = event_id e, row_workspace_id = workspace e, row_operation = operation e,
     row_predecessor_event_id = predecessor_event e, row_predecessor_epoch = predecessor_epoch e,
     row_ordinal = ordinal e, row_execution_fence = execution_fence e, row_pins = event_pins e,
     row_compatibility = compatibility e, row_retention = retention e,
     row_commit = \<lparr>dc_operation_selection = ac_operation_selection (event_commit e),
       dc_transaction = ac_transaction (event_commit e)\<rparr>\<rparr>"

definition DURABLE_ROW_DIGEST_DOMAIN :: str where
  "DURABLE_ROW_DIGEST_DOMAIN = ascii ''codefabric.activation.durable-row.v1''"

definition READBACK_DIGEST_DOMAIN :: str where
  "READBACK_DIGEST_DOMAIN = ascii ''codefabric.activation.readback.v1''"

fun head_frames :: "expected_head \<Rightarrow> u8 list list" where
  "head_frames Empty = [[0]]"
| "head_frames (Epoch (EpochId e)) = [[1], b16_bytes e]"

definition pin_fields :: "fabric_epoch_pins \<Rightarrow> u8 list list" where
  "pin_fields p =
     [case epoch p of EpochId b \<Rightarrow> b16_bytes b,
      case ep_input_release p of InputReleaseRef b \<Rightarrow> b32_bytes b,
      case ep_program_release p of ProgramReleaseRef b \<Rightarrow> b32_bytes b,
      case ep_application_release p of ApplicationReleaseRef b \<Rightarrow> b32_bytes b,
      case ep_source_authority p of SourceAuthorityRef b \<Rightarrow> b32_bytes b,
      case ep_source_generation p of SourceGeneration g \<Rightarrow> to_be_bytes g,
      case ep_provider_release p of ProviderReleaseRef b \<Rightarrow> b32_bytes b,
      case ep_provider_set p of ProviderSetRef b \<Rightarrow> b32_bytes b,
      case ep_table_versions p of TableVersionSetRef b \<Rightarrow> b32_bytes b,
      case ep_overlay_segments p of OverlaySegmentSetRef b \<Rightarrow> b32_bytes b,
      case ep_policy_set p of PolicySetRef b \<Rightarrow> b32_bytes b,
      case ep_resource_envelope p of ResourceEnvelopeRef b \<Rightarrow> b32_bytes b,
      case ep_proof_receipt p of ProofReceiptRef b \<Rightarrow> b32_bytes b]"

definition row_fields :: "durable_activation_row \<Rightarrow> u8 list list" where
  "row_fields row =
     [b32_bytes (event_bytes (row_event_id row)), workspace_blob (row_workspace_id row),
      operation_blob (row_operation row)] @
     optional_frame (map_option (\<lambda>e. b32_bytes (event_bytes e)) (row_predecessor_event_id row)) @
     head_frames (row_predecessor_epoch row) @
     [to_be_bytes (ordinal_get (row_ordinal row)),
      lease_blob (lease_id (row_execution_fence row)),
      to_be_bytes (fence_generation (row_execution_fence row))] @
     pin_fields (row_pins row) @
     [case row_compatibility row of CompatibilityClassRef b \<Rightarrow> b32_bytes b,
      case row_retention row of RetentionPolicyRef b \<Rightarrow> b32_bytes b,
      case dc_operation_selection (row_commit row) of OperationSelectionRef b \<Rightarrow> b32_bytes b,
      transaction_blob (dc_transaction (row_commit row))]"

definition row_canonical_digest :: "hash \<Rightarrow> durable_activation_row \<Rightarrow> b32" where
  "row_canonical_digest h row = canonical_digest h DURABLE_ROW_DIGEST_DOMAIN (row_fields row)"

fun backend_bytes :: "backend_commit_ref \<Rightarrow> b32" where
  "backend_bytes (BackendCommitRef b) = b"

definition event_try_from_durable_row ::
  "hash \<Rightarrow> durable_activation_row \<Rightarrow> exact_delta_pin \<Rightarrow> activation_delta_commit_evidence
     \<Rightarrow> (activation_delta_evidence_error, activation_event) result" where
  "event_try_from_durable_row h row observed_in evidence =
     bindE (ensure (\<not> observed_in \<noteq> ev_committed evidence) RowReadbackPinMismatch) (\<lambda>_.
     bindE (ensure (\<not> row_operation row \<noteq> ev_operation_id evidence) OperationMismatch) (\<lambda>_.
     bindE (ensure (\<not> dc_transaction (row_commit row) \<noteq> ev_transaction evidence) RowTransactionMismatch) (\<lambda>_.
     bindE (ensure (\<not> row_execution_fence row \<noteq> ev_execution_fence evidence) RowFenceMismatch) (\<lambda>_.
     Inr (from_durable_parts row (ev_backend_commit evidence)
       (ActivationReadbackRef (canonical_digest h READBACK_DIGEST_DOMAIN
          [b32_bytes (control_fingerprint (ev_control_predecessor evidence)),
           canonical_root observed_in, to_be_bytes (pin_version observed_in),
           b32_bytes (backend_bytes (ev_backend_commit evidence)),
           b32_bytes (row_canonical_digest h row)])))))))"


section \<open>Deriving the chain\<close>

record activation_chain =
  chain_workspace :: workspace_id
  ordered_events :: "activation_event list"

record event_index =
  by_id :: "(activation_event_id, activation_event) btree_map"
  operations :: "operation_id list"
  selections :: "operation_selection_ref list"
  transactions :: "transaction_ref list"

abbreviation selection :: "activation_event \<Rightarrow> operation_selection_ref" where
  "selection e \<equiv> ac_operation_selection (event_commit e)"

abbreviation transaction_of :: "activation_event \<Rightarrow> transaction_ref" where
  "transaction_of e \<equiv> ac_transaction (event_commit e)"

fun index_events ::
  "workspace_id \<Rightarrow> activation_event list \<Rightarrow> event_index \<Rightarrow> (activation_error, event_index) result" where
  "index_events w [] ix = Inr ix"
| "index_events w (e # es) ix =
     bindE (ensure (\<not> workspace e \<noteq> w) (ActivationWorkspaceMismatch w (workspace e))) (\<lambda>_.
     bindE (ensure (\<not> btree_get (by_id ix) (event_id e) \<noteq> None) (DuplicateEvent (event_id e))) (\<lambda>_.
     bindE (ensure (\<not> operation e \<in> set (operations ix)) (DuplicateOperation (operation e))) (\<lambda>_.
     bindE (ensure (\<not> selection e \<in> set (selections ix)) (DuplicateOperationSelection (selection e))) (\<lambda>_.
     bindE (ensure (\<not> transaction_of e \<in> set (transactions ix)) (DuplicateTransaction (transaction_of e))) (\<lambda>_.
     index_events w es
       \<lparr>by_id = btree_insert (event_id e) e (by_id ix), operations = operation e # operations ix,
        selections = selection e # selections ix, transactions = transaction_of e # transactions ix\<rparr>)))))"

text \<open>
  \<open>parent.ordinal.get() + 1\<close>: an overflow panics in a build with overflow checks and wraps to
  zero in a build without them.
\<close>

definition ordinal_successor :: "bool \<Rightarrow> activation_event \<Rightarrow> (activation_error, u64) result" where
  "ordinal_successor checks parent =
     (if ordinal_get (ordinal parent) = - 1 \<and> checks then Inl Panic
      else Inr (ordinal_get (ordinal parent) + 1))"

fun link_events ::
  "bool \<Rightarrow> (activation_event_id, activation_event) btree_map \<Rightarrow> activation_event list
     \<Rightarrow> (activation_event_id \<rightharpoonup> activation_event_id)
     \<Rightarrow> (activation_error, activation_event_id \<rightharpoonup> activation_event_id) result" where
  "link_events checks index [] children = Inr children"
| "link_events checks index (e # es) children =
     (case predecessor_event e of
        None \<Rightarrow> link_events checks index es children
      | Some parent_id \<Rightarrow>
          bindE (ok_or (btree_get index parent_id) (MissingPredecessor (event_id e) parent_id)) (\<lambda>parent.
          bindE (ensure (\<not> children parent_id \<noteq> None) (Fork parent_id)) (\<lambda>_.
          bindE (ensure (\<not> predecessor_epoch e \<noteq> Epoch (epoch (event_pins parent)))
            (PredecessorEpochMismatch (event_id e) parent_id)) (\<lambda>_.
          bindE (ordinal_successor checks parent) (\<lambda>expected.
          bindE (ensure (\<not> ordinal_get (ordinal e) \<noteq> expected)
            (OrdinalGap (event_id e) expected (ordinal_get (ordinal e)))) (\<lambda>_.
          bindE (ensure (\<not> generation (execution_fence e) < generation (execution_fence parent))
            (WriterGenerationRegression (event_id e) parent_id)) (\<lambda>_.
          link_events checks index es (children(parent_id \<mapsto> event_id e)))))))))"

text \<open>The walk from the root to the head; \<open>None\<close> is the value of a walk that does not end.\<close>

partial_function (option) walk ::
  "(activation_event_id, activation_event) btree_map \<Rightarrow> (activation_event_id \<rightharpoonup> activation_event_id)
     \<Rightarrow> activation_event_id \<Rightarrow> activation_event list \<Rightarrow> (activation_error, activation_event list) result option" where
  "walk index children nxt ordered =
     (case btree_get index nxt of
        None \<Rightarrow> Some (Inl Panic)
      | Some e \<Rightarrow>
          (case children nxt of
             None \<Rightarrow> Some (Inr (ordered @ [e]))
           | Some child \<Rightarrow> walk index children child (ordered @ [e])))"

definition roots_of :: "(activation_event_id, activation_event) btree_map \<Rightarrow> activation_event list" where
  "roots_of index = filter (\<lambda>e. predecessor_event e = None) (btree_values index)"

definition prepare_walk ::
  "bool \<Rightarrow> (activation_event_id, activation_event) btree_map
     \<Rightarrow> (activation_error, activation_event \<times> (activation_event_id \<rightharpoonup> activation_event_id)) result" where
  "prepare_walk checks index =
     bindE (ensure (\<not> length (roots_of index) \<noteq> 1) (RootCount (length (roots_of index)))) (\<lambda>_.
     let root = roots_of index ! 0 in
     bindE (ensure (\<not> (predecessor_epoch root \<noteq> Empty \<or> ordinal_get (ordinal root) \<noteq> 1))
       (InvalidRoot (event_id root))) (\<lambda>_.
     bindE (link_events checks index (btree_values index) (\<lambda>_. None)) (\<lambda>children.
     Inr (root, children))))"

definition derive ::
  "bool \<Rightarrow> workspace_id \<Rightarrow> activation_event list \<Rightarrow> (activation_error, activation_chain) result option" where
  "derive checks w events =
     (case index_events w events \<lparr>by_id = [], operations = [], selections = [], transactions = []\<rparr> of
        Inl e \<Rightarrow> Some (Inl e)
      | Inr ix \<Rightarrow>
          if by_id ix = [] then Some (Inr \<lparr>chain_workspace = w, ordered_events = []\<rparr>)
          else (case prepare_walk checks (by_id ix) of
            Inl e \<Rightarrow> Some (Inl e)
          | Inr (root, children) \<Rightarrow>
              (case walk (by_id ix) children (event_id root) [] of
                 None \<Rightarrow> None
               | Some (Inl e) \<Rightarrow> Some (Inl e)
               | Some (Inr ordered) \<Rightarrow> Some (
                   bindE (ensure (\<not> length ordered \<noteq> length (by_id ix))
                     (DisconnectedOrCyclicHistory (length ordered) (length (by_id ix)))) (\<lambda>_.
                   Inr \<lparr>chain_workspace = w, ordered_events = ordered\<rparr>)))))"

definition head_event :: "activation_chain \<Rightarrow> activation_event option" where
  "head_event ch = (if ordered_events ch = [] then None else Some (last (ordered_events ch)))"

definition current_head :: "activation_chain \<Rightarrow> expected_head" where
  "current_head ch = (case head_event ch of None \<Rightarrow> Empty | Some e \<Rightarrow> Epoch (epoch (event_pins e)))"

datatype activation_reconstruction_error =
    RowEvidence activation_event_id activation_delta_evidence_error
  | Chain activation_error

fun reconstruct_events ::
  "hash \<Rightarrow> (durable_activation_row \<times> exact_delta_pin \<times> activation_delta_commit_evidence) list
     \<Rightarrow> (activation_reconstruction_error, activation_event list) result" where
  "reconstruct_events h [] = Inr []"
| "reconstruct_events h ((row, observed_in, evidence) # rest) =
     bindE (map_err (RowEvidence (row_event_id row)) (event_try_from_durable_row h row observed_in evidence)) (\<lambda>e.
     bindE (reconstruct_events h rest) (\<lambda>es. Inr (e # es)))"

definition try_from_durable_rows ::
  "bool \<Rightarrow> hash \<Rightarrow> workspace_id \<Rightarrow> (durable_activation_row \<times> exact_delta_pin \<times> activation_delta_commit_evidence) list
     \<Rightarrow> (activation_reconstruction_error, activation_chain) result option" where
  "try_from_durable_rows checks h w rws =
     (case reconstruct_events h rws of
        Inl e \<Rightarrow> Some (Inl e)
      | Inr events \<Rightarrow> map_option (map_err Chain) (derive checks w events))"



section \<open>Lawful histories\<close>

text \<open>
  The specification of a history: one workspace, unique identities, and every event directly
  follows the one before it.
\<close>

abbreviation ordinal_of :: "activation_event \<Rightarrow> nat" where
  "ordinal_of e \<equiv> unat (ordinal_get (ordinal e))"

abbreviation epoch_of :: "activation_event \<Rightarrow> epoch_id" where
  "epoch_of e \<equiv> epoch (event_pins e)"

fun follows :: "activation_event option \<Rightarrow> activation_event \<Rightarrow> bool" where
  "follows None e \<longleftrightarrow> predecessor_event e = None \<and> predecessor_epoch e = Empty \<and> ordinal_of e = 1"
| "follows (Some p) e \<longleftrightarrow> predecessor_event e = Some (event_id p) \<and>
     predecessor_epoch e = Epoch (epoch_of p) \<and> ordinal_of e = Suc (ordinal_of p) \<and>
     generation (execution_fence p) \<le> generation (execution_fence e)"

fun linked :: "activation_event option \<Rightarrow> activation_event list \<Rightarrow> bool" where
  "linked prior [] \<longleftrightarrow> True"
| "linked prior (e # es) \<longleftrightarrow> follows prior e \<and> linked (Some e) es"

definition unique_identities :: "activation_event list \<Rightarrow> bool" where
  "unique_identities es \<longleftrightarrow> distinct (map event_id es) \<and> distinct (map operation es) \<and>
     distinct (map selection es) \<and> distinct (map transaction_of es)"

definition lawful_history :: "workspace_id \<Rightarrow> activation_event list \<Rightarrow> bool" where
  "lawful_history w es \<longleftrightarrow> (\<forall>e \<in> set es. workspace e = w) \<and> unique_identities es \<and> linked None es"

lemma ordinal_get_nonzero [simp]: "ordinal_get o' \<noteq> 0"
  by (cases o') simp

lemma linked_ordinal_nth_from:
  "linked (Some p) es \<Longrightarrow> i < length es \<Longrightarrow> ordinal_of (es ! i) = Suc (ordinal_of p + i)"
proof (induction es arbitrary: p i)
  case (Cons e es)
  then show ?case by (cases i) auto
qed simp

lemma linked_ordinal_nth: "linked None es \<Longrightarrow> i < length es \<Longrightarrow> ordinal_of (es ! i) = Suc i"
  using linked_ordinal_nth_from by (cases es; cases i) auto

lemma linked_last_ordinal: "linked None es \<Longrightarrow> es \<noteq> [] \<Longrightarrow> ordinal_of (last es) = length es"
  using linked_ordinal_nth [of es "length es - 1"] by (cases es rule: rev_cases) (simp_all add: nth_append)

lemma linked_distinct:
  assumes "linked None es"
  shows "distinct es"
proof -
  have "map ordinal_of es = map Suc [0..<length es]"
    by (rule nth_equalityI) (simp_all add: linked_ordinal_nth [OF assms])
  then have "distinct (map ordinal_of es)"
    by (simp add: distinct_map)
  then show ?thesis
    by (simp add: distinct_map)
qed

lemma linked_append: "linked prior (xs @ [y]) \<longleftrightarrow>
    linked prior xs \<and> follows (if xs = [] then prior else Some (last xs)) y"
  by (induction xs arbitrary: prior) simp_all

text \<open>A history is determined by the set of its events.\<close>

lemma linked_unique:
  assumes "linked None es" "linked None es'" "set es = set es'" "length es = length es'"
  shows "es = es'"
proof (rule nth_equalityI [OF assms(4)])
  fix i assume i: "i < length es"
  then have "es ! i \<in> set es'"
    unfolding assms(3) [symmetric] by (rule nth_mem)
  then obtain k where k: "k < length es'" "es' ! k = es ! i"
    unfolding in_set_conv_nth by blast
  have "Suc i = Suc k"
    using linked_ordinal_nth [OF assms(1) i] linked_ordinal_nth [OF assms(2) k(1)] unfolding k(2) by (rule trans [OF sym])
  then have "k = i"
    by (simp only: nat.inject)
  then show "es ! i = es' ! i"
    using k(2) by (simp only:)
qed

lemma linked_nth:
  "linked prior es \<Longrightarrow> i < length es \<Longrightarrow> follows (if i = 0 then prior else Some (es ! (i - 1))) (es ! i)"
proof (induction es arbitrary: prior i)
  case (Cons e es)
  show ?case
  proof (cases i)
    case (Suc k)
    with Cons.IH [of "Some e" k] Cons.prems show ?thesis
      by (cases k) auto
  qed (use Cons in simp)
qed simp


section \<open>The index\<close>

definition indexes :: "event_index \<Rightarrow> activation_event list \<Rightarrow> bool" where
  "indexes ix seen \<longleftrightarrow> btree_ok (by_id ix) \<and>
     mset (by_id ix) = mset (map (\<lambda>e. (event_id e, e)) seen) \<and>
     set (operations ix) = operation ` set seen \<and> set (selections ix) = selection ` set seen \<and>
     set (transactions ix) = transaction_of ` set seen"

definition fresh_keys :: "(activation_event \<Rightarrow> 'k) \<Rightarrow> activation_event list \<Rightarrow> activation_event list \<Rightarrow> bool" where
  "fresh_keys key es seen \<longleftrightarrow> distinct (map key es) \<and> key ` set es \<inter> key ` set seen = {}"

lemma fresh_keys_simps [simp]:
  "fresh_keys key [] seen"
  "fresh_keys key es [] \<longleftrightarrow> distinct (map key es)"
  "fresh_keys key (e # es) seen \<longleftrightarrow> key e \<notin> key ` set seen \<and> fresh_keys key es (e # seen)"
  by (auto simp: fresh_keys_def)

lemma indexes_get:
  assumes "indexes ix seen"
  shows "btree_get (by_id ix) k = Some e \<longleftrightarrow> e \<in> set seen \<and> event_id e = k"
proof -
  have "set_mset (mset (by_id ix)) = set_mset (mset (map (\<lambda>e. (event_id e, e)) seen))"
    using assms by (simp only: indexes_def)
  then have "set (by_id ix) = (\<lambda>e. (event_id e, e)) ` set seen" "btree_ok (by_id ix)"
    using assms by (simp_all only: indexes_def set_mset_mset set_map)
  then show ?thesis
    by (auto simp: btree_ok_distinct map_of_eq_Some_iff)
qed

lemma indexes_fresh: "indexes ix seen \<Longrightarrow> btree_get (by_id ix) k = None \<longleftrightarrow> k \<notin> event_id ` set seen"
  using indexes_get [of ix seen k] by (cases "btree_get (by_id ix) k") (auto, fastforce)

lemma index_events_exact:
  assumes "indexes ix seen"
  shows "(\<exists>ix'. index_events w es ix = Inr ix' \<and> indexes ix' (rev es @ seen)) \<and>
      (\<forall>e \<in> set es. workspace e = w) \<and> fresh_keys event_id es seen \<and> fresh_keys operation es seen \<and>
      fresh_keys selection es seen \<and> fresh_keys transaction_of es seen
    \<or> (\<exists>f. index_events w es ix = Inl (Err f) \<and> (\<forall>a b. f \<noteq> DisconnectedOrCyclicHistory a b)) \<and>
      \<not> ((\<forall>e \<in> set es. workspace e = w) \<and> fresh_keys event_id es seen \<and> fresh_keys operation es seen \<and>
        fresh_keys selection es seen \<and> fresh_keys transaction_of es seen)"
  using assms
proof (induction es arbitrary: ix seen)
  case (Cons e es)
  let ?ok = "workspace e = w \<and> event_id e \<notin> event_id ` set seen \<and> operation e \<notin> operation ` set seen \<and>
    selection e \<notin> selection ` set seen \<and> transaction_of e \<notin> transaction_of ` set seen"
  let ?ix = "\<lparr>by_id = btree_insert (event_id e) e (by_id ix), operations = operation e # operations ix,
        selections = selection e # selections ix, transactions = transaction_of e # transactions ix\<rparr>"
  note ix = Cons.prems
  have sets: "set (operations ix) = operation ` set seen" "set (selections ix) = selection ` set seen"
    "set (transactions ix) = transaction_of ` set seen"
    using ix by (simp_all add: indexes_def)
  show ?case
  proof (cases ?ok)
    case True
    then have get: "btree_get (by_id ix) (event_id e) = None"
      by (simp add: indexes_fresh [OF ix])
    then have "indexes ?ix (e # seen)"
      using ix by (simp add: indexes_def mset_btree_insert)
    from Cons.IH [OF this] True get sets show ?thesis
      by (simp cong: conj_cong)
  next
    case False
    then have "\<exists>f. index_events w (e # es) ix = Inl (Err f) \<and> (\<forall>a b. f \<noteq> DisconnectedOrCyclicHistory a b)"
      using sets indexes_fresh [OF ix, of "event_id e"] by (auto simp: ensure_def)
    with False show ?thesis
      by auto
  qed
qed simp


section \<open>The links\<close>

definition linked_in :: "(activation_event_id, activation_event) btree_map \<Rightarrow> activation_event \<Rightarrow> bool" where
  "linked_in index e \<longleftrightarrow> (\<forall>p. predecessor_event e = Some p \<longrightarrow> (\<exists>parent. btree_get index p = Some parent \<and>
     predecessor_epoch e = Epoch (epoch_of parent) \<and> ordinal_of e = Suc (ordinal_of parent) \<and>
     generation (execution_fence parent) \<le> generation (execution_fence e)))"

definition parents :: "activation_event list \<Rightarrow> activation_event_id list" where
  "parents es = List.map_filter predecessor_event es"

lemma parents_simps [simp]:
  "parents [] = []"
  "parents (e # es) = (case predecessor_event e of None \<Rightarrow> parents es | Some p \<Rightarrow> p # parents es)"
  by (simp_all add: parents_def List.map_filter_def split: option.splits)

lemma set_parents: "p \<in> set (parents es) \<longleftrightarrow> (\<exists>e \<in> set es. predecessor_event e = Some p)"
  by (induction es) (auto split: option.splits)

lemma mset_parents:
  assumes "mset es = mset es'"
  shows "mset (parents es) = mset (parents es')"
proof -
  have "mset (parents es) = image_mset the (filter_mset (\<lambda>p. p \<noteq> None) (image_mset predecessor_event (mset es)))" for es
    by (induction es) (auto split: option.split)
  with assms show ?thesis
    by simp
qed

lemma ordinal_successor_iff:
  "ordinal_successor checks p = Inr (ordinal_get o') \<longleftrightarrow> unat (ordinal_get o') = Suc (ordinal_of p)"
proof (cases "ordinal_get (ordinal p) = - 1")
  case True
  then have "\<not> unat (ordinal_get o') = Suc (ordinal_of p)"
    using less_imp_neq [OF unat_u64_less, of "ordinal_get o'"] by (simp add: unsigned_minus_1_eq_mask mask_eq_exp_minus_1)
  with True show ?thesis
    by (auto simp: ordinal_successor_def dest: sym)
next
  case False
  then have "1 + ordinal_get (ordinal p) \<noteq> 0"
    by (simp add: add_eq_0_iff)
  then have "unat (ordinal_get (ordinal p) + 1) = Suc (ordinal_of p)"
    unfolding add.commute [of "ordinal_get (ordinal p)" 1] by (rule unatSuc)
  with False show ?thesis
    by (auto simp: ordinal_successor_def word_unat_eq_iff)
qed

lemma ordinal_successor_cases:
  obtains (ok) x where "ordinal_successor checks p = Inr x"
  | (overflow) "ordinal_successor checks p = Inl Panic" "checks" "ordinal_get (ordinal p) = - 1"
  by (cases "checks \<and> ordinal_get (ordinal p) = - 1") (auto simp: ordinal_successor_def)

lemma link_events_exact:
  "(\<exists>ch'. link_events checks index es ch = Inr ch' \<and>
       (\<forall>p c. ch' p = Some c \<longleftrightarrow> ch p = Some c \<or> (\<exists>e \<in> set es. predecessor_event e = Some p \<and> event_id e = c))) \<and>
     (\<forall>e \<in> set es. linked_in index e) \<and> distinct (parents es) \<and> set (parents es) \<inter> dom ch = {}
   \<or> (\<exists>f. link_events checks index es ch = Inl f \<and> (\<forall>a b. f \<noteq> Err (DisconnectedOrCyclicHistory a b)) \<and>
       (f = Panic \<longrightarrow> checks \<and> (\<exists>k e. btree_get index k = Some e \<and> ordinal_get (ordinal e) = - 1))) \<and>
     \<not> ((\<forall>e \<in> set es. linked_in index e) \<and> distinct (parents es) \<and> set (parents es) \<inter> dom ch = {})"
proof (induction es arbitrary: ch)
  case (Cons e es)
  show ?case
  proof (cases "predecessor_event e")
    case None
    then have "linked_in index e"
      by (simp add: linked_in_def)
    with None Cons [of ch] show ?thesis
      by simp
  next
    case (Some p)
    show ?thesis
    proof (cases "linked_in index e \<and> ch p = None")
      case True
      with Some obtain parent where parent: "btree_get index p = Some parent"
        "predecessor_epoch e = Epoch (epoch_of parent)" "ordinal_of e = Suc (ordinal_of parent)"
        "generation (execution_fence parent) \<le> generation (execution_fence e)"
        by (auto simp: linked_in_def)
      then have succ: "ordinal_successor checks parent = Inr (ordinal_get (ordinal e))"
        by (simp add: ordinal_successor_iff)
      obtain ch1 where ch1: "ch1 = ch(p \<mapsto> event_id e)"
        by blast
      have eq: "link_events checks index (e # es) ch = link_events checks index es ch1"
        using True Some parent succ by (simp add: not_less ch1)
      have disj: "set (parents es) \<inter> dom ch1 = {} \<longleftrightarrow>
          p \<notin> set (parents es) \<and> set (parents es) \<inter> dom ch = {}"
        by (auto simp: ch1)
      have upd: "ch1 p' = Some c \<longleftrightarrow> p' = p \<and> c = event_id e \<or> ch p' = Some c" for p' c
        using True by (auto simp: ch1)
      have parents: "distinct (parents (e # es)) \<and> set (parents (e # es)) \<inter> dom ch = {} \<longleftrightarrow>
          distinct (parents es) \<and> set (parents es) \<inter> dom ch1 = {}"
        using True Some by (auto simp: disj)
      have links: "(\<forall>x \<in> set (e # es). linked_in index x) \<longleftrightarrow> (\<forall>x \<in> set es. linked_in index x)"
        using True by simp
      have children: "ch' p' = Some c \<longleftrightarrow>
          ch p' = Some c \<or> (\<exists>x \<in> set (e # es). predecessor_event x = Some p' \<and> event_id x = c)"
        if "\<forall>p c. ch' p = Some c \<longleftrightarrow> ch1 p = Some c \<or> (\<exists>e \<in> set es. predecessor_event e = Some p \<and> event_id e = c)"
        for ch' p' c
        using that Some by (auto simp: upd)
      from Cons [of ch1] show ?thesis
        unfolding eq parents links using children by blast
    next
      case False
      then have "\<exists>f. link_events checks index (e # es) ch = Inl f \<and> (\<forall>a b. f \<noteq> Err (DisconnectedOrCyclicHistory a b)) \<and>
          (f = Panic \<longrightarrow> checks \<and> (\<exists>k e. btree_get index k = Some e \<and> ordinal_get (ordinal e) = - 1))"
      proof (cases "btree_get index p")
        case parent: (Some parent)
        show ?thesis
        proof (cases rule: ordinal_successor_cases [of checks parent])
          case (ok x)
          with False Some parent ordinal_successor_iff [of checks parent "ordinal e"] show ?thesis
            by (auto simp: linked_in_def ensure_def not_less)
        next
          case overflow
          with False Some parent show ?thesis
            by (auto simp: ensure_def)
        qed
      qed (use Some in simp)
      with False Some show ?thesis
        by auto
    qed
  qed
qed simp


section \<open>The walk\<close>

text \<open>What holds of the index and the child map once all links are validated.\<close>

definition walkable ::
  "(activation_event_id, activation_event) btree_map \<Rightarrow> activation_event list
     \<Rightarrow> (activation_event_id \<rightharpoonup> activation_event_id) \<Rightarrow> bool" where
  "walkable index es ch \<longleftrightarrow>
     (\<forall>k e. btree_get index k = Some e \<longleftrightarrow> e \<in> set es \<and> event_id e = k) \<and>
     (\<forall>e \<in> set es. linked_in index e) \<and> distinct (parents es) \<and>
     (\<forall>p c. ch p = Some c \<longleftrightarrow> (\<exists>e \<in> set es. predecessor_event e = Some p \<and> event_id e = c))"

lemma walkable_child:
  assumes "walkable index es ch" "e \<in> set es" "x \<in> set es" "predecessor_event x = Some (event_id e)"
  shows "ch (event_id e) = Some (event_id x) \<and> follows (Some e) x"
proof -
  from assms obtain parent where "btree_get index (event_id e) = Some parent"
    and parent: "predecessor_epoch x = Epoch (epoch_of parent)" "ordinal_of x = Suc (ordinal_of parent)"
      "generation (execution_fence parent) \<le> generation (execution_fence x)"
    unfolding walkable_def linked_in_def by blast
  moreover have "btree_get index (event_id e) = Some e"
    using assms(1,2) by (simp add: walkable_def)
  ultimately have "parent = e" by simp
  with parent assms show ?thesis
    by (auto simp: walkable_def)
qed

lemma walk_returns:
  assumes walkable: "walkable index es ch" and "e \<in> set es"
  shows "\<exists>path. walk index ch (event_id e) acc = Some (Inr (acc @ e # path)) \<and> linked (Some e) path \<and>
    set path \<subseteq> set es \<and>
    (\<forall>x \<in> set es. \<forall>p \<in> set (e # path). predecessor_event x = Some (event_id p) \<longrightarrow> x \<in> set path)"
proof -
  obtain N where N: "\<And>x :: activation_event. ordinal_of x < N"
    using unat_u64_less by blast
  show ?thesis
    using assms(2)
  proof (induction "N - ordinal_of e" arbitrary: e acc rule: less_induct)
    case (less e)
    have get: "btree_get index (event_id e) = Some e"
      using walkable less.prems by (simp add: walkable_def)
    show ?case
    proof (cases "ch (event_id e)")
      case None
      then have "\<not> (\<exists>x \<in> set es. predecessor_event x = Some (event_id e))"
        using walkable_child [OF walkable less.prems] by auto
      with None get show ?thesis
        by (subst walk.simps) auto
    next
      case (Some c)
      then obtain x where x: "x \<in> set es" "predecessor_event x = Some (event_id e)" "event_id x = c"
        using walkable by (auto simp: walkable_def)
      have follows: "follows (Some e) x"
        using walkable_child [OF walkable less.prems x(1,2)] ..
      then have "N - ordinal_of x < N - ordinal_of e"
        using N [of x] by (intro diff_less_mono2) simp_all
      from less.hyps [OF this x(1), of "acc @ [e]"] obtain path where
        path: "walk index ch (event_id x) (acc @ [e]) = Some (Inr ((acc @ [e]) @ x # path))"
          "linked (Some x) path" "set path \<subseteq> set es"
          "\<forall>y \<in> set es. \<forall>p \<in> set (x # path). predecessor_event y = Some (event_id p) \<longrightarrow> y \<in> set path"
        by blast
      have only: "y = x" if "y \<in> set es" "predecessor_event y = Some (event_id e)" for y
      proof -
        have "event_id y = event_id x"
          using walkable_child [OF walkable less.prems that] Some x(3) by simp
        moreover have "btree_get index (event_id y) = Some y" "btree_get index (event_id x) = Some x"
          using walkable that(1) x(1) by (simp_all add: walkable_def)
        ultimately show ?thesis by (metis option.inject)
      qed
      have "walk index ch (event_id e) acc = Some (Inr (acc @ e # x # path))"
        by (subst walk.simps) (use get Some x(3) path(1) in simp)
      moreover have "linked (Some e) (x # path)"
        using path(2) follows by (simp only: linked.simps simp_thms)
      moreover have "set (x # path) \<subseteq> set es"
        using path(3) x(1) by simp
      moreover have "y \<in> set (x # path)"
        if "y \<in> set es" "p \<in> set (e # x # path)" "predecessor_event y = Some (event_id p)" for y p
        using that only path(4) by (metis list.set_intros(1,2) set_ConsD)
      ultimately show ?thesis
        by blast
    qed
  qed
qed

lemma walk_complete:
  assumes walkable: "walkable index es ch" and root: "root \<in> set es"
    and only: "\<And>e. e \<in> set es \<Longrightarrow> predecessor_event e = None \<Longrightarrow> e = root"
    and first: "follows None root"
  shows "\<exists>ordered. walk index ch (event_id root) [] = Some (Inr ordered) \<and> linked None ordered \<and>
    set ordered = set es"
proof -
  from walk_returns [OF walkable root, of "[]"] obtain path where
    path: "walk index ch (event_id root) [] = Some (Inr (root # path))" "linked (Some root) path"
      "set path \<subseteq> set es"
    and closed: "\<forall>x \<in> set es. \<forall>p \<in> set (root # path). predecessor_event x = Some (event_id p) \<longrightarrow> x \<in> set path"
    by auto
  have "x \<in> set (root # path)" if "x \<in> set es" for x
    using that
  proof (induction "ordinal_of x" arbitrary: x rule: less_induct)
    case less
    show ?case
    proof (cases "predecessor_event x")
      case (Some p)
      with less.prems walkable obtain parent where
        parent: "btree_get index p = Some parent" "ordinal_of x = Suc (ordinal_of parent)"
        unfolding walkable_def linked_in_def by blast
      then have "parent \<in> set es" "event_id parent = p"
        using walkable by (auto simp: walkable_def)
      with less.hyps [of parent] parent(2) have "parent \<in> set (root # path)"
        by simp
      with closed less.prems Some \<open>event_id parent = p\<close> show ?thesis
        by auto
    qed (use less.prems only in auto)
  qed
  with path root first show ?thesis
    by (intro exI [of _ "root # path"]) auto
qed


section \<open>The outcome of a derivation\<close>

lemma lawful_unique:
  assumes "lawful_history w hs" "lawful_history w hs'" "mset hs = mset hs'"
  shows "hs = hs'"
  using assms linked_unique [of hs hs'] mset_eq_setD [OF assms(3)] mset_eq_length [OF assms(3)]
  by (simp add: lawful_history_def)

lemma distinct_map_mset: "mset es = mset es' \<Longrightarrow> distinct (map key es) \<longleftrightarrow> distinct (map key es')"
  by (rule mset_eq_imp_distinct_iff) simp

lemma unique_identities_mset: "mset es = mset es' \<Longrightarrow> unique_identities es \<longleftrightarrow> unique_identities es'"
  unfolding unique_identities_def by (simp only: distinct_map_mset [of es es'])

lemma linked_parents: "linked (Some p) es \<Longrightarrow> parents es = map event_id (butlast (p # es))"
  by (induction es arbitrary: p) auto

lemma linked_roots: "linked (Some p) es \<Longrightarrow> filter (\<lambda>e. predecessor_event e = None) es = []"
  by (induction es arbitrary: p) auto

lemma lawful_links:
  assumes lawful: "lawful_history w (root # hs)" and perm: "mset (root # hs) = mset es"
    and index: "\<And>k e. btree_get index k = Some e \<longleftrightarrow> e \<in> set es \<and> event_id e = k"
  shows "(\<forall>e \<in> set es. linked_in index e) \<and> distinct (parents es) \<and>
    filter (\<lambda>e. predecessor_event e = None) es = [root] \<and> follows None root"
proof -
  note set = mset_eq_setD [OF perm]
  have linked: "linked (Some root) hs" and root: "follows None root"
    and ids: "distinct (map event_id (root # hs))"
    using lawful by (simp_all add: lawful_history_def unique_identities_def)
  have "linked_in index e" if "e \<in> set es" for e
  proof -
    from that obtain i where i: "i < length (root # hs)" "(root # hs) ! i = e"
      unfolding set [symmetric] in_set_conv_nth by blast
    show ?thesis
    proof (cases i)
      case 0
      with i root show ?thesis by (simp add: linked_in_def)
    next
      case (Suc k)
      let ?p = "(root # hs) ! k"
      have "follows (Some ?p) e"
        using linked_nth [of None "root # hs" i] i Suc root linked by simp
      moreover have "?p \<in> set es"
        unfolding set [symmetric] by (rule nth_mem) (use i Suc in simp)
      ultimately show ?thesis
        using index by (auto simp: linked_in_def)
    qed
  qed
  moreover have "parents (root # hs) = butlast (map event_id (root # hs))"
    using linked_parents [OF linked] root by (simp only: parents_simps follows.simps option.case map_butlast)
  then have "distinct (parents (root # hs))"
    using ids by (simp only: distinct_butlast)
  then have "distinct (parents es)"
    using mset_parents [OF perm] mset_eq_imp_distinct_iff by blast
  moreover have "filter (\<lambda>e. predecessor_event e = None) es = [root]"
  proof -
    have "mset (filter (\<lambda>e. predecessor_event e = None) es) =
        mset (filter (\<lambda>e. predecessor_event e = None) (root # hs))"
      using perm by (simp only: mset_filter)
    also have "filter (\<lambda>e. predecessor_event e = None) (root # hs) = [root]"
      using linked_roots [OF linked] root by simp
    finally show ?thesis
      by (simp only: mset.simps mset_single_iff)
  qed
  ultimately show ?thesis
    using root by simp
qed

lemma indexes_values:
  assumes "indexes ix seen"
  shows "mset (btree_values (by_id ix)) = mset seen"
proof -
  have "mset (map snd (by_id ix)) = image_mset snd (mset (map (\<lambda>e. (event_id e, e)) seen))"
    using assms by (simp only: indexes_def mset_map)
  then show ?thesis
    by (simp add: image_mset.compositionality comp_def)
qed

definition failed_derivation ::
  "bool \<Rightarrow> workspace_id \<Rightarrow> activation_event list \<Rightarrow> activation_error failure \<Rightarrow> bool" where
  "failed_derivation checks w es f \<longleftrightarrow>
     (\<forall>a b. f \<noteq> Err (DisconnectedOrCyclicHistory a b)) \<and>
     (f = Panic \<longrightarrow> checks \<and> (\<exists>e \<in> set es. ordinal_get (ordinal e) = - 1)) \<and>
     \<not> (\<exists>hs. mset hs = mset es \<and> lawful_history w hs)"

lemma prepare_walk_exact:
  assumes ix: "indexes ix seen" and "seen \<noteq> []" and unique: "(\<forall>e \<in> set seen. workspace e = w) \<and> unique_identities seen"
  shows "(\<exists>root ch. prepare_walk checks (by_id ix) = Inr (root, ch) \<and>
      walkable (by_id ix) (btree_values (by_id ix)) ch \<and>
      filter (\<lambda>e. predecessor_event e = None) (btree_values (by_id ix)) = [root] \<and> follows None root)
    \<or> (\<exists>f. prepare_walk checks (by_id ix) = Inl f \<and> failed_derivation checks w seen f)"
proof -
  let ?V = "btree_values (by_id ix)"
  have V: "mset ?V = mset seen" and set: "set ?V = set seen"
    using indexes_values [OF ix] mset_eq_setD by blast+
  have index: "btree_get (by_id ix) k = Some e \<longleftrightarrow> e \<in> set ?V \<and> event_id e = k" for k e
    unfolding set by (rule indexes_get [OF ix])
  have lawful: "(\<forall>e \<in> set ?V. linked_in (by_id ix) e) \<and> distinct (parents ?V) \<and>
      (\<exists>root. filter (\<lambda>e. predecessor_event e = None) ?V = [root] \<and> follows None root)"
    if hs: "mset hs = mset seen" "lawful_history w hs" for hs
  proof -
    from hs assms(2) obtain root rest where "hs = root # rest"
      by (cases hs) auto
    with lawful_links [of w root rest ?V "by_id ix"] hs V index show ?thesis
      by auto
  qed
  show ?thesis
  proof (cases "\<exists>root. roots_of (by_id ix) = [root] \<and> follows None root")
    case False
    then have "\<not> (\<exists>hs. mset hs = mset seen \<and> lawful_history w hs)"
      using lawful unfolding roots_of_def by blast
    moreover have "\<exists>f. prepare_walk checks (by_id ix) = Inl (Err f) \<and> (\<forall>a b. f \<noteq> DisconnectedOrCyclicHistory a b)"
    proof (cases "length (roots_of (by_id ix)) = 1")
      case True
      then obtain root where root: "roots_of (by_id ix) = [root]"
        by (auto simp: length_Suc_conv)
      then have "root \<in> set (roots_of (by_id ix))"
        by simp
      then have "predecessor_event root = None"
        by (simp add: roots_of_def)
      with False root have "predecessor_epoch root \<noteq> Empty \<or> ordinal_get (ordinal root) \<noteq> 1"
        by auto
      with root show ?thesis
        by (auto simp: prepare_walk_def ensure_def)
    qed (simp add: prepare_walk_def ensure_def)
    ultimately show ?thesis
      by (auto simp: failed_derivation_def)
  next
    case True
    then obtain root where root: "roots_of (by_id ix) = [root]" "follows None root"
      by blast
    then have first: "predecessor_epoch root = Empty" "ordinal_get (ordinal root) = 1"
      by (simp_all add: word_unat_eq_iff)
    have eq: "prepare_walk checks (by_id ix) =
        bindE (link_events checks (by_id ix) ?V (\<lambda>_. None)) (\<lambda>ch. Inr (root, ch))"
      using root(1) first by (simp add: prepare_walk_def)
    from link_events_exact [of checks "by_id ix" ?V "\<lambda>_. None"] show ?thesis
    proof (elim disjE conjE exE, goal_cases)
      case (1 ch)
      then show ?case
        using root index by (auto simp: eq walkable_def roots_of_def)
    next
      case (2 f)
      have "\<not> (\<exists>hs. mset hs = mset seen \<and> lawful_history w hs)"
        using lawful 2 by blast
      moreover have "\<exists>e \<in> set seen. ordinal_get (ordinal e) = - 1" if "f = Panic"
        using that 2 indexes_get [OF ix] by blast
      ultimately show ?case
        using 2 by (auto simp: eq failed_derivation_def)
    qed
  qed
qed

lemma lawful_identities:
  assumes "lawful_history w hs" "mset hs = mset es"
  shows "(\<forall>e \<in> set es. workspace e = w) \<and> unique_identities es"
  using assms(1) unfolding lawful_history_def unique_identities_mset [OF assms(2)] mset_eq_setD [OF assms(2)]
  by blast

text \<open>What a complete walk yields.\<close>

lemma walk_lawful:
  assumes "mset V = mset es" and unique: "(\<forall>e \<in> set es. workspace e = w) \<and> unique_identities es"
    and "walkable index V ch" "filter (\<lambda>e. predecessor_event e = None) V = [root]" "follows None root"
  shows "\<exists>ordered. walk index ch (event_id root) [] = Some (Inr ordered) \<and> mset ordered = mset es \<and>
    lawful_history w ordered"
proof -
  have roots: "{e \<in> set V. predecessor_event e = None} = {root}"
    using arg_cong [OF assms(4), of set] by (simp only: set_filter set_simps)
  then have "root \<in> set V" "\<And>e. e \<in> set V \<Longrightarrow> predecessor_event e = None \<Longrightarrow> e = root"
    by blast+
  from walk_complete [OF assms(3) this assms(5)] obtain ordered where
    ordered: "walk index ch (event_id root) [] = Some (Inr ordered)" "linked None ordered"
      "set ordered = set V"
    by blast
  have "distinct es"
    using unique by (simp add: unique_identities_def distinct_map)
  moreover have "set ordered = set es"
    unfolding ordered(3) by (rule mset_eq_setD [OF assms(1)])
  ultimately have perm: "mset ordered = mset es"
    using linked_distinct [OF ordered(2)] by (simp only: set_eq_iff_mset_eq_distinct)
  moreover have "lawful_history w ordered"
    using unique ordered(2)
    unfolding lawful_history_def unique_identities_mset [OF perm] mset_eq_setD [OF perm] by blast
  ultimately show ?thesis
    using ordered(1) by blast
qed

abbreviation empty_index :: event_index where
  "empty_index \<equiv> \<lparr>by_id = [], operations = [], selections = [], transactions = []\<rparr>"

lemma derive_indexed:
  assumes index: "index_events w es empty_index = Inr ix" and ix: "indexes ix es" and "es \<noteq> []"
    and unique: "(\<forall>e \<in> set es. workspace e = w) \<and> unique_identities es"
  shows "(\<exists>hs. derive checks w es = Some (Inr \<lparr>chain_workspace = w, ordered_events = hs\<rparr>) \<and>
      mset hs = mset es \<and> lawful_history w hs)
   \<or> (\<exists>f. derive checks w es = Some (Inl f) \<and> failed_derivation checks w es f)"
proof -
  let ?V = "btree_values (by_id ix)"
  have V: "mset ?V = mset es"
    by (rule indexes_values [OF ix])
  then have size: "length (by_id ix) = length es"
    using mset_eq_length by fastforce
  then have nonempty: "by_id ix \<noteq> []"
    using assms(3) by auto
  from prepare_walk_exact [OF ix assms(3) unique, of checks] show ?thesis
  proof (elim disjE conjE exE, goal_cases)
    case (1 root ch)
    from walk_lawful [OF V unique 1(2-4)] obtain ordered where
      ordered: "walk (by_id ix) ch (event_id root) [] = Some (Inr ordered)" "mset ordered = mset es"
        "lawful_history w ordered"
      by blast
    have "length ordered = length (by_id ix)"
      unfolding size by (rule mset_eq_length [OF ordered(2)])
    then have "derive checks w es = Some (Inr \<lparr>chain_workspace = w, ordered_events = ordered\<rparr>)"
      using index nonempty 1(1) ordered(1) by (simp add: derive_def)
    with ordered(2,3) show ?case
      by blast
  next
    case (2 f)
    then have "derive checks w es = Some (Inl f)"
      using index nonempty by (simp add: derive_def)
    with 2 show ?case
      by blast
  qed
qed

lemma derive_outcome:
  "(\<exists>hs. derive checks w es = Some (Inr \<lparr>chain_workspace = w, ordered_events = hs\<rparr>) \<and>
      mset hs = mset es \<and> lawful_history w hs)
   \<or> (\<exists>f. derive checks w es = Some (Inl f) \<and> failed_derivation checks w es f)"
proof -
  have "indexes empty_index []"
    by (simp add: indexes_def)
  from index_events_exact [OF this, of w es] show ?thesis
  proof (elim disjE conjE exE, goal_cases)
    case (1 ix)
    then have unique: "(\<forall>e \<in> set es. workspace e = w) \<and> unique_identities es"
      by (simp only: unique_identities_def fresh_keys_simps simp_thms)
    have "indexes ix es"
      using 1(7) by (simp add: indexes_def)
    show ?case
    proof (cases "es = []")
      case True
      then show ?thesis
        by (simp add: derive_def lawful_history_def unique_identities_def)
    qed (rule derive_indexed [OF 1(6) \<open>indexes ix es\<close> _ unique])
  next
    case (2 f)
    then have "\<not> ((\<forall>e \<in> set es. workspace e = w) \<and> unique_identities es)"
      by (simp only: unique_identities_def fresh_keys_simps simp_thms)
    then have "\<not> (\<exists>hs. mset hs = mset es \<and> lawful_history w hs)"
      using lawful_identities by blast
    moreover have "derive checks w es = Some (Inl (Err f))"
      using 2 by (simp add: derive_def)
    ultimately show ?case
      using 2 by (simp add: failed_derivation_def)
  qed
qed


section \<open>Properties of the chain\<close>

lemma derive_SomeD:
  assumes "derive checks w es = Some (Inr ch)"
  shows "chain_workspace ch = w" "mset (ordered_events ch) = mset es" "lawful_history w (ordered_events ch)"
  using assms derive_outcome [of checks w es] by auto

lemma derive_SomeI:
  assumes "mset hs = mset es" "lawful_history w hs"
  shows "derive checks w es = Some (Inr \<lparr>chain_workspace = w, ordered_events = hs\<rparr>)"
proof -
  have "\<not> failed_derivation checks w es f" for f
    using assms by (auto simp: failed_derivation_def)
  with derive_outcome [of checks w es] obtain hs' where
    "derive checks w es = Some (Inr \<lparr>chain_workspace = w, ordered_events = hs'\<rparr>)" "mset hs' = mset es"
    "lawful_history w hs'"
    by blast
  moreover have "hs' = hs"
    using calculation(2,3) assms by (intro lawful_unique [of w]) simp_all
  ultimately show ?thesis by simp
qed

text \<open>
  C19.  The chain derivation accepts exactly the lawful histories: it returns a chain if and only if
  the chain is an ordering of the given events in which all events belong to the workspace, all
  event, operation, selection and transaction identities are distinct, the first event starts at
  the empty head with ordinal one, and every other event names its direct predecessor and that
  predecessor's epoch, has the next ordinal and no older writer generation.
\<close>

theorem derive_accepts_exactly_lawful_histories:
  "derive checks w es = Some (Inr ch) \<longleftrightarrow>
     chain_workspace ch = w \<and> mset (ordered_events ch) = mset es \<and> lawful_history w (ordered_events ch)"
proof
  assume "derive checks w es = Some (Inr ch)"
  then show "chain_workspace ch = w \<and> mset (ordered_events ch) = mset es \<and> lawful_history w (ordered_events ch)"
    by (simp add: derive_SomeD)
next
  assume "chain_workspace ch = w \<and> mset (ordered_events ch) = mset es \<and> lawful_history w (ordered_events ch)"
  with derive_SomeI [of "ordered_events ch" es w checks] show "derive checks w es = Some (Inr ch)"
    by simp
qed

text \<open>
  C20.  The derivation returns for every input, and its final reachability check never fails: the
  links it validated already make the history connected.  It panics only in a build with overflow
  checks, on a row whose ordinal is the largest 64-bit number.
\<close>

theorem derive_always_returns:
  "\<exists>res. derive checks w es = Some res \<and> (\<forall>a b. res \<noteq> Inl (Err (DisconnectedOrCyclicHistory a b))) \<and>
     (panics res \<longrightarrow> checks \<and> (\<exists>e \<in> set es. ordinal_get (ordinal e) = - 1))"
  using derive_outcome [of checks w es]
proof (elim disjE exE conjE)
  fix f assume "derive checks w es = Some (Inl f)" "failed_derivation checks w es f"
  then show ?thesis
    by (cases f) (auto simp: failed_derivation_def)
qed simp

lemma lawful_snoc:
  "lawful_history w (xs @ [e]) \<longleftrightarrow> lawful_history w xs \<and> workspace e = w \<and>
     event_id e \<notin> event_id ` set xs \<and> operation e \<notin> operation ` set xs \<and>
     selection e \<notin> selection ` set xs \<and> transaction_of e \<notin> transaction_of ` set xs \<and>
     follows (if xs = [] then None else Some (last xs)) e"
  by (auto simp: lawful_history_def unique_identities_def linked_append)

lemma follows_head: "follows (if ordered_events ch = [] then None else Some (last (ordered_events ch))) e
    \<Longrightarrow> predecessor_epoch e = current_head ch"
  by (auto simp: current_head_def head_event_def split: if_splits)

lemma lawful_extension:
  assumes "lawful_history w hs" "lawful_history w hs'" "mset hs' = add_mset e (mset hs)"
  shows "hs' = hs @ [e]"
proof -
  have linked: "linked None hs" "linked None hs'"
    using assms(1,2) by (simp_all add: lawful_history_def)
  have len: "length hs' = Suc (length hs)"
    using arg_cong [OF assms(3), of size] by simp
  then obtain xs y where hs': "hs' = xs @ [y]"
    by (cases hs' rule: rev_cases) auto
  have "ordinal_of y = Suc (length hs)"
    using linked_last_ordinal [OF linked(2)] len by (simp add: hs')
  then have "y \<notin> set hs"
    using linked_ordinal_nth [OF linked(1)] by (auto simp: in_set_conv_nth)
  moreover have "y \<in># add_mset e (mset hs)"
    unfolding assms(3) [symmetric] by (simp add: hs')
  ultimately have "y = e"
    by simp
  with assms(3) have "mset xs = mset hs"
    by (simp add: hs')
  then have "xs = hs"
    using assms(1,2) by (intro lawful_unique [of w]) (simp_all add: hs' lawful_snoc)
  with hs' \<open>y = e\<close> show ?thesis by simp
qed

text \<open>
  C22.  Histories are append-only: if a set of rows has a chain and the set with one more row still
  has one, then the new chain is the old one followed by the new event, and that event named the
  old head as its predecessor.
\<close>

theorem derive_is_append_only:
  assumes "derive checks w es = Some (Inr ch)" and "derive checks w (e # es) = Some (Inr ch')"
  shows "ordered_events ch' = ordered_events ch @ [e] \<and> predecessor_epoch e = current_head ch \<and>
    current_head ch' = Epoch (epoch_of e)"
proof -
  note old = derive_SomeD [OF assms(1)] and new = derive_SomeD [OF assms(2)]
  have ext: "ordered_events ch' = ordered_events ch @ [e]"
    using old new by (intro lawful_extension) simp_all
  with new(3) have "follows (if ordered_events ch = [] then None else Some (last (ordered_events ch))) e"
    by (simp add: lawful_snoc)
  with ext show ?thesis
    by (simp add: follows_head current_head_def [of ch'] head_event_def)
qed


text \<open>The epoch that a command selects.\<close>

fun selected_epoch :: "fabric_command_payload \<Rightarrow> epoch_id option" where
  "selected_epoch (ActivateEpoch candidate _) = Some candidate"
| "selected_epoch (RollbackEpoch target _) = Some target"
| "selected_epoch _ = None"

lemma event_try_from_attempt_eq_Inr:
  "event_try_from_attempt eid attempt prior ord p cc rp cm = Inr e \<longleftrightarrow>
     (\<exists>row. row_try_from_attempt eid attempt prior ord p cc rp
        \<lparr>dc_operation_selection = ac_operation_selection cm, dc_transaction = ac_transaction cm\<rparr> = Inr row \<and>
      e = from_durable_parts row (ac_backend_commit cm) (ac_readback cm))"
  by (auto simp: event_try_from_attempt_def)

lemma row_from_attempt:
  assumes "row_try_from_attempt eid attempt prior ord p cc rp cm = Inr row"
  shows "selected_epoch (payload (va_command attempt)) = Some (epoch p)"
    "row = \<lparr>row_event_id = eid, row_workspace_id = own_workspace_id (ownership (va_command attempt)),
       row_operation = command_operation (va_command attempt), row_predecessor_event_id = prior,
       row_predecessor_epoch = cmd_expected_head (va_command attempt), row_ordinal = ord,
       row_execution_fence = fence (va_execution_owner attempt), row_pins = p,
       row_compatibility = cc, row_retention = rp, row_commit = cm\<rparr>"
  using assms
  by (auto simp: row_try_from_attempt_def Let_def split: fabric_command_payload.splits)



section \<open>Durable rows\<close>

lemma durable_row_from_parts [simp]: "durable_row (from_durable_parts row backend readback) = row"
  by (simp add: durable_row_def from_durable_parts_def)

lemma reconstruct_events_eq_Inr:
  "reconstruct_events h rws = Inr es \<Longrightarrow> map durable_row es = map fst rws \<and>
     (\<forall>(row, pin, ev) \<in> set rws. pin = ev_committed ev \<and> row_operation row = ev_operation_id ev \<and>
        dc_transaction (row_commit row) = ev_transaction ev \<and> row_execution_fence row = ev_execution_fence ev)"
  by (induction h rws arbitrary: es rule: reconstruct_events.induct)
    (auto simp: event_try_from_durable_row_def)

text \<open>
  C23.  Restart reconstruction is exact: a chain rebuilt from durable rows contains exactly the rows
  that were read, in a lawful order, and every row was read from the version that its evidence
  says was committed, by the operation, transaction and fence of that evidence.
\<close>

theorem reconstruction_is_exact:
  assumes "try_from_durable_rows checks h w rws = Some (Inr ch)"
  shows "mset (map durable_row (ordered_events ch)) = mset (map fst rws) \<and>
    lawful_history w (ordered_events ch) \<and>
    (\<forall>(row, pin, ev) \<in> set rws. pin = ev_committed ev \<and> row_operation row = ev_operation_id ev \<and>
       dc_transaction (row_commit row) = ev_transaction ev \<and> row_execution_fence row = ev_execution_fence ev)"
proof -
  from assms obtain es where es: "reconstruct_events h rws = Inr es" "derive checks w es = Some (Inr ch)"
    by (auto simp: try_from_durable_rows_def split: sum.splits)
  note chain = derive_SomeD [OF es(2)] and rec = reconstruct_events_eq_Inr [OF es(1)]
  have "mset (map durable_row (ordered_events ch)) = mset (map durable_row es)"
    by (simp only: mset_map chain(2))
  with chain(3) rec show ?thesis
    by simp
qed


text \<open>The digest of a row covers every field of it.\<close>

lemma epoch_pins_eqI:
  assumes "pin_fields p = pin_fields q"
  shows "p = q"
  using assms
  by (intro fabric_epoch_pins.equality)
    (auto simp: pin_fields_def split: epoch_id.splits input_release_ref.splits program_release_ref.splits
      application_release_ref.splits source_authority_ref.splits source_generation.splits
      provider_release_ref.splits provider_set_ref.splits table_version_set_ref.splits
      overlay_segment_set_ref.splits policy_set_ref.splits resource_envelope_ref.splits proof_receipt_ref.splits)

lemma blob_injects [simp]:
  "workspace_blob a = workspace_blob b \<longleftrightarrow> a = b"
  "transaction_blob t = transaction_blob u \<longleftrightarrow> t = u"
  "lease_blob k = lease_blob l \<longleftrightarrow> k = l"
proof -
  show "workspace_blob a = workspace_blob b \<longleftrightarrow> a = b"
    by (rule workspace_blob_inject)
  show "transaction_blob t = transaction_blob u \<longleftrightarrow> t = u"
    by (cases t; cases u) simp
  show "lease_blob k = lease_blob l \<longleftrightarrow> k = l"
    by (metis lease_from_blob)
qed

lemma length_pin_fields [simp]: "length (pin_fields p) = 13"
  by (simp add: pin_fields_def)

lemma optional_head_inject:
  "optional_frame (map_option (\<lambda>e. b32_bytes (event_bytes e)) x) @ head_frames y @ zs =
   optional_frame (map_option (\<lambda>e. b32_bytes (event_bytes e)) x') @ head_frames y' @ zs' \<longleftrightarrow>
   x = x' \<and> y = y' \<and> zs = zs'"
proof -
  have "head_frames y @ zs = head_frames y' @ zs' \<longleftrightarrow> y = y' \<and> zs = zs'" for zs zs'
    by (cases y rule: head_frames.cases; cases y' rule: head_frames.cases) auto
  then show ?thesis
    by (cases x; cases x') (auto simp: event_bytes_inject)
qed

lemma row_fields_inject: "row_fields r = row_fields r' \<longleftrightarrow> r = r'"
proof
  assume eq: "row_fields r = row_fields r'"
  then have head: "row_event_id r = row_event_id r'" "row_workspace_id r = row_workspace_id r'"
      "row_operation r = row_operation r'" "row_predecessor_event_id r = row_predecessor_event_id r'"
      "row_predecessor_epoch r = row_predecessor_epoch r'"
    and mid: "ordinal_get (row_ordinal r) = ordinal_get (row_ordinal r')"
      "lease_id (row_execution_fence r) = lease_id (row_execution_fence r')"
      "generation (row_execution_fence r) = generation (row_execution_fence r')"
    and pins: "pin_fields (row_pins r) = pin_fields (row_pins r')"
    and tail: "row_compatibility r = row_compatibility r'" "row_retention r = row_retention r'"
      "dc_operation_selection (row_commit r) = dc_operation_selection (row_commit r')"
      "dc_transaction (row_commit r) = dc_transaction (row_commit r')"
    by (simp_all add: row_fields_def optional_head_inject event_bytes_inject generation_get_inject
        split: compatibility_class_ref.splits retention_policy_ref.splits operation_selection_ref.splits)
  have "row_ordinal r = row_ordinal r'"
    using mid(1) by (cases "row_ordinal r"; cases "row_ordinal r'") (simp add: nz_get_inject)
  moreover have "row_execution_fence r = row_execution_fence r'"
    using mid(2,3) by (intro writer_fence.equality) simp_all
  moreover have "row_commit r = row_commit r'"
    using tail by (intro durable_activation_commit.equality) simp_all
  ultimately show "r = r'"
    using head tail epoch_pins_eqI [OF pins] by (intro durable_activation_row.equality) simp_all
qed simp

lemma row_fields_framable: "list_all framable (DURABLE_ROW_DIGEST_DOMAIN # row_fields r)"
proof -
  have "list_all framable (optional_frame (map_option (\<lambda>e. b32_bytes (event_bytes e)) x))" for x
    by (cases x) (simp_all add: framable_def)
  moreover have "list_all framable (head_frames y)" for y
    by (cases y rule: head_frames.cases) (simp_all add: framable_def)
  moreover have "list_all framable (pin_fields p)" for p
    by (simp add: pin_fields_def framable_def split: epoch_id.split input_release_ref.split program_release_ref.split
      application_release_ref.split source_authority_ref.split source_generation.split
      provider_release_ref.split provider_set_ref.split table_version_set_ref.split
      overlay_segment_set_ref.split policy_set_ref.split resource_envelope_ref.split proof_receipt_ref.split)
  moreover have "framable (transaction_blob t)" "framable (workspace_blob w)" for t w
    by (cases t, simp add: framable_def) (simp add: framable_def)
  ultimately show ?thesis
    by (simp add: row_fields_def framable_def DURABLE_ROW_DIGEST_DOMAIN_def ascii_def
        split: compatibility_class_ref.split retention_policy_ref.split operation_selection_ref.split)
qed

text \<open>
  The row digest identifies the row: it is the hash of a byte string that determines the row,
  every field included, so two different rows have the same digest only if the hash function
  collides on two different byte strings.
\<close>

theorem row_digest_identifies_row:
  "(frames (DURABLE_ROW_DIGEST_DOMAIN # row_fields r) = frames (DURABLE_ROW_DIGEST_DOMAIN # row_fields r')
      \<longleftrightarrow> r = r') \<and>
   row_canonical_digest h r = h (frames (DURABLE_ROW_DIGEST_DOMAIN # row_fields r))"
  using frames_inject [OF row_fields_framable row_fields_framable, of r r']
  by (simp add: row_fields_inject row_canonical_digest_def canonical_digest_def)


section \<open>Examples\<close>

definition example_epoch_pins :: "b16 \<Rightarrow> fabric_epoch_pins" where
  "example_epoch_pins e = \<lparr>epoch = EpochId e, ep_input_release = InputReleaseRef 1,
     ep_program_release = ProgramReleaseRef 2, ep_application_release = ApplicationReleaseRef 3,
     ep_source_authority = SourceAuthorityRef 4, ep_source_generation = SourceGeneration 0,
     ep_provider_release = ProviderReleaseRef 5, ep_provider_set = ProviderSetRef 6,
     ep_table_versions = TableVersionSetRef 7, ep_overlay_segments = OverlaySegmentSetRef 8,
     ep_policy_set = PolicySetRef 9, ep_resource_envelope = ResourceEnvelopeRef 8,
     ep_proof_receipt = ProofReceiptRef 10\<rparr>"

definition example_activation_commit :: "b32 \<Rightarrow> activation_commit" where
  "example_activation_commit n = \<lparr>ac_operation_selection = OperationSelectionRef n, ac_transaction = TransactionRef n,
     ac_backend_commit = BackendCommitRef n, ac_readback = ActivationReadbackRef n\<rparr>"

definition example_event :: "b32 \<Rightarrow> b16 \<Rightarrow> b32 option \<Rightarrow> expected_head \<Rightarrow> u64 \<Rightarrow> b16 \<Rightarrow> activation_event" where
  "example_event n opn prior head ord e = \<lparr>event_id = ActivationEventId n, workspace = WorkspaceId 3,
     operation = OperationId opn, predecessor_event = map_option ActivationEventId prior,
     predecessor_epoch = head, ordinal = ActivationOrdinal (nz ord), execution_fence = example_fence 1,
     event_pins = example_epoch_pins e, compatibility = CompatibilityClassRef 1,
     retention = RetentionPolicyRef 1, event_commit = example_activation_commit n\<rparr>"

abbreviation example_root :: activation_event where
  "example_root \<equiv> example_event 20 20 None Empty 1 4"

abbreviation example_second :: activation_event where
  "example_second \<equiv> example_event 21 21 (Some 20) (Epoch (EpochId 4)) 2 5"

lemmas example_event_defs = example_event_def example_epoch_pins_def example_activation_commit_def

lemma example_histories:
  "lawful_history (WorkspaceId 3) [example_root]"
  "lawful_history (WorkspaceId 3) [example_root, example_second]"
  by (simp_all add: lawful_history_def unique_identities_def example_event_defs example_fence_def)

theorem derive_is_append_only_witness:
  "\<exists>ch ch'. derive True (WorkspaceId 3) [example_root] = Some (Inr ch) \<and>
     derive True (WorkspaceId 3) [example_second, example_root] = Some (Inr ch') \<and>
     ordered_events ch' = ordered_events ch @ [example_second] \<and> current_head ch' = Epoch (EpochId 5)"
proof -
  have one: "derive True (WorkspaceId 3) [example_root]
      = Some (Inr \<lparr>chain_workspace = WorkspaceId 3, ordered_events = [example_root]\<rparr>)"
    by (rule derive_SomeI) (simp_all add: example_histories)
  have two: "derive True (WorkspaceId 3) [example_second, example_root]
      = Some (Inr \<lparr>chain_workspace = WorkspaceId 3, ordered_events = [example_root, example_second]\<rparr>)"
    by (rule derive_SomeI) (simp_all add: example_histories)
  from derive_is_append_only [OF one two] one two show ?thesis
    by (auto simp: example_event_defs)
qed

definition overflowing_rows :: "activation_event list" where
  "overflowing_rows = [example_event 1 1 (Some 2) (Epoch (EpochId 7)) 5 6,
     example_event 2 2 (Some 3) (Epoch (EpochId 4)) (- 1) 7, example_event 3 3 None Empty 1 4]"

lemma overflowing_derivation: "derive True (WorkspaceId 3) overflowing_rows = Some (Inl Panic)"
  by (simp add: derive_def overflowing_rows_def prepare_walk_def roots_of_def ordinal_successor_def
      example_event_defs less_activation_event_id_def)

text \<open>
  The ordinal check of the derivation can overflow: on a history with a row at the largest
  ordinal that is named as a predecessor, a build with overflow checks panics, and a build without
  them reports an ordinal gap with expected ordinal zero.
\<close>

theorem derive_can_overflow:
  "derive True (WorkspaceId 3) overflowing_rows = Some (Inl Panic) \<and>
   derive False (WorkspaceId 3) overflowing_rows = Some (Inl (Err (OrdinalGap (ActivationEventId 1) 0 5)))"
  using overflowing_derivation
  by (simp add: derive_def overflowing_rows_def prepare_walk_def roots_of_def ordinal_successor_def
      example_event_defs less_activation_event_id_def)

theorem derive_always_returns_witness:
  "\<exists>res. derive True (WorkspaceId 3) overflowing_rows = Some res \<and> panics res \<and>
     (\<exists>e \<in> set overflowing_rows. ordinal_get (ordinal e) = - 1)"
  using derive_always_returns [of True "WorkspaceId 3" overflowing_rows] overflowing_derivation
  by auto

definition example_attempt :: validated_command_attempt where
  "example_attempt = \<lparr>va_command = example_command\<lparr>cmd_expected_head := Epoch (EpochId 4)\<rparr>, va_attempt = 1,
     va_execution_owner = example_owner 1, va_prepared_transaction = None\<rparr>"


definition example_evidence :: activation_delta_commit_evidence where
  "example_evidence = \<lparr>ev_control_predecessor = control_relation_pin_new example_hash (example_pin ''file:///c'' 6)
       \<lparr>session_id = ascii ''s'', physical_binding_id = ascii ''p'', binding_source_schema_identity = ascii ''i'',
        qualifier = ascii ''q'', logical_schema_digest = 1, storage_schema_digest = 2, binding_fingerprint = 3\<rparr>,
     ev_committed = example_pin ''file:///c'' 7, ev_marker_observed_in = example_pin ''file:///c'' 7,
     ev_operation_id = OperationId 20, ev_transaction = TransactionRef 20, ev_execution_fence = example_fence 1,
     ev_read_version = ExactReadVersion 6, ev_num_retries = 0, ev_backend_commit = BackendCommitRef 20\<rparr>"

theorem reconstruction_is_exact_witness:
  "\<exists>ch. try_from_durable_rows True example_hash (WorkspaceId 3)
       [(durable_row example_root, example_pin ''file:///c'' 7, example_evidence)] = Some (Inr ch) \<and>
     map durable_row (ordered_events ch) = [durable_row example_root]"
proof -
  obtain e where e: "reconstruct_events example_hash
      [(durable_row example_root, example_pin ''file:///c'' 7, example_evidence)] = Inr [e]"
    "lawful_history (WorkspaceId 3) [e]"
    by (simp add: event_try_from_durable_row_def example_evidence_def durable_row_def from_durable_parts_def
        lawful_history_def unique_identities_def example_event_defs)
  then have run: "try_from_durable_rows True example_hash (WorkspaceId 3)
      [(durable_row example_root, example_pin ''file:///c'' 7, example_evidence)]
      = Some (Inr \<lparr>chain_workspace = WorkspaceId 3, ordered_events = [e]\<rparr>)"
    by (simp add: try_from_durable_rows_def derive_SomeI [of "[e]" "[e]"])
  from reconstruction_is_exact [OF run] run show ?thesis
    by simp
qed

end
