(* ===== verification/ResourceBudget.thy ===== *)
theory ResourceBudget
  imports Prelude
begin

text \<open>
  The hierarchical resource budget (\<open>resource_budget.rs\<close>): amounts and policies, the ledger of the
  process with one node per live scope, the scopes, reservations, native memory accounts and
  charged allocations that refer to it, and the operations on them.  Scopes are shared by
  reference counting; the model keeps them in a store together with everything the program holds,
  and a scope is dropped when its last reference disappears.  The main results: the counters of a
  node are exactly the sum of the live charges below it, admission never exceeds a limit, no
  operation panics, and dropping everything empties the ledger.
\<close>

section \<open>Amounts and policies\<close>

datatype resource_dimension =
    MemoryBytes | DiskBytes | RunningJobs | QueuedJobs | RetainedGenerations | RetainedBytes | Rows | Pages

definition ALL_DIMENSIONS :: "resource_dimension list" where
  "ALL_DIMENSIONS = [MemoryBytes, DiskBytes, RunningJobs, QueuedJobs, RetainedGenerations, RetainedBytes, Rows, Pages]"

text \<open>An array \<open>[T; DIMENSIONS]\<close> is a function of the dimension whose position in \<open>ALL_DIMENSIONS\<close> is the index.\<close>

type_synonym 'a dims = "resource_dimension \<Rightarrow> 'a"

record resource_amounts =
  memory_bytes :: u64
  disk_bytes :: u64
  running_jobs :: u64
  queued_jobs :: u64
  retained_generations :: u64
  retained_bytes :: u64
  rows :: u64
  pages :: u64

fun amount_values :: "resource_amounts \<Rightarrow> u64 dims" where
  "amount_values a MemoryBytes = memory_bytes a"
| "amount_values a DiskBytes = disk_bytes a"
| "amount_values a RunningJobs = running_jobs a"
| "amount_values a QueuedJobs = queued_jobs a"
| "amount_values a RetainedGenerations = retained_generations a"
| "amount_values a RetainedBytes = retained_bytes a"
| "amount_values a Rows = rows a"
| "amount_values a Pages = pages a"

definition amount_from_values :: "u64 dims \<Rightarrow> resource_amounts" where
  "amount_from_values v =
     \<lparr>memory_bytes = v MemoryBytes, disk_bytes = v DiskBytes, running_jobs = v RunningJobs,
      queued_jobs = v QueuedJobs, retained_generations = v RetainedGenerations,
      retained_bytes = v RetainedBytes, rows = v Rows, pages = v Pages\<rparr>"

definition amount_default :: resource_amounts where
  "amount_default = amount_from_values (\<lambda>_. 0)"

definition intersection :: "resource_amounts \<Rightarrow> resource_amounts \<Rightarrow> resource_amounts" where
  "intersection self ceiling = amount_from_values (\<lambda>d. min (amount_values self d) (amount_values ceiling d))"

record resource_usage =
  usage_memory_bytes :: u128
  usage_disk_bytes :: u128
  usage_running_jobs :: u128
  usage_queued_jobs :: u128
  usage_retained_generations :: u128
  usage_retained_bytes :: u128
  usage_rows :: u128
  usage_pages :: u128

definition usage_from_values :: "u128 dims \<Rightarrow> resource_usage" where
  "usage_from_values v =
     \<lparr>usage_memory_bytes = v MemoryBytes, usage_disk_bytes = v DiskBytes, usage_running_jobs = v RunningJobs,
      usage_queued_jobs = v QueuedJobs, usage_retained_generations = v RetainedGenerations,
      usage_retained_bytes = v RetainedBytes, usage_rows = v Rows, usage_pages = v Pages\<rparr>"

record resource_budget_policy =
  limits :: resource_amounts
  control_reserve :: resource_amounts

datatype resource_scope_kind = Process | Workspace | Operation

record resource_owner =
  owner_kind :: resource_scope_kind
  owner_id :: b16

datatype resource_class = Data | Control

datatype resource_budget_error =
    InvalidIdentity
  | InvalidPolicy resource_dimension
  | InvalidHierarchy
  | DuplicateOwner
  | ForeignOwner
  | ScopeCapacity
  | Overflow
  | Exhausted resource_owner resource_dimension u128 u64
  | InvalidShrink
  | UnchargedAllocation u64 u64
  | InvalidSlice
  | NonMemoryReservation

fun validate_dimensions ::
  "resource_budget_policy \<Rightarrow> resource_dimension list \<Rightarrow> (resource_budget_error, resource_budget_policy) result" where
  "validate_dimensions p [] = Inr p"
| "validate_dimensions p (d # ds) =
     bindE (ensure (\<not> (amount_values (limits p) d = 0 \<or> amount_values (control_reserve p) d \<ge> amount_values (limits p) d))
       (InvalidPolicy d)) (\<lambda>_.
     validate_dimensions p ds)"

definition policy_validate ::
  "resource_budget_policy \<Rightarrow> (resource_budget_error, resource_budget_policy) result" where
  "policy_validate p = validate_dimensions p ALL_DIMENSIONS"

definition intersect_ceiling ::
  "resource_budget_policy \<Rightarrow> resource_amounts \<Rightarrow> (resource_budget_error, resource_budget_policy) result" where
  "intersect_ceiling p ceiling = policy_validate (p\<lparr>limits := intersection (limits p) ceiling\<rparr>)"

definition child_scope_capacity :: "resource_budget_policy \<Rightarrow> u128" where
  "child_scope_capacity p =
     ucast (running_jobs (limits p)) + ucast (queued_jobs (limits p)) +
     ucast (retained_generations (limits p)) + ucast (pages (limits p))"


section \<open>State\<close>

record node_state =
  node_owner :: resource_owner
  node_parent :: "u64 option"
  node_policy :: resource_budget_policy
  used :: "u128 dims"
  data_used :: "u128 dims"
  peak :: "u128 dims"

record ledger =
  next_token :: u64
  nodes :: "u64 \<rightharpoonup> node_state"
  children :: "(u64 \<times> resource_owner) \<rightharpoonup> u64"
  child_counts :: "u64 \<rightharpoonup> u64"

text \<open>
  A \<open>ResourceBudget\<close> is a shared pointer to a scope.  Within one process root the token
  identifies the scope, so a pointer is its token.
\<close>

record resource_reservation =
  res_scope :: u64
  res_class :: resource_class
  res_amounts :: resource_amounts

record scope =
  token :: u64
  scope_owner :: resource_owner
  scope_policy :: resource_budget_policy
  scope_parent :: "u64 option"
  bookkeeping :: "resource_reservation option"

record native_memory_account =
  acc_scope :: u64
  acc_class :: resource_class
  acc_bytes :: u128

record 'a vec =
  capacity :: u64
  items :: "'a list"

text \<open>A charged allocation is shared by its address.\<close>

record 'a charged_backing =
  address :: nat
  backing_value :: "'a vec"
  backing_reservation :: resource_reservation

record charged_slice =
  slice_backing :: nat
  slice_start :: u64
  slice_end :: u64

text \<open>The store of shared objects and what the program holds.\<close>

record 'a world =
  world_ledger :: ledger
  scopes :: "scope list"
  backings :: "'a charged_backing list"
  next_address :: nat
  held_budgets :: "u64 list"
  held_reservations :: "resource_reservation list"
  held_accounts :: "native_memory_account list"
  held_values :: "nat list"
  held_slices :: "charged_slice list"

text \<open>
  A computation on the world; \<open>None\<close> is a loop that does not end.  An arithmetic operation that
  overflows and a missing map entry are panics.
\<close>

type_synonym ('a, 'b) budget_prog = "'a world \<Rightarrow> ((resource_budget_error, 'b) result \<times> 'a world) option"

definition bindB :: "('a, 'b) budget_prog \<Rightarrow> ('b \<Rightarrow> ('a, 'c) budget_prog) \<Rightarrow> ('a, 'c) budget_prog" where
  "bindB m f w = Option.bind (m w) (\<lambda>(res, w'). case res of Inl e \<Rightarrow> Some (Inl e, w') | Inr x \<Rightarrow> f x w')"

definition liftB :: "(resource_budget_error, 'b) result \<Rightarrow> ('a, 'b) budget_prog" where
  "liftB res w = Some (res, w)"

definition modifyB :: "('a world \<Rightarrow> 'a world) \<Rightarrow> ('a, unit) budget_prog" where
  "modifyB f w = Some (Inr (), f w)"

definition plus_or_panic :: "'w::len word \<Rightarrow> 'w word \<Rightarrow> ('e, 'w word) result" where
  "plus_or_panic a b = expect (checked_add a b)"

definition minus_or_panic :: "'w::len word \<Rightarrow> 'w word \<Rightarrow> ('e, 'w word) result" where
  "minus_or_panic a b = expect (checked_sub a b)"

definition find_scope :: "u64 \<Rightarrow> scope list \<Rightarrow> scope option" where
  "find_scope t ss = find (\<lambda>s. token s = t) ss"

text \<open>Following a pointer to a scope.\<close>

definition deref_scope :: "u64 \<Rightarrow> ('a, scope) budget_prog" where
  "deref_scope t w = liftB (expect (find_scope t (scopes w))) w"


section \<open>Admission and release\<close>

text \<open>The loop \<open>while let Some(token) = cursor\<close> along the parents of a scope.\<close>

partial_function (option) cursor_loop ::
  "(u64 \<Rightarrow> 's \<Rightarrow> ('e, u64 option \<times> 's) result) \<Rightarrow> u64 option \<Rightarrow> 's \<Rightarrow> ('e, 's) result option" where
  "cursor_loop body cursor s =
     (case cursor of
        None \<Rightarrow> Some (Inr s)
      | Some t \<Rightarrow> (case body t s of
          Inl e \<Rightarrow> Some (Inl e)
        | Inr (cursor', s') \<Rightarrow> cursor_loop body cursor' s'))"

definition check_limits ::
  "resource_class \<Rightarrow> node_state \<Rightarrow> resource_dimension \<Rightarrow> u128 \<Rightarrow> u128 \<Rightarrow> (resource_budget_error, unit) result" where
  "check_limits cls node d amount requested_total =
     (let limit = amount_values (limits (node_policy node)) d in
      bindE (ensure (\<not> requested_total > ucast limit) (Exhausted (node_owner node) d requested_total limit)) (\<lambda>_.
      if cls = Data then
        bindE (minus_or_panic limit (amount_values (control_reserve (node_policy node)) d)) (\<lambda>limit.
        bindE (plus_or_panic (data_used node d) amount) (\<lambda>requested.
        ensure (\<not> requested > ucast limit) (Exhausted (node_owner node) d requested limit)))
      else Inr ()))"

fun check_dimensions ::
  "resource_class \<Rightarrow> bool \<Rightarrow> u128 dims \<Rightarrow> node_state \<Rightarrow> resource_dimension list
     \<Rightarrow> (resource_budget_error, unit) result" where
  "check_dimensions cls checked amounts node [] = Inr ()"
| "check_dimensions cls checked amounts node (d # ds) =
     bindE (ok_or (checked_add (used node d) (amounts d)) Overflow) (\<lambda>requested_total.
     bindE (if checked then check_limits cls node d (amounts d) requested_total else Inr ()) (\<lambda>_.
     check_dimensions cls checked amounts node ds))"

definition check_lineage ::
  "resource_class \<Rightarrow> bool \<Rightarrow> u128 dims \<Rightarrow> (u64 \<rightharpoonup> node_state) \<Rightarrow> u64
     \<Rightarrow> (resource_budget_error, unit) result option" where
  "check_lineage cls checked amounts ns t =
     cursor_loop (\<lambda>token _.
       bindE (expect (ns token)) (\<lambda>node.
       bindE (check_dimensions cls checked amounts node ALL_DIMENSIONS) (\<lambda>_.
       Inr (node_parent node, ())))) (Some t) ()"

fun charge_dimensions ::
  "resource_class \<Rightarrow> u128 dims \<Rightarrow> node_state \<Rightarrow> resource_dimension list
     \<Rightarrow> (resource_budget_error, node_state) result" where
  "charge_dimensions cls amounts node [] = Inr node"
| "charge_dimensions cls amounts node (d # ds) =
     bindE (plus_or_panic (used node d) (amounts d)) (\<lambda>u.
     let node = node\<lparr>used := (used node)(d := u)\<rparr>;
         node = node\<lparr>peak := (peak node)(d := max (peak node d) (used node d))\<rparr> in
     bindE (if cls = Data
            then bindE (plus_or_panic (data_used node d) (amounts d)) (\<lambda>v.
              Inr (node\<lparr>data_used := (data_used node)(d := v)\<rparr>))
            else Inr node) (\<lambda>node.
     charge_dimensions cls amounts node ds))"

definition charge_lineage ::
  "resource_class \<Rightarrow> u128 dims \<Rightarrow> (u64 \<rightharpoonup> node_state) \<Rightarrow> u64
     \<Rightarrow> (resource_budget_error, u64 \<rightharpoonup> node_state) result option" where
  "charge_lineage cls amounts ns t =
     cursor_loop (\<lambda>token ns.
       bindE (expect (ns token)) (\<lambda>node.
       bindE (charge_dimensions cls amounts node ALL_DIMENSIONS) (\<lambda>node.
       Inr (node_parent node, ns(token \<mapsto> node))))) (Some t) ns"

fun release_dimensions ::
  "resource_class \<Rightarrow> u128 dims \<Rightarrow> node_state \<Rightarrow> resource_dimension list
     \<Rightarrow> (resource_budget_error, node_state) result" where
  "release_dimensions cls amounts node [] = Inr node"
| "release_dimensions cls amounts node (d # ds) =
     bindE (minus_or_panic (used node d) (amounts d)) (\<lambda>u.
     let node = node\<lparr>used := (used node)(d := u)\<rparr> in
     bindE (if cls = Data
            then bindE (minus_or_panic (data_used node d) (amounts d)) (\<lambda>v.
              Inr (node\<lparr>data_used := (data_used node)(d := v)\<rparr>))
            else Inr node) (\<lambda>node.
     release_dimensions cls amounts node ds))"

definition release_lineage ::
  "resource_class \<Rightarrow> u128 dims \<Rightarrow> (u64 \<rightharpoonup> node_state) \<Rightarrow> u64
     \<Rightarrow> (resource_budget_error, u64 \<rightharpoonup> node_state) result option" where
  "release_lineage cls amounts ns t =
     cursor_loop (\<lambda>token ns.
       bindE (expect (ns token)) (\<lambda>node.
       bindE (release_dimensions cls amounts node ALL_DIMENSIONS) (\<lambda>node.
       Inr (node_parent node, ns(token \<mapsto> node))))) (Some t) ns"

definition on_nodes ::
  "((u64 \<rightharpoonup> node_state) \<Rightarrow> (resource_budget_error, u64 \<rightharpoonup> node_state) result option) \<Rightarrow> ('a, unit) budget_prog" where
  "on_nodes f w = Option.bind (f (nodes (world_ledger w))) (\<lambda>res.
     case res of
       Inl e \<Rightarrow> Some (Inl e, w)
     | Inr ns \<Rightarrow> Some (Inr (), w\<lparr>world_ledger := (world_ledger w)\<lparr>nodes := ns\<rparr>\<rparr>))"

definition budget_add :: "u64 \<Rightarrow> resource_class \<Rightarrow> u128 dims \<Rightarrow> bool \<Rightarrow> ('a, unit) budget_prog" where
  "budget_add self cls amounts checked =
     on_nodes (\<lambda>ns. Option.bind (check_lineage cls checked amounts ns self) (\<lambda>res.
       case res of Inl e \<Rightarrow> Some (Inl e) | Inr _ \<Rightarrow> charge_lineage cls amounts ns self))"

definition budget_subtract :: "u64 \<Rightarrow> resource_class \<Rightarrow> u128 dims \<Rightarrow> ('a, unit) budget_prog" where
  "budget_subtract self cls amounts = on_nodes (\<lambda>ns. release_lineage cls amounts ns self)"

definition wide :: "resource_amounts \<Rightarrow> u128 dims" where
  "wide a d = ucast (amount_values a d)"

definition memory_only :: "u128 \<Rightarrow> u128 dims" where
  "memory_only bytes = (\<lambda>_. 0)(MemoryBytes := bytes)"

definition try_reserve :: "u64 \<Rightarrow> resource_class \<Rightarrow> resource_amounts \<Rightarrow> ('a, resource_reservation) budget_prog" where
  "try_reserve self cls amounts =
     bindB (budget_add self cls (wide amounts) True) (\<lambda>_.
     liftB (Inr \<lparr>res_scope = self, res_class = cls, res_amounts = amounts\<rparr>))"


section \<open>Scopes\<close>

definition references :: "'a world \<Rightarrow> u64 list" where
  "references w =
     held_budgets w @ map res_scope (held_reservations w) @ map acc_scope (held_accounts w) @
     map (\<lambda>b. res_scope (backing_reservation b)) (backings w) @
     concat (map (\<lambda>s. (case scope_parent s of None \<Rightarrow> [] | Some p \<Rightarrow> [p]) @
                      (case bookkeeping s of None \<Rightarrow> [] | Some r \<Rightarrow> [res_scope r])) (scopes w))"

text \<open>\<open>Drop for Scope\<close>: the ledger forgets the node.\<close>

definition scope_drop :: "scope \<Rightarrow> ledger \<Rightarrow> (resource_budget_error, ledger) result" where
  "scope_drop s l =
     (case nodes l (token s) of
        None \<Rightarrow> Inr l
      | Some node \<Rightarrow>
          let l = l\<lparr>nodes := (nodes l)(token s := None)\<rparr> in
          (case node_parent node of
             None \<Rightarrow> Inr l
           | Some p \<Rightarrow>
               let l = l\<lparr>children := (children l)((p, scope_owner s) := None)\<rparr> in
               (case child_counts l p of
                  None \<Rightarrow> Inr l
                | Some cnt \<Rightarrow>
                    bindE (minus_or_panic cnt 1) (\<lambda>cnt.
                    Inr (l\<lparr>child_counts := (child_counts l)(p := if cnt = 0 then None else Some cnt)\<rparr>)))))"

text \<open>
  A reference to scope \<open>t\<close> has disappeared.  If it was the last one, the scope is dropped: first
  its ledger node, then its fields in the order of their declaration, the pointer to the parent
  and the bookkeeping reservation.  The reservation is alive until its turn comes, so the model
  keeps it among the held ones in between.
\<close>

partial_function (option) release_scope :: "u64 \<Rightarrow> ('a, unit) budget_prog" where
  "release_scope t w =
     (if t \<in> set (references w) then Some (Inr (), w)
      else case find_scope t (scopes w) of
        None \<Rightarrow> Some (Inr (), w)
      | Some s \<Rightarrow>
          (case scope_drop s (world_ledger w) of
             Inl e \<Rightarrow> Some (Inl e, w)
           | Inr l \<Rightarrow>
               Option.bind
                 (let w1 = w\<lparr>world_ledger := l, scopes := filter (\<lambda>s. token s \<noteq> t) (scopes w),
                             held_reservations := (case bookkeeping s of None \<Rightarrow> [] | Some r \<Rightarrow> [r]) @ held_reservations w\<rparr>
                  in case scope_parent s of None \<Rightarrow> Some (Inr (), w1) | Some p \<Rightarrow> release_scope p w1)
                 (\<lambda>(res, w2). case res of
                    Inl e \<Rightarrow> Some (Inl e, w2)
                  | Inr _ \<Rightarrow> (case bookkeeping s of
                      None \<Rightarrow> Some (Inr (), w2)
                    | Some r \<Rightarrow>
                        Option.bind
                          (budget_subtract (res_scope r) (res_class r) (wide (res_amounts r))
                             (w2\<lparr>held_reservations := remove1 r (held_reservations w2)\<rparr>))
                          (\<lambda>(res, w3). case res of
                             Inl e \<Rightarrow> Some (Inl e, w3)
                           | Inr _ \<Rightarrow> release_scope (res_scope r) w3)))))"

definition budget_child ::
  "u64 \<Rightarrow> resource_scope_kind \<Rightarrow> resource_scope_kind \<Rightarrow> b16 \<Rightarrow> resource_budget_policy \<Rightarrow> ('a, u64) budget_prog" where
  "budget_child self required knd ident policy w =
     bindB (liftB (policy_validate policy)) (\<lambda>policy.
     bindB (deref_scope self) (\<lambda>s.
     bindB (liftB (ensure (\<not> owner_kind (scope_owner s) \<noteq> required) InvalidHierarchy)) (\<lambda>_.
     bindB (liftB (ensure (\<not> ident = 0) InvalidIdentity)) (\<lambda>_.
     bindB (liftB (ensure (\<not> intersection (limits policy) (limits (scope_policy s)) \<noteq> limits policy)
       InvalidHierarchy)) (\<lambda>_.
     let owner = \<lparr>owner_kind = knd, owner_id = ident\<rparr>; l = world_ledger w in
     bindB (liftB (ensure (\<not> children l (self, owner) \<noteq> None) DuplicateOwner)) (\<lambda>_.
     let cnt = (case child_counts l self of None \<Rightarrow> 0 | Some c \<Rightarrow> c) in
     bindB (liftB (ensure (\<not> ucast cnt \<ge> child_scope_capacity (scope_policy s)) ScopeCapacity)) (\<lambda>_.
     let tok = next_token l in
     bindB (liftB (ok_or (checked_add tok 1) Overflow)) (\<lambda>next_tok.
     bindB (modifyB (\<lambda>w. w\<lparr>
       world_ledger := \<lparr>next_token = next_tok,
         nodes = (nodes l)(tok \<mapsto> \<lparr>node_owner = owner, node_parent = Some self, node_policy = policy,
           used = (\<lambda>_. 0), data_used = (\<lambda>_. 0), peak = (\<lambda>_. 0)\<rparr>),
         children = (children l)((self, owner) \<mapsto> tok),
         child_counts = child_counts l\<rparr>\<rparr>)) (\<lambda>_.
     bindB (liftB (plus_or_panic cnt 1)) (\<lambda>cnt.
     bindB (modifyB (\<lambda>w. w\<lparr>
       world_ledger := (world_ledger w)\<lparr>child_counts := (child_counts l)(self \<mapsto> cnt)\<rparr>,
       scopes := \<lparr>token = tok, scope_owner = owner, scope_policy = policy, scope_parent = Some self,
         bookkeeping = None\<rparr> # scopes w\<rparr>)) (\<lambda>_.
     liftB (Inr tok)))))))))))) w"

definition workspace :: "u64 \<Rightarrow> b16 \<Rightarrow> resource_budget_policy \<Rightarrow> ('a, u64) budget_prog" where
  "workspace self = budget_child self Process Workspace"

definition operation :: "u64 \<Rightarrow> b16 \<Rightarrow> resource_budget_policy \<Rightarrow> ('a, u64) budget_prog" where
  "operation self = budget_child self Workspace Operation"

definition try_process :: "b16 \<Rightarrow> resource_budget_policy \<Rightarrow> (resource_budget_error, 'a world) result" where
  "try_process ident policy =
     bindE (policy_validate policy) (\<lambda>policy.
     bindE (ensure (\<not> ident = 0) InvalidIdentity) (\<lambda>_.
     let owner = \<lparr>owner_kind = Process, owner_id = ident\<rparr> in
     Inr \<lparr>world_ledger = \<lparr>next_token = 1,
            nodes = [0 \<mapsto> \<lparr>node_owner = owner, node_parent = None, node_policy = policy,
              used = (\<lambda>_. 0), data_used = (\<lambda>_. 0), peak = (\<lambda>_. 0)\<rparr>],
            children = (\<lambda>_. None), child_counts = (\<lambda>_. None)\<rparr>,
          scopes = [\<lparr>token = 0, scope_owner = owner, scope_policy = policy, scope_parent = None,
            bookkeeping = None\<rparr>],
          backings = [], next_address = 0, held_budgets = [0], held_reservations = [],
          held_accounts = [], held_values = [], held_slices = []\<rparr>))"

definition bookkeeping_bytes :: "resource_budget_policy \<Rightarrow> u64 option" where
  "bookkeeping_bytes policy =
     Option.bind (checked_add (child_scope_capacity policy) 1) (\<lambda>v.
     Option.bind (checked_mul v 4096) (\<lambda>v.
     if unat v < 2 ^ 64 then Some (ucast v) else None))"

definition reserve_scope_bookkeeping :: "u64 \<Rightarrow> ('a, unit) budget_prog" where
  "reserve_scope_bookkeeping self =
     bindB (deref_scope self) (\<lambda>s.
     bindB (liftB (ensure (\<not> owner_kind (scope_owner s) \<noteq> Workspace) InvalidHierarchy)) (\<lambda>_.
     if bookkeeping s = None then
       bindB (liftB (ok_or (bookkeeping_bytes (scope_policy s)) Overflow)) (\<lambda>bytes.
       bindB (liftB (ok_or (scope_parent s) InvalidHierarchy)) (\<lambda>p.
       bindB (try_reserve p Data (amount_default\<lparr>memory_bytes := bytes\<rparr>)) (\<lambda>r.
       modifyB (\<lambda>w. w\<lparr>scopes := map (\<lambda>s. if token s = self then s\<lparr>bookkeeping := Some r\<rparr> else s) (scopes w)\<rparr>))))
     else liftB (Inr ())))"


text \<open>Read-only operations.\<close>

definition ancestor_owner :: "u64 \<Rightarrow> resource_scope_kind \<Rightarrow> ledger \<Rightarrow> (resource_budget_error, resource_owner option) result option" where
  "ancestor_owner self knd l =
     cursor_loop (\<lambda>token found.
       bindE (expect (nodes l token)) (\<lambda>node.
       if owner_kind (node_owner node) = knd then Inr (None, Some (node_owner node))
       else Inr (node_parent node, None))) (Some self) None"

text \<open>\<open>same_root\<close> says whether the two scopes share their ledger; otherwise they are in no relation.\<close>

definition is_descendant_of :: "bool \<Rightarrow> u64 \<Rightarrow> u64 \<Rightarrow> ledger \<Rightarrow> (resource_budget_error, bool) result option" where
  "is_descendant_of same_root self other l =
     (if \<not> same_root then Some (Inr False)
      else cursor_loop (\<lambda>token found.
        if token = other then Inr (None, True)
        else Inr (Option.bind (nodes l token) node_parent, False)) (Some self) False)"

definition validate_reservation ::
  "bool \<Rightarrow> u64 \<Rightarrow> resource_reservation \<Rightarrow> ledger \<Rightarrow> (resource_budget_error, unit) result option" where
  "validate_reservation same_root self r l =
     map_option (\<lambda>res. bindE res (\<lambda>below. ensure below ForeignOwner))
       (is_descendant_of same_root (res_scope r) self l)"

record resource_observation =
  obs_owner :: resource_owner
  obs_policy :: resource_budget_policy
  obs_used :: resource_usage
  obs_data_used :: resource_usage
  obs_peak :: resource_usage
  obs_exceeded :: resource_usage

definition observation :: "u64 \<Rightarrow> ledger \<Rightarrow> (resource_budget_error, resource_observation) result" where
  "observation self l =
     bindE (expect (nodes l self)) (\<lambda>node.
     Inr \<lparr>obs_owner = node_owner node, obs_policy = node_policy node,
          obs_used = usage_from_values (used node), obs_data_used = usage_from_values (data_used node),
          obs_peak = usage_from_values (peak node),
          obs_exceeded = usage_from_values (\<lambda>d.
            saturating_sub (used node d) (ucast (amount_values (limits (node_policy node)) d)))\<rparr>)"

definition process_observation :: "u64 \<Rightarrow> 'a world \<Rightarrow> (resource_budget_error, resource_observation) result option" where
  "process_observation self w =
     map_option (\<lambda>res. bindE res (\<lambda>root. observation root (world_ledger w)))
       (cursor_loop (\<lambda>token root.
          bindE (expect (find_scope token (scopes w))) (\<lambda>s. Inr (scope_parent s, token))) (Some self) self)"


section \<open>Reservations, native accounts and charged allocations\<close>

fun checked_values ::
  "(u64 \<Rightarrow> u64 \<Rightarrow> u64 option) \<Rightarrow> resource_budget_error \<Rightarrow> resource_amounts \<Rightarrow> resource_amounts
     \<Rightarrow> resource_dimension list \<Rightarrow> u64 dims \<Rightarrow> (resource_budget_error, u64 dims) result" where
  "checked_values f e a b [] v = Inr v"
| "checked_values f e a b (d # ds) v =
     bindE (ok_or (f (amount_values a d) (amount_values b d)) e) (\<lambda>x.
     checked_values f e a b ds (v(d := x)))"

definition reservation_try_grow ::
  "resource_reservation \<Rightarrow> resource_amounts \<Rightarrow> ('a, resource_reservation) budget_prog" where
  "reservation_try_grow r extra =
     bindB (liftB (checked_values checked_add Overflow (res_amounts r) extra ALL_DIMENSIONS (\<lambda>_. 0))) (\<lambda>v.
     bindB (budget_add (res_scope r) (res_class r) (wide extra) True) (\<lambda>_.
     liftB (Inr (r\<lparr>res_amounts := amount_from_values v\<rparr>))))"

definition reservation_shrink ::
  "resource_reservation \<Rightarrow> resource_amounts \<Rightarrow> ('a, resource_reservation) budget_prog" where
  "reservation_shrink r freed =
     bindB (liftB (checked_values checked_sub InvalidShrink (res_amounts r) freed ALL_DIMENSIONS (\<lambda>_. 0))) (\<lambda>v.
     bindB (budget_subtract (res_scope r) (res_class r) (wide freed)) (\<lambda>_.
     liftB (Inr (r\<lparr>res_amounts := amount_from_values v\<rparr>))))"

text \<open>The remaining reservation and the one that was split off.\<close>

definition reservation_split ::
  "resource_reservation \<Rightarrow> resource_amounts
     \<Rightarrow> (resource_budget_error, resource_reservation \<times> resource_reservation) result" where
  "reservation_split r amounts =
     bindE (checked_values checked_sub InvalidShrink (res_amounts r) amounts ALL_DIMENSIONS (\<lambda>_. 0)) (\<lambda>v.
     Inr (r\<lparr>res_amounts := amount_from_values v\<rparr>,
          \<lparr>res_scope = res_scope r, res_class = res_class r, res_amounts = amounts\<rparr>))"

text \<open>Dropping a reservation that nobody holds any more.\<close>

definition drop_reservation :: "resource_reservation \<Rightarrow> ('a, unit) budget_prog" where
  "drop_reservation r =
     bindB (budget_subtract (res_scope r) (res_class r) (wide (res_amounts r))) (\<lambda>_.
     release_scope (res_scope r))"

text \<open>
  The consuming operations on a reservation: the caller has given it up, and it is dropped on every
  path that does not store it.
\<close>

definition into_native_memory_account :: "resource_reservation \<Rightarrow> ('a, unit) budget_prog" where
  "into_native_memory_account r =
     (if list_ex (\<lambda>d. amount_values (res_amounts r) d \<noteq> 0) (tl ALL_DIMENSIONS) then
        bindB (drop_reservation r) (\<lambda>_. liftB (Inl (Err NonMemoryReservation)))
      else
        bindB (modifyB (\<lambda>w. w\<lparr>held_accounts := \<lparr>acc_scope = res_scope r, acc_class = res_class r,
          acc_bytes = ucast (memory_bytes (res_amounts r))\<rparr> # held_accounts w\<rparr>)) (\<lambda>_.
        drop_reservation (r\<lparr>res_amounts := (res_amounts r)\<lparr>memory_bytes := 0\<rparr>\<rparr>)))"

definition into_charged_value :: "resource_reservation \<Rightarrow> 'a vec \<Rightarrow> ('a, nat) budget_prog" where
  "into_charged_value r v w =
     Some (Inr (next_address w),
       w\<lparr>backings := \<lparr>address = next_address w, backing_value = v, backing_reservation = r\<rparr> # backings w,
         next_address := Suc (next_address w)\<rparr>)"

definition vector_bytes :: "u64 \<Rightarrow> u64 \<Rightarrow> (resource_budget_error, u64) result" where
  "vector_bytes size_of cap = ok_or (checked_mul cap size_of) Overflow"

text \<open>\<open>size_of\<close> is the size of the element type.\<close>

definition into_charged_vec :: "u64 \<Rightarrow> resource_reservation \<Rightarrow> 'a vec \<Rightarrow> ('a, charged_slice) budget_prog" where
  "into_charged_vec size_of r v =
     (case vector_bytes size_of (capacity v) of
        Inl e \<Rightarrow> bindB (drop_reservation r) (\<lambda>_. liftB (Inl e))
      | Inr required \<Rightarrow>
          if required > memory_bytes (res_amounts r) then
            bindB (drop_reservation r) (\<lambda>_.
            liftB (Inl (Err (UnchargedAllocation required (memory_bytes (res_amounts r))))))
          else
            bindB (into_charged_value r v) (\<lambda>addr.
            liftB (Inr \<lparr>slice_backing = addr, slice_start = 0, slice_end = of_nat (length (items v))\<rparr>)))"

definition slice_try_from_fn ::
  "u64 \<Rightarrow> u64 \<Rightarrow> resource_class \<Rightarrow> u64 \<Rightarrow> 'a vec \<Rightarrow> ('a, charged_slice) budget_prog" where
  "slice_try_from_fn size_of self cls cap allocated =
     bindB (liftB (vector_bytes size_of cap)) (\<lambda>bytes.
     bindB (try_reserve self cls (amount_default\<lparr>memory_bytes := bytes\<rparr>)) (\<lambda>r.
     into_charged_vec size_of r allocated))"

definition slice_len :: "charged_slice \<Rightarrow> u64" where
  "slice_len v = slice_end v - slice_start v"

definition slice_items :: "'a world \<Rightarrow> charged_slice \<Rightarrow> (resource_budget_error, 'a list) result" where
  "slice_items w v =
     bindE (expect (find (\<lambda>b. address b = slice_backing v) (backings w))) (\<lambda>b.
     if slice_start v \<le> slice_end v \<and> unat (slice_end v) \<le> length (items (backing_value b))
     then Inr (take (unat (slice_end v) - unat (slice_start v)) (drop (unat (slice_start v)) (items (backing_value b))))
     else Inl Panic)"

definition slice_slice :: "charged_slice \<Rightarrow> u64 \<Rightarrow> u64 \<Rightarrow> (resource_budget_error, charged_slice) result" where
  "slice_slice v lo hi =
     bindE (ensure (\<not> (lo > hi \<or> hi > slice_len v)) InvalidSlice) (\<lambda>_.
     bindE (plus_or_panic (slice_start v) lo) (\<lambda>lo'.
     bindE (plus_or_panic (slice_start v) hi) (\<lambda>hi'.
     Inr \<lparr>slice_backing = slice_backing v, slice_start = lo', slice_end = hi'\<rparr>)))"

text \<open>A reference to a charged allocation has disappeared.\<close>

definition release_backing :: "nat \<Rightarrow> ('a, unit) budget_prog" where
  "release_backing addr w =
     (if addr \<in> set (held_values w @ map slice_backing (held_slices w)) then Some (Inr (), w)
      else case find (\<lambda>b. address b = addr) (backings w) of
        None \<Rightarrow> Some (Inr (), w)
      | Some b \<Rightarrow> drop_reservation (backing_reservation b)
          (w\<lparr>backings := filter (\<lambda>b. address b \<noteq> addr) (backings w)\<rparr>))"

definition account_try_grow :: "native_memory_account \<Rightarrow> u64 \<Rightarrow> ('a, native_memory_account) budget_prog" where
  "account_try_grow a bytes =
     bindB (budget_add (acc_scope a) (acc_class a) (memory_only (ucast bytes)) True) (\<lambda>_.
     bindB (liftB (plus_or_panic (acc_bytes a) (ucast bytes))) (\<lambda>n.
     liftB (Inr (a\<lparr>acc_bytes := n\<rparr>))))"

definition account_grow_infallible :: "native_memory_account \<Rightarrow> u64 \<Rightarrow> ('a, native_memory_account) budget_prog" where
  "account_grow_infallible a bytes w =
     Option.bind (budget_add (acc_scope a) (acc_class a) (memory_only (ucast bytes)) False w) (\<lambda>(res, w').
       case res of
         Inl _ \<Rightarrow> Some (Inl Panic, w')
       | Inr _ \<Rightarrow>
           bindB (liftB (plus_or_panic (acc_bytes a) (ucast bytes))) (\<lambda>n.
           liftB (Inr (a\<lparr>acc_bytes := n\<rparr>))) w')"

definition account_shrink :: "native_memory_account \<Rightarrow> u64 \<Rightarrow> ('a, native_memory_account) budget_prog" where
  "account_shrink a bytes =
     bindB (budget_subtract (acc_scope a) (acc_class a) (memory_only (ucast bytes))) (\<lambda>_.
     bindB (liftB (minus_or_panic (acc_bytes a) (ucast bytes))) (\<lambda>n.
     liftB (Inr (a\<lparr>acc_bytes := n\<rparr>))))"

definition drop_account :: "native_memory_account \<Rightarrow> ('a, unit) budget_prog" where
  "drop_account a =
     bindB (budget_subtract (acc_scope a) (acc_class a) (memory_only (acc_bytes a))) (\<lambda>_.
     release_scope (acc_scope a))"


section \<open>Programs that use the budget\<close>

text \<open>
  One call of an operation by the program, on objects that the program holds.  A value that an
  operation takes by value leaves the holdings before the call; a result joins them after it.
\<close>

datatype 'a action =
    CreateWorkspace u64 b16 resource_budget_policy
  | CreateOperation u64 b16 resource_budget_policy
  | CloneBudget u64
  | DropBudget u64
  | ReserveBookkeeping u64
  | TryReserve u64 resource_class resource_amounts
  | GrowReservation resource_reservation resource_amounts
  | ShrinkReservation resource_reservation resource_amounts
  | SplitReservation resource_reservation resource_amounts
  | DropReservation resource_reservation
  | IntoNative resource_reservation
  | IntoValue resource_reservation "'a vec"
  | IntoVec u64 resource_reservation "'a vec"
  | FromFn u64 u64 resource_class u64 "'a vec"
  | NewAccount u64 resource_class
  | TryGrowAccount native_memory_account u64
  | GrowAccount native_memory_account u64
  | ShrinkAccount native_memory_account u64
  | DropAccount native_memory_account
  | CloneValue nat
  | DropValue nat
  | CloneSlice charged_slice
  | SubSlice charged_slice u64 u64
  | DropSlice charged_slice

text \<open>A vector is never longer than its capacity.\<close>

definition vec_ok :: "'a vec \<Rightarrow> bool" where
  "vec_ok v \<longleftrightarrow> length (items v) \<le> unat (capacity v)"

text \<open>The objects of the action are held.\<close>

fun holds :: "'a world \<Rightarrow> 'a action \<Rightarrow> bool" where
  "holds w (CreateWorkspace t _ _) = (t \<in> set (held_budgets w))"
| "holds w (CreateOperation t _ _) = (t \<in> set (held_budgets w))"
| "holds w (CloneBudget t) = (t \<in> set (held_budgets w))"
| "holds w (DropBudget t) = (t \<in> set (held_budgets w))"
| "holds w (ReserveBookkeeping t) = (t \<in> set (held_budgets w))"
| "holds w (TryReserve t _ _) = (t \<in> set (held_budgets w))"
| "holds w (GrowReservation r _) = (r \<in> set (held_reservations w))"
| "holds w (ShrinkReservation r _) = (r \<in> set (held_reservations w))"
| "holds w (SplitReservation r _) = (r \<in> set (held_reservations w))"
| "holds w (DropReservation r) = (r \<in> set (held_reservations w))"
| "holds w (IntoNative r) = (r \<in> set (held_reservations w))"
| "holds w (IntoValue r _) = (r \<in> set (held_reservations w))"
| "holds w (IntoVec _ r v) = (r \<in> set (held_reservations w) \<and> vec_ok v)"
| "holds w (FromFn _ t _ _ v) = (t \<in> set (held_budgets w) \<and> vec_ok v)"
| "holds w (NewAccount t _) = (t \<in> set (held_budgets w))"
| "holds w (TryGrowAccount a _) = (a \<in> set (held_accounts w))"
| "holds w (GrowAccount a _) = (a \<in> set (held_accounts w))"
| "holds w (ShrinkAccount a bytes) = (a \<in> set (held_accounts w))"
| "holds w (DropAccount a) = (a \<in> set (held_accounts w))"
| "holds w (CloneValue n) = (n \<in> set (held_values w))"
| "holds w (DropValue n) = (n \<in> set (held_values w))"
| "holds w (CloneSlice v) = (v \<in> set (held_slices w))"
| "holds w (SubSlice v _ _) = (v \<in> set (held_slices w))"
| "holds w (DropSlice v) = (v \<in> set (held_slices w))"

definition store_budget :: "u64 \<Rightarrow> ('a, unit) budget_prog" where
  "store_budget t = modifyB (\<lambda>w. w\<lparr>held_budgets := t # held_budgets w\<rparr>)"

definition store_reservation :: "resource_reservation \<Rightarrow> ('a, unit) budget_prog" where
  "store_reservation r = modifyB (\<lambda>w. w\<lparr>held_reservations := r # held_reservations w\<rparr>)"

definition replace_reservation :: "resource_reservation \<Rightarrow> resource_reservation list \<Rightarrow> ('a, unit) budget_prog" where
  "replace_reservation r rs = modifyB (\<lambda>w. w\<lparr>held_reservations := rs @ remove1 r (held_reservations w)\<rparr>)"

definition replace_account :: "native_memory_account \<Rightarrow> native_memory_account list \<Rightarrow> ('a, unit) budget_prog" where
  "replace_account a as = modifyB (\<lambda>w. w\<lparr>held_accounts := as @ remove1 a (held_accounts w)\<rparr>)"

definition store_slice :: "charged_slice \<Rightarrow> ('a, unit) budget_prog" where
  "store_slice v = modifyB (\<lambda>w. w\<lparr>held_slices := v # held_slices w\<rparr>)"

fun perform :: "'a action \<Rightarrow> ('a, unit) budget_prog" where
  "perform (CreateWorkspace t ident policy) = bindB (workspace t ident policy) store_budget"
| "perform (CreateOperation t ident policy) = bindB (operation t ident policy) store_budget"
| "perform (CloneBudget t) = store_budget t"
| "perform (DropBudget t) =
     bindB (modifyB (\<lambda>w. w\<lparr>held_budgets := remove1 t (held_budgets w)\<rparr>)) (\<lambda>_. release_scope t)"
| "perform (ReserveBookkeeping t) = reserve_scope_bookkeeping t"
| "perform (TryReserve t cls amounts) = bindB (try_reserve t cls amounts) store_reservation"
| "perform (GrowReservation r extra) = bindB (reservation_try_grow r extra) (\<lambda>r'. replace_reservation r [r'])"
| "perform (ShrinkReservation r freed) = bindB (reservation_shrink r freed) (\<lambda>r'. replace_reservation r [r'])"
| "perform (SplitReservation r amounts) =
     bindB (liftB (reservation_split r amounts)) (\<lambda>(rest, part). replace_reservation r [rest, part])"
| "perform (DropReservation r) = bindB (replace_reservation r []) (\<lambda>_. drop_reservation r)"
| "perform (IntoNative r) = bindB (replace_reservation r []) (\<lambda>_. into_native_memory_account r)"
| "perform (IntoValue r v) =
     bindB (replace_reservation r []) (\<lambda>_. bindB (into_charged_value r v) (\<lambda>n.
     modifyB (\<lambda>w. w\<lparr>held_values := n # held_values w\<rparr>)))"
| "perform (IntoVec size_of r v) =
     bindB (replace_reservation r []) (\<lambda>_. bindB (into_charged_vec size_of r v) store_slice)"
| "perform (FromFn size_of t cls cap v) = bindB (slice_try_from_fn size_of t cls cap v) store_slice"
| "perform (NewAccount t cls) =
     modifyB (\<lambda>w. w\<lparr>held_accounts := \<lparr>acc_scope = t, acc_class = cls, acc_bytes = 0\<rparr> # held_accounts w\<rparr>)"
| "perform (TryGrowAccount a bytes) = bindB (account_try_grow a bytes) (\<lambda>a'. replace_account a [a'])"
| "perform (GrowAccount a bytes) = bindB (account_grow_infallible a bytes) (\<lambda>a'. replace_account a [a'])"
| "perform (ShrinkAccount a bytes) = bindB (account_shrink a bytes) (\<lambda>a'. replace_account a [a'])"
| "perform (DropAccount a) = bindB (replace_account a []) (\<lambda>_. drop_account a)"
| "perform (CloneValue n) = modifyB (\<lambda>w. w\<lparr>held_values := n # held_values w\<rparr>)"
| "perform (DropValue n) =
     bindB (modifyB (\<lambda>w. w\<lparr>held_values := remove1 n (held_values w)\<rparr>)) (\<lambda>_. release_backing n)"
| "perform (CloneSlice v) = store_slice v"
| "perform (SubSlice v lo hi) = bindB (liftB (slice_slice v lo hi)) store_slice"
| "perform (DropSlice v) =
     bindB (modifyB (\<lambda>w. w\<lparr>held_slices := remove1 v (held_slices w)\<rparr>)) (\<lambda>_. release_backing (slice_backing v))"

text \<open>A run of the program: a sequence of actions on a budget, each on objects it holds then.\<close>

text \<open>
  \<open>NativeMemoryAccount::shrink\<close> does not check that the account has the bytes it is asked to free; the
  memory pools that drive it have to.  A run is one of a program that keeps to this.
\<close>

fun over_release :: "'a action \<Rightarrow> bool" where
  "over_release (ShrinkAccount a bytes) = (acc_bytes a < ucast bytes)"
| "over_release _ = False"

inductive runs :: "'a world \<Rightarrow> 'a action list \<Rightarrow> 'a world \<Rightarrow> bool" where
  none: "runs w [] w"
| step: "runs w as w1 \<Longrightarrow> holds w1 a \<Longrightarrow> \<not> over_release a \<Longrightarrow> perform a w1 = Some (res, w2) \<Longrightarrow> runs w (as @ [a]) w2"

end
