(* ===== verification/BudgetAccounting.thy ===== *)
theory BudgetAccounting
  imports ResourceBudget "HOL-Library.Multiset"
begin

text \<open>
  The accounting of the resource budget: what the loops along the parents of a scope compute, the
  invariant that every node counts exactly the live charges below it, and that every operation
  keeps it.
\<close>

section \<open>The loops along the parents\<close>

lemma cursor_loop_None [simp]: "cursor_loop body None s = Some (Inr s)"
  by (simp add: cursor_loop.simps)

lemma cursor_loop_Some:
  "cursor_loop body (Some t) s =
     (case body t s of Inl e \<Rightarrow> Some (Inl e) | Inr (cursor, s') \<Rightarrow> cursor_loop body cursor s')"
  by (simp add: cursor_loop.simps [of _ "Some t"])

definition parent_of :: "(u64 \<rightharpoonup> node_state) \<Rightarrow> u64 \<Rightarrow> u64 option" where
  "parent_of ns t = Option.bind (ns t) node_parent"

definition tree :: "(u64 \<rightharpoonup> node_state) \<Rightarrow> bool" where
  "tree ns \<longleftrightarrow> (\<forall>t p. parent_of ns t = Some p \<longrightarrow> p < t \<and> ns p \<noteq> None)"

function lineage :: "(u64 \<Rightarrow> u64 option) \<Rightarrow> u64 \<Rightarrow> u64 list" where
  "lineage par t = t # (case par t of None \<Rightarrow> [] | Some p \<Rightarrow> if p < t then lineage par p else [])"
  by pat_completeness auto

termination
  by (relation "measure (\<lambda>(par, t). unat t)") (auto simp: word_less_nat_alt)

declare lineage.simps [simp del]

lemma lineage_self [simp]: "t \<in> set (lineage par t)"
  by (simp add: lineage.simps [of par t])

lemma lineage_None: "par t = None \<Longrightarrow> lineage par t = [t]"
  by (simp add: lineage.simps [of par t])

lemma lineage_Some: "par t = Some p \<Longrightarrow> p < t \<Longrightarrow> lineage par t = t # lineage par p"
  by (simp add: lineage.simps [of par t])

lemma lineage_stuck: "par t = Some p \<Longrightarrow> \<not> p < t \<Longrightarrow> lineage par t = [t]"
  by (simp add: lineage.simps [of par t])

lemma lineage_le: "x \<in> set (lineage par t) \<Longrightarrow> x \<le> t"
proof (induction t rule: less_induct)
  case (less t)
  show ?case
  proof (cases "par t")
    case None
    with less.prems show ?thesis by (simp add: lineage_None)
  next
    case (Some p)
    show ?thesis
    proof (cases "p < t")
      case True
      with Some less show ?thesis by (fastforce simp: lineage_Some)
    next
      case False
      with Some less.prems show ?thesis by (simp add: lineage_stuck)
    qed
  qed
qed

lemma parent_of_Some: "ns t = Some n \<Longrightarrow> parent_of ns t = node_parent n"
  by (simp add: parent_of_def)

lemma lineage_live:
  "tree ns \<Longrightarrow> ns t \<noteq> None \<Longrightarrow> x \<in> set (lineage (parent_of ns) t) \<Longrightarrow> ns x \<noteq> None"
proof (induction t rule: less_induct)
  case (less t)
  show ?case
  proof (cases "parent_of ns t")
    case None
    with less.prems show ?thesis by (simp add: lineage_None)
  next
    case (Some p)
    with less.prems(1) have "p < t" "ns p \<noteq> None" by (auto simp: tree_def)
    with Some less show ?thesis by (auto simp: lineage_Some)
  qed
qed

lemma lineage_cong:
  "(\<And>x. x \<in> set (lineage par t) \<Longrightarrow> par' x = par x) \<Longrightarrow> lineage par' t = lineage par t"
proof (induction par t rule: lineage.induct)
  case (1 par t)
  have "par' t = par t" using 1(2) by simp
  moreover have "lineage par' p = lineage par p" if "par t = Some p" "p < t" for p
    using that 1 by (simp add: lineage_Some)
  ultimately show ?case
    by (subst (1 2) lineage.simps) (simp split: option.splits)
qed

lemma dimension_cases: "set ALL_DIMENSIONS = UNIV" "distinct ALL_DIMENSIONS"
proof -
  show "set ALL_DIMENSIONS = UNIV"
  proof (intro set_eqI iffI)
    fix d show "d \<in> set ALL_DIMENSIONS" by (cases d) (simp_all add: ALL_DIMENSIONS_def)
  qed simp
qed (simp add: ALL_DIMENSIONS_def)


section \<open>Checking and changing the counters\<close>

abbreviation limit_of :: "node_state \<Rightarrow> resource_dimension \<Rightarrow> nat" where
  "limit_of n d \<equiv> unat (amount_values (limits (node_policy n)) d)"

abbreviation reserve_of :: "node_state \<Rightarrow> resource_dimension \<Rightarrow> nat" where
  "reserve_of n d \<equiv> unat (amount_values (control_reserve (node_policy n)) d)"

text \<open>The amounts fit below the limits of one node.\<close>

definition fits_dim :: "resource_class \<Rightarrow> bool \<Rightarrow> u128 dims \<Rightarrow> node_state \<Rightarrow> resource_dimension \<Rightarrow> bool" where
  "fits_dim cls checked a n d \<longleftrightarrow>
     unat (used n d) + unat (a d) < 2 ^ 128 \<and>
     (checked \<longrightarrow> unat (used n d) + unat (a d) \<le> limit_of n d \<and>
       (cls = Data \<longrightarrow> unat (data_used n d) + unat (a d) \<le> limit_of n d - reserve_of n d))"

definition fits :: "resource_class \<Rightarrow> bool \<Rightarrow> u128 dims \<Rightarrow> node_state \<Rightarrow> bool" where
  "fits cls checked a n \<longleftrightarrow> (\<forall>d. fits_dim cls checked a n d)"

definition policy_ok :: "resource_budget_policy \<Rightarrow> bool" where
  "policy_ok p \<longleftrightarrow> (\<forall>d. amount_values (control_reserve p) d < amount_values (limits p) d)"

definition node_ok :: "node_state \<Rightarrow> bool" where
  "node_ok n \<longleftrightarrow> policy_ok (node_policy n) \<and> (\<forall>d. unat (data_used n d) \<le> unat (used n d))"

lemma plus_or_panic_Inr: "unat a + unat b < 2 ^ LENGTH('w) \<Longrightarrow> plus_or_panic a (b :: 'w::len word) = Inr (a + b)"
  by (auto simp: plus_or_panic_def checked_add_def)

lemma minus_or_panic_Inr: "b \<le> a \<Longrightarrow> minus_or_panic a b = Inr (a - b)"
  by (auto simp: minus_or_panic_def checked_sub_def)


lemma check_limits_Inr:
  assumes "node_ok n" "unat (used n d) + unat (a d) < 2 ^ 128"
  shows "check_limits cls n d (a d) (used n d + a d) = Inr () \<longleftrightarrow> fits_dim cls True a n d"
    and "\<not> panics (check_limits cls n d (a d) (used n d + a d))"
proof -
  have sum: "unat (used n d + a d) = unat (used n d) + unat (a d)"
    using assms(2) by (simp add: unat_word_ariths)
  have data: "unat (data_used n d) + unat (a d) < 2 ^ LENGTH(128)"
    using assms by (simp add: node_ok_def) (meson add_le_mono1 order.strict_trans1)
  then have data_sum: "unat (data_used n d + a d) = unat (data_used n d) + unat (a d)"
    by (simp add: unat_word_ariths)
  have res: "amount_values (control_reserve (node_policy n)) d \<le> amount_values (limits (node_policy n)) d"
    using assms(1) by (simp add: node_ok_def policy_ok_def order.strict_implies_order)
  note facts = plus_or_panic_Inr [OF data] minus_or_panic_Inr [OF res]
  have diff: "unat (amount_values (limits (node_policy n)) d - amount_values (control_reserve (node_policy n)) d)
      = limit_of n d - reserve_of n d"
    using res by (simp add: unat_sub word_le_nat_alt)
  show "check_limits cls n d (a d) (used n d + a d) = Inr () \<longleftrightarrow> fits_dim cls True a n d"
    using assms(2) by (auto simp: check_limits_def fits_dim_def facts Let_def word_less_nat_alt sum data_sum diff)
  show "\<not> panics (check_limits cls n d (a d) (used n d + a d))"
    by (auto simp: check_limits_def facts Let_def)
qed

lemma check_dimensions_Inr:
  assumes "node_ok n"
  shows "check_dimensions cls checked a n ds = Inr () \<longleftrightarrow> (\<forall>d \<in> set ds. fits_dim cls checked a n d)"
    and "\<not> panics (check_dimensions cls checked a n ds)"
proof (induction ds)
  case (Cons d ds)
  {
    case 1
    show ?case
    proof (cases "unat (used n d) + unat (a d) < 2 ^ 128")
      case True
      with Cons.IH(1) check_limits_Inr(1) [OF assms, where d = d and a = a and cls = cls] show ?thesis
        by (cases checked) (simp_all add: checked_add_def, simp add: fits_dim_def)
    next
      case False
      then show ?thesis by (simp add: checked_add_def fits_dim_def)
    qed
  next
    case 2
    with Cons.IH(2) check_limits_Inr(2) [OF assms, where d = d and a = a and cls = cls] show ?case
      by (auto simp: checked_add_def)
  }
qed simp_all

lemma check_dimensions_all:
  "node_ok n \<Longrightarrow> check_dimensions cls checked a n ALL_DIMENSIONS = Inr () \<longleftrightarrow> fits cls checked a n"
  by (simp add: check_dimensions_Inr(1) fits_def dimension_cases(1))

lemma check_lineage_outcome:
  assumes "tree ns" "\<And>x n. ns x = Some n \<Longrightarrow> node_ok n" "ns t \<noteq> None"
  shows "\<exists>res. check_lineage cls checked a ns t = Some res \<and> \<not> panics res \<and>
    (res = Inr () \<longleftrightarrow> (\<forall>x \<in> set (lineage (parent_of ns) t). fits cls checked a (the (ns x))))"
  using assms(3) unfolding check_lineage_def
proof (induction t rule: less_induct)
  case (less t)
  obtain n where n: "ns t = Some n" using less.prems by blast
  note ok = assms(2) [OF n]
  show ?case
  proof (cases "check_dimensions cls checked a n ALL_DIMENSIONS")
    case (Inl e)
    then have "e \<noteq> Panic" "\<not> fits cls checked a n"
      using check_dimensions_Inr(2) [OF ok, of cls checked a ALL_DIMENSIONS]
        check_dimensions_all [OF ok, of cls checked a] by (auto simp: panics_def)
    with Inl n show ?thesis
      by (auto simp: cursor_loop_Some panics_def intro!: bexI [of _ t])
  next
    case (Inr u)
    then have fit: "fits cls checked a n"
      using check_dimensions_all [OF ok, of cls checked a] by simp
    show ?thesis
    proof (cases "node_parent n")
      case None
      with Inr n fit show ?thesis
        by (simp add: cursor_loop_Some parent_of_Some lineage_None)
    next
      case (Some p)
      then have p: "parent_of ns t = Some p" using n by (simp add: parent_of_Some)
      with assms(1) have "p < t" "ns p \<noteq> None" by (auto simp: tree_def)
      with less.IH [of p] p Some Inr n fit show ?thesis
        by (auto simp: cursor_loop_Some lineage_Some)
    qed
  qed
qed


definition charged :: "resource_class \<Rightarrow> u128 dims \<Rightarrow> node_state \<Rightarrow> node_state" where
  "charged cls a n = n\<lparr>used := \<lambda>d. used n d + a d,
     data_used := (if cls = Data then \<lambda>d. data_used n d + a d else data_used n),
     peak := \<lambda>d. max (peak n d) (used n d + a d)\<rparr>"

definition released :: "resource_class \<Rightarrow> u128 dims \<Rightarrow> node_state \<Rightarrow> node_state" where
  "released cls a n = n\<lparr>used := \<lambda>d. used n d - a d,
     data_used := (if cls = Data then \<lambda>d. data_used n d - a d else data_used n)\<rparr>"

lemma charged_static [simp]:
  "node_parent (charged cls a n) = node_parent n" "node_owner (charged cls a n) = node_owner n"
  "node_policy (charged cls a n) = node_policy n"
  by (simp_all add: charged_def)

lemma released_static [simp]:
  "node_parent (released cls a n) = node_parent n" "node_owner (released cls a n) = node_owner n"
  "node_policy (released cls a n) = node_policy n"
  by (simp_all add: released_def)

lemma charge_dimensions_Inr:
  assumes "\<And>d. d \<in> set ds \<Longrightarrow> unat (used n d) + unat (a d) < 2 ^ 128"
    "\<And>d. d \<in> set ds \<Longrightarrow> unat (data_used n d) + unat (a d) < 2 ^ 128" "distinct ds"
  shows "charge_dimensions cls a n ds = Inr (n\<lparr>
     used := \<lambda>d. if d \<in> set ds then used n d + a d else used n d,
     data_used := \<lambda>d. if d \<in> set ds \<and> cls = Data then data_used n d + a d else data_used n d,
     peak := \<lambda>d. if d \<in> set ds then max (peak n d) (used n d + a d) else peak n d\<rparr>)"
  using assms
proof (induction ds arbitrary: n)
  case (Cons d ds)
  define m where "m = n\<lparr>used := (used n)(d := used n d + a d),
     peak := (peak n)(d := max (peak n d) (used n d + a d)),
     data_used := (if cls = Data then (data_used n)(d := data_used n d + a d) else data_used n)\<rparr>"
  have "plus_or_panic (used n d) (a d) = (Inr (used n d + a d) :: (resource_budget_error, u128) result)"
    "plus_or_panic (data_used n d) (a d) = (Inr (data_used n d + a d) :: (resource_budget_error, u128) result)"
    using Cons.prems(1,2) by (auto intro!: plus_or_panic_Inr)
  then have "charge_dimensions cls a n (d # ds) = charge_dimensions cls a m ds"
    by (cases cls) (simp_all add: m_def)
  also have "\<dots> = Inr (m\<lparr>
     used := \<lambda>d. if d \<in> set ds then used m d + a d else used m d,
     data_used := \<lambda>d. if d \<in> set ds \<and> cls = Data then data_used m d + a d else data_used m d,
     peak := \<lambda>d. if d \<in> set ds then max (peak m d) (used m d + a d) else peak m d\<rparr>)"
    using Cons.prems by (intro Cons.IH) (auto simp: m_def)
  also have "\<dots> = Inr (n\<lparr>
     used := \<lambda>x. if x \<in> set (d # ds) then used n x + a x else used n x,
     data_used := \<lambda>x. if x \<in> set (d # ds) \<and> cls = Data then data_used n x + a x else data_used n x,
     peak := \<lambda>x. if x \<in> set (d # ds) then max (peak n x) (used n x + a x) else peak n x\<rparr>)"
    using Cons.prems(3) unfolding m_def sum.inject
    by (intro node_state.equality) (auto simp: fun_eq_iff)
  finally show ?case .
qed (cases n, simp)

lemma charge_dimensions_all:
  assumes "\<And>d. unat (used n d) + unat (a d) < 2 ^ 128" "\<And>d. unat (data_used n d) \<le> unat (used n d)"
  shows "charge_dimensions cls a n ALL_DIMENSIONS = Inr (charged cls a n)"
proof -
  have "unat (data_used n d) + unat (a d) < 2 ^ 128" for d
    using assms(1) [of d] assms(2) [of d] by linarith
  then show ?thesis
    using assms(1) by (cases n) (auto simp: charge_dimensions_Inr dimension_cases charged_def)
qed

lemma release_dimensions_Inr:
  assumes "\<And>d. d \<in> set ds \<Longrightarrow> a d \<le> used n d"
    "\<And>d. d \<in> set ds \<Longrightarrow> cls = Data \<Longrightarrow> a d \<le> data_used n d" "distinct ds"
  shows "release_dimensions cls a n ds = Inr (n\<lparr>
     used := \<lambda>d. if d \<in> set ds then used n d - a d else used n d,
     data_used := \<lambda>d. if d \<in> set ds \<and> cls = Data then data_used n d - a d else data_used n d\<rparr>)"
  using assms
proof (induction ds arbitrary: n)
  case (Cons d ds)
  define m where "m = n\<lparr>used := (used n)(d := used n d - a d),
     data_used := (if cls = Data then (data_used n)(d := data_used n d - a d) else data_used n)\<rparr>"
  have "release_dimensions cls a n (d # ds) = release_dimensions cls a m ds"
    using Cons.prems(1,2) by (cases cls) (simp_all add: m_def minus_or_panic_Inr)
  also have "\<dots> = Inr (m\<lparr>
     used := \<lambda>d. if d \<in> set ds then used m d - a d else used m d,
     data_used := \<lambda>d. if d \<in> set ds \<and> cls = Data then data_used m d - a d else data_used m d\<rparr>)"
    using Cons.prems by (intro Cons.IH) (auto simp: m_def)
  also have "\<dots> = Inr (n\<lparr>
     used := \<lambda>x. if x \<in> set (d # ds) then used n x - a x else used n x,
     data_used := \<lambda>x. if x \<in> set (d # ds) \<and> cls = Data then data_used n x - a x else data_used n x\<rparr>)"
    using Cons.prems(3) unfolding m_def sum.inject
    by (intro node_state.equality) (auto simp: fun_eq_iff)
  finally show ?case .
qed (cases n, simp)

lemma release_dimensions_all:
  assumes "\<And>d. a d \<le> used n d" "\<And>d. cls = Data \<Longrightarrow> a d \<le> data_used n d"
  shows "release_dimensions cls a n ALL_DIMENSIONS = Inr (released cls a n)"
  using assms by (cases n) (auto simp: release_dimensions_Inr dimension_cases released_def)

text \<open>A change of the nodes on a lineage.\<close>

definition on_lineage :: "(node_state \<Rightarrow> node_state) \<Rightarrow> (u64 \<rightharpoonup> node_state) \<Rightarrow> u64 \<Rightarrow> (u64 \<rightharpoonup> node_state)" where
  "on_lineage f ns t x = (if x \<in> set (lineage (parent_of ns) t) then map_option f (ns x) else ns x)"

lemma parent_of_update:
  "ns t = Some n \<Longrightarrow> node_parent n' = node_parent n \<Longrightarrow> parent_of (ns(t \<mapsto> n')) = parent_of ns"
  by (auto simp: parent_of_def fun_eq_iff)

lemma change_lineage:
  assumes "\<And>n. node_parent (f n) = node_parent n" "tree ns" "ns t \<noteq> None"
    "\<And>x n. x \<in> set (lineage (parent_of ns) t) \<Longrightarrow> ns x = Some n \<Longrightarrow> step n = Inr (f n)"
  shows "cursor_loop (\<lambda>token ns. bindE (expect (ns token)) (\<lambda>node. bindE (step node) (\<lambda>node.
      Inr (node_parent node, ns(token \<mapsto> node))))) (Some t) ns = Some (Inr (on_lineage f ns t))"
  using assms(2-4)
proof (induction t arbitrary: ns rule: less_induct)
  case (less t)
  obtain n where n: "ns t = Some n" using less.prems(2) by blast
  then have step: "step n = Inr (f n)" by (rule less.prems(3) [OF lineage_self])
  show ?case
  proof (cases "node_parent n")
    case None
    with n step assms(1) show ?thesis
      by (auto simp: cursor_loop_Some on_lineage_def fun_eq_iff parent_of_Some lineage_None)
  next
    case (Some p)
    then have p: "parent_of ns t = Some p" using n by (simp add: parent_of_Some)
    with less.prems(1) have lt: "p < t" "ns p \<noteq> None" by (auto simp: tree_def)
    define ns' where "ns' = ns(t \<mapsto> f n)"
    have same: "parent_of ns' = parent_of ns"
      using n assms(1) by (simp add: parent_of_update ns'_def)
    have notin: "t \<notin> set (lineage (parent_of ns) p)"
      using lt(1) lineage_le by fastforce
    have "cursor_loop (\<lambda>token ns. bindE (expect (ns token)) (\<lambda>node. bindE (step node) (\<lambda>node.
        Inr (node_parent node, ns(token \<mapsto> node))))) (Some p) ns' = Some (Inr (on_lineage f ns' p))"
    proof (rule less.IH [OF lt(1)])
      show "tree ns'" using less.prems(1) same by (auto simp: tree_def ns'_def)
      show "ns' p \<noteq> None" using lt by (simp add: ns'_def)
      fix x m assume "x \<in> set (lineage (parent_of ns') p)" "ns' x = Some m"
      then show "step m = Inr (f m)"
        using less.prems(3) [of x m] notin same p lt(1) by (auto simp: lineage_Some ns'_def split: if_splits)
    qed
    moreover have "on_lineage f ns' p = on_lineage f ns t"
      unfolding on_lineage_def same lineage_Some [where par = "parent_of ns", OF p lt(1)] using notin n by (auto simp: fun_eq_iff ns'_def)
    ultimately show ?thesis
      using n step assms(1) Some by (subst cursor_loop_Some) (simp del: fun_upd_apply add: ns'_def)
  qed
qed

lemma charge_lineage_eq:
  assumes "tree ns" "\<And>x n. ns x = Some n \<Longrightarrow> node_ok n" "ns t \<noteq> None"
    "\<And>x. x \<in> set (lineage (parent_of ns) t) \<Longrightarrow> fits cls checked a (the (ns x))"
  shows "charge_lineage cls a ns t = Some (Inr (on_lineage (charged cls a) ns t))"
  unfolding charge_lineage_def
proof (rule change_lineage [OF _ assms(1,3)])
  fix x n assume "x \<in> set (lineage (parent_of ns) t)" "ns x = Some n"
  with assms(2) [of x n] assms(4) [of x] show "charge_dimensions cls a n ALL_DIMENSIONS = Inr (charged cls a n)"
    by (intro charge_dimensions_all) (auto simp: fits_def fits_dim_def node_ok_def)
qed simp

lemma release_lineage_eq:
  assumes "tree ns" "ns t \<noteq> None"
    "\<And>x n d. x \<in> set (lineage (parent_of ns) t) \<Longrightarrow> ns x = Some n \<Longrightarrow> a d \<le> used n d \<and> (cls = Data \<longrightarrow> a d \<le> data_used n d)"
  shows "release_lineage cls a ns t = Some (Inr (on_lineage (released cls a) ns t))"
  unfolding release_lineage_def
proof (rule change_lineage [OF _ assms(1,2)])
  fix x n assume "x \<in> set (lineage (parent_of ns) t)" "ns x = Some n"
  with assms(3) show "release_dimensions cls a n ALL_DIMENSIONS = Inr (released cls a n)"
    by (intro release_dimensions_all) auto
qed simp


text \<open>A release ends on every tree, and where it fails it is a panic.\<close>

lemma lineage_loop_returns:
  assumes "\<And>n m. step n = Inr m \<Longrightarrow> node_parent m = node_parent n" "\<And>n e. step n = Inl e \<Longrightarrow> e = Panic" "tree ns"
  shows "\<exists>res. cursor_loop (\<lambda>token ns. bindE (expect (ns token)) (\<lambda>node. bindE (step node) (\<lambda>node.
      Inr (node_parent node, ns(token \<mapsto> node))))) (Some t) ns = Some res \<and> (\<forall>e. res = Inl e \<longrightarrow> e = Panic)"
  using assms(3)
proof (induction t arbitrary: ns rule: less_induct)
  case (less t)
  show ?case
  proof (cases "ns t")
    case None
    then show ?thesis
      by (simp add: cursor_loop_Some expect_def)
  next
    case (Some n)
    show ?thesis
    proof (cases "step n")
      case (Inl e)
      with Some assms(2) [of n e] show ?thesis
        by (simp add: cursor_loop_Some)
    next
      case (Inr m)
      note parent = assms(1) [OF Inr]
      show ?thesis
      proof (cases "node_parent m")
        case None
        with Some Inr show ?thesis
          by (simp add: cursor_loop_Some)
      next
        fix p assume p: "node_parent m = Some p"
        then have "p < t"
          using less.prems Some parent by (auto simp: tree_def parent_of_def)
        moreover have "tree (ns(t \<mapsto> m))"
          using less.prems parent_of_update [of ns t n m] Some parent by (auto simp: tree_def)
        ultimately show ?thesis
          using less.IH [of p "ns(t \<mapsto> m)"] Some Inr p by (subst cursor_loop_Some) (simp del: fun_upd_apply)
      qed
    qed
  qed
qed

lemma release_dimensions_parent: "release_dimensions cls a n ds = Inr m \<Longrightarrow> node_parent m = node_parent n"
  by (induction ds arbitrary: n) (fastforce simp: Let_def split: if_splits)+

lemma release_dimensions_Inl: "release_dimensions cls a n ds = Inl e \<Longrightarrow> e = Panic"
  by (induction ds arbitrary: n) (auto simp: Let_def bindE_eq_Inl minus_or_panic_def expect_def split: if_splits option.splits)

lemma release_lineage_returns:
  "tree ns \<Longrightarrow> \<exists>res. release_lineage cls a ns t = Some res \<and> (\<forall>e. res = Inl e \<longrightarrow> e = Panic)"
  unfolding release_lineage_def
  by (rule lineage_loop_returns) (auto dest: release_dimensions_parent release_dimensions_Inl)

lemma on_lineage_dom [simp]: "on_lineage f ns t x = None \<longleftrightarrow> ns x = None"
  by (simp add: on_lineage_def)

lemma on_lineage_SomeE:
  assumes "on_lineage f ns t x = Some n"
  obtains m where "ns x = Some m" "n = (if x \<in> set (lineage (parent_of ns) t) then f m else m)"
  using assms by (auto simp: on_lineage_def split: if_splits)

lemma parent_of_on_lineage:
  "(\<And>n. node_parent (f n) = node_parent n) \<Longrightarrow> parent_of (on_lineage f ns t) = parent_of ns"
  by (auto simp: parent_of_def on_lineage_def fun_eq_iff bind_map_option comp_def)


section \<open>Charges\<close>

text \<open>A live charge: the scope that owns it, its class and its amounts.\<close>

type_synonym charge = "u64 \<times> resource_class \<times> (resource_dimension \<Rightarrow> nat)"

fun share :: "(resource_class \<Rightarrow> bool) \<Rightarrow> (u64 \<Rightarrow> u64 option) \<Rightarrow> u64 \<Rightarrow> resource_dimension \<Rightarrow> charge \<Rightarrow> nat" where
  "share sel par t d (s, c, a) = (if sel c \<and> t \<in> set (lineage par s) then a d else 0)"

definition due ::
  "(resource_class \<Rightarrow> bool) \<Rightarrow> (u64 \<Rightarrow> u64 option) \<Rightarrow> charge multiset \<Rightarrow> u64 \<Rightarrow> resource_dimension \<Rightarrow> nat" where
  "due sel par cs t d = (\<Sum>c \<in># cs. share sel par t d c)"

definition accounted :: "(u64 \<rightharpoonup> node_state) \<Rightarrow> charge multiset \<Rightarrow> bool" where
  "accounted ns cs \<longleftrightarrow> (\<forall>t n d. ns t = Some n \<longrightarrow>
     unat (used n d) = due (\<lambda>_. True) (parent_of ns) cs t d \<and>
     unat (data_used n d) = due ((=) Data) (parent_of ns) cs t d \<and> used n d \<le> peak n d)"

lemma due_empty [simp]: "due sel par {#} t d = 0"
  by (simp add: due_def)

lemma due_add [simp]: "due sel par (add_mset c cs) t d = share sel par t d c + due sel par cs t d"
  by (simp add: due_def)

lemma due_union [simp]: "due sel par (cs + cs') t d = due sel par cs t d + due sel par cs' t d"
  by (simp add: due_def)

lemma due_cong:
  "(\<And>s c a. (s, c, a) \<in># cs \<Longrightarrow> t \<in> set (lineage par' s) \<longleftrightarrow> t \<in> set (lineage par s)) \<Longrightarrow>
    due sel par' cs t d = due sel par cs t d"
  unfolding due_def by (intro arg_cong [where f = sum_mset] image_mset_cong) auto

lemma due_zero: "(\<And>s c a. (s, c, a) \<in># cs \<Longrightarrow> t \<notin> set (lineage par s)) \<Longrightarrow> due sel par cs t d = 0"
proof (induction cs)
  case (add c cs)
  obtain s k a where c: "c = (s, k, a)" by (cases c)
  have "t \<notin> set (lineage par s)" using add.prems [of s k a] c by simp
  moreover have "due sel par cs t d = 0"
  proof (rule add.IH)
    fix s k a assume "(s, k, a) \<in># cs"
    then have "(s, k, a) \<in># add_mset c cs" by simp
    then show "t \<notin> set (lineage par s)" by (rule add.prems)
  qed
  ultimately show ?case by (simp add: c)
qed simp

lemma due_data_le: "due ((=) Data) par cs t d \<le> due (\<lambda>_. True) par cs t d"
  by (induction cs) (auto simp: intro: add_le_mono)

lemma accountedD:
  assumes "accounted ns cs" "ns t = Some n"
  shows "unat (used n d) = due (\<lambda>_. True) (parent_of ns) cs t d"
    "unat (data_used n d) = due ((=) Data) (parent_of ns) cs t d" "used n d \<le> peak n d"
  using assms by (simp_all add: accounted_def)

lemma accounted_data_le: "accounted ns cs \<Longrightarrow> ns t = Some n \<Longrightarrow> unat (data_used n d) \<le> unat (used n d)"
  by (simp add: accountedD due_data_le)

lemma accounted_charge:
  assumes "accounted ns cs"
    "\<And>x. x \<in> set (lineage (parent_of ns) t) \<Longrightarrow> fits cls checked a (the (ns x))"
  shows "accounted (on_lineage (charged cls a) ns t) (add_mset (t, cls, \<lambda>d. unat (a d)) cs)"
  unfolding accounted_def
proof (intro allI impI)
  fix x n d
  assume "on_lineage (charged cls a) ns t x = Some n"
  then obtain m where m: "ns x = Some m" "n = (if x \<in> set (lineage (parent_of ns) t) then charged cls a m else m)"
    by (rule on_lineage_SomeE)
  note eqs = accountedD [OF assms(1) m(1)]
  have par: "parent_of (on_lineage (charged cls a) ns t) = parent_of ns"
    by (simp add: parent_of_on_lineage)
  have sum: "unat (used m d + a d) = unat (used m d) + unat (a d)"
    "unat (data_used m d + a d) = unat (data_used m d) + unat (a d)"
    if "x \<in> set (lineage (parent_of ns) t)"
    using assms(2) [OF that] accounted_data_le [OF assms(1) m(1), of d] m(1)
    by (auto simp: fits_def fits_dim_def unat_word_ariths dest: spec [of _ d])
  show "unat (used n d) = due (\<lambda>_. True) (parent_of (on_lineage (charged cls a) ns t)) (add_mset (t, cls, \<lambda>d. unat (a d)) cs) x d \<and>
     unat (data_used n d) = due ((=) Data) (parent_of (on_lineage (charged cls a) ns t)) (add_mset (t, cls, \<lambda>d. unat (a d)) cs) x d \<and>
     used n d \<le> peak n d"
    unfolding par using eqs sum m(2) by (auto simp: charged_def)
qed

lemma accounted_enough:
  assumes "accounted ns (add_mset (t, cls, \<lambda>d. unat (a d)) cs)" "x \<in> set (lineage (parent_of ns) t)" "ns x = Some n"
  shows "a d \<le> used n d \<and> (cls = Data \<longrightarrow> a d \<le> data_used n d)"
  using accountedD(1,2) [OF assms(1,3), of d] assms(2) by (auto simp: word_le_nat_alt)

lemma accounted_release:
  assumes "accounted ns (add_mset (t, cls, \<lambda>d. unat (a d)) cs)"
  shows "accounted (on_lineage (released cls a) ns t) cs"
  unfolding accounted_def
proof (intro allI impI)
  fix x n d
  assume "on_lineage (released cls a) ns t x = Some n"
  then obtain m where m: "ns x = Some m" "n = (if x \<in> set (lineage (parent_of ns) t) then released cls a m else m)"
    by (rule on_lineage_SomeE)
  note eqs = accountedD [OF assms m(1), of d]
  have par: "parent_of (on_lineage (released cls a) ns t) = parent_of ns"
    by (simp add: parent_of_on_lineage)
  have sub: "a d \<le> used m d" "cls = Data \<Longrightarrow> a d \<le> data_used m d" if "x \<in> set (lineage (parent_of ns) t)"
    using accounted_enough [OF assms that m(1)] by auto
  have "used m d - a d \<le> peak m d" if "x \<in> set (lineage (parent_of ns) t)"
    using sub(1) [OF that] eqs(3) by (meson order.trans word_sub_le)
  then show "unat (used n d) = due (\<lambda>_. True) (parent_of (on_lineage (released cls a) ns t)) cs x d \<and>
     unat (data_used n d) = due ((=) Data) (parent_of (on_lineage (released cls a) ns t)) cs x d \<and>
     used n d \<le> peak n d"
    unfolding par using eqs sub m(2) by (auto simp: released_def unat_sub)
qed

text \<open>Creating and dropping a node.\<close>

lemma accounted_new_node:
  assumes "accounted ns cs" "tree ns" "ns t = None" "\<And>s c a. (s, c, a) \<in># cs \<Longrightarrow> ns s \<noteq> None"
    "\<And>d. used n d = 0" "\<And>d. data_used n d = 0"
  shows "accounted (ns(t \<mapsto> n)) cs"
proof -
  have lin: "lineage (parent_of (ns(t \<mapsto> n))) s = lineage (parent_of ns) s \<and> t \<notin> set (lineage (parent_of ns) s)"
    if "(s, c, a) \<in># cs" for s c a
  proof
    show "t \<notin> set (lineage (parent_of ns) s)"
      using lineage_live [OF assms(2) assms(4) [OF that]] assms(3) by blast
    then show "lineage (parent_of (ns(t \<mapsto> n))) s = lineage (parent_of ns) s"
      by (intro lineage_cong) (auto simp: parent_of_def)
  qed
  have due: "due sel (parent_of (ns(t \<mapsto> n))) cs x d = due sel (parent_of ns) cs x d" for sel x d
    using lin by (intro due_cong) simp
  have zero: "due sel (parent_of ns) cs t d = 0" for sel d
    using lin by (intro due_zero) blast
  show ?thesis
    using assms(1) unfolding accounted_def due
    by (auto simp: zero assms(5,6) split: if_splits)
qed


lemma lineage_parent: "x \<in> set (lineage par s) \<Longrightarrow> x = s \<or> (\<exists>y. par y = Some x)"
proof (induction s rule: less_induct)
  case (less s)
  then show ?case
    by (cases "par s"; cases "the (par s) < s") (auto simp: lineage_None lineage_Some lineage_stuck)
qed

lemma accounted_drop_node:
  assumes "accounted ns cs" "\<And>x. parent_of ns x \<noteq> Some t" "\<And>c a. (t, c, a) \<notin># cs"
  shows "accounted (ns(t := None)) cs"
proof -
  have lin: "lineage (parent_of (ns(t := None))) s = lineage (parent_of ns) s" if "(s, c, a) \<in># cs" for s c a
  proof (rule lineage_cong)
    fix x assume "x \<in> set (lineage (parent_of ns) s)"
    with lineage_parent [OF this] assms(2,3) that have "x \<noteq> t" by auto
    then show "parent_of (ns(t := None)) x = parent_of ns x" by (simp add: parent_of_def)
  qed
  have due: "due sel (parent_of (ns(t := None))) cs x d = due sel (parent_of ns) cs x d" for sel x d
    using lin by (intro due_cong) simp
  show ?thesis
    using assms(1) unfolding accounted_def due by (auto split: if_splits)
qed


section \<open>The invariant\<close>

definition res_charge :: "resource_reservation \<Rightarrow> charge" where
  "res_charge r = (res_scope r, res_class r, \<lambda>d. unat (wide (res_amounts r) d))"

definition acc_charge :: "native_memory_account \<Rightarrow> charge" where
  "acc_charge a = (acc_scope a, acc_class a, \<lambda>d. unat (memory_only (acc_bytes a) d))"

text \<open>All live charges of a world.\<close>

definition charges :: "'a world \<Rightarrow> charge multiset" where
  "charges w = image_mset res_charge (mset (held_reservations w)) +
     image_mset acc_charge (mset (held_accounts w)) +
     image_mset (\<lambda>b. res_charge (backing_reservation b)) (mset (backings w)) +
     image_mset res_charge (mset (List.map_filter bookkeeping (scopes w)))"

definition kids :: "ledger \<Rightarrow> u64 \<Rightarrow> u64 set" where
  "kids l p = {t. parent_of (nodes l) t = Some p}"

definition ledger_ok :: "ledger \<Rightarrow> bool" where
  "ledger_ok l \<longleftrightarrow> tree (nodes l) \<and>
     (\<forall>t n. nodes l t = Some n \<longrightarrow> t < next_token l \<and> policy_ok (node_policy n)) \<and>
     (\<forall>p owner t. children l (p, owner) = Some t \<longleftrightarrow>
        (\<exists>n. nodes l t = Some n \<and> node_parent n = Some p \<and> node_owner n = owner)) \<and>
     (\<forall>p. child_counts l p = (if kids l p = {} then None else Some (of_nat (card (kids l p)))))"

definition scope_ok :: "(u64 \<rightharpoonup> node_state) \<Rightarrow> scope \<Rightarrow> bool" where
  "scope_ok ns s \<longleftrightarrow> (\<exists>n. ns (token s) = Some n \<and> node_owner n = scope_owner s \<and>
     node_policy n = scope_policy s \<and> node_parent n = scope_parent s) \<and>
     (\<forall>r. bookkeeping s = Some r \<longrightarrow> scope_parent s = Some (res_scope r))"

definition scopes_ok :: "(u64 \<rightharpoonup> node_state) \<Rightarrow> scope list \<Rightarrow> bool" where
  "scopes_ok ns ss \<longleftrightarrow> distinct (map token ss) \<and> token ` set ss = dom ns \<and> (\<forall>s \<in> set ss. scope_ok ns s)"

definition within :: "resource_dimension set \<Rightarrow> (u64 \<rightharpoonup> node_state) \<Rightarrow> bool" where
  "within D ns \<longleftrightarrow> (\<forall>t n. \<forall>d \<in> D. ns t = Some n \<longrightarrow>
     unat (used n d) \<le> limit_of n d \<and> unat (data_used n d) \<le> limit_of n d - reserve_of n d)"

text \<open>
  The invariant in the middle of an operation: \<open>C\<close> are charges that the operation carries and
  nobody holds, \<open>T\<close> are scopes that may have lost their last reference, and the dimensions
  \<open>D\<close> are within the limits.
\<close>

definition consistent :: "charge multiset \<Rightarrow> u64 set \<Rightarrow> resource_dimension set \<Rightarrow> 'a world \<Rightarrow> bool" where
  "consistent C T D w \<longleftrightarrow>
     ledger_ok (world_ledger w) \<and> scopes_ok (nodes (world_ledger w)) (scopes w) \<and>
     accounted (nodes (world_ledger w)) (C + charges w) \<and>
     set (references w) \<union> fst ` set_mset C \<subseteq> dom (nodes (world_ledger w)) \<and>
     dom (nodes (world_ledger w)) \<subseteq> set (references w) \<union> T \<and>
     within D (nodes (world_ledger w))"

lemma consistentD:
  assumes "consistent C T D w"
  shows "ledger_ok (world_ledger w)" "scopes_ok (nodes (world_ledger w)) (scopes w)"
    "accounted (nodes (world_ledger w)) (C + charges w)"
    "set (references w) \<subseteq> dom (nodes (world_ledger w))" "fst ` set_mset C \<subseteq> dom (nodes (world_ledger w))"
    "dom (nodes (world_ledger w)) \<subseteq> set (references w) \<union> T"
    "within D (nodes (world_ledger w))" "tree (nodes (world_ledger w))"
  using assms by (auto simp: consistent_def ledger_ok_def)

lemma consistent_node_ok:
  assumes "consistent C T D w" "nodes (world_ledger w) x = Some n"
  shows "node_ok n"
  using assms accounted_data_le [OF consistentD(3) [OF assms(1)] assms(2)]
  by (auto simp: consistent_def ledger_ok_def node_ok_def)

text \<open>Changes of the counters keep everything but the accounts and the limits.\<close>

definition static :: "(node_state \<Rightarrow> node_state) \<Rightarrow> bool" where
  "static f \<longleftrightarrow> (\<forall>n. node_parent (f n) = node_parent n \<and> node_owner (f n) = node_owner n \<and>
     node_policy (f n) = node_policy n)"

lemma static_charged [simp]: "static (charged cls a)" and static_released [simp]: "static (released cls a)"
  by (simp_all add: static_def)

abbreviation with_nodes :: "'a world \<Rightarrow> (u64 \<rightharpoonup> node_state) \<Rightarrow> 'a world" where
  "with_nodes w ns \<equiv> w\<lparr>world_ledger := (world_ledger w)\<lparr>nodes := ns\<rparr>\<rparr>"

lemma references_with_nodes [simp]: "references (w\<lparr>world_ledger := l\<rparr>) = references w"
  by (simp add: references_def)

lemma charges_with_nodes [simp]: "charges (w\<lparr>world_ledger := l\<rparr>) = charges w"
  by (simp add: charges_def)

lemma dom_on_lineage [simp]: "dom (on_lineage f ns t) = dom ns"
  by (auto simp: dom_def on_lineage_def)

lemma on_lineage_static:
  assumes "static f" "ns x = Some n"
  shows "\<exists>m. on_lineage f ns t x = Some m \<and> node_parent m = node_parent n \<and> node_owner m = node_owner n \<and>
    node_policy m = node_policy n"
  using assms by (simp add: on_lineage_def static_def)

lemma on_lineage_static_iff:
  assumes "static f"
  shows "(\<exists>n. on_lineage f ns t x = Some n \<and> P (node_parent n) (node_owner n) (node_policy n)) \<longleftrightarrow>
    (\<exists>n. ns x = Some n \<and> P (node_parent n) (node_owner n) (node_policy n))"
  using assms by (auto simp: on_lineage_def static_def split: if_splits)

lemma ledger_ok_on_lineage:
  assumes "static f" "ledger_ok l"
  shows "ledger_ok (l\<lparr>nodes := on_lineage f (nodes l) t\<rparr>)"
proof -
  have par: "parent_of (on_lineage f (nodes l) t) = parent_of (nodes l)"
    using assms(1) by (simp add: parent_of_on_lineage static_def)
  have "tree (on_lineage f (nodes l) t)"
    using assms(2) unfolding ledger_ok_def tree_def par by simp
  moreover have "x < next_token l \<and> policy_ok (node_policy n)" if "on_lineage f (nodes l) t x = Some n" for x n
    using that assms by (auto elim!: on_lineage_SomeE simp: ledger_ok_def static_def)
  moreover have "(\<exists>n. on_lineage f (nodes l) t x = Some n \<and> node_parent n = Some p \<and> node_owner n = owner) \<longleftrightarrow>
      (\<exists>n. nodes l x = Some n \<and> node_parent n = Some p \<and> node_owner n = owner)" for x p owner
    by (rule on_lineage_static_iff [OF assms(1), of "nodes l" t x "\<lambda>q o' _. q = Some p \<and> o' = owner"])
  ultimately show ?thesis
    using assms(2) unfolding ledger_ok_def kids_def by (simp add: par)
qed

lemma scopes_ok_on_lineage:
  assumes "static f" "scopes_ok ns ss"
  shows "scopes_ok (on_lineage f ns t) ss"
proof -
  have "scope_ok (on_lineage f ns t) s" if "scope_ok ns s" for s
    using that on_lineage_static [OF assms(1), of ns "token s" _ t] unfolding scope_ok_def by fastforce
  then show ?thesis
    using assms(2) unfolding scopes_ok_def dom_on_lineage by blast
qed



section \<open>Admission and release keep the invariant\<close>

lemma within_charge:
  assumes "within D ns" "\<And>x. x \<in> set (lineage (parent_of ns) t) \<Longrightarrow> fits cls checked a (the (ns x))"
    "checked \<or> (\<forall>d \<in> D. a d = 0)"
  shows "within D (on_lineage (charged cls a) ns t)"
  unfolding within_def
proof (intro allI ballI impI)
  fix x n d assume d: "d \<in> D" and "on_lineage (charged cls a) ns t x = Some n"
  then obtain m where m: "ns x = Some m" "n = (if x \<in> set (lineage (parent_of ns) t) then charged cls a m else m)"
    by (auto elim: on_lineage_SomeE)
  have old: "unat (used m d) \<le> limit_of m d" "unat (data_used m d) \<le> limit_of m d - reserve_of m d"
    using assms(1) m(1) d by (auto simp: within_def)
  show "unat (used n d) \<le> limit_of n d \<and> unat (data_used n d) \<le> limit_of n d - reserve_of n d"
  proof (cases "x \<in> set (lineage (parent_of ns) t) \<and> a d \<noteq> 0")
    case True
    then have "fits_dim cls True a m d"
      using assms(2) [of x] assms(3) d m(1) by (auto simp: fits_def)
    moreover have "unat (used m d + a d) \<le> unat (used m d) + unat (a d)"
      "unat (data_used m d + a d) \<le> unat (data_used m d) + unat (a d)"
      by (simp_all add: unat_word_ariths)
    ultimately show ?thesis
      using True m(2) old(2) by (auto simp: charged_def fits_dim_def)
  next
    case False
    with m(2) old show ?thesis by (auto simp: charged_def)
  qed
qed

lemma within_release:
  assumes "within D ns" "accounted ns (add_mset (t, cls, \<lambda>d. unat (a d)) cs)"
  shows "within D (on_lineage (released cls a) ns t)"
  unfolding within_def
proof (intro allI ballI impI)
  fix x n d assume d: "d \<in> D" and "on_lineage (released cls a) ns t x = Some n"
  then obtain m where m: "ns x = Some m" "n = (if x \<in> set (lineage (parent_of ns) t) then released cls a m else m)"
    by (auto elim: on_lineage_SomeE)
  have old: "unat (used m d) \<le> limit_of m d" "unat (data_used m d) \<le> limit_of m d - reserve_of m d"
    using assms(1) m(1) d by (auto simp: within_def)
  have "a d \<le> used m d" "cls = Data \<Longrightarrow> a d \<le> data_used m d" if "x \<in> set (lineage (parent_of ns) t)"
    using accounted_enough [OF assms(2) that m(1)] by auto
  then show "unat (used n d) \<le> limit_of n d \<and> unat (data_used n d) \<le> limit_of n d - reserve_of n d"
    using m(2) old by (auto simp: released_def unat_sub)
qed

abbreviation ancestors :: "'a world \<Rightarrow> u64 \<Rightarrow> u64 list" where
  "ancestors w t \<equiv> lineage (parent_of (nodes (world_ledger w))) t"

definition admits :: "'a world \<Rightarrow> u64 \<Rightarrow> resource_class \<Rightarrow> u128 dims \<Rightarrow> bool \<Rightarrow> bool" where
  "admits w t cls a checked \<longleftrightarrow>
     (\<forall>x \<in> set (ancestors w t). fits cls checked a (the (nodes (world_ledger w) x)))"

lemma consistent_with_nodes:
  assumes "consistent C T D w" "static f" "accounted (on_lineage f (nodes (world_ledger w)) t) (C' + charges w)"
    "within D (on_lineage f (nodes (world_ledger w)) t)" "fst ` set_mset C' \<subseteq> dom (nodes (world_ledger w))"
  shows "consistent C' T D (with_nodes w (on_lineage f (nodes (world_ledger w)) t))"
  using assms consistentD [OF assms(1)] ledger_ok_on_lineage [OF assms(2)] scopes_ok_on_lineage [OF assms(2)]
  unfolding consistent_def by simp

lemma budget_add_outcome:
  assumes "consistent C T D w" "nodes (world_ledger w) t \<noteq> None" "checked \<or> (\<forall>d \<in> D. a d = 0)"
  shows "(\<not> admits w t cls a checked \<and> (\<exists>e. budget_add t cls a checked w = Some (Inl (Err e), w))) \<or>
    (admits w t cls a checked \<and>
     (\<exists>ns. budget_add t cls a checked w = Some (Inr (), with_nodes w ns) \<and>
       consistent (add_mset (t, cls, \<lambda>d. unat (a d)) C) T D (with_nodes w ns)))"
proof -
  define ns where "ns = nodes (world_ledger w)"
  note inv = consistentD [OF assms(1), folded ns_def]
  have ok: "node_ok n" if "ns x = Some n" for x n
    using consistent_node_ok [OF assms(1)] that by (simp add: ns_def)
  have t: "ns t \<noteq> None" using assms(2) by (simp add: ns_def)
  have "\<exists>res. check_lineage cls checked a ns t = Some res \<and> \<not> panics res \<and> (res = Inr () \<longleftrightarrow> admits w t cls a checked)"
    unfolding admits_def ns_def [symmetric] using inv(8) ok t by (rule check_lineage_outcome)
  then obtain res where res: "check_lineage cls checked a ns t = Some res" "\<not> panics res"
    "res = Inr () \<longleftrightarrow> admits w t cls a checked"
    by blast
  show ?thesis
  proof (cases "admits w t cls a checked")
    case False
    with res obtain e where "res = Inl (Err e)"
      by (cases res) (auto simp: panics_def, metis failure.exhaust)
    with False res(1) show ?thesis
      by (auto simp: budget_add_def on_nodes_def ns_def)
  next
    case True
    then have fits: "fits cls checked a (the (ns x))" if "x \<in> set (lineage (parent_of ns) t)" for x
      using that by (simp add: admits_def ns_def)
    have "charge_lineage cls a ns t = Some (Inr (on_lineage (charged cls a) ns t))"
      using inv(8) ok t fits by (rule charge_lineage_eq)
    moreover have "consistent (add_mset (t, cls, \<lambda>d. unat (a d)) C) T D (with_nodes w (on_lineage (charged cls a) ns t))"
      unfolding ns_def
    proof (rule consistent_with_nodes [OF assms(1)])
      show "accounted (on_lineage (charged cls a) (nodes (world_ledger w)) t) (add_mset (t, cls, \<lambda>d. unat (a d)) C + charges w)"
        using accounted_charge [OF inv(3) fits] by (simp add: ns_def)
      show "within D (on_lineage (charged cls a) (nodes (world_ledger w)) t)"
        using within_charge [OF inv(7) fits assms(3)] by (simp add: ns_def)
      show "fst ` set_mset (add_mset (t, cls, \<lambda>d. unat (a d)) C) \<subseteq> dom (nodes (world_ledger w))"
        using inv(5) t by (auto simp: ns_def)
    qed simp
    ultimately show ?thesis
      using True res by (auto simp: budget_add_def on_nodes_def ns_def)
  qed
qed

lemma budget_subtract_outcome:
  assumes "consistent (add_mset (t, cls, \<lambda>d. unat (a d)) C) T D w"
  shows "\<exists>ns. budget_subtract t cls a w = Some (Inr (), with_nodes w ns) \<and> consistent C T D (with_nodes w ns)"
proof -
  define ns where "ns = nodes (world_ledger w)"
  note inv = consistentD [OF assms, folded ns_def]
  have acc: "accounted ns (add_mset (t, cls, \<lambda>d. unat (a d)) (C + charges w))"
    using inv(3) by simp
  have t: "ns t \<noteq> None" using inv(5) by auto
  have "release_lineage cls a ns t = Some (Inr (on_lineage (released cls a) ns t))"
    using inv(8) t accounted_enough [OF acc] by (rule release_lineage_eq)
  moreover have "consistent C T D (with_nodes w (on_lineage (released cls a) ns t))"
    unfolding ns_def
  proof (rule consistent_with_nodes [OF assms])
    show "accounted (on_lineage (released cls a) (nodes (world_ledger w)) t) (C + charges w)"
      using accounted_release [OF acc] by (simp add: ns_def)
    show "within D (on_lineage (released cls a) (nodes (world_ledger w)) t)"
      using within_release [OF inv(7) acc] by (simp add: ns_def)
    show "fst ` set_mset C \<subseteq> dom (nodes (world_ledger w))"
      using inv(5) by (auto simp: ns_def)
  qed simp
  ultimately show ?thesis
    by (auto simp: budget_subtract_def on_nodes_def ns_def)
qed



section \<open>Moving charges and references\<close>

definition scope_refs :: "scope list \<Rightarrow> u64 set" where
  "scope_refs ss = {p. \<exists>s \<in> set ss. scope_parent s = Some p \<or> (\<exists>r. bookkeeping s = Some r \<and> res_scope r = p)}"

lemma set_references:
  "set (references w) = set (held_budgets w) \<union> res_scope ` set (held_reservations w) \<union>
     acc_scope ` set (held_accounts w) \<union> (\<lambda>b. res_scope (backing_reservation b)) ` set (backings w) \<union>
     scope_refs (scopes w)"
proof -
  have "set (concat (map (\<lambda>s. (case scope_parent s of None \<Rightarrow> [] | Some p \<Rightarrow> [p]) @
      (case bookkeeping s of None \<Rightarrow> [] | Some r \<Rightarrow> [res_scope r])) ss)) = scope_refs ss" for ss
    by (induction ss) (auto simp: scope_refs_def split: option.splits dest!: sym [of "Some _"])
  then show ?thesis by (auto simp: references_def)
qed

lemma set_bookkeepings: "set (List.map_filter bookkeeping ss) = {r. \<exists>s \<in> set ss. bookkeeping s = Some r}"
  by (induction ss) (auto simp: map_filter_simps split: option.splits)

lemma mset_remove1_image:
  "x \<in> set xs \<Longrightarrow> image_mset f (mset xs) = add_mset (f x) (image_mset f (mset (remove1 x xs)))"
  by (metis image_mset_add_mset insert_DiffM mset_remove1 set_mset_mset)

lemma set_remove1_cases: "x \<in> set xs \<Longrightarrow> set xs = insert x (set (remove1 x xs))"
  by (induction xs) auto

lemma consistent_move:
  assumes "consistent C T D w" "world_ledger w' = world_ledger w" "scopes_ok (nodes (world_ledger w)) (scopes w')"
    "C' + charges w' = C + charges w" "set (references w') \<subseteq> dom (nodes (world_ledger w))"
    "fst ` set_mset C' \<subseteq> dom (nodes (world_ledger w))" "set (references w) \<union> T \<subseteq> set (references w') \<union> T'"
  shows "consistent C' T' D w'"
  using assms consistentD [OF assms(1)] unfolding consistent_def by auto

lemma take_reservation:
  assumes "consistent C T D w" "r \<in> set (held_reservations w)"
  shows "consistent (add_mset (res_charge r) C) (insert (res_scope r) T) D
    (w\<lparr>held_reservations := remove1 r (held_reservations w)\<rparr>)"
proof (rule consistent_move [OF assms(1)])
  show "add_mset (res_charge r) C + charges (w\<lparr>held_reservations := remove1 r (held_reservations w)\<rparr>) = C + charges w"
    using mset_remove1_image [OF assms(2), of res_charge] by (simp add: charges_def)
  show "fst ` set_mset (add_mset (res_charge r) C) \<subseteq> dom (nodes (world_ledger w))"
    using consistentD(4,5) [OF assms(1)] assms(2) by (auto simp: res_charge_def set_references)
qed (use assms consistentD(2,4) [OF assms(1)] set_remove1_cases [OF assms(2)] in \<open>auto simp: set_references\<close>)

lemma put_reservation:
  assumes "consistent (add_mset (res_charge r) C) T D w"
  shows "consistent C (T - {res_scope r}) D (w\<lparr>held_reservations := r # held_reservations w\<rparr>)"
  using consistentD(2,4,5) [OF assms]
  by (intro consistent_move [OF assms]) (auto simp: charges_def set_references res_charge_def)

lemma take_account:
  assumes "consistent C T D w" "a \<in> set (held_accounts w)"
  shows "consistent (add_mset (acc_charge a) C) (insert (acc_scope a) T) D
    (w\<lparr>held_accounts := remove1 a (held_accounts w)\<rparr>)"
proof (rule consistent_move [OF assms(1)])
  show "add_mset (acc_charge a) C + charges (w\<lparr>held_accounts := remove1 a (held_accounts w)\<rparr>) = C + charges w"
    using mset_remove1_image [OF assms(2), of acc_charge] by (simp add: charges_def)
  show "fst ` set_mset (add_mset (acc_charge a) C) \<subseteq> dom (nodes (world_ledger w))"
    using consistentD(4,5) [OF assms(1)] assms(2) by (auto simp: acc_charge_def set_references)
qed (use assms consistentD(2,4) [OF assms(1)] set_remove1_cases [OF assms(2)] in \<open>auto simp: set_references\<close>)

lemma put_account:
  assumes "consistent (add_mset (acc_charge a) C) T D w"
  shows "consistent C (T - {acc_scope a}) D (w\<lparr>held_accounts := a # held_accounts w\<rparr>)"
  using consistentD(2,4,5) [OF assms]
  by (intro consistent_move [OF assms]) (auto simp: charges_def set_references acc_charge_def)

lemma take_budget:
  assumes "consistent C T D w" "t \<in> set (held_budgets w)"
  shows "consistent C (insert t T) D (w\<lparr>held_budgets := remove1 t (held_budgets w)\<rparr>)"
  by (rule consistent_move [OF assms(1)])
    (use assms consistentD(2,4,5) [OF assms(1)] set_remove1_cases [OF assms(2)] in \<open>auto simp: set_references charges_def\<close>)

lemma put_budget:
  assumes "consistent C T D w" "nodes (world_ledger w) t \<noteq> None"
  shows "consistent C (T - {t}) D (w\<lparr>held_budgets := t # held_budgets w\<rparr>)"
  using consistentD(2,4,5) [OF assms(1)] assms(2)
  by (intro consistent_move [OF assms(1)]) (auto simp: charges_def set_references)

lemma consistent_weaken: "consistent C T D w \<Longrightarrow> T \<subseteq> T' \<Longrightarrow> consistent C T' D w"
  unfolding consistent_def by blast

lemma consistent_referenced:
  "consistent C (insert t T) D w \<Longrightarrow> t \<in> set (references w) \<Longrightarrow> consistent C T D w"
  unfolding consistent_def by blast

lemma charge_owner_live: "(s, c, a) \<in># charges w \<Longrightarrow> s \<in> set (references w)"
  by (auto simp: charges_def set_references res_charge_def acc_charge_def scope_refs_def set_bookkeepings)


section \<open>Dropping scopes\<close>

lemma kids_bound:
  assumes "ledger_ok l"
  shows "finite (kids l p)" "card (kids l p) < 2 ^ 64" "card (kids l p) \<le> unat (next_token l)"
proof -
  have sub: "kids l p \<subseteq> {..< next_token l}"
    using assms by (auto simp: kids_def ledger_ok_def parent_of_def bind_eq_Some_conv)
  have fin: "finite {..< next_token l}"
    by (rule finite)
  then show "finite (kids l p)" using sub by (rule rev_finite_subset)
  have "card (kids l p) \<le> card {..< next_token l}"
    using sub fin by (rule card_mono [rotated])
  also have "card {..< next_token l} = card (unat ` {..< next_token l})"
    by (rule card_image [symmetric]) (simp add: inj_on_def word_unat_eq_iff)
  also have "\<dots> \<le> card {..< unat (next_token l)}"
    by (rule card_mono) (auto simp: word_less_nat_alt)
  finally show le: "card (kids l p) \<le> unat (next_token l)" by simp
  have "unat (next_token l) < 2 ^ 64" by simp
  with le show "card (kids l p) < 2 ^ 64" by (rule order.strict_trans1)
qed

lemma ledger_okD:
  assumes "ledger_ok l"
  shows "tree (nodes l)" "\<And>t n. nodes l t = Some n \<Longrightarrow> t < next_token l \<and> policy_ok (node_policy n)"
    "\<And>p owner t. children l (p, owner) = Some t \<longleftrightarrow>
       (\<exists>n. nodes l t = Some n \<and> node_parent n = Some p \<and> node_owner n = owner)"
    "\<And>p. child_counts l p = (if kids l p = {} then None else Some (of_nat (card (kids l p))))"
  using assms by (simp_all add: ledger_ok_def)

lemma scope_drop_root:
  assumes "ledger_ok l" "nodes l (token s) = Some n" "node_parent n = None" "kids l (token s) = {}"
  shows "scope_drop s l = Inr (l\<lparr>nodes := (nodes l)(token s := None)\<rparr>)"
    "ledger_ok (l\<lparr>nodes := (nodes l)(token s := None)\<rparr>)"
proof -
  have par: "parent_of ((nodes l)(token s := None)) = parent_of (nodes l)"
    using assms(2,3) by (auto simp: parent_of_def fun_eq_iff)
  have "tree ((nodes l)(token s := None))"
    using ledger_okD(1) [OF assms(1)] assms(4) unfolding tree_def par by (auto simp: kids_def)
  then show "ledger_ok (l\<lparr>nodes := (nodes l)(token s := None)\<rparr>)"
    using assms(1-3) unfolding ledger_ok_def kids_def by (auto simp: par)
  show "scope_drop s l = Inr (l\<lparr>nodes := (nodes l)(token s := None)\<rparr>)"
    using assms(2,3) by (simp add: scope_drop_def Let_def)
qed


lemma kids_drop:
  "kids (l\<lparr>nodes := (nodes l)(t := None)\<rparr>) p = kids l p - {t}"
  by (auto simp: kids_def parent_of_def split: if_splits)

lemma minus_one_of_nat:
  assumes "Suc k < 2 ^ 64"
  shows "minus_or_panic (of_nat (Suc k) :: u64) 1 = Inr (of_nat k)" "(of_nat k :: u64) = 0 \<longleftrightarrow> k = 0"
proof -
  have unat: "unat (of_nat (Suc k) :: u64) = Suc k" "unat (of_nat k :: u64) = k"
    using assms by (simp_all only: unat_of_nat) simp_all
  then have "checked_sub (of_nat (Suc k) :: u64) 1 = Some (of_nat k)"
    unfolding checked_sub_Some_iff by simp
  then show "minus_or_panic (of_nat (Suc k) :: u64) 1 = Inr (of_nat k)"
    unfolding minus_or_panic_def by simp
  show "(of_nat k :: u64) = 0 \<longleftrightarrow> k = 0"
    using unat(2) by (simp add: word_unat_eq_iff)
qed

lemma of_nat_card_pred:
  assumes "finite A" "card A < 2 ^ 64" "t \<in> A"
  shows "minus_or_panic (of_nat (card A) :: u64) 1 = (Inr (of_nat (card (A - {t}))) :: ('e, u64) result)"
    "(of_nat (card (A - {t})) :: u64) = 0 \<longleftrightarrow> A - {t} = {}"
proof -
  have card: "card A = Suc (card (A - {t}))"
    using assms(1,3) by (rule card.remove)
  note pred = minus_one_of_nat [OF assms(2) [unfolded card]]
  show "minus_or_panic (of_nat (card A) :: u64) 1 = (Inr (of_nat (card (A - {t}))) :: ('e, u64) result)"
    unfolding card by (rule pred(1))
  show "(of_nat (card (A - {t})) :: u64) = 0 \<longleftrightarrow> A - {t} = {}"
    unfolding pred(2) using assms(1) by (simp only: card_0_eq finite_Diff)
qed

lemma scope_drop_child:
  assumes "ledger_ok l" "nodes l (token s) = Some n" "node_parent n = Some p" "node_owner n = scope_owner s"
    "kids l (token s) = {}"
  shows "\<exists>l'. scope_drop s l = Inr l' \<and> ledger_ok l' \<and> nodes l' = (nodes l)(token s := None)"
proof -
  let ?t = "token s"
  let ?K = "kids l p - {?t}"
  define l' where "l' = l\<lparr>nodes := (nodes l)(?t := None),
    children := (children l)((p, scope_owner s) := None),
    child_counts := (child_counts l)(p := if ?K = {} then None else Some (of_nat (card ?K)))\<rparr>"
  have t: "?t \<in> kids l p" using assms(2,3) by (simp add: kids_def parent_of_def)
  note bound = kids_bound [OF assms(1), of p]
  have count: "child_counts l p = Some (of_nat (card (kids l p)))"
    using ledger_okD(4) [OF assms(1), of p] t by auto
  have drop: "scope_drop s l = Inr l'"
    using assms(2,3) count of_nat_card_pred(1) [OF bound(1,2) t, where 'e = resource_budget_error]
      of_nat_card_pred(2) [OF bound(1,2) t] by (simp add: scope_drop_def Let_def l'_def)
  have par: "parent_of (nodes l') x = (if x = ?t then None else parent_of (nodes l) x)" for x
    by (simp add: l'_def parent_of_def)
  have kids: "kids l' q = (if q = p then ?K else kids l q)" for q
    using assms(2,3) parent_of_Some [where ns = "nodes l", OF assms(2)] by (auto simp: kids_def par split: if_splits)
  have "ledger_ok l'"
    unfolding ledger_ok_def
  proof (intro conjI allI impI)
    show "tree (nodes l')"
      using ledger_okD(1) [OF assms(1)] assms(5) unfolding tree_def par
      by (auto simp: kids_def l'_def split: if_splits)
    fix x m assume "nodes l' x = Some m"
    then show "x < next_token l'" "policy_ok (node_policy m)"
      using ledger_okD(2) [OF assms(1), of x m] by (auto simp: l'_def split: if_splits)
  next
    fix q owner x
    have unique: "x = ?t" if "nodes l x = Some m" "node_parent m = Some p" "node_owner m = scope_owner s" for m
      using that assms(2-4) ledger_okD(3) [OF assms(1), of p "scope_owner s"] by (metis option.inject)
    show "(children l' (q, owner) = Some x) = (\<exists>n. nodes l' x = Some n \<and> node_parent n = Some q \<and> node_owner n = owner)"
    proof (cases "(q, owner) = (p, scope_owner s)")
      case True
      then show ?thesis using unique by (auto simp: l'_def)
    next
      case False
      then show ?thesis
        using ledger_okD(3) [OF assms(1), of q owner x] assms(2-4) by (auto simp: l'_def)
    qed
  next
    fix q
    show "child_counts l' q = (if kids l' q = {} then None else Some (of_nat (card (kids l' q))))"
      using ledger_okD(4) [OF assms(1), of q] by (simp add: kids) (simp add: l'_def)
  qed
  with drop show ?thesis by (auto simp: l'_def)
qed

lemma scope_drop_outcome:
  assumes "ledger_ok l" "scope_ok (nodes l) s" "kids l (token s) = {}"
  shows "\<exists>l'. scope_drop s l = Inr l' \<and> ledger_ok l' \<and> nodes l' = (nodes l)(token s := None)"
proof -
  obtain n where n: "nodes l (token s) = Some n" "node_owner n = scope_owner s"
    using assms(2) by (auto simp: scope_ok_def)
  then show ?thesis
    using scope_drop_root [OF assms(1) n(1) _ assms(3)] scope_drop_child [OF assms(1) n(1) _ n(2) assms(3)]
    by (cases "node_parent n") auto
qed

lemma find_scope_SomeD: "find_scope t ss = Some s \<Longrightarrow> s \<in> set ss \<and> token s = t"
  by (auto simp: find_scope_def find_Some_iff)

lemma find_scope_live:
  assumes "scopes_ok ns ss" "ns t \<noteq> None"
  obtains s where "find_scope t ss = Some s" "s \<in> set ss" "token s = t"
proof -
  have "t \<in> token ` set ss" using assms by (auto simp: scopes_ok_def)
  then have "find_scope t ss \<noteq> None"
    by (auto simp: find_scope_def find_None_iff)
  then obtain s where "find_scope t ss = Some s" by blast
  with find_scope_SomeD [OF this] that show ?thesis by blast
qed

lemma scopes_ok_drop:
  assumes "scopes_ok ns ss" "\<And>s. s \<in> set ss \<Longrightarrow> token s \<noteq> t \<Longrightarrow> scope_ok (ns(t := None)) s"
  shows "scopes_ok (ns(t := None)) (filter (\<lambda>s. token s \<noteq> t) ss)"
  using assms by (auto simp: scopes_ok_def distinct_map inj_on_def)

lemma mset_map_filter_split:
  assumes "distinct (map token ss)" "s \<in> set ss"
  shows "mset (List.map_filter bookkeeping ss) =
    (case bookkeeping s of None \<Rightarrow> {#} | Some r \<Rightarrow> {#r#}) +
    mset (List.map_filter bookkeeping (filter (\<lambda>x. token x \<noteq> token s) ss))"
  using assms
proof (induction ss)
  case (Cons x ss)
  show ?case
  proof (cases "x = s")
    case True
    then have "token s \<notin> token ` set ss" using Cons.prems(1) by auto
    then have "filter (\<lambda>x. token x \<noteq> token s) ss = ss" by (intro filter_True) (auto simp: image_iff)
    with True show ?thesis by (auto simp: map_filter_simps split: option.splits)
  next
    case False
    with Cons show ?thesis by (auto simp: map_filter_simps split: option.splits)
  qed
qed simp


text \<open>One step of dropping an unreferenced scope.\<close>

definition drop_node :: "'a world \<Rightarrow> scope \<Rightarrow> ledger \<Rightarrow> 'a world" where
  "drop_node w s l = w\<lparr>world_ledger := l, scopes := filter (\<lambda>x. token x \<noteq> token s) (scopes w),
     held_reservations := (case bookkeeping s of None \<Rightarrow> [] | Some r \<Rightarrow> [r]) @ held_reservations w\<rparr>"

lemma unreferenced:
  assumes "consistent C T D w" "t \<notin> set (references w)"
  shows "kids (world_ledger w) t = {}" "(t, c, a) \<notin># charges w" "parent_of (nodes (world_ledger w)) x \<noteq> Some t"
proof -
  show par: "parent_of (nodes (world_ledger w)) x \<noteq> Some t" for x
  proof
    assume "parent_of (nodes (world_ledger w)) x = Some t"
    then obtain n where n: "nodes (world_ledger w) x = Some n" "node_parent n = Some t"
      by (auto simp: parent_of_def bind_eq_Some_conv)
    obtain s where "s \<in> set (scopes w)" "token s = x"
      using find_scope_live [OF consistentD(2) [OF assms(1)], of x] n(1) by auto
    with consistentD(2) [OF assms(1)] n have "scope_parent s = Some t" "s \<in> set (scopes w)"
      by (auto simp: scopes_ok_def scope_ok_def)
    with assms(2) show False by (auto simp: set_references scope_refs_def)
  qed
  then show "kids (world_ledger w) t = {}" by (auto simp: kids_def)
  show "(t, c, a) \<notin># charges w" using assms(2) charge_owner_live by blast
qed

lemma scope_refs_split:
  assumes "s \<in> set ss" "distinct (map token ss)"
  shows "scope_refs ss = scope_refs [s] \<union> scope_refs (filter (\<lambda>x. token x \<noteq> token s) ss)"
proof -
  have "(\<exists>x \<in> set ss. P x) \<longleftrightarrow> P s \<or> (\<exists>x \<in> set (filter (\<lambda>x. token x \<noteq> token s) ss). P x)" for P
    using assms by (auto simp: distinct_map inj_on_def)
  note split = this
  show ?thesis unfolding scope_refs_def split [of "\<lambda>s. scope_parent s = Some _ \<or> (\<exists>r. bookkeeping s = Some r \<and> res_scope r = _)"]
    by auto
qed

lemma scope_refs_single: "scope_ok ns s \<Longrightarrow> scope_refs [s] = set_option (scope_parent s)"
  by (auto simp: scope_refs_def scope_ok_def)

lemma drop_node_consistent:
  assumes "consistent {#} {token s} D w" "token s \<notin> set (references w)" "s \<in> set (scopes w)"
  shows "\<exists>l. scope_drop s (world_ledger w) = Inr l \<and>
    consistent {#} (set_option (scope_parent s)) D (drop_node w s l)"
proof -
  let ?ns = "nodes (world_ledger w)"
  let ?ns' = "?ns(token s := None)"
  note inv = consistentD [OF assms(1)]
  note free = unreferenced [OF assms(1,2)]
  have ok: "scope_ok ?ns x" if "x \<in> set (scopes w)" for x
    using inv(2) that by (simp add: scopes_ok_def)
  obtain l where l: "scope_drop s (world_ledger w) = Inr l" "ledger_ok l" "nodes l = ?ns'"
    using scope_drop_outcome [OF inv(1) ok [OF assms(3)] free(1)] by blast
  have charges: "charges (drop_node w s l) = charges w"
    using mset_map_filter_split [OF _ assms(3)] inv(2)
    by (auto simp: charges_def drop_node_def scopes_ok_def split: option.splits)
  have refs: "set (references (drop_node w s l)) \<subseteq> set (references w)"
    "set (references w) \<subseteq> set (references (drop_node w s l)) \<union> set_option (scope_parent s)"
    using scope_refs_split [OF assms(3)] scope_refs_single [OF ok [OF assms(3)]] inv(2) ok [OF assms(3)]
    by (auto simp: set_references drop_node_def scopes_ok_def scope_ok_def split: option.splits)
  have "consistent {#} (set_option (scope_parent s)) D (drop_node w s l)"
    unfolding consistent_def
  proof (intro conjI)
    have acc: "accounted ?ns' (charges w)"
      using inv(3) free(3,2) by (intro accounted_drop_node) auto
    show "ledger_ok (world_ledger (drop_node w s l))" by (simp add: drop_node_def l(2))
    have "scope_ok ?ns' x" if "x \<in> set (scopes w)" "token x \<noteq> token s" for x
      using ok [OF that(1)] that(2) by (auto simp: scope_ok_def)
    then show "scopes_ok (nodes (world_ledger (drop_node w s l))) (scopes (drop_node w s l))"
      using scopes_ok_drop [OF inv(2), of "token s"] by (simp add: drop_node_def l(3))
    show "accounted (nodes (world_ledger (drop_node w s l))) ({#} + charges (drop_node w s l))"
      using acc unfolding charges by (simp add: drop_node_def l(3))
    show "set (references (drop_node w s l)) \<union> fst ` set_mset {#} \<subseteq> dom (nodes (world_ledger (drop_node w s l)))"
      using refs(1) inv(4) assms(2) by (auto simp: l(3)) (auto simp: drop_node_def l(3))
    show "dom (nodes (world_ledger (drop_node w s l))) \<subseteq> set (references (drop_node w s l)) \<union> set_option (scope_parent s)"
      using refs(2) inv(6) by (auto simp: drop_node_def l(3))
    show "within D (nodes (world_ledger (drop_node w s l)))"
      using inv(7) by (auto simp: within_def drop_node_def l(3))
  qed
  with l(1) show ?thesis by blast
qed


lemma release_scope_outcome:
  assumes "consistent {#} {t} D w"
  shows "\<exists>l ss. release_scope t w = Some (Inr (), w\<lparr>world_ledger := l, scopes := ss\<rparr>) \<and>
    consistent {#} {} D (w\<lparr>world_ledger := l, scopes := ss\<rparr>)"
  using assms
proof (induction t arbitrary: w rule: less_induct)
  case (less t)
  have same: ?case if "release_scope t w = Some (Inr (), w)" "consistent {#} {} D w"
    using that by (intro exI [of _ "world_ledger w"] exI [of _ "scopes w"]) simp
  show ?case
  proof (cases "t \<in> set (references w)")
    case True
    then have "consistent {#} {} D w" using less.prems by (rule consistent_referenced [rotated])
    with True show ?thesis by (intro same) (simp add: release_scope.simps [of t])
  next
    case False
    note unref = False
    show ?thesis
    proof (cases "find_scope t (scopes w)")
      case None
      then have "t \<notin> dom (nodes (world_ledger w))"
        using find_scope_live [OF consistentD(2) [OF less.prems], of t] by auto
      then have "consistent {#} {} D w" using less.prems unfolding consistent_def by auto
      with None unref show ?thesis by (intro same) (simp add: release_scope.simps [of t])
    next
      case (Some s)
      then have s: "s \<in> set (scopes w)" "token s = t" by (simp_all add: find_scope_SomeD)
      obtain l where l: "scope_drop s (world_ledger w) = Inr l"
        "consistent {#} (set_option (scope_parent s)) D (drop_node w s l)"
        using drop_node_consistent [of s D w] less.prems unref s by auto
      have ok: "scope_ok (nodes (world_ledger w)) s"
        using consistentD(2) [OF less.prems] s(1) by (simp add: scopes_ok_def)
      have unfold: "release_scope t w =
        Option.bind (case scope_parent s of None \<Rightarrow> Some (Inr (), drop_node w s l) | Some p \<Rightarrow> release_scope p (drop_node w s l))
          (\<lambda>(res, w2). case res of Inl e \<Rightarrow> Some (Inl e, w2)
           | Inr _ \<Rightarrow> (case bookkeeping s of None \<Rightarrow> Some (Inr (), w2)
             | Some r \<Rightarrow> Option.bind (budget_subtract (res_scope r) (res_class r) (wide (res_amounts r))
                   (w2\<lparr>held_reservations := remove1 r (held_reservations w2)\<rparr>))
                 (\<lambda>(res, w3). case res of Inl e \<Rightarrow> Some (Inl e, w3) | Inr _ \<Rightarrow> release_scope (res_scope r) w3)))"
        unfolding drop_node_def s(2) using unref Some l(1) by (subst release_scope.simps) (simp add: Let_def)
      show ?thesis
      proof (cases "scope_parent s")
        case None
        then have "bookkeeping s = None" using ok by (auto simp: scope_ok_def)
        with None l(2) unfold show ?thesis
          by (auto simp: drop_node_def)
      next
        case (Some p)
        have "p < t"
          using Some ok s(2) consistentD(8) [OF less.prems] by (auto simp: scope_ok_def tree_def parent_of_def)
        note IH = less.IH [OF this]
        obtain l2 ss2 where w2: "release_scope p (drop_node w s l) = Some (Inr (), (drop_node w s l)\<lparr>world_ledger := l2, scopes := ss2\<rparr>)"
          "consistent {#} {} D ((drop_node w s l)\<lparr>world_ledger := l2, scopes := ss2\<rparr>)"
          using IH [of "drop_node w s l"] l(2) Some by auto
        show ?thesis
        proof (cases "bookkeeping s")
          case None
          with Some unfold w2 show ?thesis by (auto simp: drop_node_def)
        next
          case (Some r)
          have r: "res_scope r = p" using Some \<open>scope_parent s = Some p\<close> ok by (auto simp: scope_ok_def)
          define w3 where "w3 = w\<lparr>world_ledger := l2, scopes := ss2\<rparr>"
          have "consistent (add_mset (res_charge r) {#}) {p} D w3"
            using take_reservation [OF w2(2), of r] Some r by (simp add: drop_node_def w3_def)
          then obtain ns where ns: "budget_subtract p (res_class r) (wide (res_amounts r)) w3 = Some (Inr (), with_nodes w3 ns)"
            "consistent {#} {p} D (with_nodes w3 ns)"
            using budget_subtract_outcome unfolding res_charge_def r by blast
          from IH [OF ns(2)] obtain l4 ss4 where
            "release_scope p (with_nodes w3 ns) = Some (Inr (), w\<lparr>world_ledger := l4, scopes := ss4\<rparr>)"
            "consistent {#} {} D (w\<lparr>world_ledger := l4, scopes := ss4\<rparr>)"
            by (auto simp: w3_def)
          then show ?thesis
            using unfold w2(1) ns(1) \<open>scope_parent s = Some p\<close> Some r by (auto simp: drop_node_def w3_def)
        qed
      qed
    qed
  qed
qed



section \<open>Creating scopes\<close>

lemma bindB_simps:
  "m w = Some (Inr x, w') \<Longrightarrow> bindB m f w = f x w'"
  "m w = Some (Inl e, w') \<Longrightarrow> bindB m f w = Some (Inl e, w')"
  by (simp_all add: bindB_def)

lemma bindB_liftB [simp]:
  "bindB (liftB (Inr x)) f w = f x w" "bindB (liftB (Inl e)) f w = Some (Inl e, w)"
  by (simp_all add: bindB_def liftB_def)

lemma bindB_modifyB [simp]: "bindB (modifyB g) f w = f () (g w)"
  by (simp add: bindB_def modifyB_def)

lemma liftB_apply [simp]: "liftB res w = Some (res, w)"
  by (simp add: liftB_def)

lemma modifyB_apply [simp]: "modifyB g w = Some (Inr (), g w)"
  by (simp add: modifyB_def)

lemma bindB_deref: "find_scope t (scopes w) = Some s \<Longrightarrow> bindB (deref_scope t) f w = f s w"
  by (simp add: bindB_def deref_scope_def liftB_def)

lemma validate_dimensions_eq:
  "validate_dimensions p ds = Inr q \<longleftrightarrow>
     q = p \<and> (\<forall>d \<in> set ds. amount_values (control_reserve p) d < amount_values (limits p) d)"
proof (induction ds)
  case (Cons d ds)
  have "\<not> (amount_values (limits p) d = 0 \<or> amount_values (limits p) d \<le> amount_values (control_reserve p) d) \<longleftrightarrow>
    amount_values (control_reserve p) d < amount_values (limits p) d"
    by (auto simp: not_le)
  with Cons show ?case by auto
qed auto

lemma validate_dimensions_panics: "\<not> panics (validate_dimensions p ds)"
  by (induction ds) auto

lemma policy_validate_eq: "policy_validate p = Inr q \<longleftrightarrow> q = p \<and> policy_ok p"
  by (simp add: policy_validate_def validate_dimensions_eq policy_ok_def dimension_cases)

lemma policy_validate_cases:
  obtains "policy_ok p" "policy_validate p = Inr p" | e where "\<not> policy_ok p" "policy_validate p = Inl (Err e)"
proof (cases "policy_validate p")
  case (Inl f)
  then have "f \<noteq> Panic" "\<not> policy_ok p"
    using validate_dimensions_panics [of p ALL_DIMENSIONS] policy_validate_eq [of p p]
    by (auto simp: policy_validate_def panics_def)
  with Inl that show ?thesis by (cases f) auto
qed (use that policy_validate_eq in auto)

lemma ledger_ok_new_node:
  assumes "ledger_ok l" "nodes l self \<noteq> None" "policy_ok policy" "children l (self, owner) = None"
    "checked_add (next_token l) 1 = Some next_tok" "node_parent n = Some self" "node_owner n = owner" "node_policy n = policy"
    "cnt = (case child_counts l self of None \<Rightarrow> 0 | Some c \<Rightarrow> c)"
  shows "ledger_ok \<lparr>next_token = next_tok, nodes = (nodes l)(next_token l \<mapsto> n),
      children = (children l)((self, owner) \<mapsto> next_token l), child_counts = (child_counts l)(self \<mapsto> cnt + 1)\<rparr>"
    and "plus_or_panic cnt 1 = (Inr (cnt + 1) :: ('e, u64) result)"
    and "nodes l (next_token l) = None"
proof -
  let ?t = "next_token l"
  define l' where "l' = \<lparr>next_token = next_tok, nodes = (nodes l)(?t \<mapsto> n),
      children = (children l)((self, owner) \<mapsto> ?t), child_counts = (child_counts l)(self \<mapsto> cnt + 1)\<rparr>"
  have next_eq: "unat next_tok = Suc (unat ?t)"
    using assms(5) by (simp add: checked_add_Some_iff)
  show fresh: "nodes l ?t = None"
    using ledger_okD(2) [OF assms(1), of ?t] by (cases "nodes l ?t") auto
  have self: "self < ?t" using assms(2) ledger_okD(2) [OF assms(1), of self] by auto
  have par: "parent_of (nodes l') x = (if x = ?t then Some self else parent_of (nodes l) x)" for x
    using assms(6) by (simp add: parent_of_def l'_def)
  have kids: "kids l' q = (if q = self then insert ?t (kids l self) else kids l q)" for q
  proof -
    have "parent_of (nodes l) ?t = None" using fresh by (simp add: parent_of_def)
    then show ?thesis unfolding kids_def par by auto
  qed
  have notin: "?t \<notin> kids l self" using fresh by (simp add: kids_def parent_of_def)
  have cnt: "cnt = of_nat (card (kids l self))"
    using ledger_okD(4) [OF assms(1), of self] assms(9) by simp
  have "card (kids l self) \<le> unat ?t" by (rule kids_bound(3) [OF assms(1)])
  then have "Suc (card (kids l self)) < 2 ^ 64"
    using next_eq unat_u64_less [of next_tok] by simp
  then have "unat cnt = card (kids l self)"
    using cnt by (simp add: unat_of_nat)
  with \<open>Suc (card (kids l self)) < 2 ^ 64\<close> show "plus_or_panic cnt 1 = (Inr (cnt + 1) :: ('e, u64) result)"
    by (intro plus_or_panic_Inr) simp
  have "ledger_ok l'"
    unfolding ledger_ok_def
  proof (intro conjI allI impI)
    show "tree (nodes l')"
      using ledger_okD(1) [OF assms(1)] self assms(2) unfolding tree_def par
      by (auto simp: l'_def split: if_splits)
    fix x m assume "nodes l' x = Some m"
    then have "x = ?t \<and> m = n \<or> nodes l x = Some m" by (auto simp: l'_def split: if_splits)
    then show "x < next_token l'" "policy_ok (node_policy m)"
      using ledger_okD(2) [OF assms(1), of x m] next_eq assms(3,8)
      by (auto simp: l'_def word_less_nat_alt)
  next
    fix q o' x
    show "(children l' (q, o') = Some x) = (\<exists>m. nodes l' x = Some m \<and> node_parent m = Some q \<and> node_owner m = o')"
    proof (cases "(q, o') = (self, owner)")
      case True
      have "\<not> (\<exists>m. nodes l x = Some m \<and> node_parent m = Some self \<and> node_owner m = owner)"
        using assms(4) ledger_okD(3) [OF assms(1), of self owner x] by simp
      with True assms(6,7) show ?thesis by (auto simp: l'_def)
    next
      case False
      then show ?thesis
        using ledger_okD(3) [OF assms(1), of q o' x] fresh assms(6,7) by (auto simp: l'_def)
    qed
  next
    fix q
    show "child_counts l' q = (if kids l' q = {} then None else Some (of_nat (card (kids l' q))))"
      using ledger_okD(4) [OF assms(1), of q] notin kids_bound(1) [OF assms(1), of self] cnt
      by (simp add: kids) (simp add: l'_def add.commute)
  qed
  then show "ledger_ok \<lparr>next_token = next_tok, nodes = (nodes l)(next_token l \<mapsto> n),
      children = (children l)((self, owner) \<mapsto> next_token l), child_counts = (child_counts l)(self \<mapsto> cnt + 1)\<rparr>"
    unfolding l'_def .
qed


lemma consistent_new_scope:
  assumes "consistent {#} {} D w" "ledger_ok l" "nodes l = (nodes (world_ledger w))(t \<mapsto> n)"
    "nodes (world_ledger w) t = None" "nodes (world_ledger w) self \<noteq> None"
    "\<And>d. used n d = 0" "\<And>d. data_used n d = 0"
    "scope_ok (nodes l) s" "token s = t" "scope_parent s = Some self" "bookkeeping s = None"
  shows "consistent {#} {t} D (w\<lparr>world_ledger := l, scopes := s # scopes w\<rparr>)"
proof -
  let ?w' = "w\<lparr>world_ledger := l, scopes := s # scopes w\<rparr>"
  note inv = consistentD [OF assms(1)]
  have charges: "charges ?w' = charges w"
    using assms(11) by (simp add: charges_def map_filter_simps)
  have refs: "set (references ?w') = insert self (set (references w))"
    using assms(10,11) by (auto simp: set_references scope_refs_def)
  have "scope_ok (nodes l) x" if "scope_ok (nodes (world_ledger w)) x" for x
    using that assms(3,4) by (auto simp: scope_ok_def)
  then have scopes: "scopes_ok (nodes l) (s # scopes w)"
    using inv(2) assms(3,4,8,9) by (auto simp: scopes_ok_def)
  have acc: "accounted (nodes l) (charges w)"
    unfolding assms(3)
  proof (rule accounted_new_node)
    show "nodes (world_ledger w) s \<noteq> None" if "(s, c, a) \<in># charges w" for s c a
      using charge_owner_live [OF that] inv(4) by auto
  qed (use inv assms in auto)
  have "within D (nodes l)"
    using inv(7) assms(3,6,7) by (auto simp: within_def)
  with assms(2) scopes acc inv(4,6) assms(3,5) show ?thesis
    unfolding consistent_def charges refs by auto
qed

lemma budget_child_outcome:
  assumes "consistent {#} {} D w" "nodes (world_ledger w) self \<noteq> None"
  shows "(\<exists>e. budget_child self required knd ident policy w = Some (Inl (Err e), w)) \<or>
    (\<exists>t l ss. budget_child self required knd ident policy w = Some (Inr t, w\<lparr>world_ledger := l, scopes := ss\<rparr>) \<and>
      nodes l t \<noteq> None \<and> consistent {#} {t} D (w\<lparr>world_ledger := l, scopes := ss\<rparr>))"
proof -
  define l where "l = world_ledger w"
  define owner where "owner = \<lparr>owner_kind = knd, owner_id = ident\<rparr>"
  define cnt where "cnt = (case child_counts l self of None \<Rightarrow> 0 | Some c \<Rightarrow> c)"
  define n where "n = \<lparr>node_owner = owner, node_parent = Some self, node_policy = policy,
    used = (\<lambda>_. 0), data_used = (\<lambda>_. 0), peak = (\<lambda>_. 0)\<rparr>"
  obtain s where s: "find_scope self (scopes w) = Some s"
    using find_scope_live [OF consistentD(2) [OF assms(1)] assms(2)] .
  show ?thesis
  proof (cases "policy_ok policy \<and> owner_kind (scope_owner s) = required \<and> ident \<noteq> 0 \<and>
      intersection (limits policy) (limits (scope_policy s)) = limits policy \<and>
      children l (self, owner) = None \<and> ucast cnt < child_scope_capacity (scope_policy s) \<and>
      checked_add (next_token l) 1 \<noteq> None")
    case True
    then obtain next_tok where next_tok: "checked_add (next_token l) 1 = Some next_tok" by blast
    have pre: "policy_ok policy" "children l (self, owner) = None" using True by auto
    have n: "node_parent n = Some self" "node_owner n = owner" "node_policy n = policy" by (simp_all add: n_def)
    note ok = ledger_ok_new_node [OF consistentD(1) [OF assms(1), folded l_def] assms(2) [folded l_def] pre next_tok n cnt_def]
    let ?l' = "\<lparr>next_token = next_tok, nodes = (nodes l)(next_token l \<mapsto> n),
      children = (children l)((self, owner) \<mapsto> next_token l), child_counts = (child_counts l)(self \<mapsto> cnt + 1)\<rparr>"
    let ?s' = "\<lparr>token = next_token l, scope_owner = owner, scope_policy = policy, scope_parent = Some self, bookkeeping = None\<rparr>"
    have "budget_child self required knd ident policy w =
        Some (Inr (next_token l), w\<lparr>world_ledger := ?l', scopes := ?s' # scopes w\<rparr>)"
      using True ok(2) [where 'e = resource_budget_error] next_tok s policy_validate_eq [of policy policy]
      by (simp add: budget_child_def bindB_deref l_def [symmetric] owner_def [symmetric] cnt_def [symmetric]
          Let_def n_def not_le)
    moreover have "consistent {#} {next_token l} D (w\<lparr>world_ledger := ?l', scopes := ?s' # scopes w\<rparr>)"
      using assms(2) ok(1,3) by (intro consistent_new_scope [OF assms(1)]) (auto simp: l_def n_def scope_ok_def)
    ultimately show ?thesis
      by (intro disjI2 exI [of _ "next_token l"] exI [of _ ?l'] exI [of _ "?s' # scopes w"]) simp
  next
    case False
    with s show ?thesis
      by (cases rule: policy_validate_cases [of policy])
        (auto simp: budget_child_def bindB_deref l_def [symmetric] owner_def [symmetric] cnt_def [symmetric]
          Let_def not_le ensure_def)
  qed
qed


section \<open>Operations on reservations and accounts\<close>

lemma drop_reservation_outcome:
  assumes "consistent {#res_charge r#} {res_scope r} D w"
  shows "\<exists>l ss. drop_reservation r w = Some (Inr (), w\<lparr>world_ledger := l, scopes := ss\<rparr>) \<and>
    consistent {#} {} D (w\<lparr>world_ledger := l, scopes := ss\<rparr>)"
proof -
  obtain ns where ns: "budget_subtract (res_scope r) (res_class r) (wide (res_amounts r)) w = Some (Inr (), with_nodes w ns)"
    "consistent {#} {res_scope r} D (with_nodes w ns)"
    using budget_subtract_outcome assms unfolding res_charge_def by blast
  from release_scope_outcome [OF ns(2)] ns(1) show ?thesis
    by (auto simp: drop_reservation_def bindB_simps)
qed

lemma drop_account_outcome:
  assumes "consistent {#acc_charge a#} {acc_scope a} D w"
  shows "\<exists>l ss. drop_account a w = Some (Inr (), w\<lparr>world_ledger := l, scopes := ss\<rparr>) \<and>
    consistent {#} {} D (w\<lparr>world_ledger := l, scopes := ss\<rparr>)"
proof -
  obtain ns where ns: "budget_subtract (acc_scope a) (acc_class a) (memory_only (acc_bytes a)) w = Some (Inr (), with_nodes w ns)"
    "consistent {#} {acc_scope a} D (with_nodes w ns)"
    using budget_subtract_outcome assms unfolding acc_charge_def by blast
  from release_scope_outcome [OF ns(2)] ns(1) show ?thesis
    by (auto simp: drop_account_def bindB_simps)
qed

lemma try_reserve_outcome:
  assumes "consistent C T D w" "nodes (world_ledger w) t \<noteq> None"
  shows "(\<not> admits w t cls (wide amounts) True \<and> (\<exists>e. try_reserve t cls amounts w = Some (Inl (Err e), w))) \<or>
    (admits w t cls (wide amounts) True \<and>
     (\<exists>ns r. r = \<lparr>res_scope = t, res_class = cls, res_amounts = amounts\<rparr> \<and>
       try_reserve t cls amounts w = Some (Inr r, with_nodes w ns) \<and>
       consistent (add_mset (res_charge r) C) T D (with_nodes w ns)))"
  using budget_add_outcome [OF assms, of True "wide amounts" cls]
  by (auto simp: try_reserve_def bindB_simps res_charge_def)

lemma mset_map_filter_update:
  assumes "distinct (map token ss)" "s \<in> set ss" "bookkeeping s = None"
  shows "mset (List.map_filter bookkeeping (map (\<lambda>x. if token x = token s then x\<lparr>bookkeeping := Some r\<rparr> else x) ss)) =
    add_mset r (mset (List.map_filter bookkeeping ss))"
  using assms
proof (induction ss)
  case (Cons x ss)
  show ?case
  proof (cases "x = s")
    case True
    then have "token s \<notin> token ` set ss" using Cons.prems(1) by auto
    then have "map (\<lambda>x. if token x = token s then x\<lparr>bookkeeping := Some r\<rparr> else x) ss = ss"
      by (intro map_idI) (auto simp: image_iff)
    with True Cons.prems(3) show ?thesis by (simp add: map_filter_simps)
  next
    case False
    then have "token x \<noteq> token s" using Cons.prems(1,2) by auto
    with False Cons show ?thesis by (auto simp: map_filter_simps split: option.splits)
  qed
qed simp

lemma scopes_ok_map:
  assumes "scopes_ok ns ss" "\<And>x. token (f x) = token x" "\<And>x. x \<in> set ss \<Longrightarrow> scope_ok ns (f x)"
  shows "scopes_ok ns (map f ss)"
proof -
  have "token \<circ> f = token" using assms(2) by (simp add: fun_eq_iff)
  then show ?thesis using assms unfolding scopes_ok_def by (auto simp: image_image)
qed

lemma store_bookkeeping:
  assumes "consistent {#res_charge r#} {} D w" "s \<in> set (scopes w)" "bookkeeping s = None"
    "scope_parent s = Some (res_scope r)"
  shows "consistent {#} {} D (w\<lparr>scopes := map (\<lambda>x. if token x = token s then x\<lparr>bookkeeping := Some r\<rparr> else x) (scopes w)\<rparr>)"
proof -
  let ?upd = "\<lambda>x. if token x = token s then x\<lparr>bookkeeping := Some r\<rparr> else x"
  note inv = consistentD [OF assms(1)]
  have dist: "distinct (map token (scopes w))" using inv(2) by (simp add: scopes_ok_def)
  have only: "x = s" if "x \<in> set (scopes w)" "token x = token s" for x
    using dist that assms(2) by (auto simp: distinct_map inj_on_def)
  have refs: "scope_refs (map ?upd (scopes w)) = scope_refs (scopes w)"
  proof (rule set_eqI)
    fix p
    have "(scope_parent (?upd x) = Some p \<or> (\<exists>q. bookkeeping (?upd x) = Some q \<and> res_scope q = p)) \<longleftrightarrow>
        (scope_parent x = Some p \<or> (\<exists>q. bookkeeping x = Some q \<and> res_scope q = p))" if "x \<in> set (scopes w)" for x
      using only [OF that] assms(3,4) by (cases "token x = token s") auto
    then show "p \<in> scope_refs (map ?upd (scopes w)) \<longleftrightarrow> p \<in> scope_refs (scopes w)"
      unfolding scope_refs_def set_map mem_Collect_eq bex_simps by (intro bex_cong) auto
  qed
  have ok: "scope_ok (nodes (world_ledger w)) (?upd x)" if "x \<in> set (scopes w)" for x
    using that only [OF that] inv(2) assms(4) by (auto simp: scopes_ok_def scope_ok_def)
  show ?thesis
  proof (rule consistent_move [OF assms(1)])
    show "scopes_ok (nodes (world_ledger w)) (scopes (w\<lparr>scopes := map ?upd (scopes w)\<rparr>))"
      using scopes_ok_map [OF inv(2), of ?upd] ok by simp
    show "{#} + charges (w\<lparr>scopes := map ?upd (scopes w)\<rparr>) = {#res_charge r#} + charges w"
      using mset_map_filter_update [OF dist assms(2,3), of r] by (simp add: charges_def)
  qed (use inv in \<open>auto simp: set_references refs\<close>)
qed


lemma reserve_scope_bookkeeping_outcome:
  assumes "consistent {#} {} D w" "nodes (world_ledger w) t \<noteq> None"
  shows "\<exists>res l ss. reserve_scope_bookkeeping t w = Some (res, w\<lparr>world_ledger := l, scopes := ss\<rparr>) \<and> \<not> panics res \<and>
    consistent {#} {} D (w\<lparr>world_ledger := l, scopes := ss\<rparr>)"
proof -
  obtain s where s: "find_scope t (scopes w) = Some s" "s \<in> set (scopes w)" "token s = t"
    using find_scope_live [OF consistentD(2) [OF assms(1)] assms(2)] .
  have keep: ?thesis if "reserve_scope_bookkeeping t w = Some (res, w)" "\<not> panics res" for res
    using that assms(1) by (intro exI [of _ res] exI [of _ "world_ledger w"] exI [of _ "scopes w"]) simp
  show ?thesis
  proof (cases "owner_kind (scope_owner s) = Workspace \<and> bookkeeping s = None \<and>
      bookkeeping_bytes (scope_policy s) \<noteq> None \<and> scope_parent s \<noteq> None")
    case False
    then consider "owner_kind (scope_owner s) \<noteq> Workspace" | "owner_kind (scope_owner s) = Workspace" "bookkeeping s \<noteq> None"
      | "owner_kind (scope_owner s) = Workspace" "bookkeeping s = None" "bookkeeping_bytes (scope_policy s) = None"
      | "owner_kind (scope_owner s) = Workspace" "bookkeeping s = None" "bookkeeping_bytes (scope_policy s) \<noteq> None" "scope_parent s = None"
      by argo
    then show ?thesis
    proof cases
      case 1 then show ?thesis using s(1) by (intro keep [of "Inl (Err InvalidHierarchy)"]) (simp_all add: reserve_scope_bookkeeping_def bindB_deref)
    next
      case 2 then show ?thesis using s(1) by (intro keep [of "Inr ()"]) (auto simp: reserve_scope_bookkeeping_def bindB_deref)
    next
      case 3 then show ?thesis using s(1) by (intro keep [of "Inl (Err Overflow)"]) (simp_all add: reserve_scope_bookkeeping_def bindB_deref)
    next
      case 4 then show ?thesis using s(1)
        by (intro keep [of "Inl (Err InvalidHierarchy)"]) (auto simp: reserve_scope_bookkeeping_def bindB_deref)
    qed
  next
    case True
    then obtain bytes p where bp: "bookkeeping_bytes (scope_policy s) = Some bytes" "scope_parent s = Some p" by blast
    let ?a = "amount_default\<lparr>memory_bytes := bytes\<rparr>"
    let ?r = "\<lparr>res_scope = p, res_class = Data, res_amounts = ?a\<rparr>"
    have "p \<in> set (references w)" using s(2) bp(2) by (auto simp: set_references scope_refs_def)
    then have p: "nodes (world_ledger w) p \<noteq> None" using consistentD(4) [OF assms(1)] by auto
    have eq: "reserve_scope_bookkeeping t w = bindB (try_reserve p Data ?a) (\<lambda>r.
       modifyB (\<lambda>w. w\<lparr>scopes := map (\<lambda>s. if token s = t then s\<lparr>bookkeeping := Some r\<rparr> else s) (scopes w)\<rparr>)) w"
      using True bp s(1) by (simp add: reserve_scope_bookkeeping_def bindB_deref)
    from try_reserve_outcome [OF assms(1) p, of Data ?a] show ?thesis
    proof (elim disjE conjE exE)
      fix e assume "try_reserve p Data ?a w = Some (Inl (Err e), w)"
      then show ?thesis by (intro keep [of "Inl (Err e)"]) (simp_all add: eq bindB_simps)
    next
      fix ns r assume r: "r = ?r" "try_reserve p Data ?a w = Some (Inr r, with_nodes w ns)"
        "consistent (add_mset (res_charge r) {#}) {} D (with_nodes w ns)"
      let ?ss = "map (\<lambda>s. if token s = t then s\<lparr>bookkeeping := Some r\<rparr> else s) (scopes w)"
      have "consistent {#} {} D (w\<lparr>world_ledger := (world_ledger w)\<lparr>nodes := ns\<rparr>, scopes := ?ss\<rparr>)"
        using store_bookkeeping [OF r(3), of s] s(2,3) True bp(2) r(1) by simp
      moreover have "reserve_scope_bookkeeping t w =
          Some (Inr (), w\<lparr>world_ledger := (world_ledger w)\<lparr>nodes := ns\<rparr>, scopes := ?ss\<rparr>)"
        unfolding eq using r(2) by (simp add: bindB_simps)
      ultimately show ?thesis
        by (intro exI [of _ "Inr ()"] exI [of _ "(world_ledger w)\<lparr>nodes := ns\<rparr>"] exI [of _ ?ss]) simp
    qed
  qed
qed

lemma checked_values_eq:
  "checked_values f e a b ds v = Inr u \<Longrightarrow> distinct ds \<Longrightarrow>
     (\<forall>d \<in> set ds. f (amount_values a d) (amount_values b d) = Some (u d)) \<and> (\<forall>d. d \<notin> set ds \<longrightarrow> u d = v d)"
proof (induction ds arbitrary: v)
  case (Cons d ds)
  then obtain x where x: "f (amount_values a d) (amount_values b d) = Some x" "checked_values f e a b ds (v(d := x)) = Inr u"
    by auto
  from Cons.IH [OF x(2)] Cons.prems(2) x(1) show ?case by auto
qed simp

lemma checked_values_panics: "\<not> panics (checked_values f e a b ds v)"
  by (induction ds arbitrary: v) auto

lemma checked_values_all:
  "checked_values f e a b ALL_DIMENSIONS v = Inr u \<Longrightarrow> f (amount_values a d) (amount_values b d) = Some (u d)"
  using checked_values_eq [of f e a b ALL_DIMENSIONS v u] by (simp add: dimension_cases)

lemma amount_values_from [simp]: "amount_values (amount_from_values v) = v"
proof
  fix d show "amount_values (amount_from_values v) d = v d"
    by (cases d) (simp_all add: amount_from_values_def)
qed

lemma unat_wide [simp]: "unat (wide a d) = unat (amount_values a d)"
  by (simp add: wide_def)

end
