(* ===== verification/BudgetSafety.thy ===== *)
theory BudgetSafety
  imports BudgetAccounting
begin

text \<open>
  Every operation of the resource budget keeps its invariant and returns without a panic, and what
  follows for the programs that use the budget.
\<close>

section \<open>Splitting and merging charges\<close>

lemma accounted_cong:
  assumes "\<And>sel par x d. due sel par cs x d = due sel par cs' x d"
  shows "accounted ns cs \<longleftrightarrow> accounted ns cs'"
  unfolding accounted_def assms ..

lemma consistent_merge:
  "consistent (add_mset (t, c, a) (add_mset (t, c, b) C)) T D w \<longleftrightarrow>
   consistent (add_mset (t, c, \<lambda>d. a d + b d) C) T D w"
proof -
  have "accounted ns (add_mset (t, c, a) (add_mset (t, c, b) C) + cs) \<longleftrightarrow>
      accounted ns (add_mset (t, c, \<lambda>d. a d + b d) C + cs)" for ns cs
    by (rule accounted_cong) simp
  then show ?thesis unfolding consistent_def by auto
qed

lemma consistent_zero:
  assumes "nodes (world_ledger w) t \<noteq> None" "\<And>d. a d = 0"
  shows "consistent (add_mset (t, c, a) C) T D w \<longleftrightarrow> consistent C T D w"
proof -
  have "accounted ns (add_mset (t, c, a) C + cs) \<longleftrightarrow> accounted ns (C + cs)" for ns cs
    by (rule accounted_cong) (simp add: assms(2))
  then show ?thesis using assms(1) unfolding consistent_def by auto
qed

lemma consistent_split_reservation:
  assumes "\<And>d. unat (amount_values (res_amounts r) d) = unat (amount_values a d) + unat (amount_values b d)"
  shows "consistent (add_mset (res_charge r) C) T D w \<longleftrightarrow>
    consistent (add_mset (res_charge (r\<lparr>res_amounts := a\<rparr>)) (add_mset (res_charge (r\<lparr>res_amounts := b\<rparr>)) C)) T D w"
  unfolding res_charge_def using assms by (simp add: consistent_merge)

lemma charge_le_used:
  assumes "consistent C T D w" "(t, c, a) \<in># charges w" "nodes (world_ledger w) t = Some n"
  shows "a d \<le> unat (used n d)"
proof -
  obtain cs where cs: "charges w = add_mset (t, c, a) cs"
    using assms(2) by (metis insert_DiffM)
  show ?thesis
    using accountedD(1) [OF consistentD(3) [OF assms(1)] assms(3), of d] by (simp add: cs)
qed

lemma budget_subtract_ledger:
  assumes "world_ledger w = world_ledger w'" "budget_subtract t cls a w' = Some (Inr (), with_nodes w' ns)"
  shows "budget_subtract t cls a w = Some (Inr (), with_nodes w ns)"
proof -
  obtain res where res: "release_lineage cls a (nodes (world_ledger w')) t = Some res"
    using assms(2) by (auto simp: budget_subtract_def on_nodes_def bind_eq_Some_conv)
  then obtain ns' where ns': "res = Inr ns'"
    using assms(2) by (cases res) (auto simp: budget_subtract_def on_nodes_def)
  have "with_nodes w' ns' = with_nodes w' ns"
    using assms(2) res ns' by (simp add: budget_subtract_def on_nodes_def)
  then have "nodes (world_ledger (with_nodes w' ns')) = nodes (world_ledger (with_nodes w' ns))"
    by (rule arg_cong)
  then have "ns' = ns" by simp
  with res ns' assms(1) show ?thesis by (simp add: budget_subtract_def on_nodes_def)
qed


section \<open>Charged allocations\<close>

definition slice_ok :: "'a charged_backing list \<Rightarrow> charged_slice \<Rightarrow> bool" where
  "slice_ok bs v \<longleftrightarrow> slice_start v \<le> slice_end v \<and>
     (\<forall>b \<in> set bs. address b = slice_backing v \<longrightarrow> unat (slice_end v) \<le> length (items (backing_value b)))"

definition held_addresses :: "'a world \<Rightarrow> nat set" where
  "held_addresses w = set (held_values w) \<union> slice_backing ` set (held_slices w)"

text \<open>The allocations \<open>A\<close> may have lost their last reference.\<close>

definition heap_ok :: "nat set \<Rightarrow> 'a world \<Rightarrow> bool" where
  "heap_ok A w \<longleftrightarrow> distinct (map address (backings w)) \<and> (\<forall>b \<in> set (backings w). address b < next_address w) \<and>
     held_addresses w \<subseteq> address ` set (backings w) \<and>
     address ` set (backings w) \<subseteq> held_addresses w \<union> A \<and>
     (\<forall>v \<in> set (held_slices w). slice_ok (backings w) v)"

lemma heap_ok_frame [simp]:
  "heap_ok A (w\<lparr>world_ledger := l\<rparr>) = heap_ok A w" "heap_ok A (w\<lparr>scopes := ss\<rparr>) = heap_ok A w"
  "heap_ok A (w\<lparr>held_budgets := bs\<rparr>) = heap_ok A w" "heap_ok A (w\<lparr>held_reservations := rs\<rparr>) = heap_ok A w"
  "heap_ok A (w\<lparr>held_accounts := as\<rparr>) = heap_ok A w"
  by (simp_all add: heap_ok_def held_addresses_def)

definition sound :: "resource_dimension set \<Rightarrow> 'a world \<Rightarrow> bool" where
  "sound D w \<longleftrightarrow> consistent {#} {} D w \<and> heap_ok {} w"

lemma put_backing:
  assumes "consistent (add_mset (res_charge r) C) T D w"
  shows "consistent C (T - {res_scope r}) D
    (w\<lparr>backings := \<lparr>address = n, backing_value = v, backing_reservation = r\<rparr> # backings w, next_address := m\<rparr>)"
  using consistentD(2,4,5) [OF assms]
  by (intro consistent_move [OF assms]) (auto simp: charges_def set_references res_charge_def)

lemma take_backing:
  assumes "consistent C T D w" "b \<in> set (backings w)" "distinct (map address (backings w))"
  shows "consistent (add_mset (res_charge (backing_reservation b)) C) (insert (res_scope (backing_reservation b)) T) D
    (w\<lparr>backings := filter (\<lambda>x. address x \<noteq> address b) (backings w)\<rparr>)"
proof -
  let ?bs = "filter (\<lambda>x. address x \<noteq> address b) (backings w)"
  have split: "mset xs = add_mset b (mset (filter (\<lambda>x. address x \<noteq> address b) xs))"
    if "b \<in> set xs" "distinct (map address xs)" for xs
    using that
  proof (induction xs)
    case (Cons x xs)
    show ?case
    proof (cases "x = b")
      case True
      then have "address b \<notin> address ` set xs" using Cons.prems(2) by auto
      then have "filter (\<lambda>x. address x \<noteq> address b) xs = xs" by (intro filter_True) (auto simp: image_iff)
      with True show ?thesis by simp
    next
      case False
      then have "address x \<noteq> address b" using Cons.prems by auto
      with False Cons show ?thesis by simp
    qed
  qed simp
  have refs: "set (backings w) = insert b (set ?bs)"
    using assms(2,3) by (auto simp: distinct_map inj_on_def)
  show ?thesis
  proof (rule consistent_move [OF assms(1)])
    show "add_mset (res_charge (backing_reservation b)) C + charges (w\<lparr>backings := ?bs\<rparr>) = C + charges w"
      using arg_cong [OF split [OF assms(2,3)], of "image_mset (\<lambda>b. res_charge (backing_reservation b))"]
      by (simp add: charges_def)
    show "fst ` set_mset (add_mset (res_charge (backing_reservation b)) C) \<subseteq> dom (nodes (world_ledger w))"
      using consistentD(4,5) [OF assms(1)] assms(2) by (auto simp: res_charge_def set_references)
    show "scopes_ok (nodes (world_ledger w)) (scopes (w\<lparr>backings := ?bs\<rparr>))"
      using consistentD(2) [OF assms(1)] by simp
    show "set (references w) \<union> T \<subseteq> set (references (w\<lparr>backings := ?bs\<rparr>)) \<union> insert (res_scope (backing_reservation b)) T"
      using refs by (auto simp: set_references)
    show "set (references (w\<lparr>backings := ?bs\<rparr>)) \<subseteq> dom (nodes (world_ledger w))"
      using consistentD(4) [OF assms(1)] by (auto simp: set_references)
  qed simp
qed



section \<open>Every operation keeps the invariant\<close>

text \<open>The computation returns without a panic, and the invariant holds afterwards.\<close>

definition settles :: "resource_dimension set \<Rightarrow> ('a, 'b) budget_prog \<Rightarrow> 'a world \<Rightarrow> bool" where
  "settles D m w \<longleftrightarrow> (\<exists>res w'. m w = Some (res, w') \<and> \<not> panics res \<and> sound D w')"

lemma settlesI: "m w = Some (res, w') \<Longrightarrow> \<not> panics res \<Longrightarrow> consistent {#} {} D w' \<Longrightarrow> heap_ok {} w' \<Longrightarrow> settles D m w"
  by (auto simp: settles_def sound_def)

lemma settles_Inr:
  fixes m :: "('a, unit) budget_prog"
  shows "consistent {#} {} D w' \<Longrightarrow> heap_ok {} w' \<Longrightarrow> m w = Some (Inr (), w') \<Longrightarrow> settles D m w"
  by (auto simp: settles_def sound_def)

lemma settles_Err: "sound D w' \<Longrightarrow> m w = Some (Inl (Err e), w') \<Longrightarrow> settles D m w"
  by (auto simp: settles_def)

lemma sound_budget_live: "sound D w \<Longrightarrow> t \<in> set (held_budgets w) \<Longrightarrow> nodes (world_ledger w) t \<noteq> None"
  unfolding sound_def using consistentD(4) [of "{#}" "{}" D w] by (auto simp: set_references)

lemma sound_reservation_live:
  "sound D w \<Longrightarrow> r \<in> set (held_reservations w) \<Longrightarrow> nodes (world_ledger w) (res_scope r) \<noteq> None"
  unfolding sound_def using consistentD(4) [of "{#}" "{}" D w] by (auto simp: set_references)

lemma sound_account_live:
  "sound D w \<Longrightarrow> a \<in> set (held_accounts w) \<Longrightarrow> nodes (world_ledger w) (acc_scope a) \<noteq> None"
  unfolding sound_def using consistentD(4) [of "{#}" "{}" D w] by (auto simp: set_references)

lemma create_settles:
  assumes "sound D w" "t \<in> set (held_budgets w)"
  shows "settles D (bindB (budget_child t required knd ident policy) store_budget) w"
proof -
  have con: "consistent {#} {} D w" "heap_ok {} w" using assms(1) by (simp_all add: sound_def)
  from budget_child_outcome [OF con(1) sound_budget_live [OF assms], of required knd ident policy] show ?thesis
  proof (elim disjE exE conjE)
    fix e assume "budget_child t required knd ident policy w = Some (Inl (Err e), w)"
    then show ?thesis by (intro settles_Err [OF assms(1)]) (simp add: bindB_simps)
  next
    fix t' l ss
    assume child: "budget_child t required knd ident policy w = Some (Inr t', w\<lparr>world_ledger := l, scopes := ss\<rparr>)"
      "nodes l t' \<noteq> None" "consistent {#} {t'} D (w\<lparr>world_ledger := l, scopes := ss\<rparr>)"
    then show ?thesis
      using put_budget [OF child(3), of t'] con(2)
      by (intro settles_Inr [where w' = "w\<lparr>world_ledger := l, scopes := ss, held_budgets := t' # held_budgets w\<rparr>"])
        (simp_all add: bindB_simps store_budget_def)
  qed
qed

lemma clone_budget_settles:
  assumes "sound D w" "t \<in> set (held_budgets w)"
  shows "settles D (store_budget t) w"
  using assms put_budget [OF _ sound_budget_live [OF assms], of "{#}" "{}" D]
  by (intro settles_Inr [where w' = "w\<lparr>held_budgets := t # held_budgets w\<rparr>"]) (auto simp: store_budget_def sound_def)

lemma drop_budget_settles:
  assumes "sound D w" "t \<in> set (held_budgets w)"
  shows "settles D (perform (DropBudget t)) w"
proof -
  let ?w = "w\<lparr>held_budgets := remove1 t (held_budgets w)\<rparr>"
  have con: "consistent {#} {} D w" "heap_ok {} w" using assms(1) by (simp_all add: sound_def)
  obtain l ss where eq: "release_scope t ?w = Some (Inr (), ?w\<lparr>world_ledger := l, scopes := ss\<rparr>)"
    and "consistent {#} {} D (?w\<lparr>world_ledger := l, scopes := ss\<rparr>)"
    using release_scope_outcome [OF take_budget [OF con(1) assms(2)]] by blast
  from settles_Inr [OF this(2)] eq con(2) show ?thesis by simp
qed

lemma bookkeeping_settles:
  assumes "sound D w" "t \<in> set (held_budgets w)"
  shows "settles D (reserve_scope_bookkeeping t) w"
proof -
  have con: "consistent {#} {} D w" "heap_ok {} w" using assms(1) by (simp_all add: sound_def)
  from reserve_scope_bookkeeping_outcome [OF con(1) sound_budget_live [OF assms]] con(2) show ?thesis
    by (auto simp: settles_def sound_def)
qed

lemma reserve_settles:
  assumes "sound D w" "t \<in> set (held_budgets w)"
  shows "settles D (bindB (try_reserve t cls amounts) store_reservation) w"
proof -
  have con: "consistent {#} {} D w" "heap_ok {} w" using assms(1) by (simp_all add: sound_def)
  from try_reserve_outcome [OF con(1) sound_budget_live [OF assms], of cls amounts] show ?thesis
  proof (elim disjE exE conjE)
    fix e assume "try_reserve t cls amounts w = Some (Inl (Err e), w)"
    then show ?thesis by (intro settles_Err [OF assms(1)]) (simp add: bindB_simps)
  next
    fix ns r
    assume r: "try_reserve t cls amounts w = Some (Inr r, with_nodes w ns)"
      "consistent {#res_charge r#} {} D (with_nodes w ns)"
    then show ?thesis
      using settles_Inr [OF put_reservation [OF r(2), simplified]] con(2)
      by (simp add: bindB_simps store_reservation_def)
  qed
qed

lemma replace_consistent:
  fixes w :: "'a world"
  assumes "consistent C T D w" "r \<in> set (held_reservations w)"
    "\<And>T (w :: 'a world). consistent (add_mset (res_charge r) C) T D w \<longleftrightarrow> consistent (add_mset (res_charge r') C') T D w"
    "res_scope r' = res_scope r"
  shows "consistent C' (T - {res_scope r}) D (w\<lparr>held_reservations := r' # remove1 r (held_reservations w)\<rparr>)"
  using put_reservation [OF iffD1 [OF assms(3) take_reservation [OF assms(1,2)]]] assms(4) by simp

lemma grow_settles:
  assumes "sound D w" "r \<in> set (held_reservations w)"
  shows "settles D (bindB (reservation_try_grow r extra) (\<lambda>r'. replace_reservation r [r'])) w"
proof -
  have con: "consistent {#} {} D w" "heap_ok {} w" using assms(1) by (simp_all add: sound_def)
  let ?v = "checked_values checked_add Overflow (res_amounts r) extra ALL_DIMENSIONS (\<lambda>_. 0)"
  have keep: ?thesis if "bindB (reservation_try_grow r extra) (\<lambda>r'. replace_reservation r [r']) w = Some (Inl (Err e), w)" for e
    using assms(1) that by (rule settles_Err)
  show ?thesis
  proof (cases ?v)
    case (Inl f)
    then obtain e where "f = Err e"
      using checked_values_panics [of checked_add Overflow "res_amounts r" extra ALL_DIMENSIONS "\<lambda>_. 0"]
      by (cases f) (auto simp: panics_def)
    with Inl show ?thesis by (intro keep [of e]) (simp add: reservation_try_grow_def bindB_simps)
  next
    case (Inr v)
    let ?r' = "r\<lparr>res_amounts := amount_from_values v\<rparr>"
    have v: "unat (amount_values (res_amounts ?r') d) = unat (amount_values (res_amounts r) d) + unat (amount_values extra d)" for d
      using checked_values_all [OF Inr, of d] by (simp add: checked_add_Some_iff)
    from budget_add_outcome [OF con(1) sound_reservation_live [OF assms] disjI1 [OF TrueI], of "res_class r" "wide extra"] show ?thesis
    proof (elim disjE exE conjE)
      fix e assume "budget_add (res_scope r) (res_class r) (wide extra) True w = Some (Inl (Err e), w)"
      with Inr show ?thesis by (intro keep [of e]) (simp add: reservation_try_grow_def bindB_simps)
    next
      fix ns assume add: "budget_add (res_scope r) (res_class r) (wide extra) True w = Some (Inr (), with_nodes w ns)"
        "consistent {#(res_scope r, res_class r, \<lambda>d. unat (wide extra d))#} {} D (with_nodes w ns)"
      have "consistent {#} ({} - {res_scope r}) D
          ((with_nodes w ns)\<lparr>held_reservations := ?r' # remove1 r (held_reservations (with_nodes w ns))\<rparr>)"
        using add(2)
      proof (rule replace_consistent)
        show "consistent (add_mset (res_charge r) {#(res_scope r, res_class r, \<lambda>d. unat (wide extra d))#}) T D w \<longleftrightarrow>
            consistent {#res_charge ?r'#} T D w" for T and w :: "'a world"
          using v unfolding res_charge_def by (simp add: consistent_merge)
      qed (use assms(2) in simp_all)
      from settles_Inr [OF this [simplified]] show ?thesis
        using Inr add(1) con(2) by (simp add: reservation_try_grow_def bindB_simps replace_reservation_def)
    qed
  qed
qed


lemma checked_values_Err:
  assumes "checked_values f e a b ds v = Inl g"
  obtains e' where "g = Err e'"
  using assms checked_values_panics [of f e a b ds v] by (cases g) (auto simp: panics_def)

lemma shrink_settles:
  assumes "sound D w" "r \<in> set (held_reservations w)"
  shows "settles D (bindB (reservation_shrink r freed) (\<lambda>r'. replace_reservation r [r'])) w"
proof (cases "checked_values checked_sub InvalidShrink (res_amounts r) freed ALL_DIMENSIONS (\<lambda>_. 0)")
  case (Inl f)
  then obtain e where "f = Err e" by (rule checked_values_Err)
  with Inl show ?thesis by (intro settles_Err [OF assms(1), of _ _ e]) (simp add: reservation_shrink_def bindB_simps)
next
  case (Inr v)
  have con: "consistent {#} {} D w" "heap_ok {} w" using assms(1) by (simp_all add: sound_def)
  let ?r' = "r\<lparr>res_amounts := amount_from_values v\<rparr>"
  let ?w' = "w\<lparr>held_reservations := ?r' # remove1 r (held_reservations w)\<rparr>"
  have v: "unat (amount_values (res_amounts r) d) = unat (amount_values (res_amounts ?r') d) + unat (amount_values freed d)" for d
    using checked_values_all [OF Inr, of d] by (simp add: checked_sub_Some_iff)
  have "consistent {#(res_scope r, res_class r, \<lambda>d. unat (wide freed d))#} ({} - {res_scope r}) D ?w'"
    using con(1) assms(2)
  proof (rule replace_consistent)
    show "consistent {#res_charge r#} T D w \<longleftrightarrow>
        consistent {#res_charge ?r', (res_scope r, res_class r, \<lambda>d. unat (wide freed d))#} T D w" for T and w :: "'a world"
      using v unfolding res_charge_def by (simp add: consistent_merge)
  qed simp
  then have "consistent {#(res_scope r, res_class r, \<lambda>d. unat (wide freed d))#} {} D ?w'" by simp
  from budget_subtract_outcome [OF this] obtain ns where
    ns: "budget_subtract (res_scope r) (res_class r) (wide freed) ?w' = Some (Inr (), with_nodes ?w' ns)"
      "consistent {#} {} D (with_nodes ?w' ns)"
    by blast
  have "budget_subtract (res_scope r) (res_class r) (wide freed) w = Some (Inr (), with_nodes w ns)"
    using budget_subtract_ledger [of w ?w' "res_scope r" "res_class r" "wide freed" ns] ns(1) by simp
  with settles_Inr [OF ns(2)] Inr con(2) show ?thesis
    by (simp add: reservation_shrink_def bindB_simps replace_reservation_def)
qed

lemma split_settles:
  assumes "sound D w" "r \<in> set (held_reservations w)"
  shows "settles D (perform (SplitReservation r amounts)) w"
proof (cases "checked_values checked_sub InvalidShrink (res_amounts r) amounts ALL_DIMENSIONS (\<lambda>_. 0)")
  case (Inl f)
  then obtain e where "f = Err e" by (rule checked_values_Err)
  with Inl show ?thesis by (intro settles_Err [OF assms(1), of _ _ e]) (simp add: reservation_split_def)
next
  case (Inr v)
  have con: "consistent {#} {} D w" "heap_ok {} w" using assms(1) by (simp_all add: sound_def)
  let ?a = "amount_from_values v"
  have v: "unat (amount_values (res_amounts r) d) = unat (amount_values ?a d) + unat (amount_values amounts d)" for d
    using checked_values_all [OF Inr, of d] by (simp add: checked_sub_Some_iff)
  let ?w = "w\<lparr>held_reservations := remove1 r (held_reservations w)\<rparr>"
  have "consistent {#res_charge (r\<lparr>res_amounts := ?a\<rparr>), res_charge (r\<lparr>res_amounts := amounts\<rparr>)#} {res_scope r} D ?w"
    using take_reservation [OF con(1) assms(2)] unfolding consistent_split_reservation [OF v] .
  then have "consistent {#res_charge (r\<lparr>res_amounts := ?a\<rparr>)#} {} D
      (?w\<lparr>held_reservations := r\<lparr>res_amounts := amounts\<rparr> # held_reservations ?w\<rparr>)"
    using put_reservation [of "r\<lparr>res_amounts := amounts\<rparr>" "{#res_charge (r\<lparr>res_amounts := ?a\<rparr>)#}" "{res_scope r}" D ?w]
    by (simp add: add_mset_commute)
  from settles_Inr [OF put_reservation [OF this, simplified]] Inr con(2) show ?thesis
    by (cases r) (simp add: reservation_split_def replace_reservation_def)
qed

lemma drop_reservation_settles:
  assumes "sound D w" "r \<in> set (held_reservations w)"
  shows "settles D (perform (DropReservation r)) w"
proof -
  have con: "consistent {#} {} D w" "heap_ok {} w" using assms(1) by (simp_all add: sound_def)
  from drop_reservation_outcome [OF take_reservation [OF con(1) assms(2)]] con(2) show ?thesis
    by (auto simp: settles_def sound_def replace_reservation_def)
qed

lemma into_native_settles:
  assumes "sound D w" "r \<in> set (held_reservations w)"
  shows "settles D (perform (IntoNative r)) w"
proof -
  have con: "consistent {#} {} D w" "heap_ok {} w" using assms(1) by (simp_all add: sound_def)
  let ?w = "w\<lparr>held_reservations := remove1 r (held_reservations w)\<rparr>"
  note taken = take_reservation [OF con(1) assms(2)]
  show ?thesis
  proof (cases "list_ex (\<lambda>d. amount_values (res_amounts r) d \<noteq> 0) (tl ALL_DIMENSIONS)")
    case True
    with drop_reservation_outcome [OF taken] con(2) show ?thesis
      by (auto simp: settles_def sound_def replace_reservation_def into_native_memory_account_def bindB_simps)
  next
    case False
    let ?acc = "\<lparr>acc_scope = res_scope r, acc_class = res_class r, acc_bytes = ucast (memory_bytes (res_amounts r))\<rparr>"
    let ?r0 = "r\<lparr>res_amounts := (res_amounts r)\<lparr>memory_bytes := 0\<rparr>\<rparr>"
    let ?w' = "?w\<lparr>held_accounts := ?acc # held_accounts w\<rparr>"
    have zero: "amount_values (res_amounts r) d = 0" if "d \<noteq> MemoryBytes" for d
      using False that by (cases d) (auto simp: ALL_DIMENSIONS_def)
    have charge: "res_charge r = acc_charge ?acc"
      unfolding res_charge_def acc_charge_def prod.inject
    proof (intro conjI ext)
      show "unat (wide (res_amounts r) d) = unat (memory_only (acc_bytes ?acc) d)" for d
        by (cases "d = MemoryBytes") (simp_all add: memory_only_def zero)
    qed simp_all
    have none: "amount_values (res_amounts ?r0) d = 0" for d
      using zero [of d] by (cases d) auto
    have con': "consistent {#} {} D ?w'"
      using put_account [of ?acc "{#}" "{res_scope r}" D ?w] taken charge by simp
    moreover have "nodes (world_ledger ?w') (res_scope ?r0) \<noteq> None"
      using sound_reservation_live [OF assms] by simp
    ultimately have "consistent {#res_charge ?r0#} {} D ?w'"
      unfolding res_charge_def using none by (subst consistent_zero) simp_all
    then have "consistent {#res_charge ?r0#} {res_scope ?r0} D ?w'"
      by (rule consistent_weaken) simp
    with drop_reservation_outcome [OF this] con(2) False show ?thesis
      by (auto simp: settles_def sound_def replace_reservation_def into_native_memory_account_def)
  qed
qed


text \<open>Allocating: the new address is fresh.\<close>

lemma heap_ok_new_backing:
  assumes "heap_ok {} w"
  shows "heap_ok {next_address w} (w\<lparr>backings := \<lparr>address = next_address w, backing_value = v, backing_reservation = r\<rparr> # backings w,
    next_address := Suc (next_address w)\<rparr>)"
proof -
  have fresh: "next_address w \<notin> address ` set (backings w)"
    using assms by (auto simp: heap_ok_def)
  have "slice_backing u \<noteq> next_address w" if "u \<in> set (held_slices w)" for u
  proof -
    have "slice_backing u \<in> address ` set (backings w)"
      using that assms unfolding heap_ok_def held_addresses_def by blast
    with fresh show ?thesis by auto
  qed
  with fresh assms show ?thesis
    by (auto simp: heap_ok_def held_addresses_def slice_ok_def less_Suc_eq)
qed

lemma heap_ok_hold_value:
  "heap_ok A w \<Longrightarrow> n \<in> address ` set (backings w) \<Longrightarrow> heap_ok (A - {n}) (w\<lparr>held_values := n # held_values w\<rparr>)"
  by (auto simp: heap_ok_def held_addresses_def)

lemma heap_ok_hold_slice:
  "heap_ok A w \<Longrightarrow> slice_backing v \<in> address ` set (backings w) \<Longrightarrow> slice_ok (backings w) v \<Longrightarrow>
    heap_ok (A - {slice_backing v}) (w\<lparr>held_slices := v # held_slices w\<rparr>)"
  by (auto simp: heap_ok_def held_addresses_def)

lemma consistent_frame [simp]:
  "consistent C T D (w\<lparr>held_values := vs\<rparr>) = consistent C T D w"
  "consistent C T D (w\<lparr>held_slices := us\<rparr>) = consistent C T D w"
proof -
  have "charges (w\<lparr>held_values := vs\<rparr>) = charges w" "references (w\<lparr>held_values := vs\<rparr>) = references w"
    "charges (w\<lparr>held_slices := us\<rparr>) = charges w" "references (w\<lparr>held_slices := us\<rparr>) = references w"
    by (simp_all add: charges_def references_def)
  then show "consistent C T D (w\<lparr>held_values := vs\<rparr>) = consistent C T D w"
    "consistent C T D (w\<lparr>held_slices := us\<rparr>) = consistent C T D w"
    by (simp_all add: consistent_def)
qed

lemma into_value_settles:
  assumes "sound D w" "r \<in> set (held_reservations w)"
  shows "settles D (perform (IntoValue r v)) w"
proof -
  have con: "consistent {#} {} D w" "heap_ok {} w" using assms(1) by (simp_all add: sound_def)
  let ?w = "w\<lparr>held_reservations := remove1 r (held_reservations w)\<rparr>"
  let ?b = "\<lparr>address = next_address w, backing_value = v, backing_reservation = r\<rparr>"
  let ?w' = "?w\<lparr>backings := ?b # backings w, next_address := Suc (next_address w)\<rparr>"
  have "consistent {#} {} D ?w'"
    using put_backing [OF take_reservation [OF con(1) assms(2)], where n = "next_address w" and v = v and m = "Suc (next_address w)"] by simp
  then have "consistent {#} {} D (?w'\<lparr>held_values := next_address w # held_values w\<rparr>)" by simp
  moreover have "heap_ok {} (?w'\<lparr>held_values := next_address w # held_values w\<rparr>)"
    using heap_ok_hold_value [OF heap_ok_new_backing [of ?w v r], of "next_address w"] con(2) by simp
  ultimately show ?thesis
    by (rule settles_Inr) (simp add: replace_reservation_def into_charged_value_def bindB_simps)
qed

text \<open>A vector joins the allocations, or its reservation is dropped.\<close>

lemma into_charged_vec_settles:
  assumes "consistent {#res_charge r#} {res_scope r} D w" "heap_ok {} w" "vec_ok v"
  shows "settles D (bindB (into_charged_vec size_of r v) store_slice) w"
proof -
  have fail: ?thesis if "\<And>w'. drop_reservation r w = Some (Inr (), w') \<Longrightarrow>
      into_charged_vec size_of r v w = Some (Inl (Err e), w')" for e
    using drop_reservation_outcome [OF assms(1)] assms(2) that
    by (auto simp: settles_def sound_def bindB_simps)
  show ?thesis
  proof (cases "vector_bytes size_of (capacity v)")
    case (Inl f)
    then have "f = Err Overflow" by (auto simp: vector_bytes_def ok_or_def split: option.splits)
    with Inl show ?thesis by (intro fail) (auto simp: into_charged_vec_def bindB_simps)
  next
    case (Inr required)
    show ?thesis
    proof (cases "required > memory_bytes (res_amounts r)")
      case True
      with Inr show ?thesis by (intro fail) (auto simp: into_charged_vec_def bindB_simps)
    next
      case False
      let ?b = "\<lparr>address = next_address w, backing_value = v, backing_reservation = r\<rparr>"
      let ?w' = "w\<lparr>backings := ?b # backings w, next_address := Suc (next_address w)\<rparr>"
      let ?u = "\<lparr>slice_backing = next_address w, slice_start = 0, slice_end = of_nat (length (items v))\<rparr>"
      have "length (items v) < 2 ^ 64"
        using le_less_trans [OF assms(3) [unfolded vec_ok_def] unat_u64_less] by simp
      then have "unat (of_nat (length (items v)) :: u64) = length (items v)"
        by (simp add: unat_of_nat)
      moreover have "\<forall>b \<in> set (backings w). address b \<noteq> next_address w"
        using assms(2) by (auto simp: heap_ok_def)
      ultimately have "slice_ok (?b # backings w) ?u"
        by (auto simp: slice_ok_def)
      then have "heap_ok {} (?w'\<lparr>held_slices := ?u # held_slices w\<rparr>)"
        using heap_ok_hold_slice [OF heap_ok_new_backing [OF assms(2), of v r], of ?u] by simp
      moreover have "consistent {#} {} D (?w'\<lparr>held_slices := ?u # held_slices w\<rparr>)"
        using put_backing [OF assms(1), where n = "next_address w" and v = v and m = "Suc (next_address w)"] by simp
      ultimately show ?thesis
        using Inr False by (intro settles_Inr [where w' = "?w'\<lparr>held_slices := ?u # held_slices w\<rparr>"])
          (simp_all add: into_charged_vec_def into_charged_value_def bindB_simps store_slice_def)
    qed
  qed
qed

lemma into_vec_settles:
  assumes "sound D w" "r \<in> set (held_reservations w)" "vec_ok v"
  shows "settles D (perform (IntoVec size_of r v)) w"
proof -
  have con: "consistent {#} {} D w" "heap_ok {} w" using assms(1) by (simp_all add: sound_def)
  from into_charged_vec_settles [OF take_reservation [OF con(1) assms(2)] _ assms(3)] con(2) show ?thesis
    by (simp add: settles_def replace_reservation_def)
qed

lemma from_fn_settles:
  assumes "sound D w" "t \<in> set (held_budgets w)" "vec_ok v"
  shows "settles D (perform (FromFn size_of t cls cap v)) w"
proof (cases "vector_bytes size_of cap")
  case (Inl f)
  then have "f = Err Overflow" by (auto simp: vector_bytes_def ok_or_def split: option.splits)
  with Inl show ?thesis
    by (intro settles_Err [OF assms(1), of _ _ Overflow]) (simp add: slice_try_from_fn_def bindB_simps)
next
  case (Inr bytes)
  have con: "consistent {#} {} D w" "heap_ok {} w" using assms(1) by (simp_all add: sound_def)
  let ?a = "amount_default\<lparr>memory_bytes := bytes\<rparr>"
  from try_reserve_outcome [OF con(1) sound_budget_live [OF assms(1,2)], of cls ?a] show ?thesis
  proof (elim disjE exE conjE)
    fix e assume "try_reserve t cls ?a w = Some (Inl (Err e), w)"
    with Inr show ?thesis
      by (intro settles_Err [OF assms(1), of _ _ e]) (simp add: slice_try_from_fn_def bindB_simps)
  next
    fix ns r
    assume r: "try_reserve t cls ?a w = Some (Inr r, with_nodes w ns)" "consistent {#res_charge r#} {} D (with_nodes w ns)"
    have "settles D (bindB (into_charged_vec size_of r v) store_slice) (with_nodes w ns)"
      using into_charged_vec_settles [OF consistent_weaken [OF r(2)] _ assms(3)] con(2) by simp
    with r(1) Inr show ?thesis
      by (simp add: settles_def slice_try_from_fn_def bindB_def)
  qed
qed

lemma clone_value_settles:
  assumes "sound D w" "n \<in> set (held_values w)"
  shows "settles D (perform (CloneValue n)) w"
proof -
  have "heap_ok {} (w\<lparr>held_values := n # held_values w\<rparr>)"
    using assms heap_ok_hold_value [of "{}" w n] by (auto simp: sound_def heap_ok_def held_addresses_def)
  with assms(1) show ?thesis
    by (intro settles_Inr [where w' = "w\<lparr>held_values := n # held_values w\<rparr>"]) (simp_all add: sound_def)
qed

lemma clone_slice_settles:
  assumes "sound D w" "v \<in> set (held_slices w)"
  shows "settles D (store_slice v) w"
proof -
  have "heap_ok {} (w\<lparr>held_slices := v # held_slices w\<rparr>)"
    using assms by (auto simp: sound_def heap_ok_def held_addresses_def)
  with assms(1) show ?thesis
    by (intro settles_Inr [where w' = "w\<lparr>held_slices := v # held_slices w\<rparr>"]) (simp_all add: sound_def store_slice_def)
qed

lemma sub_slice_settles:
  assumes "sound D w" "v \<in> set (held_slices w)"
  shows "settles D (perform (SubSlice v lo hi)) w"
proof (cases "lo > hi \<or> hi > slice_len v")
  case True
  then show ?thesis
    by (intro settles_Err [OF assms(1), of _ _ InvalidSlice]) (simp add: slice_slice_def)
next
  case False
  have ok: "slice_ok (backings w) v" using assms by (auto simp: sound_def heap_ok_def)
  then have se: "slice_start v \<le> slice_end v" by (simp add: slice_ok_def)
  have len: "unat (slice_len v) = unat (slice_end v) - unat (slice_start v)"
    using se by (simp add: slice_len_def unat_sub)
  have le: "unat lo \<le> unat hi" "unat hi \<le> unat (slice_end v) - unat (slice_start v)"
    using False len by (simp_all add: word_le_nat_alt not_less)
  have "unat (slice_start v) \<le> unat (slice_end v)" using se by (simp add: word_le_nat_alt)
  with le have bound: "unat (slice_start v) + unat hi \<le> unat (slice_end v)" "unat (slice_start v) + unat lo \<le> unat (slice_start v) + unat hi"
    by simp_all
  then have small: "unat (slice_start v) + unat hi < 2 ^ 64" "unat (slice_start v) + unat lo < 2 ^ 64"
    using le_less_trans [OF bound(1) unat_u64_less] le_less_trans [OF le_trans [OF bound(2,1)] unat_u64_less]
    by simp_all
  then have sums: "unat (slice_start v + hi) = unat (slice_start v) + unat hi" "unat (slice_start v + lo) = unat (slice_start v) + unat lo"
    by (simp_all add: unat_word_ariths)
  let ?u = "\<lparr>slice_backing = slice_backing v, slice_start = slice_start v + lo, slice_end = slice_start v + hi\<rparr>"
  have "slice_slice v lo hi = Inr ?u"
    using False small by (simp add: slice_slice_def plus_or_panic_Inr)
  moreover have "slice_ok (backings w) ?u"
    using ok bound sums by (fastforce simp: slice_ok_def word_le_nat_alt)
  then have "heap_ok {} (w\<lparr>held_slices := ?u # held_slices w\<rparr>)"
    using assms heap_ok_hold_slice [of "{}" w ?u] by (auto simp: sound_def heap_ok_def held_addresses_def)
  ultimately show ?thesis
    using assms(1) by (intro settles_Inr [where w' = "w\<lparr>held_slices := ?u # held_slices w\<rparr>"])
      (simp_all add: sound_def store_slice_def)
qed


lemma release_backing_settles:
  assumes "consistent {#} {} D w" "heap_ok {n} w"
  shows "settles D (release_backing n) w"
proof (cases "n \<in> set (held_values w @ map slice_backing (held_slices w))")
  case True
  with assms show ?thesis
    by (intro settles_Inr [where w' = w]) (auto simp: release_backing_def heap_ok_def held_addresses_def)
next
  case False
  then have free: "n \<notin> held_addresses w" by (simp add: held_addresses_def)
  show ?thesis
  proof (cases "find (\<lambda>b. address b = n) (backings w)")
    case None
    then have "n \<notin> address ` set (backings w)" by (auto simp: find_None_iff)
    with assms(2) have "heap_ok {} w" unfolding heap_ok_def by blast
    with None False assms(1) show ?thesis
      by (intro settles_Inr [where w' = w]) (auto simp: release_backing_def)
  next
    case (Some b)
    then have b: "b \<in> set (backings w)" "address b = n" by (auto simp: find_Some_iff)
    let ?w = "w\<lparr>backings := filter (\<lambda>x. address x \<noteq> n) (backings w)\<rparr>"
    have dist: "distinct (map address (backings w))" using assms(2) by (simp add: heap_ok_def)
    have addrs: "address ` set (backings ?w) = address ` set (backings w) - {n}" by auto
    have held: "held_addresses ?w = held_addresses w" by (simp add: held_addresses_def)
    have "heap_ok {} ?w"
      unfolding heap_ok_def
    proof (intro conjI)
      show "distinct (map address (backings ?w))" using dist by (simp add: distinct_map_filter)
      show "held_addresses ?w \<subseteq> address ` set (backings ?w)"
        using assms(2) free unfolding addrs held heap_ok_def by blast
      show "address ` set (backings ?w) \<subseteq> held_addresses ?w \<union> {}"
        using assms(2) unfolding addrs held heap_ok_def by blast
    qed (use assms(2) in \<open>auto simp: heap_ok_def slice_ok_def\<close>)
    moreover have "consistent {#res_charge (backing_reservation b)#} {res_scope (backing_reservation b)} D ?w"
      using take_backing [OF assms(1) b(1) dist] b(2) by simp
    note drop_reservation_outcome [OF this]
    ultimately show ?thesis
      using Some False by (auto simp: settles_def sound_def release_backing_def)
  qed
qed

lemma drop_value_settles:
  assumes "sound D w" "n \<in> set (held_values w)"
  shows "settles D (perform (DropValue n)) w"
proof -
  have "heap_ok {n} (w\<lparr>held_values := remove1 n (held_values w)\<rparr>)"
    using assms set_remove1_cases [OF assms(2)] by (auto simp: sound_def heap_ok_def held_addresses_def)
  then have "settles D (release_backing n) (w\<lparr>held_values := remove1 n (held_values w)\<rparr>)"
    using assms(1) by (intro release_backing_settles) (simp_all add: sound_def)
  then show ?thesis by (simp add: settles_def)
qed

lemma drop_slice_settles:
  assumes "sound D w" "v \<in> set (held_slices w)"
  shows "settles D (perform (DropSlice v)) w"
proof -
  have "heap_ok {slice_backing v} (w\<lparr>held_slices := remove1 v (held_slices w)\<rparr>)"
    using assms set_remove1_cases [OF assms(2)] by (auto simp: sound_def heap_ok_def held_addresses_def)
  then have "settles D (release_backing (slice_backing v)) (w\<lparr>held_slices := remove1 v (held_slices w)\<rparr>)"
    using assms(1) by (intro release_backing_settles) (simp_all add: sound_def)
  then show ?thesis by (simp add: settles_def)
qed

lemma new_account_settles:
  assumes "sound D w" "t \<in> set (held_budgets w)"
  shows "settles D (perform (NewAccount t cls)) w"
proof -
  let ?a = "\<lparr>acc_scope = t, acc_class = cls, acc_bytes = 0\<rparr>"
  have "consistent {#acc_charge ?a#} {} D w"
    unfolding acc_charge_def using assms(1) sound_budget_live [OF assms]
    by (subst consistent_zero) (simp_all add: memory_only_def sound_def)
  from settles_Inr [OF put_account [OF this, simplified]] assms(1) show ?thesis
    by (simp add: sound_def)
qed

lemma drop_account_settles:
  assumes "sound D w" "a \<in> set (held_accounts w)"
  shows "settles D (perform (DropAccount a)) w"
proof -
  have con: "consistent {#} {} D w" "heap_ok {} w" using assms(1) by (simp_all add: sound_def)
  from drop_account_outcome [OF take_account [OF con(1) assms(2)]] con(2) show ?thesis
    by (auto simp: settles_def sound_def replace_account_def)
qed

lemma unat_memory_only: "unat (memory_only b d) = (if d = MemoryBytes then unat b else 0)"
  by (simp add: memory_only_def)

lemma replace_account_consistent:
  fixes w :: "'a world"
  assumes "consistent C T D w" "a \<in> set (held_accounts w)"
    "\<And>T (w :: 'a world). consistent (add_mset (acc_charge a) C) T D w \<longleftrightarrow> consistent (add_mset (acc_charge a') C') T D w"
    "acc_scope a' = acc_scope a"
  shows "consistent C' (T - {acc_scope a}) D (w\<lparr>held_accounts := a' # remove1 a (held_accounts w)\<rparr>)"
  using put_account [OF iffD1 [OF assms(3) take_account [OF assms(1,2)]]] assms(4) by simp

text \<open>Both ways of growing an account.\<close>

lemma account_grow:
  assumes "sound D w" "a \<in> set (held_accounts w)" "checked \<or> MemoryBytes \<notin> D"
  shows "(\<not> admits w (acc_scope a) (acc_class a) (memory_only (ucast bytes)) checked \<and>
      (\<exists>e. budget_add (acc_scope a) (acc_class a) (memory_only (ucast bytes)) checked w = Some (Inl (Err e), w))) \<or>
    (\<exists>ns a'. admits w (acc_scope a) (acc_class a) (memory_only (ucast bytes)) checked \<and>
      budget_add (acc_scope a) (acc_class a) (memory_only (ucast bytes)) checked w = Some (Inr (), with_nodes w ns) \<and>
      a' = a\<lparr>acc_bytes := acc_bytes a + ucast bytes\<rparr> \<and>
      plus_or_panic (acc_bytes a) (ucast bytes) = (Inr (acc_bytes a + ucast bytes) :: (resource_budget_error, u128) result) \<and>
      consistent {#} {} D ((with_nodes w ns)\<lparr>held_accounts := a' # remove1 a (held_accounts w)\<rparr>))"
proof -
  have con: "consistent {#} {} D w" "heap_ok {} w" using assms(1) by (simp_all add: sound_def)
  let ?m = "memory_only (ucast bytes)"
  have cond: "checked \<or> (\<forall>d \<in> D. ?m d = 0)" using assms(3) by (auto simp: memory_only_def)
  obtain n where n: "nodes (world_ledger w) (acc_scope a) = Some n"
    using sound_account_live [OF assms(1,2)] by auto
  from budget_add_outcome [OF con(1) sound_account_live [OF assms(1,2)] cond, of "acc_class a"] show ?thesis
  proof (elim disjE exE conjE)
    fix ns
    assume admit: "admits w (acc_scope a) (acc_class a) ?m checked"
      and add: "budget_add (acc_scope a) (acc_class a) ?m checked w = Some (Inr (), with_nodes w ns)"
        "consistent {#(acc_scope a, acc_class a, \<lambda>d. unat (?m d))#} {} D (with_nodes w ns)"
    let ?a' = "a\<lparr>acc_bytes := acc_bytes a + ucast bytes\<rparr>"
    have "fits_dim (acc_class a) checked ?m n MemoryBytes"
      using bspec [OF admit [unfolded admits_def] lineage_self] n by (simp add: fits_def)
    then have "unat (used n MemoryBytes) + unat (ucast bytes :: u128) < 2 ^ 128"
      by (simp add: fits_dim_def unat_memory_only)
    moreover have "acc_charge a \<in># charges w" using assms(2) by (auto simp: charges_def)
    then have "unat (acc_bytes a) \<le> unat (used n MemoryBytes)"
      using charge_le_used [OF con(1) _ n, of "acc_class a" "\<lambda>d. unat (memory_only (acc_bytes a) d)" MemoryBytes]
      by (simp add: acc_charge_def unat_memory_only)
    ultimately have room: "unat (acc_bytes a) + unat (ucast bytes :: u128) < 2 ^ LENGTH(128)"
      by (simp add: add_le_mono1 [THEN le_less_trans])
    then have sum: "unat (acc_bytes a + ucast bytes) = unat (acc_bytes a) + unat (ucast bytes :: u128)"
      by (simp add: unat_word_ariths)
    have "consistent {#} ({} - {acc_scope a}) D
        ((with_nodes w ns)\<lparr>held_accounts := ?a' # remove1 a (held_accounts (with_nodes w ns))\<rparr>)"
      using add(2)
    proof (rule replace_account_consistent)
      show "consistent (add_mset (acc_charge a) {#(acc_scope a, acc_class a, \<lambda>d. unat (?m d))#}) T D w \<longleftrightarrow>
          consistent {#acc_charge ?a'#} T D w" for T and w :: "'a world"
      proof -
        have "(\<lambda>d. unat (memory_only (acc_bytes a) d) + unat (?m d)) = (\<lambda>d. unat (memory_only (acc_bytes ?a') d))"
          using sum by (simp add: unat_memory_only fun_eq_iff)
        then show ?thesis unfolding acc_charge_def by (simp add: consistent_merge)
      qed
    qed (use assms(2) in simp_all)
    then have "consistent {#} {} D ((with_nodes w ns)\<lparr>held_accounts := ?a' # remove1 a (held_accounts w)\<rparr>)" by simp
    with admit add(1) plus_or_panic_Inr [OF room, where 'a = resource_budget_error] show ?thesis by blast
  qed auto
qed


lemma try_grow_account_settles:
  assumes "sound D w" "a \<in> set (held_accounts w)"
  shows "settles D (perform (TryGrowAccount a bytes)) w"
  using account_grow [OF assms disjI1 [OF TrueI], of bytes]
proof (elim disjE exE conjE)
  fix e assume "budget_add (acc_scope a) (acc_class a) (memory_only (ucast bytes)) True w = Some (Inl (Err e), w)"
  then show ?thesis
    by (intro settles_Err [OF assms(1), of _ _ e]) (simp add: account_try_grow_def bindB_simps)
next
  fix ns a'
  assume "budget_add (acc_scope a) (acc_class a) (memory_only (ucast bytes)) True w = Some (Inr (), with_nodes w ns)"
    "a' = a\<lparr>acc_bytes := acc_bytes a + ucast bytes\<rparr>"
    "plus_or_panic (acc_bytes a) (ucast bytes) = (Inr (acc_bytes a + ucast bytes) :: (resource_budget_error, u128) result)"
    and con: "consistent {#} {} D ((with_nodes w ns)\<lparr>held_accounts := a' # remove1 a (held_accounts w)\<rparr>)"
  with settles_Inr [OF con] assms(1) show ?thesis
    by (simp add: account_try_grow_def bindB_simps replace_account_def sound_def)
qed

lemma grow_account_outcome:
  assumes "sound D w" "a \<in> set (held_accounts w)" "MemoryBytes \<notin> D"
  shows "if admits w (acc_scope a) (acc_class a) (memory_only (ucast bytes)) False
    then settles D (perform (GrowAccount a bytes)) w else perform (GrowAccount a bytes) w = Some (Inl Panic, w)"
  using account_grow [OF assms(1,2) disjI2 [OF assms(3)], of bytes False]
proof (elim disjE exE conjE)
  fix e assume "\<not> admits w (acc_scope a) (acc_class a) (memory_only (ucast bytes)) False"
    "budget_add (acc_scope a) (acc_class a) (memory_only (ucast bytes)) False w = Some (Inl (Err e), w)"
  then show ?thesis by (simp add: account_grow_infallible_def bindB_simps)
next
  fix ns a'
  assume "admits w (acc_scope a) (acc_class a) (memory_only (ucast bytes)) False"
    "budget_add (acc_scope a) (acc_class a) (memory_only (ucast bytes)) False w = Some (Inr (), with_nodes w ns)"
    "a' = a\<lparr>acc_bytes := acc_bytes a + ucast bytes\<rparr>"
    "plus_or_panic (acc_bytes a) (ucast bytes) = (Inr (acc_bytes a + ucast bytes) :: (resource_budget_error, u128) result)"
    and con: "consistent {#} {} D ((with_nodes w ns)\<lparr>held_accounts := a' # remove1 a (held_accounts w)\<rparr>)"
  with settles_Inr [OF con] assms(1) show ?thesis
    by (simp add: account_grow_infallible_def bindB_simps replace_account_def sound_def)
qed

lemma shrink_account_settles:
  assumes "sound D w" "a \<in> set (held_accounts w)" "ucast bytes \<le> acc_bytes a"
  shows "settles D (perform (ShrinkAccount a bytes)) w"
proof -
  have con: "consistent {#} {} D w" "heap_ok {} w" using assms(1) by (simp_all add: sound_def)
  let ?m = "memory_only (ucast bytes)"
  let ?a' = "a\<lparr>acc_bytes := acc_bytes a - ucast bytes\<rparr>"
  let ?w' = "w\<lparr>held_accounts := ?a' # remove1 a (held_accounts w)\<rparr>"
  have diff: "unat (acc_bytes a) = unat (acc_bytes a - ucast bytes) + unat (ucast bytes :: u128)"
    using assms(3) by (simp add: unat_sub word_le_nat_alt)
  have "consistent {#(acc_scope a, acc_class a, \<lambda>d. unat (?m d))#} ({} - {acc_scope a}) D ?w'"
    using con(1) assms(2)
  proof (rule replace_account_consistent)
    show "consistent {#acc_charge a#} T D w \<longleftrightarrow>
        consistent {#acc_charge ?a', (acc_scope a, acc_class a, \<lambda>d. unat (?m d))#} T D w" for T and w :: "'a world"
    proof -
      have "(\<lambda>d. unat (memory_only (acc_bytes ?a') d) + unat (?m d)) = (\<lambda>d. unat (memory_only (acc_bytes a) d))"
        using diff by (simp add: unat_memory_only fun_eq_iff)
      then show ?thesis unfolding acc_charge_def by (simp add: consistent_merge)
    qed
  qed simp
  then have "consistent {#(acc_scope a, acc_class a, \<lambda>d. unat (?m d))#} {} D ?w'" by simp
  from budget_subtract_outcome [OF this] obtain ns where
    ns: "budget_subtract (acc_scope a) (acc_class a) ?m ?w' = Some (Inr (), with_nodes ?w' ns)"
      "consistent {#} {} D (with_nodes ?w' ns)"
    by blast
  have "budget_subtract (acc_scope a) (acc_class a) ?m w = Some (Inr (), with_nodes w ns)"
    using budget_subtract_ledger [of w ?w' "acc_scope a" "acc_class a" ?m ns] ns(1) by simp
  with settles_Inr [OF ns(2)] con(2) minus_or_panic_Inr [OF assms(3), where 'b = resource_budget_error] show ?thesis
    by (simp add: account_shrink_def bindB_simps replace_account_def)
qed


section \<open>Programs\<close>

lemma over_release_panics:
  assumes "sound D w" "over_release a"
  shows "\<exists>w'. perform a w = Some (Inl Panic, w')"
proof -
  obtain acc bytes where a: "a = ShrinkAccount acc bytes" "acc_bytes acc < ucast bytes"
    using assms(2) by (cases a) simp_all
  have "tree (nodes (world_ledger w))"
    using assms(1) consistentD(8) by (auto simp: sound_def)
  from release_lineage_returns [OF this] obtain res where
    res: "release_lineage (acc_class acc) (memory_only (ucast bytes)) (nodes (world_ledger w)) (acc_scope acc) = Some res"
      "\<forall>e. res = Inl e \<longrightarrow> e = Panic"
    by blast
  have "minus_or_panic (acc_bytes acc) (ucast bytes) = (Inl Panic :: (resource_budget_error, u128) result)"
    using a(2) by (simp add: minus_or_panic_def expect_def checked_sub_def not_le)
  with res show ?thesis
    by (cases res) (simp_all add: a(1) account_shrink_def budget_subtract_def on_nodes_def bindB_simps)
qed


text \<open>The growth of a native account that no counter of 128 bits can take.\<close>

fun counter_overflow :: "'a world \<Rightarrow> 'a action \<Rightarrow> bool" where
  "counter_overflow w (GrowAccount a bytes) =
     (\<not> admits w (acc_scope a) (acc_class a) (memory_only (ucast bytes)) False)"
| "counter_overflow w _ = False"

fun infallible :: "'a action \<Rightarrow> bool" where
  "infallible (GrowAccount _ _) = True"
| "infallible _ = False"

lemmas direct_settles = drop_budget_settles split_settles drop_reservation_settles into_native_settles
  into_value_settles into_vec_settles from_fn_settles new_account_settles try_grow_account_settles
  shrink_account_settles drop_account_settles clone_value_settles drop_value_settles sub_slice_settles drop_slice_settles

lemma perform_settles:
  assumes "sound D w" "holds w a" "\<not> infallible a" "\<not> over_release a"
  shows "settles D (perform a) w"
proof (cases a)
  case CreateWorkspace with assms show ?thesis by (simp add: workspace_def create_settles)
next
  case CreateOperation with assms show ?thesis by (simp add: operation_def create_settles)
next
  case CloneBudget with assms show ?thesis by (simp add: clone_budget_settles)
next
  case ReserveBookkeeping with assms show ?thesis by (simp add: bookkeeping_settles)
next
  case TryReserve with assms show ?thesis by (simp add: reserve_settles)
next
  case GrowReservation with assms show ?thesis by (simp add: grow_settles)
next
  case ShrinkReservation with assms show ?thesis by (simp add: shrink_settles)
next
  case CloneSlice with assms show ?thesis by (simp add: clone_slice_settles)
qed (use assms in \<open>simp_all del: perform.simps add: direct_settles\<close>)

lemma perform_outcome:
  assumes "sound D w" "holds w a" "\<not> over_release a" "infallible a \<Longrightarrow> MemoryBytes \<notin> D"
  shows "\<exists>res w'. perform a w = Some (res, w') \<and> sound D w' \<and> (panics res \<longleftrightarrow> counter_overflow w a)"
proof (cases "infallible a")
  case True
  then obtain acc bytes where a: "a = GrowAccount acc bytes" by (cases a) auto
  with grow_account_outcome [of D w acc bytes] assms True show ?thesis by (auto simp: settles_def split: if_splits)
next
  case False
  moreover have "\<not> counter_overflow w a" using False by (cases a) simp_all
  ultimately show ?thesis using perform_settles [OF assms(1,2) _ assms(3)] by (auto simp: settles_def)
qed


lemma try_process_sound:
  assumes "try_process ident policy = Inr w"
  shows "sound D w"
proof -
  define n where "n = \<lparr>node_owner = \<lparr>owner_kind = Process, owner_id = ident\<rparr>, node_parent = None, node_policy = policy,
    used = (\<lambda>_. 0), data_used = (\<lambda>_. 0), peak = (\<lambda>_. 0)\<rparr>"
  define s where "s = \<lparr>token = 0, scope_owner = \<lparr>owner_kind = Process, owner_id = ident\<rparr>, scope_policy = policy,
    scope_parent = None, bookkeeping = None\<rparr>"
  have policy: "policy_ok policy"
    and w: "w = \<lparr>world_ledger = \<lparr>next_token = 1, nodes = [0 \<mapsto> n], children = (\<lambda>_. None), child_counts = (\<lambda>_. None)\<rparr>,
      scopes = [s], backings = [], next_address = 0, held_budgets = [0], held_reservations = [],
      held_accounts = [], held_values = [], held_slices = []\<rparr>"
    using assms by (auto simp: try_process_def policy_validate_eq Let_def n_def s_def)
  have fields: "node_parent n = None" "node_policy n = policy" by (simp_all add: n_def)
  have par: "parent_of [0 \<mapsto> n] x = None" for x by (simp add: parent_of_def n_def)
  have "ledger_ok \<lparr>next_token = 1, nodes = [0 \<mapsto> n], children = (\<lambda>_. None), child_counts = (\<lambda>_. None)\<rparr>"
    using policy by (auto simp: ledger_ok_def tree_def par kids_def fields split: if_splits)
  moreover have "charges w = {#}" by (simp add: w charges_def s_def map_filter_simps)
  moreover have "set (references w) = {0}" by (simp add: w set_references scope_refs_def s_def)
  ultimately have "consistent {#} {} D w"
    unfolding consistent_def
    by (auto simp: w accounted_def within_def scopes_ok_def scope_ok_def n_def s_def split: if_splits)
  moreover have "heap_ok {} w" by (simp add: w heap_ok_def held_addresses_def)
  ultimately show ?thesis by (simp add: sound_def)
qed

lemma runs_sound:
  assumes "runs w as w'" "sound D w" "MemoryBytes \<in> D \<longrightarrow> \<not> list_ex infallible as"
  shows "sound D w'"
  using assms
proof (induction rule: runs.induct)
  case (step w as w1 a res w2)
  then have "sound D w1" by simp
  from perform_outcome [OF this step.hyps(2,3)] step.prems(2) step.hyps(4) show ?case by auto
qed simp

lemma run_from_start:
  assumes "try_process ident policy = Inr w0" "runs w0 as w"
  shows "sound (- {MemoryBytes}) w"
  using runs_sound [OF assms(2) try_process_sound [OF assms(1)]] by simp

text \<open>
  C25.  The accounting is exact: in every run, the counter of every live scope is the sum of the live
  charges of that scope and the scopes below it, the data counter is the sum of those of class
  \<open>Data\<close>, and the peak is never below the current use.
\<close>

theorem counters_are_exact:
  assumes "try_process ident policy = Inr w0" "runs w0 as w" "nodes (world_ledger w) t = Some n"
  shows "unat (used n d) = due (\<lambda>_. True) (parent_of (nodes (world_ledger w))) (charges w) t d \<and>
    unat (data_used n d) = due ((=) Data) (parent_of (nodes (world_ledger w))) (charges w) t d \<and>
    used n d \<le> peak n d"
proof -
  have "accounted (nodes (world_ledger w)) ({#} + charges w)"
    using run_from_start [OF assms(1,2)] by (simp add: sound_def consistent_def)
  from accountedD [OF this assms(3)] show ?thesis by simp
qed

text \<open>
  C26.  Admission never exceeds a limit: in every run, the use of a live scope is at most its limit in
  every dimension, and the use for data leaves the control reserve free.  Only memory can exceed
  its limit, and only after an infallible growth of a native account.
\<close>

theorem use_stays_within_limits:
  assumes "try_process ident policy = Inr w0" "runs w0 as w" "nodes (world_ledger w) t = Some n"
    "d \<noteq> MemoryBytes \<or> \<not> list_ex infallible as"
  shows "unat (used n d) \<le> unat (amount_values (limits (node_policy n)) d) \<and>
    unat (data_used n d) \<le> unat (amount_values (limits (node_policy n)) d) - unat (amount_values (control_reserve (node_policy n)) d)"
proof -
  have "sound (if d = MemoryBytes then UNIV else - {MemoryBytes}) w"
    using runs_sound [OF assms(2) try_process_sound [OF assms(1)]] assms(4) by simp
  then have "within (if d = MemoryBytes then UNIV else - {MemoryBytes}) (nodes (world_ledger w))"
    by (simp add: sound_def consistent_def)
  moreover have "d \<in> (if d = MemoryBytes then UNIV else - {MemoryBytes})" by simp
  ultimately show ?thesis
    using assms(3) unfolding within_def by blast
qed



text \<open>
  C28.  Admission is exact and atomic: on a live scope, \<open>try_reserve\<close> succeeds exactly when the
  amounts fit below the limit of the scope and of all its ancestors, and for data below the limit
  without the control reserve.  Success returns the reservation of these amounts; a refusal changes
  nothing.
\<close>

theorem admission_is_exact_and_atomic:
  assumes "try_process ident policy = Inr w0" "runs w0 as w" "t \<in> set (held_budgets w)"
  shows "if \<forall>x \<in> set (lineage (parent_of (nodes (world_ledger w))) t). \<forall>d. \<exists>n. nodes (world_ledger w) x = Some n \<and>
        unat (used n d) + unat (amount_values amounts d) \<le> unat (amount_values (limits (node_policy n)) d) \<and>
        (cls = Data \<longrightarrow> unat (data_used n d) + unat (amount_values amounts d)
          \<le> unat (amount_values (limits (node_policy n)) d) - unat (amount_values (control_reserve (node_policy n)) d))
    then \<exists>w'. try_reserve t cls amounts w = Some (Inr \<lparr>res_scope = t, res_class = cls, res_amounts = amounts\<rparr>, w')
    else \<exists>e. try_reserve t cls amounts w = Some (Inl (Err e), w)"
    (is "if ?fits then _ else _")
proof -
  have sound: "sound (- {MemoryBytes}) w" by (rule run_from_start [OF assms(1,2)])
  then have con: "consistent {#} {} (- {MemoryBytes}) w" by (simp add: sound_def)
  have live: "nodes (world_ledger w) t \<noteq> None" by (rule sound_budget_live [OF sound assms(3)])
  have "?fits \<longleftrightarrow> admits w t cls (wide amounts) True"
  proof -
    have "(\<forall>d. \<exists>n. nodes (world_ledger w) x = Some n \<and>
        unat (used n d) + unat (amount_values amounts d) \<le> limit_of n d \<and>
        (cls = Data \<longrightarrow> unat (data_used n d) + unat (amount_values amounts d) \<le> limit_of n d - reserve_of n d)) \<longleftrightarrow>
      fits cls True (wide amounts) (the (nodes (world_ledger w) x))" if x: "x \<in> set (ancestors w t)" for x
    proof -
      obtain n where n: "nodes (world_ledger w) x = Some n"
        using lineage_live [OF consistentD(8) [OF con] live x] by blast
      have "limit_of n d < 2 ^ 128" for d
        using less_trans [OF unat_u64_less, of "2 ^ 128" "amount_values (limits (node_policy n)) d"] by simp
      then have "unat (used n d) + unat (amount_values amounts d) \<le> limit_of n d \<Longrightarrow>
          unat (used n d) + unat (amount_values amounts d) < 2 ^ 128" for d
        by (rule le_less_trans [rotated])
      then show ?thesis using n by (auto simp: fits_def fits_dim_def)
    qed
    then show ?thesis unfolding admits_def by blast
  qed
  with try_reserve_outcome [OF con live, of cls amounts] show ?thesis by auto
qed

lemma held_addresses_empty: "heap_ok {} w \<Longrightarrow> held_values w = [] \<Longrightarrow> held_slices w = [] \<Longrightarrow> backings w = []"
  by (simp add: heap_ok_def held_addresses_def)

text \<open>
  C29.  Nothing leaks: when the program has dropped everything it held, no scope and no charged
  allocation is left and the ledger is empty.
\<close>

theorem dropping_everything_empties_the_ledger:
  assumes "try_process ident policy = Inr w0" "runs w0 as w"
    "held_budgets w = []" "held_reservations w = []" "held_accounts w = []" "held_values w = []" "held_slices w = []"
  shows "scopes w = [] \<and> backings w = [] \<and> nodes (world_ledger w) = Map.empty"
proof -
  have sound: "sound (- {MemoryBytes}) w" by (rule run_from_start [OF assms(1,2)])
  then have con: "consistent {#} {} (- {MemoryBytes}) w" and heap: "heap_ok {} w" by (simp_all add: sound_def)
  have backings: "backings w = []" by (rule held_addresses_empty [OF heap assms(6,7)])
  have "nodes (world_ledger w) t = None" for t
  proof (rule ccontr)
    assume "nodes (world_ledger w) t \<noteq> None"
    then have ne: "dom (nodes (world_ledger w)) \<noteq> {}" by auto
    let ?m = "Max (dom (nodes (world_ledger w)))"
    have m: "?m \<in> dom (nodes (world_ledger w))" by (rule Max_in [OF finite ne])
    then have "?m \<in> scope_refs (scopes w)"
      using consistentD(6) [OF con] assms(3-7) backings by (auto simp: set_references)
    then obtain s where s: "s \<in> set (scopes w)" "scope_parent s = Some ?m"
      using consistentD(2) [OF con] by (auto simp: scope_refs_def scopes_ok_def scope_ok_def)
    with consistentD(2) [OF con] obtain n where "nodes (world_ledger w) (token s) = Some n" "node_parent n = Some ?m"
      by (auto simp: scopes_ok_def scope_ok_def)
    then have "?m < token s" "token s \<in> dom (nodes (world_ledger w))"
      using consistentD(8) [OF con] by (auto simp: tree_def parent_of_def)
    then show False using Max_ge [OF finite, of "token s" "dom (nodes (world_ledger w))"] by (meson leD)
  qed
  then have none: "nodes (world_ledger w) = Map.empty" by (simp add: fun_eq_iff)
  moreover have "scopes w = []" using consistentD(2) [OF con] none by (simp add: scopes_ok_def)
  ultimately show ?thesis using backings by simp
qed

text \<open>
  The scope registry is well formed: in every run, the live scopes are exactly the nodes of the
  ledger and agree with them, the parent of a live scope is live and older, every owner is
  registered below its parent exactly while its scope lives, and the child count of a scope is the
  number of its live children.
\<close>

theorem scope_registry_is_well_formed:
  assumes "try_process ident policy = Inr w0" "runs w0 as w" "world_ledger w = l"
  shows "token ` set (scopes w) = dom (nodes l) \<and> distinct (map token (scopes w)) \<and>
    (\<forall>s \<in> set (scopes w). \<exists>n. nodes l (token s) = Some n \<and> node_owner n = scope_owner s \<and> node_parent n = scope_parent s) \<and>
    (\<forall>t p. parent_of (nodes l) t = Some p \<longrightarrow> p < t \<and> p \<in> dom (nodes l)) \<and>
    (\<forall>p owner t. children l (p, owner) = Some t \<longleftrightarrow>
       (\<exists>n. nodes l t = Some n \<and> node_parent n = Some p \<and> node_owner n = owner)) \<and>
    (\<forall>p. child_counts l p = (if kids l p = {} then None else Some (of_nat (card (kids l p)))))"
proof -
  have con: "consistent {#} {} (- {MemoryBytes}) w"
    using run_from_start [OF assms(1,2)] by (simp add: sound_def)
  note ok = consistentD(1,2) [OF con, unfolded assms(3)]
  have "\<exists>n. nodes l (token s) = Some n \<and> node_owner n = scope_owner s \<and> node_parent n = scope_parent s"
    if "s \<in> set (scopes w)" for s
    using ok(2) that by (auto simp: scopes_ok_def scope_ok_def)
  moreover have "token ` set (scopes w) = dom (nodes l)" "distinct (map token (scopes w))"
    using ok(2) by (simp_all add: scopes_ok_def)
  moreover have "\<forall>t p. parent_of (nodes l) t = Some p \<longrightarrow> p < t \<and> p \<in> dom (nodes l)"
    using ledger_okD(1) [OF ok(1)] by (simp add: tree_def dom_def)
  ultimately show ?thesis
    using ledger_okD(3,4) [OF ok(1)] by blast
qed



section \<open>Read-only operations\<close>

lemma is_descendant_of_eq:
  assumes "tree (nodes l)"
  shows "is_descendant_of True self other l = Some (Inr (other \<in> set (lineage (parent_of (nodes l)) self)))"
  unfolding is_descendant_of_def simp_thms if_False
proof (induction self rule: less_induct)
  case (less self)
  let ?loop = "cursor_loop (\<lambda>token found. if token = other then Inr (None, True) :: (resource_budget_error, _) result
    else Inr (Option.bind (nodes l token) node_parent, False))"
  show ?case
  proof (cases "self = other")
    case True
    then show ?thesis by (simp add: cursor_loop_Some)
  next
    case False
    then have step: "?loop (Some self) False = ?loop (parent_of (nodes l) self) False"
      by (simp add: cursor_loop_Some parent_of_def)
    show ?thesis
    proof (cases "parent_of (nodes l) self")
      case None
      with False step show ?thesis by (simp add: lineage_None)
    next
      case (Some p)
      with assms have "p < self" by (auto simp: tree_def)
      with less.IH [OF this] step Some False show ?thesis by (auto simp: lineage_Some)
    qed
  qed
qed

text \<open>A reservation is accepted exactly by its own scope and the ancestors of that scope.\<close>

lemma validate_reservation_exact:
  assumes "try_process ident policy = Inr w0" "runs w0 as w"
  shows "validate_reservation same_root t r (world_ledger w) =
    Some (if same_root \<and> t \<in> set (ancestors w (res_scope r)) then Inr () else Inl (Err ForeignOwner))"
proof -
  have "tree (nodes (world_ledger w))"
    using run_from_start [OF assms] by (auto simp: sound_def dest: consistentD(8))
  from is_descendant_of_eq [OF this] show ?thesis
    by (cases same_root) (simp_all add: validate_reservation_def ensure_def, simp add: is_descendant_of_def)
qed

text \<open>The observation of the process is that of a live scope without a parent.\<close>

lemma process_observation_root:
  assumes "consistent {#} {} D w" "nodes (world_ledger w) t \<noteq> None"
  shows "\<exists>root n. process_observation t w = Some (observation root (world_ledger w)) \<and>
    nodes (world_ledger w) root = Some n \<and> node_parent n = None"
proof -
  let ?loop = "cursor_loop (\<lambda>token root. bindE (expect (find_scope token (scopes w)) :: (resource_budget_error, _) result)
    (\<lambda>s. Inr (scope_parent s, token)))"
  have "\<exists>root n. ?loop (Some t) u = Some (Inr root) \<and> nodes (world_ledger w) root = Some n \<and> node_parent n = None" for u
    using assms(2)
  proof (induction t arbitrary: u rule: less_induct)
    case (less t)
    obtain s where s: "find_scope t (scopes w) = Some s" "s \<in> set (scopes w)" "token s = t"
      using find_scope_live [OF consistentD(2) [OF assms(1)] less.prems] .
    then obtain n where n: "nodes (world_ledger w) t = Some n" "node_parent n = scope_parent s"
      using consistentD(2) [OF assms(1)] by (auto simp: scopes_ok_def scope_ok_def)
    show ?case
    proof (cases "scope_parent s")
      case None
      with s(1) n show ?thesis by (simp add: cursor_loop_Some)
    next
      case (Some p)
      with n have "parent_of (nodes (world_ledger w)) t = Some p" by (simp add: parent_of_def)
      with consistentD(8) [OF assms(1)] have "p < t" "nodes (world_ledger w) p \<noteq> None"
        by (auto simp: tree_def)
      from less.IH [OF this, of t] s(1) Some show ?thesis by (simp add: cursor_loop_Some [where t = t])
    qed
  qed
  from this [of t] show ?thesis by (auto simp: process_observation_def)
qed

text \<open>A held slice can always be read, and a subslice is the corresponding part of its items.\<close>

lemma slice_items_Inr:
  assumes "heap_ok A w" "v \<in> set (held_slices w)"
  obtains b where "find (\<lambda>b. address b = slice_backing v) (backings w) = Some b"
    "slice_items w v = Inr (take (unat (slice_end v) - unat (slice_start v)) (drop (unat (slice_start v)) (items (backing_value b))))"
    "unat (slice_end v) \<le> length (items (backing_value b))" "slice_start v \<le> slice_end v"
proof -
  have "slice_backing v \<in> address ` set (backings w)"
    using assms unfolding heap_ok_def held_addresses_def by blast
  then have "find (\<lambda>b. address b = slice_backing v) (backings w) \<noteq> None"
    by (auto simp: find_None_iff)
  then obtain b where b: "find (\<lambda>b. address b = slice_backing v) (backings w) = Some b" by blast
  then have "b \<in> set (backings w)" "address b = slice_backing v" by (auto simp: find_Some_iff)
  moreover have "slice_ok (backings w) v" using assms by (simp add: heap_ok_def)
  ultimately have "unat (slice_end v) \<le> length (items (backing_value b))" "slice_start v \<le> slice_end v"
    by (auto simp: slice_ok_def)
  with b that show ?thesis by (simp add: slice_items_def)
qed

lemma sub_slice_items:
  assumes "heap_ok A w" "v \<in> set (held_slices w)" "slice_slice v lo hi = Inr u"
  shows "slice_items w u = map_sum id (\<lambda>xs. take (unat hi - unat lo) (drop (unat lo) xs)) (slice_items w v)"
proof -
  obtain b where b: "find (\<lambda>b. address b = slice_backing v) (backings w) = Some b"
    "slice_items w v = Inr (take (unat (slice_end v) - unat (slice_start v)) (drop (unat (slice_start v)) (items (backing_value b))))"
    "unat (slice_end v) \<le> length (items (backing_value b))" "slice_start v \<le> slice_end v"
    using assms(1,2) by (rule slice_items_Inr)
  have le: "lo \<le> hi" "hi \<le> slice_len v" and u: "slice_backing u = slice_backing v"
    and ends: "checked_add (slice_start v) lo = Some (slice_start u)" "checked_add (slice_start v) hi = Some (slice_end u)"
    using assms(3) by (auto simp: slice_slice_def plus_or_panic_def expect_def split: option.splits)
  have sums: "unat (slice_start u) = unat (slice_start v) + unat lo" "unat (slice_end u) = unat (slice_start v) + unat hi"
    using ends by (simp_all add: checked_add_Some_iff)
  have "unat (slice_len v) = unat (slice_end v) - unat (slice_start v)"
    using b(4) by (simp add: slice_len_def unat_sub)
  with le b(4) have bound: "unat lo \<le> unat hi" "unat hi \<le> unat (slice_end v) - unat (slice_start v)"
    "unat (slice_start v) \<le> unat (slice_end v)"
    by (simp_all add: word_le_nat_alt)
  then have "slice_start u \<le> slice_end u" "unat (slice_end u) \<le> length (items (backing_value b))"
    using sums b(3) by (simp_all add: word_le_nat_alt)
  then have "slice_items w u = Inr (take (unat hi - unat lo) (drop (unat (slice_start v) + unat lo) (items (backing_value b))))"
    using b(1) u sums by (simp add: slice_items_def)
  moreover have "take (unat hi - unat lo) (drop (unat lo) (take (unat (slice_end v) - unat (slice_start v)) (drop (unat (slice_start v)) xs)))
      = take (unat hi - unat lo) (drop (unat (slice_start v) + unat lo) xs)" for xs :: "'a list"
    using bound by (simp add: drop_take min_def add.commute)
  ultimately show ?thesis using b(2) by simp
qed


section \<open>Witnesses\<close>

definition example_amounts :: "u64 \<Rightarrow> resource_amounts" where
  "example_amounts k = amount_from_values (\<lambda>_. k)"

definition example_policy :: "u64 \<Rightarrow> resource_budget_policy" where
  "example_policy k = \<lparr>limits = example_amounts k, control_reserve = example_amounts 1\<rparr>"

definition example_start :: "unit world" where
  "example_start = (case try_process 1 (example_policy 10) of Inr w \<Rightarrow> w)"


lemma example_policy_ok: "1 < k \<Longrightarrow> policy_validate (example_policy k) = Inr (example_policy k)"
  by (simp add: policy_validate_eq policy_ok_def example_policy_def example_amounts_def)

lemma example_start_eq: "try_process 1 (example_policy 10) = Inr example_start"
  by (simp add: example_start_def try_process_def example_policy_ok Let_def word_less_nat_alt)

text \<open>A workspace below the process, and a reservation of four units of everything for data.\<close>

definition example_actions :: "unit action list" where
  "example_actions = [CreateWorkspace 0 2 (example_policy 8), TryReserve 1 Data (example_amounts 4)]"

definition example_node :: "u64 \<Rightarrow> resource_owner \<Rightarrow> u64 option \<Rightarrow> u128 \<Rightarrow> node_state" where
  "example_node k owner p u = \<lparr>node_owner = owner, node_parent = p, node_policy = example_policy k,
     used = (\<lambda>_. u), data_used = (\<lambda>_. u), peak = (\<lambda>_. u)\<rparr>"

definition example_world :: "u128 \<Rightarrow> resource_reservation list \<Rightarrow> unit world" where
  "example_world u rs = (let process = \<lparr>owner_kind = Process, owner_id = 1\<rparr>; space = \<lparr>owner_kind = Workspace, owner_id = 2\<rparr> in
     \<lparr>world_ledger = \<lparr>next_token = 2,
        nodes = [0 \<mapsto> example_node 10 process None u, 1 \<mapsto> example_node 8 space (Some 0) u],
        children = [(0, space) \<mapsto> 1], child_counts = [0 \<mapsto> 1]\<rparr>,
      scopes = [\<lparr>token = 1, scope_owner = space, scope_policy = example_policy 8, scope_parent = Some 0, bookkeeping = None\<rparr>,
                \<lparr>token = 0, scope_owner = process, scope_policy = example_policy 10, scope_parent = None, bookkeeping = None\<rparr>],
      backings = [], next_address = 0, held_budgets = [1, 0], held_reservations = rs,
      held_accounts = [], held_values = [], held_slices = []\<rparr>)"

lemma example_start_world: "example_start = \<lparr>world_ledger = \<lparr>next_token = 1,
      nodes = [0 \<mapsto> example_node 10 \<lparr>owner_kind = Process, owner_id = 1\<rparr> None 0],
      children = (\<lambda>_. None), child_counts = (\<lambda>_. None)\<rparr>,
    scopes = [\<lparr>token = 0, scope_owner = \<lparr>owner_kind = Process, owner_id = 1\<rparr>, scope_policy = example_policy 10,
      scope_parent = None, bookkeeping = None\<rparr>],
    backings = [], next_address = 0, held_budgets = [0], held_reservations = [],
    held_accounts = [], held_values = [], held_slices = []\<rparr>"
  using example_start_eq by (simp add: try_process_def example_policy_ok Let_def word_less_nat_alt example_node_def)

lemma example_create: "perform (CreateWorkspace 0 2 (example_policy 8)) example_start = Some (Inr (), example_world 0 [])"
proof -
  have meet: "intersection (example_amounts 8) (example_amounts 10) = example_amounts 8"
    by (simp add: intersection_def example_amounts_def min_def word_le_nat_alt)
  have lims: "limits (example_policy k) = example_amounts k" for k by (simp add: example_policy_def)
  have cap: "child_scope_capacity (example_policy 10) = 40"
    by (simp add: child_scope_capacity_def lims example_amounts_def amount_from_values_def)
  have "budget_child 0 Process Workspace 2 (example_policy 8) example_start =
      Some (Inr 1, (example_world 0 [])\<lparr>held_budgets := [0]\<rparr>)"
    by (simp add: budget_child_def example_start_world bindB_deref find_scope_def example_policy_ok word_less_nat_alt word_le_nat_alt
        Let_def plus_or_panic_def checked_add_def example_world_def example_node_def lims meet cap)
  then show ?thesis
    by (simp add: workspace_def bindB_simps store_budget_def example_world_def Let_def)
qed

lemma example_lineage:
  "lineage (parent_of (nodes (world_ledger (example_world u rs)))) 0 = [0]"
  "lineage (parent_of (nodes (world_ledger (example_world u rs)))) 1 = [1, 0]"
  by (simp_all add: lineage.simps parent_of_def example_world_def example_node_def Let_def word_less_nat_alt)

lemma example_reserve:
  "perform (TryReserve 1 Data (example_amounts 4)) (example_world 0 []) =
     Some (Inr (), example_world 4 [\<lparr>res_scope = 1, res_class = Data, res_amounts = example_amounts 4\<rparr>])"
proof -
  let ?a = "wide (example_amounts 4)"
  have a: "?a d = 4" for d by (simp add: wide_def example_amounts_def)
  have check: "check_dimensions Data True ?a (example_node k owner p 0) ALL_DIMENSIONS = Inr ()" if "5 \<le> unat k" for k owner p
  proof -
    have "node_ok (example_node k owner p 0)"
      using that by (simp add: node_ok_def policy_ok_def example_node_def example_policy_def example_amounts_def word_less_nat_alt)
    moreover have "fits Data True ?a (example_node k owner p 0)"
      using that by (auto simp: fits_def fits_dim_def a example_node_def example_policy_def example_amounts_def)
    ultimately show ?thesis by (simp add: check_dimensions_all)
  qed
  have charge: "charge_dimensions Data ?a (example_node k owner p 0) ALL_DIMENSIONS = Inr (example_node k owner p 4)" for k owner p
    by (subst charge_dimensions_all) (simp_all add: a example_node_def charged_def max_def word_le_nat_alt)
  have parent: "node_parent (example_node k owner p u) = p" for k owner p u by (simp add: example_node_def)
  let ?ns = "nodes (world_ledger (example_world 0 []))"
  have "check_lineage Data True ?a ?ns 1 = Some (Inr ())"
    by (simp add: check_lineage_def cursor_loop_Some example_world_def Let_def check parent)
  moreover have "charge_lineage Data ?a ?ns 1 = Some (Inr (nodes (world_ledger (example_world 4 []))))"
    by (simp add: charge_lineage_def cursor_loop_Some example_world_def Let_def charge parent fun_upd_twist)
  ultimately show ?thesis
    by (simp add: try_reserve_def budget_add_def on_nodes_def bindB_def store_reservation_def example_world_def Let_def)
qed

lemma example_budget_run: "runs example_start example_actions
    (example_world 4 [\<lparr>res_scope = 1, res_class = Data, res_amounts = example_amounts 4\<rparr>])"
proof -
  have "runs example_start ([] @ [CreateWorkspace 0 2 (example_policy 8)]) (example_world 0 [])"
    by (rule runs.step [OF runs.none _ _ example_create]) (simp_all add: example_start_world)
  from runs.step [OF this _ _ example_reserve] show ?thesis
    by (simp add: example_actions_def example_world_def Let_def)
qed

theorem counters_are_exact_witness:
  "\<exists>w n. runs example_start example_actions w \<and> nodes (world_ledger w) 0 = Some n \<and>
     unat (used n Rows) = 4 \<and> due (\<lambda>_. True) (parent_of (nodes (world_ledger w))) (charges w) 0 Rows = 4 \<and>
     due ((=) Data) (parent_of (nodes (world_ledger w))) (charges w) 0 Rows = 4"
proof -
  let ?w = "example_world 4 [\<lparr>res_scope = 1, res_class = Data, res_amounts = example_amounts 4\<rparr>]"
  let ?n = "example_node 10 \<lparr>owner_kind = Process, owner_id = 1\<rparr> None 4"
  have n: "nodes (world_ledger ?w) 0 = Some ?n" by (simp add: example_world_def Let_def)
  have "unat (used ?n Rows) = 4" "unat (data_used ?n Rows) = 4" by (simp_all add: example_node_def)
  with counters_are_exact [OF example_start_eq example_budget_run n, of Rows] n example_budget_run show ?thesis
    by (intro exI [of _ ?w] exI [of _ ?n]) simp
qed

theorem use_stays_within_limits_witness:
  "\<exists>w n. runs example_start example_actions w \<and> nodes (world_ledger w) 1 = Some n \<and>
     unat (used n MemoryBytes) \<le> 8 \<and> unat (data_used n MemoryBytes) \<le> 7"
proof -
  let ?w = "example_world 4 [\<lparr>res_scope = 1, res_class = Data, res_amounts = example_amounts 4\<rparr>]"
  let ?n = "example_node 8 \<lparr>owner_kind = Workspace, owner_id = 2\<rparr> (Some 0) 4"
  have n: "nodes (world_ledger ?w) 1 = Some ?n" by (simp add: example_world_def Let_def)
  have "unat (used ?n MemoryBytes) \<le> 8 \<and> unat (data_used ?n MemoryBytes) \<le> 7"
    using use_stays_within_limits [OF example_start_eq example_budget_run n, of MemoryBytes]
    by (simp add: example_actions_def example_node_def example_policy_def example_amounts_def)
  with n example_budget_run show ?thesis
    by (intro exI [of _ ?w] exI [of _ ?n]) simp
qed


theorem admission_is_exact_and_atomic_witness:
  "\<exists>w e. runs example_start example_actions w \<and>
     try_reserve 1 Data (example_amounts 4) w = Some (Inl (Err e), w)"
proof -
  let ?w = "example_world 4 [\<lparr>res_scope = 1, res_class = Data, res_amounts = example_amounts 4\<rparr>]"
  have held: "1 \<in> set (held_budgets ?w)" by (simp add: example_world_def Let_def)
  have "unat (data_used n Rows) + unat (amount_values (example_amounts 4) Rows) = 8 \<and>
      unat (amount_values (limits (node_policy n)) Rows) - unat (amount_values (control_reserve (node_policy n)) Rows) = 7"
    if "nodes (world_ledger ?w) 1 = Some n" for n
    using that by (auto simp: example_world_def Let_def example_node_def example_policy_def example_amounts_def
        amount_from_values_def)
  then have "\<exists>e. try_reserve 1 Data (example_amounts 4) ?w = Some (Inl (Err e), ?w)"
    using admission_is_exact_and_atomic [OF example_start_eq example_budget_run held, of "example_amounts 4" Data]
    unfolding example_lineage by (auto split: if_splits dest!: spec [of _ Rows])
  with example_budget_run show ?thesis by blast
qed


theorem scope_registry_is_well_formed_witness:
  "\<exists>w. runs example_start example_actions w \<and> length (scopes w) = 2 \<and> token ` set (scopes w) = dom (nodes (world_ledger w)) \<and>
     kids (world_ledger w) 0 \<noteq> {}"
proof -
  let ?w = "example_world 4 [\<lparr>res_scope = 1, res_class = Data, res_amounts = example_amounts 4\<rparr>]"
  have "length (scopes ?w) = 2" "1 \<in> kids (world_ledger ?w) 0"
    by (simp_all add: example_world_def Let_def kids_def parent_of_def example_node_def)
  with scope_registry_is_well_formed [OF example_start_eq example_budget_run refl] example_budget_run show ?thesis by blast
qed

lemma example_drop: "\<exists>w. runs example_start [DropBudget 0] w \<and>
    held_budgets w = [] \<and> held_reservations w = [] \<and> held_accounts w = [] \<and> held_values w = [] \<and> held_slices w = []"
proof -
  have "references (example_start\<lparr>held_budgets := []\<rparr>) = []"
    by (simp add: references_def example_start_world)
  then have "\<exists>w. perform (DropBudget 0) example_start = Some (Inr (), w) \<and>
      held_budgets w = [] \<and> held_reservations w = [] \<and> held_accounts w = [] \<and> held_values w = [] \<and> held_slices w = []"
    by (simp add: example_start_world release_scope.simps [of 0] find_scope_def scope_drop_def example_node_def)
  then obtain w where w: "perform (DropBudget 0) example_start = Some (Inr (), w)"
    "held_budgets w = [] \<and> held_reservations w = [] \<and> held_accounts w = [] \<and> held_values w = [] \<and> held_slices w = []"
    by blast
  have "holds example_start (DropBudget 0)" by (simp add: example_start_world)
  from runs.step [OF runs.none this _ w(1)] w(2) show ?thesis by auto
qed

theorem dropping_everything_empties_the_ledger_witness:
  "\<exists>w. runs example_start [DropBudget 0] w \<and> scopes w = [] \<and> nodes (world_ledger w) = Map.empty"
  using example_drop dropping_everything_empties_the_ledger [OF example_start_eq] by blast

end
