(* ===== verification/Cbef.thy ===== *)
theory Cbef
  imports Collections
begin

text \<open>
  The canonical binary format of \<open>identity.rs\<close> (CBEF version 1): typed values and records, their encoder
  and the decoder, which has to reject every byte string that the encoder does not write.  Unicode
  normalization is the \<open>unicode_normalization\<close> crate and is a parameter; ASCII lowering and UTF-8
  validity are the standard library's and are defined here.  A slice has fewer than \<open>2 ^ 63\<close> bytes, so
  the cursor of the decoder cannot overflow and is a natural number.
\<close>

section \<open>Text\<close>

fun valid_utf8 :: "u8 list \<Rightarrow> bool" where
  "valid_utf8 [] = True"
| "valid_utf8 (b # bs) =
     (if b < 0x80 then valid_utf8 bs
      else case bs of
        [] \<Rightarrow> False
      | c # cs \<Rightarrow>
          if 0xC2 \<le> b \<and> b \<le> 0xDF then 0x80 \<le> c \<and> c \<le> 0xBF \<and> valid_utf8 cs
          else (case cs of
            [] \<Rightarrow> False
          | d # ds \<Rightarrow>
              if 0xE0 \<le> b \<and> b \<le> 0xEF then
                (if b = 0xE0 then 0xA0 \<le> c \<and> c \<le> 0xBF
                 else if b = 0xED then 0x80 \<le> c \<and> c \<le> 0x9F
                 else 0x80 \<le> c \<and> c \<le> 0xBF) \<and>
                0x80 \<le> d \<and> d \<le> 0xBF \<and> valid_utf8 ds
              else (case ds of
                [] \<Rightarrow> False
              | e # es \<Rightarrow>
                  0xF0 \<le> b \<and> b \<le> 0xF4 \<and>
                  (if b = 0xF0 then 0x90 \<le> c \<and> c \<le> 0xBF
                   else if b = 0xF4 then 0x80 \<le> c \<and> c \<le> 0x8F
                   else 0x80 \<le> c \<and> c \<le> 0xBF) \<and>
                  0x80 \<le> d \<and> d \<le> 0xBF \<and> 0x80 \<le> e \<and> e \<le> 0xBF \<and> valid_utf8 es)))"

definition is_ascii :: "str \<Rightarrow> bool" where
  "is_ascii s \<longleftrightarrow> list_all (\<lambda>b. b < 0x80) s"

definition to_ascii_lowercase :: "str \<Rightarrow> str" where
  "to_ascii_lowercase s = map (\<lambda>b. if 65 \<le> b \<and> b \<le> 90 then b + 32 else b) s"

text \<open>The functions of the normalization crates, and that they map strings to strings.\<close>

record unicode =
  nfc :: "str \<Rightarrow> str"
  nfkc :: "str \<Rightarrow> str"
  nfd_case_fold :: "str \<Rightarrow> str"

definition unicode_contract :: "unicode \<Rightarrow> bool" where
  "unicode_contract u \<longleftrightarrow>
     (\<forall>s. valid_utf8 s \<longrightarrow> valid_utf8 (nfc u s) \<and> valid_utf8 (nfkc u s) \<and> valid_utf8 (nfd_case_fold u s))"


section \<open>Domains, values and records\<close>

datatype identity_domain =
    Workspace | Repository | Worktree | AnalysisContext | ContextSet | SourceFile | Owner | Entity
  | RelationFact | PropertyFact | TypeDomain | Publication | ServingSnapshot | ResultArtifact
  | SourceContext | UnknownRemainder | RootAuthorization | PathResult | ObjectiveInputSet
  | ObjectiveGroup | QuerySourceContext | AccessScope | ResultArtifactV2

fun domain_code :: "identity_domain \<Rightarrow> u16" where
  "domain_code Workspace = 1"
| "domain_code Repository = 2"
| "domain_code Worktree = 3"
| "domain_code AnalysisContext = 4"
| "domain_code ContextSet = 5"
| "domain_code SourceFile = 6"
| "domain_code Owner = 7"
| "domain_code Entity = 8"
| "domain_code RelationFact = 9"
| "domain_code PropertyFact = 10"
| "domain_code TypeDomain = 11"
| "domain_code Publication = 12"
| "domain_code ServingSnapshot = 13"
| "domain_code ResultArtifact = 14"
| "domain_code SourceContext = 15"
| "domain_code UnknownRemainder = 16"
| "domain_code RootAuthorization = 17"
| "domain_code PathResult = 18"
| "domain_code ObjectiveInputSet = 19"
| "domain_code ObjectiveGroup = 20"
| "domain_code QuerySourceContext = 21"
| "domain_code AccessScope = 22"
| "domain_code ResultArtifactV2 = 23"

datatype identity_error =
    Header
  | UnknownDomain u16
  | UnknownTypeCode u8
  | Truncated
  | FieldOrder
  | ContainerOrder
  | Scalar
  | TrailingBytes
  | PublicId
  | IdCollision str
  | PathEncoding
  | Platform u8
  | PathCollision
  | CaseProbe str
  | Random str

definition domain_from_code :: "u16 \<Rightarrow> (identity_error, identity_domain) result" where
  "domain_from_code c =
     (if c = 1 then Inr Workspace
      else if c = 2 then Inr Repository
      else if c = 3 then Inr Worktree
      else if c = 4 then Inr AnalysisContext
      else if c = 5 then Inr ContextSet
      else if c = 6 then Inr SourceFile
      else if c = 7 then Inr Owner
      else if c = 8 then Inr Entity
      else if c = 9 then Inr RelationFact
      else if c = 10 then Inr PropertyFact
      else if c = 11 then Inr TypeDomain
      else if c = 12 then Inr Publication
      else if c = 13 then Inr ServingSnapshot
      else if c = 14 then Inr ResultArtifact
      else if c = 15 then Inr SourceContext
      else if c = 16 then Inr UnknownRemainder
      else if c = 17 then Inr RootAuthorization
      else if c = 18 then Inr PathResult
      else if c = 19 then Inr ObjectiveInputSet
      else if c = 20 then Inr ObjectiveGroup
      else if c = 21 then Inr QuerySourceContext
      else if c = 22 then Inr AccessScope
      else if c = 23 then Inr ResultArtifactV2
      else Inl (Err (UnknownDomain c)))"

datatype cbef_type_code =
    AbsentCode | BytesCode | Utf8Code | RawPathCode | UnsignedCode | SignedCode | BooleanCode | IdCode
  | DigestCode | OrderedListCode | SetCode | MapCode | TaggedUnionCode

fun type_code_byte :: "cbef_type_code \<Rightarrow> u8" where
  "type_code_byte AbsentCode = 0"
| "type_code_byte BytesCode = 1"
| "type_code_byte Utf8Code = 2"
| "type_code_byte RawPathCode = 3"
| "type_code_byte UnsignedCode = 4"
| "type_code_byte SignedCode = 5"
| "type_code_byte BooleanCode = 6"
| "type_code_byte IdCode = 7"
| "type_code_byte DigestCode = 8"
| "type_code_byte OrderedListCode = 9"
| "type_code_byte SetCode = 10"
| "type_code_byte MapCode = 11"
| "type_code_byte TaggedUnionCode = 12"

definition type_from_code :: "u8 \<Rightarrow> (identity_error, cbef_type_code) result" where
  "type_from_code c =
     (if c = 0 then Inr AbsentCode
      else if c = 1 then Inr BytesCode
      else if c = 2 then Inr Utf8Code
      else if c = 3 then Inr RawPathCode
      else if c = 4 then Inr UnsignedCode
      else if c = 5 then Inr SignedCode
      else if c = 6 then Inr BooleanCode
      else if c = 7 then Inr IdCode
      else if c = 8 then Inr DigestCode
      else if c = 9 then Inr OrderedListCode
      else if c = 10 then Inr SetCode
      else if c = 11 then Inr MapCode
      else if c = 12 then Inr TaggedUnionCode
      else Inl (Err (UnknownTypeCode c)))"

datatype string_normalization =
    NoNormalization | Nfc | Nfkc | AsciiLower | PythonIdentifierNfkc | RustCanonical

datatype cbef_value =
    Absent
  | Bytes "u8 list"
  | Utf8 str string_normalization
  | RawPath u8 "u8 list"
  | Unsigned "u8 list"
  | Signed "u8 list"
  | Boolean bool
  | Id b16
  | Digest b32
  | OrderedList "cbef_value list"
  | SetOf "cbef_value list"
  | MapOf "(cbef_value \<times> cbef_value) list"
  | TaggedUnion u16 cbef_value

fun type_code :: "cbef_value \<Rightarrow> cbef_type_code" where
  "type_code Absent = AbsentCode"
| "type_code (Bytes _) = BytesCode"
| "type_code (Utf8 _ _) = Utf8Code"
| "type_code (RawPath _ _) = RawPathCode"
| "type_code (Unsigned _) = UnsignedCode"
| "type_code (Signed _) = SignedCode"
| "type_code (Boolean _) = BooleanCode"
| "type_code (Id _) = IdCode"
| "type_code (Digest _) = DigestCode"
| "type_code (OrderedList _) = OrderedListCode"
| "type_code (SetOf _) = SetCode"
| "type_code (MapOf _) = MapCode"
| "type_code (TaggedUnion _ _) = TaggedUnionCode"

record cbef_field =
  tag :: u16
  field_value :: cbef_value

record cbef_record =
  domain :: identity_domain
  record_fields :: "cbef_field list"


section \<open>Encoder\<close>

fun normalized :: "unicode \<Rightarrow> str \<Rightarrow> string_normalization \<Rightarrow> (identity_error, str) result" where
  "normalized u s NoNormalization = Inr s"
| "normalized u s RustCanonical = Inr s"
| "normalized u s Nfc = Inr (nfc u s)"
| "normalized u s Nfkc = Inr (nfkc u s)"
| "normalized u s PythonIdentifierNfkc = Inr (nfkc u s)"
| "normalized u s AsciiLower = bindE (ensure (is_ascii s) Scalar) (\<lambda>_. Inr (to_ascii_lowercase s))"

definition put_u16 :: "u16 \<Rightarrow> u8 list" where
  "put_u16 w = be_bytes 2 (unat w)"

definition put_u32 :: "nat \<Rightarrow> (identity_error, u8 list) result" where
  "put_u32 n = bindE (ensure (n < 2 ^ 32) Scalar) (\<lambda>_. Inr (be_bytes 4 n))"

text \<open>A typed value: its type code, the length of its payload, its payload.\<close>

definition typed_frame :: "cbef_type_code \<Rightarrow> u8 list \<Rightarrow> (identity_error, u8 list) result" where
  "typed_frame code payload = bindE (put_u32 (length payload)) (\<lambda>n. Inr (type_code_byte code # n @ payload))"

fun frame_items :: "u8 list list \<Rightarrow> (identity_error, u8 list) result" where
  "frame_items [] = Inr []"
| "frame_items (x # xs) =
     bindE (put_u32 (length x)) (\<lambda>n. bindE (frame_items xs) (\<lambda>body. Inr (n @ x @ body)))"

definition frame_sequence :: "u8 list list \<Rightarrow> (identity_error, u8 list) result" where
  "frame_sequence items = bindE (put_u32 (length items)) (\<lambda>n. bindE (frame_items items) (\<lambda>body. Inr (n @ body)))"

fun frame_entries :: "(u8 list \<times> u8 list) list \<Rightarrow> (identity_error, u8 list) result" where
  "frame_entries [] = Inr []"
| "frame_entries ((k, v) # es) =
     bindE (put_u32 (length k)) (\<lambda>n.
     bindE (put_u32 (length v)) (\<lambda>m.
     bindE (frame_entries es) (\<lambda>body. Inr (n @ k @ m @ v @ body))))"

function encode_payload :: "unicode \<Rightarrow> cbef_value \<Rightarrow> (identity_error, u8 list) result"
  and encode_values :: "unicode \<Rightarrow> cbef_value list \<Rightarrow> (identity_error, u8 list list) result"
  and encode_entries :: "unicode \<Rightarrow> (cbef_value \<times> cbef_value) list \<Rightarrow> (identity_error, (u8 list \<times> u8 list) list) result"
where
  "encode_payload u Absent = Inr []"
| "encode_payload u (Bytes bs) = Inr bs"
| "encode_payload u (Utf8 s n) = normalized u s n"
| "encode_payload u (RawPath platform bs) =
     bindE (ensure (1 \<le> platform \<and> platform \<le> 3) (Platform platform)) (\<lambda>_. Inr (platform # bs))"
| "encode_payload u (Unsigned bs) = bindE (ensure (length bs \<in> {1, 2, 4, 8, 16}) Scalar) (\<lambda>_. Inr bs)"
| "encode_payload u (Signed bs) = bindE (ensure (length bs \<in> {1, 2, 4, 8, 16}) Scalar) (\<lambda>_. Inr bs)"
| "encode_payload u (Boolean b) = Inr [if b then 1 else 0]"
| "encode_payload u (Id i) = Inr (b16_bytes i)"
| "encode_payload u (Digest d) = Inr (b32_bytes d)"
| "encode_payload u (OrderedList vs) = bindE (encode_values u vs) frame_sequence"
| "encode_payload u (SetOf vs) = bindE (encode_values u vs) (\<lambda>items. frame_sequence (remdups_adj (sort items)))"
| "encode_payload u (MapOf es) =
     bindE (encode_entries u es) (\<lambda>entries.
     let sorted = sort_key fst entries in
     bindE (ensure (distinct_adj (map fst sorted)) ContainerOrder) (\<lambda>_.
     bindE (put_u32 (length sorted)) (\<lambda>n.
     bindE (frame_entries sorted) (\<lambda>body. Inr (n @ body)))))"
| "encode_payload u (TaggedUnion variant v) =
     bindE (encode_payload u v) (\<lambda>payload.
     bindE (typed_frame (type_code v) payload) (\<lambda>encoded.
     bindE (put_u32 (length encoded)) (\<lambda>n. Inr (put_u16 variant @ n @ encoded))))"
| "encode_values u [] = Inr []"
| "encode_values u (v # vs) =
     bindE (encode_payload u v) (\<lambda>payload.
     bindE (typed_frame (type_code v) payload) (\<lambda>encoded.
     bindE (encode_values u vs) (\<lambda>rest. Inr (encoded # rest))))"
| "encode_entries u [] = Inr []"
| "encode_entries u ((k, v) # es) =
     bindE (encode_payload u k) (\<lambda>key_payload.
     bindE (typed_frame (type_code k) key_payload) (\<lambda>key.
     bindE (encode_payload u v) (\<lambda>value_payload.
     bindE (typed_frame (type_code v) value_payload) (\<lambda>encoded.
     bindE (encode_entries u es) (\<lambda>rest. Inr ((key, encoded) # rest))))))"
  by pat_completeness auto

termination
  by (relation "measure (\<lambda>x. case x of
         Inl (u, v) \<Rightarrow> size v
       | Inr (Inl (u, vs)) \<Rightarrow> size_list size vs
       | Inr (Inr (u, es)) \<Rightarrow> size_list (size_prod size size) es)") auto

definition encode_typed :: "unicode \<Rightarrow> cbef_value \<Rightarrow> (identity_error, u8 list) result" where
  "encode_typed u v = bindE (encode_payload u v) (typed_frame (type_code v))"

fun encode_fields :: "unicode \<Rightarrow> cbef_field list \<Rightarrow> (identity_error, u8 list) result" where
  "encode_fields u [] = Inr []"
| "encode_fields u (f # fs) =
     bindE (encode_payload u (field_value f)) (\<lambda>payload.
     bindE (put_u32 (length payload)) (\<lambda>n.
     bindE (encode_fields u fs) (\<lambda>rest.
     Inr (put_u16 (tag f) @ [type_code_byte (type_code (field_value f))] @ n @ payload @ rest))))"

definition MAGIC :: "u8 list" where
  "MAGIC = ascii ''CFID''"

definition FORMAT_VERSION :: u8 where
  "FORMAT_VERSION = 1"

definition encode_cbef_record :: "unicode \<Rightarrow> cbef_record \<Rightarrow> (identity_error, u8 list) result" where
  "encode_cbef_record u r =
     bindE (ensure (\<not> ((case record_fields r of [] \<Rightarrow> False | f # _ \<Rightarrow> tag f = 0) \<or>
                         \<not> successively (\<lambda>a b. tag a < tag b) (record_fields r)))
              FieldOrder) (\<lambda>_.
     bindE (ensure (length (record_fields r) < 2 ^ 16) Scalar) (\<lambda>_.
     bindE (encode_fields u (record_fields r)) (\<lambda>body.
     Inr (MAGIC @ [FORMAT_VERSION] @ put_u16 (domain_code (domain r)) @ be_bytes 2 (length (record_fields r)) @ body))))"


section \<open>Decoder\<close>

definition take_at :: "u8 list \<Rightarrow> nat \<Rightarrow> nat \<Rightarrow> (identity_error, u8 list \<times> nat) result" where
  "take_at bytes cursor n =
     bindE (ensure (cursor + n \<le> length bytes) Truncated) (\<lambda>_.
     Inr (take n (drop cursor bytes), cursor + n))"

definition read_u16 :: "u8 list \<Rightarrow> nat \<Rightarrow> (identity_error, u16 \<times> nat) result" where
  "read_u16 bytes cursor = bindE (take_at bytes cursor 2) (\<lambda>(bs, cursor'). Inr (of_nat (be_value bs), cursor'))"

definition read_u32 :: "u8 list \<Rightarrow> nat \<Rightarrow> (identity_error, nat \<times> nat) result" where
  "read_u32 bytes cursor = bindE (take_at bytes cursor 4) (\<lambda>(bs, cursor'). Inr (be_value bs, cursor'))"

lemma bindE_cong [fundef_cong]:
  "m = m' \<Longrightarrow> (\<And>x. m' = Inr x \<Longrightarrow> f x = g x) \<Longrightarrow> bindE m f = bindE m' g"
  by (cases m') simp_all

lemma take_at_eq: "take_at bytes cursor n = Inr (bs, cursor') \<longleftrightarrow>
    cursor + n \<le> length bytes \<and> bs = take n (drop cursor bytes) \<and> cursor' = cursor + n"
  by (auto simp: take_at_def)

lemma read_u32_eq: "read_u32 bytes cursor = Inr (n, cursor') \<longleftrightarrow>
    cursor + 4 \<le> length bytes \<and> n = be_value (take 4 (drop cursor bytes)) \<and> cursor' = cursor + 4"
  by (auto simp: read_u32_def take_at_def)

lemma framed_shorter:
  "read_u32 bytes cursor = Inr x \<Longrightarrow> (n, cursor') = x \<Longrightarrow> take_at bytes cursor' m = Inr y \<Longrightarrow> (item, cursor'') = y \<Longrightarrow>
   length item < length bytes"
  by (auto simp: read_u32_def take_at_def)

text \<open>
  A decoded sequence or map holds the items as they are in the payload.  The second pass of
  \<open>decode_sequence\<close> repeats the calls of the first, whose results are kept here.
\<close>

function decode_typed :: "u8 list \<Rightarrow> (identity_error, cbef_value) result"
  and decode_payload :: "cbef_type_code \<Rightarrow> u8 list \<Rightarrow> (identity_error, cbef_value) result"
  and decode_items :: "nat \<Rightarrow> u8 list \<Rightarrow> nat \<Rightarrow> (identity_error, (u8 list \<times> cbef_value) list \<times> nat) result"
  and decode_entries :: "nat \<Rightarrow> u8 list \<Rightarrow> u8 list option \<Rightarrow> nat \<Rightarrow>
    (identity_error, (cbef_value \<times> cbef_value) list \<times> nat) result"
where
  "decode_typed bytes =
     bindE (take_at bytes 0 1) (\<lambda>(code, cursor).
     bindE (type_from_code (hd code)) (\<lambda>t.
     bindE (read_u32 bytes cursor) (\<lambda>(n, cursor).
     bindE (take_at bytes cursor n) (\<lambda>(payload, cursor).
     bindE (ensure (cursor = length bytes) TrailingBytes) (\<lambda>_.
     decode_payload t payload)))))"
| "decode_payload t payload =
     (case t of
        AbsentCode \<Rightarrow> if payload = [] then Inr Absent else Inl (Err Scalar)
      | BytesCode \<Rightarrow> Inr (Bytes payload)
      | Utf8Code \<Rightarrow> bindE (ensure (valid_utf8 payload) Scalar) (\<lambda>_. Inr (Utf8 payload NoNormalization))
      | RawPathCode \<Rightarrow>
          (case payload of
             [] \<Rightarrow> Inl (Err Scalar)
           | platform # bs \<Rightarrow>
               bindE (ensure (1 \<le> platform \<and> platform \<le> 3) (Platform platform)) (\<lambda>_. Inr (RawPath platform bs)))
      | UnsignedCode \<Rightarrow> if length payload \<in> {1, 2, 4, 8, 16} then Inr (Unsigned payload) else Inl (Err Scalar)
      | SignedCode \<Rightarrow> if length payload \<in> {1, 2, 4, 8, 16} then Inr (Signed payload) else Inl (Err Scalar)
      | BooleanCode \<Rightarrow> if payload = [0] \<or> payload = [1] then Inr (Boolean (payload = [1])) else Inl (Err Scalar)
      | IdCode \<Rightarrow> if length payload = 16 then Inr (Id (of_nat (be_value payload))) else Inl (Err Scalar)
      | DigestCode \<Rightarrow> if length payload = 32 then Inr (Digest (of_nat (be_value payload))) else Inl (Err Scalar)
      | OrderedListCode \<Rightarrow>
          bindE (read_u32 payload 0) (\<lambda>(n, cursor).
          bindE (decode_items n payload cursor) (\<lambda>(items, cursor).
          bindE (ensure (cursor = length payload) TrailingBytes) (\<lambda>_.
          Inr (OrderedList (map snd items)))))
      | SetCode \<Rightarrow>
          bindE (read_u32 payload 0) (\<lambda>(n, cursor).
          bindE (decode_items n payload cursor) (\<lambda>(items, cursor).
          bindE (ensure (cursor = length payload) TrailingBytes) (\<lambda>_.
          bindE (ensure (successively (<) (map fst items)) ContainerOrder) (\<lambda>_.
          Inr (SetOf (map snd items))))))
      | MapCode \<Rightarrow>
          bindE (read_u32 payload 0) (\<lambda>(n, cursor).
          bindE (decode_entries n payload None cursor) (\<lambda>(entries, cursor).
          bindE (ensure (cursor = length payload) TrailingBytes) (\<lambda>_.
          Inr (MapOf entries))))
      | TaggedUnionCode \<Rightarrow>
          bindE (read_u16 payload 0) (\<lambda>(variant, cursor).
          bindE (read_u32 payload cursor) (\<lambda>(n, cursor).
          bindE (take_at payload cursor n) (\<lambda>(encoded, cursor).
          bindE (decode_typed encoded) (\<lambda>v.
          bindE (ensure (cursor = length payload) TrailingBytes) (\<lambda>_.
          Inr (TaggedUnion variant v)))))))"
| "decode_items 0 payload cursor = Inr ([], cursor)"
| "decode_items (Suc k) payload cursor =
     bindE (read_u32 payload cursor) (\<lambda>(n, cursor).
     bindE (take_at payload cursor n) (\<lambda>(item, cursor).
     bindE (decode_typed item) (\<lambda>v.
     bindE (decode_items k payload cursor) (\<lambda>(items, cursor).
     Inr ((item, v) # items, cursor)))))"
| "decode_entries 0 payload previous cursor = Inr ([], cursor)"
| "decode_entries (Suc k) payload previous cursor =
     bindE (read_u32 payload cursor) (\<lambda>(n, cursor).
     bindE (take_at payload cursor n) (\<lambda>(key, cursor).
     bindE (ensure (\<not> (case previous of None \<Rightarrow> False | Some p \<Rightarrow> key \<le> p)) ContainerOrder) (\<lambda>_.
     bindE (read_u32 payload cursor) (\<lambda>(m, cursor).
     bindE (take_at payload cursor m) (\<lambda>(encoded, cursor).
     bindE (decode_typed key) (\<lambda>k'.
     bindE (decode_typed encoded) (\<lambda>v.
     bindE (decode_entries k payload (Some key) cursor) (\<lambda>(entries, cursor).
     Inr ((k', v) # entries, cursor)))))))))"
  by pat_completeness auto

termination
  apply (relation "measures
    [\<lambda>x. case x of Inl (Inl bytes) \<Rightarrow> length bytes | Inl (Inr (t, payload)) \<Rightarrow> length payload
          | Inr (Inl (k, payload, cursor)) \<Rightarrow> length payload | Inr (Inr (k, payload, previous, cursor)) \<Rightarrow> length payload,
     \<lambda>x. case x of Inl (Inl bytes) \<Rightarrow> 0 | Inl (Inr (t, payload)) \<Rightarrow> 1 | Inr (Inl _) \<Rightarrow> 0 | Inr (Inr _) \<Rightarrow> 0,
     \<lambda>x. case x of Inl _ \<Rightarrow> 0 | Inr (Inl (k, _)) \<Rightarrow> k | Inr (Inr (k, _)) \<Rightarrow> k]")
  apply simp_all
  by (blast intro: framed_shorter)+

declare decode_typed.simps [simp del] decode_payload.simps [simp del]

fun decode_fields :: "nat \<Rightarrow> u8 list \<Rightarrow> u16 \<Rightarrow> nat \<Rightarrow> (identity_error, cbef_field list \<times> nat) result" where
  "decode_fields 0 bytes previous cursor = Inr ([], cursor)"
| "decode_fields (Suc k) bytes previous cursor =
     bindE (read_u16 bytes cursor) (\<lambda>(t, cursor).
     bindE (ensure (\<not> t \<le> previous) FieldOrder) (\<lambda>_.
     bindE (take_at bytes cursor 1) (\<lambda>(code, cursor).
     bindE (type_from_code (hd code)) (\<lambda>c.
     bindE (read_u32 bytes cursor) (\<lambda>(n, cursor).
     bindE (take_at bytes cursor n) (\<lambda>(payload, cursor).
     bindE (decode_payload c payload) (\<lambda>v.
     bindE (decode_fields k bytes t cursor) (\<lambda>(fs, cursor).
     Inr (\<lparr>tag = t, field_value = v\<rparr> # fs, cursor)))))))))"

definition decode_cbef_record :: "u8 list \<Rightarrow> (identity_error, cbef_record) result" where
  "decode_cbef_record bytes =
     bindE (take_at bytes 0 4) (\<lambda>(magic, cursor).
     bindE (ensure (magic = MAGIC) Header) (\<lambda>_.
     bindE (take_at bytes cursor 1) (\<lambda>(version, cursor).
     bindE (ensure (version = [FORMAT_VERSION]) Header) (\<lambda>_.
     bindE (read_u16 bytes cursor) (\<lambda>(code, cursor).
     bindE (domain_from_code code) (\<lambda>d.
     bindE (read_u16 bytes cursor) (\<lambda>(n, cursor).
     bindE (decode_fields (unat n) bytes 0 cursor) (\<lambda>(fs, cursor).
     bindE (ensure (cursor = length bytes) TrailingBytes) (\<lambda>_.
     Inr \<lparr>domain = d, record_fields = fs\<rparr>)))))))))"


section \<open>Canonical form\<close>

text \<open>
  The value that a record keeps of what it was built from: strings are normalized, sets sorted by
  encoding without duplicates, maps sorted by the encoding of their keys.
\<close>

definition typed_key :: "unicode \<Rightarrow> cbef_value \<Rightarrow> u8 list" where
  "typed_key u v = (case encode_typed u v of Inl _ \<Rightarrow> [] | Inr b \<Rightarrow> b)"

fun canonical :: "unicode \<Rightarrow> cbef_value \<Rightarrow> cbef_value" where
  "canonical u (Utf8 s n) = (case normalized u s n of Inl _ \<Rightarrow> Utf8 s n | Inr s' \<Rightarrow> Utf8 s' NoNormalization)"
| "canonical u (OrderedList vs) = OrderedList (map (canonical u) vs)"
| "canonical u (SetOf vs) = SetOf (remdups_adj (sort_key (typed_key u) (map (canonical u) vs)))"
| "canonical u (MapOf es) =
     MapOf (sort_key (\<lambda>(k, _). typed_key u k) (map (\<lambda>(k, v). (canonical u k, canonical u v)) es))"
| "canonical u (TaggedUnion variant v) = TaggedUnion variant (canonical u v)"
| "canonical u v = v"

definition canonical_field :: "unicode \<Rightarrow> cbef_field \<Rightarrow> cbef_field" where
  "canonical_field u f = f\<lparr>field_value := canonical u (field_value f)\<rparr>"

definition canonical_record :: "unicode \<Rightarrow> cbef_record \<Rightarrow> cbef_record" where
  "canonical_record u r = r\<lparr>record_fields := map (canonical_field u) (record_fields r)\<rparr>"

text \<open>A \<open>String\<close> holds valid UTF-8.\<close>

fun strings_ok :: "cbef_value \<Rightarrow> bool" where
  "strings_ok (Utf8 s n) \<longleftrightarrow> valid_utf8 s"
| "strings_ok (OrderedList vs) \<longleftrightarrow> list_all strings_ok vs"
| "strings_ok (SetOf vs) \<longleftrightarrow> list_all strings_ok vs"
| "strings_ok (MapOf es) \<longleftrightarrow> list_all (\<lambda>(k, v). strings_ok k \<and> strings_ok v) es"
| "strings_ok (TaggedUnion variant v) \<longleftrightarrow> strings_ok v"
| "strings_ok v \<longleftrightarrow> True"

definition record_strings_ok :: "cbef_record \<Rightarrow> bool" where
  "record_strings_ok r \<longleftrightarrow> list_all (\<lambda>f. strings_ok (field_value f)) (record_fields r)"

end
