(* ===== verification/CbefCodec.thy ===== *)
theory CbefCodec
  imports Cbef
begin

text \<open>
  The encoder and the decoder of the canonical binary format are inverse to each other.  A frame is read
  back at the position where it was written (\<open>decode_items_frames\<close>, \<open>decode_entries_frames\<close>), a position
  that was read is a frame (\<open>framed_segment\<close>), and both facts are carried through the mutual recursion:
  \<open>encode_faithful\<close> by induction on the value, \<open>decode_exact\<close> by induction on the length of the payload.
\<close>

section \<open>Frames\<close>

lemma type_from_code_byte [simp]: "type_from_code (type_code_byte c) = Inr c"
  by (cases c) (simp_all add: type_from_code_def)

lemma type_from_code_eq: "type_from_code b = Inr c \<longleftrightarrow> b = type_code_byte c"
  by (cases c) (auto simp: type_from_code_def split: if_splits)

lemma domain_from_code_eq: "domain_from_code w = Inr d \<longleftrightarrow> w = domain_code d"
  by (cases d) (auto simp: domain_from_code_def split: if_splits)

lemma put_u32_eq: "put_u32 n = Inr bs \<longleftrightarrow> n < 2 ^ 32 \<and> bs = be_bytes 4 n"
  by (auto simp: put_u32_def)

lemma length_put_u16 [simp]: "length (put_u16 w) = 2"
  by (simp add: put_u16_def)

lemma be_value_u32: "n < 2 ^ 32 \<Longrightarrow> be_value (be_bytes 4 n) = n"
  by (simp add: be_value_be_bytes)

lemma take_at_append [simp]:
  "take_at (pre @ bs @ post) (length pre) (length bs) = Inr (bs, length pre + length bs)"
  by (simp add: take_at_def)

lemma read_u32_append:
  "n < 2 ^ 32 \<Longrightarrow> read_u32 (pre @ be_bytes 4 n @ post) (length pre) = Inr (n, length pre + 4)"
  by (simp add: read_u32_eq be_value_u32)

lemma read_u16_append: "read_u16 (pre @ put_u16 w @ post) (length pre) = Inr (w, length pre + 2)"
  using word_of_be_bytes [of 2 w] by (simp add: read_u16_def take_at_def put_u16_def)

lemma decode_typed_frame:
  assumes "typed_frame c p = Inr b"
  shows "decode_typed b = decode_payload c p"
proof -
  have b: "b = [type_code_byte c] @ be_bytes 4 (length p) @ p" and len: "length p < 2 ^ 32"
    using assms by (auto simp: typed_frame_def put_u32_eq)
  have "take_at b 0 1 = Inr ([type_code_byte c], 1)"
    by (simp add: b take_at_def)
  moreover have "read_u32 b 1 = Inr (length p, 5)"
    using read_u32_append [OF len, of "[type_code_byte c]" p] by (simp add: b)
  moreover have "take_at b 5 (length p) = Inr (p, length b)"
    by (simp add: b take_at_def)
  ultimately show ?thesis
    by (simp add: decode_typed.simps [of b])
qed

lemma decode_typed_eq:
  assumes "decode_typed b = Inr v"
  obtains c p where "typed_frame c p = Inr b" "decode_payload c p = Inr v" "length p < length b"
proof -
  from assms obtain c n where code: "1 \<le> length b" "type_from_code (hd (take 1 b)) = Inr c"
    and n: "5 \<le> length b" "n = be_value (take 4 (drop 1 b))"
    and p: "5 + n = length b" "decode_payload c (take n (drop 5 b)) = Inr v"
    by (auto simp: decode_typed.simps [of b] take_at_def read_u32_eq)
  have "length (take 4 (drop 1 b)) = 4"
    using n(1) by simp
  then have small: "n < 2 ^ 32" "be_bytes 4 n = take 4 (drop 1 b)"
    using be_value_less [of "take 4 (drop 1 b)"] be_bytes_be_value [of "take 4 (drop 1 b)"] n(2) by simp_all
  obtain x xs where b: "b = x # xs"
    using code(1) by (cases b) auto
  then have "x = type_code_byte c"
    using code(2) by (simp add: type_from_code_eq)
  moreover have "length xs - 4 = n" "be_bytes 4 n @ drop 4 xs = xs"
    using p(1) b small(2) by auto
  ultimately have "typed_frame c (take n (drop 5 b)) = Inr b"
    using small(1) p(1) b by (simp add: typed_frame_def put_u32_eq)
  then show ?thesis
    using that [of c "take n (drop 5 b)"] p by simp
qed

lemma decode_items_frames:
  assumes "list_all2 (\<lambda>b v. decode_typed b = Inr v) bs vs" "frame_items bs = Inr body"
  shows "decode_items (length bs) (pre @ body @ post) (length pre) = Inr (zip bs vs, length pre + length body)"
  using assms
proof (induction bs vs arbitrary: body pre rule: list_all2_induct)
  case (Cons b bs v vs)
  then obtain rest where body: "body = be_bytes 4 (length b) @ b @ rest" and len: "length b < 2 ^ 32"
    and rest: "frame_items bs = Inr rest"
    by (auto simp: put_u32_eq)
  have "read_u32 (pre @ body @ post) (length pre) = Inr (length b, length (pre @ be_bytes 4 (length b)))"
    using read_u32_append [OF len, of pre "b @ rest @ post"] by (simp add: body)
  moreover have "take_at (pre @ body @ post) (length (pre @ be_bytes 4 (length b))) (length b) =
      Inr (b, length (pre @ be_bytes 4 (length b) @ b))"
    using take_at_append [of "pre @ be_bytes 4 (length b)" b "rest @ post"] by (simp add: body)
  moreover have "decode_items (length bs) (pre @ body @ post) (length (pre @ be_bytes 4 (length b) @ b)) =
      Inr (zip bs vs, length (pre @ body))"
    using Cons.IH [OF rest, of "pre @ be_bytes 4 (length b) @ b"] by (simp add: body)
  ultimately show ?case
    using Cons.hyps(1) by simp
qed simp

lemma decode_entries_frames:
  assumes "list_all2 (\<lambda>(a, b) (k, v). decode_typed a = Inr k \<and> decode_typed b = Inr v) bs es"
    "frame_entries bs = Inr body" "successively (<) (map fst bs)"
    "case previous of None \<Rightarrow> True | Some p \<Rightarrow> (case bs of [] \<Rightarrow> True | (a, _) # _ \<Rightarrow> p < a)"
  shows "decode_entries (length bs) (pre @ body @ post) previous (length pre) = Inr (es, length pre + length body)"
  using assms
proof (induction bs es arbitrary: body pre previous rule: list_all2_induct)
  case (Cons x bs y es)
  obtain a b k v where xy: "x = (a, b)" "y = (k, v)"
    by (cases x, cases y) auto
  then obtain rest where body: "body = be_bytes 4 (length a) @ a @ be_bytes 4 (length b) @ b @ rest"
    and len: "length a < 2 ^ 32" "length b < 2 ^ 32" and rest: "frame_entries bs = Inr rest"
    using Cons.prems(1) by (auto simp: put_u32_eq)
  let ?p1 = "pre @ be_bytes 4 (length a)" and ?p2 = "pre @ be_bytes 4 (length a) @ a"
  let ?p3 = "?p2 @ be_bytes 4 (length b)" and ?p4 = "?p2 @ be_bytes 4 (length b) @ b"
  have "read_u32 (pre @ body @ post) (length pre) = Inr (length a, length ?p1)"
    using read_u32_append [OF len(1), of pre "a @ be_bytes 4 (length b) @ b @ rest @ post"] by (simp add: body)
  moreover have "take_at (pre @ body @ post) (length ?p1) (length a) = Inr (a, length ?p2)"
    using take_at_append [of ?p1 a "be_bytes 4 (length b) @ b @ rest @ post"] by (simp add: body)
  moreover have "read_u32 (pre @ body @ post) (length ?p2) = Inr (length b, length ?p3)"
    using read_u32_append [OF len(2), of ?p2 "b @ rest @ post"] by (simp add: body)
  moreover have "take_at (pre @ body @ post) (length ?p3) (length b) = Inr (b, length ?p4)"
    using take_at_append [of ?p3 b "rest @ post"] by (simp add: body)
  moreover have "successively (<) (map fst bs)" "case bs of [] \<Rightarrow> True | (a', _) # _ \<Rightarrow> a < a'"
    using Cons.prems(2) xy by (cases bs; auto)+
  then have "decode_entries (length bs) (pre @ body @ post) (Some a) (length ?p4) = Inr (es, length (pre @ body))"
    using Cons.IH [OF rest, of "Some a" ?p4] by (simp add: body)
  moreover have "\<not> (case previous of None \<Rightarrow> False | Some p \<Rightarrow> a \<le> p)"
    using Cons.prems(3) xy by (auto split: option.splits)
  ultimately show ?case
    using Cons.hyps(1) xy by simp
qed simp


section \<open>Sorted lists\<close>

lemma sort_key_map: "sort_key k (map d xs) = map d (sort_key (\<lambda>x. k (d x)) xs)"
proof (induction xs)
  case (Cons x xs)
  have "insort_key k (d x) (map d ys) = map d (insort_key (\<lambda>x. k (d x)) x ys)" for ys
    by (induction ys) simp_all
  with Cons show ?case by simp
qed simp

lemma sort_key_cong_set:
  assumes "\<And>x. x \<in> set xs \<Longrightarrow> f x = g x"
  shows "sort_key f xs = sort_key g xs"
  using assms
proof (induction xs)
  case (Cons x xs)
  have insort: "insort_key f x ys = insort_key g x ys" if "\<And>y. y \<in> insert x (set ys) \<Longrightarrow> f y = g y" for ys
    using that by (induction ys) auto
  have "sort_key f xs = sort_key g xs"
    using Cons by simp
  moreover have "insort_key f x (sort_key g xs) = insort_key g x (sort_key g xs)"
    using Cons.prems by (intro insort) auto
  ultimately show ?case by simp
qed simp

lemma sorted_remdups_adj_strict:
  fixes xs :: "'a::linorder list"
  shows "sorted xs \<Longrightarrow> sorted_wrt (<) (remdups_adj xs)"
proof (induction xs rule: remdups_adj.induct)
  case (3 x y xs)
  then show ?case
    by (cases "x = y") (auto intro: le_neq_trans less_le_trans)
qed simp_all

lemma sorted_distinct_adj_strict:
  fixes xs :: "'a::linorder list"
  shows "sorted xs \<Longrightarrow> distinct_adj xs \<Longrightarrow> sorted_wrt (<) xs"
proof (induction xs rule: remdups_adj.induct)
  case (3 x y xs)
  then show ?case
    by (auto intro: le_neq_trans less_le_trans)
qed simp_all

lemma successively_strict:
  fixes xs :: "'a::linorder list"
  shows "successively (<) xs \<longleftrightarrow> sorted_wrt (<) xs"
  by (simp add: successively_iff_sorted_wrt_strong transp_on_def)

lemma remdups_adj_map_inj_on: "inj_on d (set xs) \<Longrightarrow> remdups_adj (map d xs) = map d (remdups_adj xs)"
proof (induction xs rule: remdups_adj.induct)
  case (3 x y xs)
  then have "d x = d y \<longleftrightarrow> x = y"
    by (auto simp: inj_on_def)
  moreover have "inj_on d (set (y # xs))"
    using 3(3) by (rule inj_on_subset) auto
  ultimately show ?case
    using 3 by auto
qed simp_all

lemma strict_sort_fixed:
  fixes xs :: "'a::linorder list"
  assumes "sorted_wrt (<) xs"
  shows "remdups_adj (sort xs) = xs"
proof -
  have "sorted xs" "distinct xs"
    using assms by (simp_all add: strict_sorted_iff)
  then show ?thesis
    by (simp add: sorted_sort_id remdups_adj_distinct)
qed


section \<open>What is encoded is decoded\<close>

definition faithful :: "unicode \<Rightarrow> cbef_value \<Rightarrow> u8 list \<Rightarrow> bool" where
  "faithful u v b \<longleftrightarrow>
     encode_typed u v = Inr b \<and> encode_typed u (canonical u v) = Inr b \<and> decode_typed b = Inr (canonical u v)"

lemma faithful_frame:
  assumes "encode_payload u v = Inr p" "typed_frame (type_code v) p = Inr b"
    and "type_code (canonical u v) = type_code v" "encode_payload u (canonical u v) = Inr p"
    and "decode_payload (type_code v) p = Inr (canonical u v)"
  shows "faithful u v b"
  using assms decode_typed_frame [OF assms(2)] by (simp add: faithful_def encode_typed_def)

lemma encode_values_iff: "encode_values u vs = Inr bs \<longleftrightarrow> list_all2 (\<lambda>v b. encode_typed u v = Inr b) vs bs"
proof (induction vs arbitrary: bs)
  case (Cons v vs)
  then show ?case
    by (auto simp: encode_typed_def list_all2_Cons1)
qed auto

lemma encode_entries_iff:
  "encode_entries u es = Inr bs \<longleftrightarrow>
   list_all2 (\<lambda>(k, v) (a, b). encode_typed u k = Inr a \<and> encode_typed u v = Inr b) es bs"
proof (induction es arbitrary: bs)
  case (Cons e es)
  then show ?case
    by (cases e) (fastforce simp: encode_typed_def list_all2_Cons1)
qed auto

definition decoded :: "u8 list \<Rightarrow> cbef_value" where
  "decoded b = (case decode_typed b of Inl _ \<Rightarrow> Absent | Inr v \<Rightarrow> v)"

lemma faithful_decoded:
  assumes "faithful u v b"
  shows "canonical u v = decoded b" "decode_typed b = Inr (decoded b)" "encode_typed u (decoded b) = Inr b"
    "typed_key u (decoded b) = b"
  using assms by (simp_all add: faithful_def decoded_def typed_key_def)

lemma faithful_list:
  assumes "list_all2 (faithful u) vs bs"
  shows "map (canonical u) vs = map decoded bs"
    and "\<forall>b \<in> set bs. decode_typed b = Inr (decoded b) \<and> encode_typed u (decoded b) = Inr b \<and> typed_key u (decoded b) = b"
  using assms by (induction vs bs rule: list_all2_induct) (auto dest: faithful_decoded)

lemma faithful_entries:
  assumes "list_all2 (\<lambda>(k, v) (a, b). faithful u k a \<and> faithful u v b) es bs"
  shows "map (\<lambda>(k, v). (canonical u k, canonical u v)) es = map (\<lambda>(a, b). (decoded a, decoded b)) bs"
    and "\<forall>(a, b) \<in> set bs.
      decode_typed a = Inr (decoded a) \<and> encode_typed u (decoded a) = Inr a \<and> typed_key u (decoded a) = a \<and>
      decode_typed b = Inr (decoded b) \<and> encode_typed u (decoded b) = Inr b"
  using assms by (induction es bs rule: list_all2_induct) (auto dest: faithful_decoded)

lemma decode_sequence_frames:
  assumes "\<forall>b \<in> set bs. decode_typed b = Inr (decoded b)" "frame_sequence bs = Inr p"
  shows "decode_payload OrderedListCode p = Inr (OrderedList (map decoded bs))"
    and "sorted_wrt (<) bs \<Longrightarrow> decode_payload SetCode p = Inr (SetOf (map decoded bs))"
proof -
  from assms(2) obtain body where p: "p = be_bytes 4 (length bs) @ body" and len: "length bs < 2 ^ 32"
    and body: "frame_items bs = Inr body"
    by (auto simp: frame_sequence_def put_u32_eq)
  have count: "read_u32 p 0 = Inr (length bs, length (be_bytes 4 (length bs)))"
    using read_u32_append [OF len, of "[]" body] by (simp add: p)
  have "list_all2 (\<lambda>b v. decode_typed b = Inr v) bs (map decoded bs)"
    using assms(1) by (simp add: list_all2_map2 list_all2_same)
  from decode_items_frames [OF this body, of "be_bytes 4 (length bs)" "[]"]
  have items: "decode_items (length bs) p (length (be_bytes 4 (length bs))) = Inr (zip bs (map decoded bs), length p)"
    by (simp add: p)
  show "decode_payload OrderedListCode p = Inr (OrderedList (map decoded bs))"
    using count items by (simp add: decode_payload.simps)
  show "decode_payload SetCode p = Inr (SetOf (map decoded bs))" if "sorted_wrt (<) bs"
    using count items that by (simp add: decode_payload.simps successively_strict)
qed

lemma encode_decoded_list:
  "\<forall>b \<in> set bs. encode_typed u (decoded b) = Inr b \<Longrightarrow> encode_values u (map decoded bs) = Inr bs"
  by (simp add: encode_values_iff list_all2_map1 list_all2_same)

lemma set_faithful:
  assumes "list_all2 (faithful u) vs bs" "frame_sequence (remdups_adj (sort bs)) = Inr p"
  shows "encode_payload u (canonical u (SetOf vs)) = Inr p"
    and "decode_payload SetCode p = Inr (canonical u (SetOf vs))"
proof -
  let ?ys = "remdups_adj (sort bs)"
  note all = faithful_list(2) [OF assms(1)]
  have inj: "inj_on decoded (set bs)"
    using all by (metis inj_onI)
  have "sort_key (typed_key u) (map decoded bs) = map decoded (sort_key (\<lambda>b. typed_key u (decoded b)) bs)"
    by (rule sort_key_map)
  also have "sort_key (\<lambda>b. typed_key u (decoded b)) bs = sort bs"
    using all by (intro sort_key_cong_set) simp
  finally have canon: "canonical u (SetOf vs) = SetOf (map decoded ?ys)"
    using inj by (simp add: faithful_list(1) [OF assms(1)] remdups_adj_map_inj_on)
  have sorted: "sorted_wrt (<) ?ys"
    by (simp add: sorted_remdups_adj_strict)
  show "decode_payload SetCode p = Inr (canonical u (SetOf vs))"
    unfolding canon using all by (intro decode_sequence_frames(2) [OF _ assms(2) sorted]) auto
  have "encode_values u (map decoded ?ys) = Inr ?ys"
    using all by (intro encode_decoded_list) auto
  then show "encode_payload u (canonical u (SetOf vs)) = Inr p"
    unfolding canon by (simp add: strict_sort_fixed [OF sorted] assms(2))
qed

lemma map_faithful:
  assumes "list_all2 (\<lambda>(k, v) (a, b). faithful u k a \<and> faithful u v b) es bs"
    and "distinct_adj (map fst (sort_key fst bs))" "length bs < 2 ^ 32" "frame_entries (sort_key fst bs) = Inr body"
  shows "encode_payload u (canonical u (MapOf es)) = Inr (be_bytes 4 (length bs) @ body)"
    and "decode_payload MapCode (be_bytes 4 (length bs) @ body) = Inr (canonical u (MapOf es))"
proof -
  let ?ys = "sort_key fst bs" and ?p = "be_bytes 4 (length bs) @ body"
  let ?d = "\<lambda>(a, b). (decoded a, decoded b)"
  note all = faithful_entries(2) [OF assms(1)]
  have "sort_key (\<lambda>(k, _). typed_key u k) (map ?d bs) = map ?d (sort_key (\<lambda>x. (\<lambda>(k, _). typed_key u k) (?d x)) bs)"
    by (rule sort_key_map)
  also have "sort_key (\<lambda>x. (\<lambda>(k, _). typed_key u k) (?d x)) bs = sort_key fst bs"
    using all by (intro sort_key_cong_set) auto
  finally have canon: "canonical u (MapOf es) = MapOf (map ?d ?ys)"
    by (simp add: faithful_entries(1) [OF assms(1)])
  have "sorted (map fst ?ys)"
    by simp
  with assms(2) have sorted: "sorted_wrt (<) (map fst ?ys)"
    by (intro sorted_distinct_adj_strict)
  have "read_u32 ?p 0 = Inr (length ?ys, length (be_bytes 4 (length bs)))"
    using read_u32_append [OF assms(3), of "[]" body] by simp
  moreover have "list_all2 (\<lambda>(a, b) (k, v). decode_typed a = Inr k \<and> decode_typed b = Inr v) ?ys (map ?d ?ys)"
    using all by (auto simp: list_all2_map2 list_all2_same)
  then have "decode_entries (length ?ys) ?p None (length (be_bytes 4 (length bs))) = Inr (map ?d ?ys, length ?p)"
    using decode_entries_frames [of ?ys "map ?d ?ys" body None "be_bytes 4 (length bs)" "[]"] assms(4) sorted
    by (simp add: successively_strict)
  ultimately show "decode_payload MapCode ?p = Inr (canonical u (MapOf es))"
    unfolding canon by (simp add: decode_payload.simps)
  have "encode_entries u (map ?d ?ys) = Inr ?ys"
    using all by (auto simp: encode_entries_iff list_all2_map1 list_all2_same)
  moreover have "sort_key fst ?ys = ?ys"
    by (simp add: sort_key_id_if_sorted)
  ultimately show "encode_payload u (canonical u (MapOf es)) = Inr ?p"
    unfolding canon using assms(2-4) by (simp add: put_u32_eq)
qed

lemma valid_utf8_ascii: "is_ascii s \<Longrightarrow> valid_utf8 (to_ascii_lowercase s)"
  by (induction s)
     (auto simp: is_ascii_def to_ascii_lowercase_def word_less_nat_alt word_le_nat_alt unat_plus_if')

lemma normalized_valid:
  assumes "unicode_contract u" "valid_utf8 s" "normalized u s n = Inr s'"
  shows "valid_utf8 s'"
proof -
  have "valid_utf8 (nfc u s)" "valid_utf8 (nfkc u s)"
    using assms(1,2) by (simp_all add: unicode_contract_def)
  with assms(2,3) show ?thesis
    by (cases n) (auto simp: valid_utf8_ascii)
qed

lemma b16_of_bytes: "of_nat (be_value (b16_bytes i)) = (i :: b16)"
  unfolding b16_bytes_def by (rule word_of_be_bytes) simp

lemma b32_of_bytes: "of_nat (be_value (b32_bytes d)) = (d :: b32)"
  unfolding b32_bytes_def by (rule word_of_be_bytes) simp

lemma tagged_union_faithful:
  assumes "faithful u v b" "length b < 2 ^ 32"
  shows "encode_payload u (canonical u (TaggedUnion w v)) = Inr (put_u16 w @ be_bytes 4 (length b) @ b)"
    and "decode_payload TaggedUnionCode (put_u16 w @ be_bytes 4 (length b) @ b) = Inr (canonical u (TaggedUnion w v))"
proof -
  let ?p = "put_u16 w @ be_bytes 4 (length b) @ b"
  have "read_u16 ?p 0 = Inr (w, length (put_u16 w))"
    using read_u16_append [of "[]" w "be_bytes 4 (length b) @ b"] by simp
  moreover have "read_u32 ?p (length (put_u16 w)) = Inr (length b, length (put_u16 w @ be_bytes 4 (length b)))"
    using read_u32_append [OF assms(2), of "put_u16 w" b] by simp
  moreover have "take_at ?p (length (put_u16 w @ be_bytes 4 (length b))) (length b) = Inr (b, length ?p)"
    using take_at_append [of "put_u16 w @ be_bytes 4 (length b)" b "[]"] by simp
  ultimately show "decode_payload TaggedUnionCode ?p = Inr (canonical u (TaggedUnion w v))"
    using assms(1) by (simp add: decode_payload.simps faithful_def)
  show "encode_payload u (canonical u (TaggedUnion w v)) = Inr ?p"
    using assms by (auto simp: faithful_def encode_typed_def put_u32_eq)
qed

lemma encode_faithful:
  assumes "unicode_contract u"
  shows "strings_ok v \<Longrightarrow> encode_payload u v = Inr p \<Longrightarrow>
      type_code (canonical u v) = type_code v \<and> encode_payload u (canonical u v) = Inr p \<and>
      decode_payload (type_code v) p = Inr (canonical u v)"
    and "list_all strings_ok vs \<Longrightarrow> encode_values u vs = Inr bs \<Longrightarrow> list_all2 (faithful u) vs bs"
    and "list_all (\<lambda>(k, v). strings_ok k \<and> strings_ok v) es \<Longrightarrow> encode_entries u es = Inr es' \<Longrightarrow>
      list_all2 (\<lambda>(k, v) (a, b). faithful u k a \<and> faithful u v b) es es'"
  using assms
proof (induction u v and u vs and u es arbitrary: p and bs and es'
    rule: encode_payload_encode_values_encode_entries.induct)
  case (3 u s n)
  then show ?case
    by (auto simp: decode_payload.simps normalized_valid)
next
  case (10 u vs)
  then obtain bs where bs: "encode_values u vs = Inr bs" "frame_sequence bs = Inr p"
    by auto
  with 10 have all: "list_all2 (faithful u) vs bs"
    by simp
  have dec: "\<forall>b \<in> set bs. decode_typed b = Inr (decoded b)" "\<forall>b \<in> set bs. encode_typed u (decoded b) = Inr b"
    using faithful_list(2) [OF all] by blast+
  from decode_sequence_frames(1) [OF dec(1) bs(2)] encode_decoded_list [OF dec(2)] bs(2) show ?case
    by (simp add: faithful_list(1) [OF all])
next
  case (11 u vs)
  then obtain bs where bs: "encode_values u vs = Inr bs" "frame_sequence (remdups_adj (sort bs)) = Inr p"
    by auto
  with 11 have "list_all2 (faithful u) vs bs"
    by simp
  from set_faithful [OF this bs(2)] show ?case
    by simp
next
  case (12 u es)
  then obtain bs body where bs: "encode_entries u es = Inr bs" "distinct_adj (map fst (sort_key fst bs))"
    "length bs < 2 ^ 32" "frame_entries (sort_key fst bs) = Inr body" "p = be_bytes 4 (length bs) @ body"
    by (auto simp: Let_def put_u32_eq)
  with 12 have "list_all2 (\<lambda>(k, v) (a, b). faithful u k a \<and> faithful u v b) es bs"
    by simp
  from map_faithful [OF this bs(2-4)] bs(5) show ?case
    by simp
next
  case (13 u w v)
  then obtain q b where q: "encode_payload u v = Inr q" "typed_frame (type_code v) q = Inr b" "length b < 2 ^ 32"
    "p = put_u16 w @ be_bytes 4 (length b) @ b"
    by (auto simp: put_u32_eq)
  with 13 have "faithful u v b"
    by (intro faithful_frame) auto
  from tagged_union_faithful [OF this q(3), of w] q(4) show ?case
    by simp
next
  case (15 u v vs)
  then show ?case
    by (auto simp: list_all2_Cons1 intro: faithful_frame)
next
  case (17 u k v es)
  then show ?case
    by (auto simp: list_all2_Cons1 intro: faithful_frame)
qed (auto simp: decode_payload.simps b16_of_bytes b32_of_bytes split: if_splits)

section \<open>What is decoded is the encoding\<close>

definition segment :: "u8 list \<Rightarrow> nat \<Rightarrow> nat \<Rightarrow> u8 list" where
  "segment bs c d = take (d - c) (drop c bs)"

lemma segment_append:
  assumes "c \<le> d" "d \<le> e"
  shows "segment bs c d @ segment bs d e = segment bs c e"
proof -
  have "take (e - c) (drop c bs) = take (d - c + (e - d)) (drop c bs)"
    using assms by simp
  also have "\<dots> = take (d - c) (drop c bs) @ take (e - d) (drop (d - c) (drop c bs))"
    by (rule take_add)
  finally show ?thesis
    using assms by (simp add: segment_def)
qed

lemma segment_all [simp]: "segment bs 0 (length bs) = bs"
  by (simp add: segment_def)

lemma segment_append_chain:
  assumes "c \<le> d" "d \<le> e"
  shows "segment bs c d @ segment bs d e @ xs = segment bs c e @ xs"
  using segment_append [OF assms] by (metis append.assoc)

lemma take_at_segment:
  "take_at bs c n = Inr (b, d) \<Longrightarrow> d = c + n \<and> d \<le> length bs \<and> b = segment bs c d \<and> length b = n"
  by (auto simp: take_at_def segment_def)

lemma read_u32_segment:
  assumes "read_u32 bs c = Inr (n, d)"
  shows "d = c + 4 \<and> d \<le> length bs \<and> n < 2 ^ 32 \<and> be_bytes 4 n = segment bs c d"
proof -
  have d: "c + 4 \<le> length bs" "d = c + 4" "n = be_value (take 4 (drop c bs))"
    using assms by (simp_all add: read_u32_eq)
  then have "length (take 4 (drop c bs)) = 4"
    by simp
  with d show ?thesis
    using be_value_less [of "take 4 (drop c bs)"] be_bytes_be_value [of "take 4 (drop c bs)"]
    by (simp add: segment_def)
qed

lemma read_u16_segment:
  assumes "read_u16 bs c = Inr (w, d)"
  shows "d = c + 2 \<and> d \<le> length bs \<and> put_u16 w = segment bs c d"
proof -
  have d: "c + 2 \<le> length bs" "d = c + 2" "w = of_nat (be_value (take 2 (drop c bs)))"
    using assms by (auto simp: read_u16_def take_at_def)
  then have "length (take 2 (drop c bs)) = 2"
    by simp
  with d be_bytes_of_word [of "take 2 (drop c bs)", where 'a = 16] show ?thesis
    by (simp add: segment_def put_u16_def)
qed

lemma framed_segment:
  assumes "read_u32 p c = Inr (n, c1)" "take_at p c1 n = Inr (b, c2)"
  shows "be_bytes 4 (length b) @ b = segment p c c2" "length b < 2 ^ 32" "length b < length p"
    "c \<le> c2" "c2 \<le> length p"
proof -
  have r: "c1 = c + 4" "n < 2 ^ 32" "be_bytes 4 n = segment p c c1"
    using read_u32_segment [OF assms(1)] by blast+
  have t: "c2 = c1 + n" "c2 \<le> length p" "b = segment p c1 c2" "length b = n"
    using take_at_segment [OF assms(2)] by blast+
  have "be_bytes 4 (length b) @ b = segment p c c1 @ segment p c1 c2"
    unfolding t(4) r(3) by (simp only: t(3))
  also have "\<dots> = segment p c c2"
    using r(1) t(1) by (intro segment_append) simp_all
  finally show "be_bytes 4 (length b) @ b = segment p c c2" .
  show "length b < 2 ^ 32" "length b < length p" "c \<le> c2" "c2 \<le> length p"
    using r(1,2) t(1,2,4) by linarith+
qed

lemma decode_items_segment:
  assumes "decode_items k p c = Inr (items, d)" "c \<le> length p"
  shows "length items = k \<and> c \<le> d \<and> d \<le> length p \<and> frame_items (map fst items) = Inr (segment p c d) \<and>
    (\<forall>(b, v) \<in> set items. decode_typed b = Inr v \<and> length b < length p)"
  using assms
proof (induction k arbitrary: c items)
  case (Suc k)
  from Suc.prems(1) obtain n c1 b c2 v rest where steps:
    "read_u32 p c = Inr (n, c1)" "take_at p c1 n = Inr (b, c2)" "decode_typed b = Inr v"
    "decode_items k p c2 = Inr (rest, d)" "items = (b, v) # rest"
    by auto
  note f = framed_segment [OF steps(1,2)]
  have IH: "length rest = k" "c2 \<le> d" "d \<le> length p" "frame_items (map fst rest) = Inr (segment p c2 d)"
    "\<forall>(b, v) \<in> set rest. decode_typed b = Inr v \<and> length b < length p"
    using Suc.IH [OF steps(4) f(5)] by blast+
  have "frame_items (map fst items) = Inr ((be_bytes 4 (length b) @ b) @ segment p c2 d)"
    using f(2) IH(4) by (simp add: steps(5) put_u32_eq)
  also have "(be_bytes 4 (length b) @ b) @ segment p c2 d = segment p c d"
    unfolding f(1) using f(4) IH(2) by (rule segment_append)
  finally show ?case
    using f(3,4) IH steps(3,5) by simp
qed (auto simp: segment_def)

lemma decode_entries_segment:
  assumes "decode_entries k p previous c = Inr (es, d)" "c \<le> length p"
  shows "\<exists>bs. length bs = k \<and> length es = k \<and> c \<le> d \<and> d \<le> length p \<and> frame_entries bs = Inr (segment p c d) \<and>
    sorted_wrt (<) (map fst bs) \<and>
    (case previous of None \<Rightarrow> True | Some q \<Rightarrow> (\<forall>a \<in> set (map fst bs). q < a)) \<and>
    list_all2 (\<lambda>(k, v) (a, b). decode_typed a = Inr k \<and> decode_typed b = Inr v \<and> length a < length p \<and> length b < length p) es bs"
  using assms
proof (induction k arbitrary: c es previous)
  case 0
  then show ?case
    by (intro exI [of _ "[]"]) (auto simp: segment_def split: option.splits)
next
  case (Suc k)
  from Suc.prems(1) obtain n c1 a c2 m c3 b c4 x y rest where steps:
    "read_u32 p c = Inr (n, c1)" "take_at p c1 n = Inr (a, c2)"
    "\<not> (case previous of None \<Rightarrow> False | Some q \<Rightarrow> a \<le> q)"
    "read_u32 p c2 = Inr (m, c3)" "take_at p c3 m = Inr (b, c4)"
    "decode_typed a = Inr x" "decode_typed b = Inr y"
    "decode_entries k p (Some a) c4 = Inr (rest, d)" "es = (x, y) # rest"
    by auto
  note f = framed_segment [OF steps(1,2)] and g = framed_segment [OF steps(4,5)]
  from Suc.IH [OF steps(8) g(5)] obtain bs where bs: "length bs = k" "length rest = k" "c4 \<le> d" "d \<le> length p"
    "frame_entries bs = Inr (segment p c4 d)" "sorted_wrt (<) (map fst bs)" "\<forall>a' \<in> set (map fst bs). a < a'"
    "list_all2 (\<lambda>(k, v) (a, b). decode_typed a = Inr k \<and> decode_typed b = Inr v \<and> length a < length p \<and> length b < length p) rest bs"
    by auto
  have "frame_entries ((a, b) # bs) =
      Inr ((be_bytes 4 (length a) @ a) @ (be_bytes 4 (length b) @ b) @ segment p c4 d)"
    using f(2) g(2) bs(5) by (simp add: put_u32_eq)
  also have "(be_bytes 4 (length a) @ a) @ (be_bytes 4 (length b) @ b) @ segment p c4 d = segment p c d"
    unfolding f(1) g(1) using f(4) g(4) bs(3) by (simp add: segment_append)
  finally have "frame_entries ((a, b) # bs) = Inr (segment p c d)" .
  moreover have "case previous of None \<Rightarrow> True | Some q \<Rightarrow> (\<forall>a' \<in> set (map fst ((a, b) # bs)). q < a')"
    using steps(3) bs(7) by (auto split: option.splits)
  moreover have "c \<le> d"
    using f(4) g(4) bs(3) by linarith
  ultimately show ?case
    using bs f(3) g(3) steps(6,7,9) by (intro exI [of _ "(a, b) # bs"]) simp
qed

definition exact :: "unicode \<Rightarrow> cbef_value \<Rightarrow> u8 list \<Rightarrow> bool" where
  "exact u v b \<longleftrightarrow> encode_typed u v = Inr b \<and> canonical u v = v \<and> strings_ok v"

lemma sequence_exact:
  assumes "\<forall>(b, v) \<in> set items. exact u v b" "read_u32 p 0 = Inr (k, c)" "length items = k"
    "frame_items (map fst items) = Inr (segment p c (length p))"
  shows "encode_values u (map snd items) = Inr (map fst items)" "frame_sequence (map fst items) = Inr p"
    "map (canonical u) (map snd items) = map snd items" "list_all strings_ok (map snd items)"
proof -
  show "encode_values u (map snd items) = Inr (map fst items)"
    using assms(1) by (auto simp: encode_values_iff list_all2_map1 list_all2_map2 list_all2_same exact_def)
  note r = read_u32_segment [OF assms(2)]
  have "be_bytes 4 k @ segment p c (length p) = p"
    using r segment_append [of 0 c "length p" p] by simp
  then show "frame_sequence (map fst items) = Inr p"
    using r assms(3,4) by (simp add: frame_sequence_def put_u32_eq)
  show "map (canonical u) (map snd items) = map snd items"
    using assms(1) by (auto simp: exact_def intro!: map_idI)
  show "list_all strings_ok (map snd items)"
    using assms(1) by (auto simp: list_all_iff exact_def)
qed

lemma distinct_imp_distinct_adj: "distinct xs \<Longrightarrow> distinct_adj xs"
  by (induction xs rule: remdups_adj.induct) auto

lemma set_exact:
  assumes "\<forall>(b, v) \<in> set items. exact u v b" "sorted_wrt (<) (map fst items)"
    "map (canonical u) (map snd items) = map snd items"
  shows "canonical u (SetOf (map snd items)) = SetOf (map snd items)"
proof -
  have keys: "map (typed_key u) (map snd items) = map fst items"
    using assms(1) by (auto simp: typed_key_def exact_def)
  then have "sorted (map (typed_key u) (map snd items))" "distinct (map (typed_key u) (map snd items))"
    unfolding keys using assms(2) by (simp_all add: strict_sorted_iff)
  then have "sort_key (typed_key u) (map snd items) = map snd items" "distinct (map snd items)"
    by (simp only: sort_key_id_if_sorted, metis distinct_map)
  then show ?thesis
    unfolding canonical.simps assms(3) by (simp only: remdups_adj_distinct)
qed

lemma map_exact:
  assumes "list_all2 (\<lambda>(k, v) (a, b). exact u k a \<and> exact u v b) es bs" "sorted_wrt (<) (map fst bs)"
    "length bs < 2 ^ 32" "frame_entries bs = Inr body"
  shows "encode_payload u (MapOf es) = Inr (be_bytes 4 (length bs) @ body)"
    "canonical u (MapOf es) = MapOf es" "strings_ok (MapOf es)"
proof -
  have "encode_entries u es = Inr bs"
    unfolding encode_entries_iff using assms(1) by (rule list_all2_mono) (auto simp: exact_def)
  moreover have sorted: "sorted (map fst bs)" "distinct (map fst bs)"
    using assms(2) by (simp_all add: strict_sorted_iff)
  ultimately show "encode_payload u (MapOf es) = Inr (be_bytes 4 (length bs) @ body)"
    using assms(3,4) by (simp add: sort_key_id_if_sorted put_u32_eq distinct_imp_distinct_adj)
  have "map (\<lambda>(k, _). typed_key u k) es = map fst bs"
    "map (\<lambda>(k, v). (canonical u k, canonical u v)) es = es"
    "list_all (\<lambda>(k, v). strings_ok k \<and> strings_ok v) es"
    using assms(1) by (induction es bs rule: list_all2_induct) (auto simp: exact_def typed_key_def)
  with sorted show "canonical u (MapOf es) = MapOf es" "strings_ok (MapOf es)"
    by (simp_all add: sort_key_id_if_sorted)
qed


lemma decode_exact:
  "decode_payload c p = Inr v \<Longrightarrow> type_code v = c \<and> encode_payload u v = Inr p \<and> canonical u v = v \<and> strings_ok v"
proof (induction "length p" arbitrary: c p v rule: less_induct)
  case less
  have typed: "exact u w b" if dec: "decode_typed b = Inr w" and len: "length b < length p" for b w
  proof -
    obtain c' q where q: "typed_frame c' q = Inr b" "decode_payload c' q = Inr w" "length q < length b"
      using decode_typed_eq [OF dec] by blast
    then have "length q < length p"
      using len by simp
    from less.hyps [OF this q(2)] q(1) show ?thesis
      by (simp add: exact_def encode_typed_def)
  qed
  have sequence: "encode_values u (map snd items) = Inr (map fst items)" "frame_sequence (map fst items) = Inr p"
      "map (canonical u) (map snd items) = map snd items" "list_all strings_ok (map snd items)"
      "\<forall>(b, w) \<in> set items. exact u w b"
    if "read_u32 p 0 = Inr (k, d)" "decode_items k p d = Inr (items, length p)" for k d items
  proof -
    have "d \<le> length p"
      using read_u32_segment [OF that(1)] by blast
    then have s: "length items = k" "frame_items (map fst items) = Inr (segment p d (length p))"
      "\<forall>(b, w) \<in> set items. decode_typed b = Inr w \<and> length b < length p"
      using decode_items_segment [OF that(2)] by blast+
    then show all: "\<forall>(b, w) \<in> set items. exact u w b"
      using typed by fast
    show "encode_values u (map snd items) = Inr (map fst items)" "frame_sequence (map fst items) = Inr p"
      "map (canonical u) (map snd items) = map snd items" "list_all strings_ok (map snd items)"
      by (rule sequence_exact [OF all that(1) s(1,2)])+
  qed
  show ?case
  proof (cases c)
    case OrderedListCode
    with less.prems obtain k d items where items: "read_u32 p 0 = Inr (k, d)"
      "decode_items k p d = Inr (items, length p)" "v = OrderedList (map snd items)"
      by (auto simp: decode_payload.simps)
    note s = sequence [OF items(1,2)]
    show ?thesis
      unfolding items(3) OrderedListCode using s(1,2,4) by (simp only: encode_payload.simps canonical.simps s(3)) simp
  next
    case SetCode
    with less.prems obtain k d items where items: "read_u32 p 0 = Inr (k, d)"
      "decode_items k p d = Inr (items, length p)" "sorted_wrt (<) (map fst items)" "v = SetOf (map snd items)"
      by (auto simp: decode_payload.simps successively_strict)
    note s = sequence [OF items(1,2)]
    have "encode_payload u (SetOf (map snd items)) = Inr p"
      by (simp add: s(1,2) strict_sort_fixed [OF items(3)])
    then show ?thesis
      unfolding items(4) SetCode using s(4) set_exact [OF s(5) items(3) s(3)] by simp
  next
    case MapCode
    with less.prems obtain k d es where es: "read_u32 p 0 = Inr (k, d)"
      "decode_entries k p None d = Inr (es, length p)" "v = MapOf es"
      by (auto simp: decode_payload.simps)
    have d: "0 \<le> d" "d \<le> length p" "k < 2 ^ 32" "be_bytes 4 k = segment p 0 d"
      using read_u32_segment [OF es(1)] by auto
    obtain bs where bs: "length bs = k" "frame_entries bs = Inr (segment p d (length p))" "sorted_wrt (<) (map fst bs)"
      "list_all2 (\<lambda>(k, v) (a, b). decode_typed a = Inr k \<and> decode_typed b = Inr v \<and> length a < length p \<and> length b < length p) es bs"
      using decode_entries_segment [OF es(2) d(2)] by auto
    have "list_all2 (\<lambda>(k, v) (a, b). exact u k a \<and> exact u v b) es bs"
      using bs(4) by (rule list_all2_mono) (auto intro: typed)
    moreover have "be_bytes 4 (length bs) @ segment p d (length p) = p"
      using d bs(1) segment_append [of 0 d "length p" p] by simp
    ultimately show ?thesis
      using map_exact [OF _ bs(3) _ bs(2), of u es] d(3) bs(1) by (simp add: es(3) MapCode)
  next
    case TaggedUnionCode
    with less.prems obtain w c1 n c2 b x where steps: "read_u16 p 0 = Inr (w, c1)" "read_u32 p c1 = Inr (n, c2)"
      "take_at p c2 n = Inr (b, length p)" "decode_typed b = Inr x" "v = TaggedUnion w x"
      by (auto simp: decode_payload.simps)
    note f = framed_segment [OF steps(2,3)]
    have "put_u16 w = segment p 0 c1"
      using read_u16_segment [OF steps(1)] by blast
    then have "put_u16 w @ be_bytes 4 (length b) @ b = p"
      using segment_append [of 0 c1 "length p" p] f(1,4) by simp
    with typed [OF steps(4) f(3)] f(2) show ?thesis
      by (auto simp: steps(5) TaggedUnionCode exact_def encode_typed_def put_u32_eq)
  next
    case IdCode
    with less.prems have "length p = 16" "v = Id (of_nat (be_value p))"
      by (auto simp: decode_payload.simps split: if_splits)
    with be_bytes_of_word [of p, where 'a = 128] IdCode show ?thesis
      by (simp add: b16_bytes_def)
  next
    case DigestCode
    with less.prems have "length p = 32" "v = Digest (of_nat (be_value p))"
      by (auto simp: decode_payload.simps split: if_splits)
    with be_bytes_of_word [of p, where 'a = 256] DigestCode show ?thesis
      by (simp add: b32_bytes_def)
  qed (use less.prems in \<open>auto simp: decode_payload.simps split: if_splits list.splits\<close>)
qed


section \<open>Records\<close>

lemma canonical_field_simps [simp]:
  "tag (canonical_field u f) = tag f" "field_value (canonical_field u f) = canonical u (field_value f)"
  by (simp_all add: canonical_field_def)

lemma decode_fields_frames:
  assumes "unicode_contract u"
  shows "list_all (\<lambda>f. strings_ok (field_value f)) fs \<Longrightarrow> encode_fields u fs = Inr body \<Longrightarrow>
    sorted_wrt (\<lambda>a b. tag a < tag b) fs \<Longrightarrow> \<forall>f \<in> set fs. previous < tag f \<Longrightarrow>
    decode_fields (length fs) (pre @ body @ post) previous (length pre) =
      Inr (map (canonical_field u) fs, length pre + length body) \<and>
    encode_fields u (map (canonical_field u) fs) = Inr body"
proof (induction fs arbitrary: body pre previous)
  case (Cons f fs)
  from Cons.prems(2) obtain p rest where p: "encode_payload u (field_value f) = Inr p" "length p < 2 ^ 32"
    "encode_fields u fs = Inr rest"
    "body = put_u16 (tag f) @ [type_code_byte (type_code (field_value f))] @ be_bytes 4 (length p) @ p @ rest"
    by (auto simp: put_u32_eq)
  let ?c = "type_code (field_value f)"
  let ?p1 = "pre @ put_u16 (tag f)" and ?p2 = "pre @ put_u16 (tag f) @ [type_code_byte ?c]"
  let ?p3 = "?p2 @ be_bytes 4 (length p)" and ?p4 = "?p2 @ be_bytes 4 (length p) @ p"
  have val: "type_code (canonical u (field_value f)) = ?c" "encode_payload u (canonical u (field_value f)) = Inr p"
    "decode_payload ?c p = Inr (canonical u (field_value f))"
    using encode_faithful(1) [OF assms _ p(1)] Cons.prems(1) by simp_all
  have "read_u16 (pre @ body @ post) (length pre) = Inr (tag f, length ?p1)"
    using read_u16_append [of pre "tag f"] by (simp add: p(4))
  moreover have "take_at (pre @ body @ post) (length ?p1) 1 = Inr ([type_code_byte ?c], length ?p2)"
    using take_at_append [of ?p1 "[type_code_byte ?c]" "be_bytes 4 (length p) @ p @ rest @ post"] by (simp add: p(4))
  moreover have "read_u32 (pre @ body @ post) (length ?p2) = Inr (length p, length ?p3)"
    using read_u32_append [OF p(2), of ?p2 "p @ rest @ post"] by (simp add: p(4))
  moreover have "take_at (pre @ body @ post) (length ?p3) (length p) = Inr (p, length ?p4)"
    using take_at_append [of ?p3 p "rest @ post"] by (simp add: p(4))
  moreover have IH: "decode_fields (length fs) (pre @ body @ post) (tag f) (length ?p4) =
      Inr (map (canonical_field u) fs, length (pre @ body)) \<and> encode_fields u (map (canonical_field u) fs) = Inr rest"
    using Cons.IH [OF _ p(3), of "tag f" ?p4] Cons.prems(1,3) by (simp add: p(4))
  moreover have "\<not> tag f \<le> previous"
    using Cons.prems(4) by (simp add: not_le)
  ultimately have "decode_fields (length (f # fs)) (pre @ body @ post) previous (length pre) =
      Inr (map (canonical_field u) (f # fs), length pre + length body)"
    using val by (cases f) (simp add: canonical_field_def)
  moreover have "encode_fields u (map (canonical_field u) (f # fs)) = Inr body"
    using IH val p by (simp add: put_u32_eq)
  ultimately show ?case
    by blast
qed simp

lemma decode_fields_segment:
  assumes "decode_fields k bytes previous c = Inr (fs, d)" "c \<le> length bytes"
  shows "length fs = k \<and> c \<le> d \<and> d \<le> length bytes \<and> encode_fields u fs = Inr (segment bytes c d) \<and>
    sorted_wrt (\<lambda>a b. tag a < tag b) fs \<and> (\<forall>f \<in> set fs. previous < tag f) \<and>
    (\<forall>f \<in> set fs. canonical u (field_value f) = field_value f \<and> strings_ok (field_value f))"
  using assms
proof (induction k arbitrary: c previous fs)
  case (Suc k)
  from Suc.prems(1) obtain t c1 x c2 code n c3 p c4 v rest where steps:
    "read_u16 bytes c = Inr (t, c1)" "\<not> t \<le> previous" "take_at bytes c1 1 = Inr (x, c2)" "type_from_code (hd x) = Inr code"
    "read_u32 bytes c2 = Inr (n, c3)" "take_at bytes c3 n = Inr (p, c4)" "decode_payload code p = Inr v"
    "decode_fields k bytes t c4 = Inr (rest, d)" "fs = \<lparr>tag = t, field_value = v\<rparr> # rest"
    by auto
  note f = framed_segment [OF steps(5,6)]
  have a: "c1 = c + 2" "put_u16 t = segment bytes c c1"
    using read_u16_segment [OF steps(1)] by blast+
  have b: "c2 = c1 + 1" "x = segment bytes c1 c2" "length x = 1"
    using take_at_segment [OF steps(3)] by blast+
  have v: "type_code v = code" "encode_payload u v = Inr p" "canonical u v = v" "strings_ok v"
    using decode_exact [OF steps(7)] by blast+
  have "x = [hd x]"
    using b(3) by (cases x) auto
  then have code: "[type_code_byte code] = segment bytes c1 c2"
    using steps(4) b(2) by (simp add: type_from_code_eq)
  have IH: "length rest = k" "c4 \<le> d" "d \<le> length bytes" "encode_fields u rest = Inr (segment bytes c4 d)"
    "sorted_wrt (\<lambda>a b. tag a < tag b) rest" "\<forall>f \<in> set rest. t < tag f"
    "\<forall>f \<in> set rest. canonical u (field_value f) = field_value f \<and> strings_ok (field_value f)"
    using Suc.IH [OF steps(8) f(5)] by blast+
  have "encode_fields u fs = Inr (put_u16 t @ [type_code_byte code] @ (be_bytes 4 (length p) @ p) @ segment bytes c4 d)"
    using f(2) IH(4) v(1,2) by (simp add: steps(9) put_u32_eq)
  also have "put_u16 t @ [type_code_byte code] @ (be_bytes 4 (length p) @ p) @ segment bytes c4 d = segment bytes c d"
    unfolding a(2) code f(1) using a(1) b(1) f(4) IH(2) by (simp add: segment_append)
  finally have "encode_fields u fs = Inr (segment bytes c d)" .
  moreover have "\<forall>f \<in> set fs. previous < tag f"
    using steps(2,9) IH(6) by (auto intro: less_trans)
  ultimately show ?case
    using steps(9) IH v a(1) b(1) f(4) by auto
qed (auto simp: segment_def)

lemma encode_cbef_record_iff:
  "encode_cbef_record u r = Inr bs \<longleftrightarrow>
     sorted_wrt (\<lambda>a b. tag a < tag b) (record_fields r) \<and> (\<forall>f \<in> set (record_fields r). 0 < tag f) \<and>
     length (record_fields r) < 2 ^ 16 \<and>
     (\<exists>body. encode_fields u (record_fields r) = Inr body \<and>
        bs = MAGIC @ [FORMAT_VERSION] @ put_u16 (domain_code (domain r)) @ be_bytes 2 (length (record_fields r)) @ body)"
proof -
  have "successively (\<lambda>a b. tag a < tag b) (record_fields r) \<longleftrightarrow> sorted_wrt (\<lambda>a b. tag a < tag b) (record_fields r)"
    by (simp add: successively_iff_sorted_wrt_strong transp_on_def)
  moreover have "sorted_wrt (\<lambda>a b. tag a < tag b) fs \<Longrightarrow>
      \<not> (case fs of [] \<Rightarrow> False | f # _ \<Rightarrow> tag f = 0) \<longleftrightarrow> (\<forall>f \<in> set fs. 0 < tag f)" for fs
    by (cases fs) (auto simp: word_gt_0 intro: less_trans)
  ultimately show ?thesis
    by (auto simp: encode_cbef_record_def)
qed

lemma encoded_record_decodes:
  assumes "unicode_contract u" "record_strings_ok r" "encode_cbef_record u r = Inr bs"
  shows "decode_cbef_record bs = Inr (canonical_record u r)" "encode_cbef_record u (canonical_record u r) = Inr bs"
proof -
  let ?n = "length (record_fields r)" and ?d = "domain_code (domain r)"
  from assms(3) obtain body where r: "sorted_wrt (\<lambda>a b. tag a < tag b) (record_fields r)"
    "\<forall>f \<in> set (record_fields r). 0 < tag f" "?n < 2 ^ 16" "encode_fields u (record_fields r) = Inr body"
    and bs: "bs = MAGIC @ [FORMAT_VERSION] @ put_u16 ?d @ be_bytes 2 ?n @ body"
    by (auto simp: encode_cbef_record_iff)
  let ?pre = "MAGIC @ [FORMAT_VERSION] @ put_u16 ?d @ be_bytes 2 ?n"
  have fields: "decode_fields ?n (?pre @ body @ []) 0 (length ?pre) =
      Inr (map (canonical_field u) (record_fields r), length ?pre + length body)"
    "encode_fields u (map (canonical_field u) (record_fields r)) = Inr body"
    using decode_fields_frames [OF assms(1) _ r(4,1), of 0 ?pre "[]"] assms(2) r(2)
    by (simp_all add: record_strings_ok_def)
  have count: "of_nat ?n = (of_nat ?n :: u16)" "unat (of_nat ?n :: u16) = ?n"
    using r(3) by (simp_all add: unat_of_nat)
  have magic: "length MAGIC = 4"
    by (simp add: MAGIC_def ascii_def)
  have "take_at bs 0 4 = Inr (MAGIC, 4)"
    using take_at_append [of "[]" MAGIC] magic by (simp add: bs)
  moreover have "take_at bs 4 1 = Inr ([FORMAT_VERSION], 5)"
    using take_at_append [of MAGIC "[FORMAT_VERSION]"] magic by (simp add: bs)
  moreover have "read_u16 bs 5 = Inr (?d, 7)"
    using read_u16_append [of "MAGIC @ [FORMAT_VERSION]"] magic by (simp add: bs)
  moreover have "read_u16 bs 7 = Inr (of_nat ?n, 9)"
    using read_u16_append [of "MAGIC @ [FORMAT_VERSION] @ put_u16 ?d" "of_nat ?n" body] magic count(2)
    by (simp add: bs put_u16_def)
  moreover have "decode_fields ?n bs 0 9 = Inr (map (canonical_field u) (record_fields r), length bs)"
    using fields(1) magic by (simp add: bs)
  moreover have "domain_from_code ?d = Inr (domain r)"
    by (simp add: domain_from_code_eq)
  ultimately show "decode_cbef_record bs = Inr (canonical_record u r)"
    using count(2) by (simp add: decode_cbef_record_def canonical_record_def)
  have "sorted_wrt (\<lambda>a b. tag a < tag b) (map (canonical_field u) (record_fields r))"
    using r(1) by (simp add: sorted_wrt_map)
  with fields(2) r(2,3) bs show "encode_cbef_record u (canonical_record u r) = Inr bs"
    by (simp add: encode_cbef_record_iff canonical_record_def)
qed

lemma decoded_record_encodes:
  assumes "decode_cbef_record bs = Inr r"
  shows "encode_cbef_record u r = Inr bs" "canonical_record u r = r" "record_strings_ok r"
proof -
  from assms obtain d code n m v c0 c1 c2 c3 fs where steps:
    "take_at bs 0 4 = Inr (m, c0)" "m = MAGIC" "take_at bs c0 1 = Inr (v, c1)" "v = [FORMAT_VERSION]"
    "read_u16 bs c1 = Inr (code, c2)" "domain_from_code code = Inr d" "read_u16 bs c2 = Inr (n, c3)"
    "decode_fields (unat n) bs 0 c3 = Inr (fs, length bs)" "r = \<lparr>domain = d, record_fields = fs\<rparr>"
    by (auto simp: decode_cbef_record_def)
  have a: "c0 = 0 + 4" "MAGIC = segment bs 0 c0"
    using take_at_segment [OF steps(1)] unfolding steps(2) by blast+
  have b: "c1 = c0 + 1" "[FORMAT_VERSION] = segment bs c0 c1"
    using take_at_segment [OF steps(3)] unfolding steps(4) by blast+
  have c: "c2 = c1 + 2" "put_u16 code = segment bs c1 c2" "c2 \<le> length bs"
    using read_u16_segment [OF steps(5)] by blast+
  have e: "c3 = c2 + 2" "put_u16 n = segment bs c2 c3" "c3 \<le> length bs"
    using read_u16_segment [OF steps(7)] by blast+
  have fs: "length fs = unat n" "encode_fields u fs = Inr (segment bs c3 (length bs))"
    "sorted_wrt (\<lambda>a b. tag a < tag b) fs" "\<forall>f \<in> set fs. 0 < tag f"
    "\<forall>f \<in> set fs. canonical u (field_value f) = field_value f \<and> strings_ok (field_value f)"
    using decode_fields_segment [OF steps(8) e(3)] by blast+
  have "MAGIC @ [FORMAT_VERSION] @ put_u16 code @ put_u16 n @ segment bs c3 (length bs) = segment bs 0 (length bs)"
    unfolding a(2) b(2) c(2) e(2) using a(1) b(1) c(1) e(1,3) by (simp add: segment_append)
  moreover have "unat n < 2 ^ 16"
    using unsigned_less [of n] by simp
  moreover have "code = domain_code d"
    using steps(6) by (simp add: domain_from_code_eq)
  ultimately show "encode_cbef_record u r = Inr bs"
    using fs(1-4) by (simp add: encode_cbef_record_iff steps(9) put_u16_def)
  have "map (canonical_field u) fs = fs"
    using fs(5) by (intro map_idI) (simp add: canonical_field_def)
  then show "canonical_record u r = r"
    by (simp add: canonical_record_def steps(9))
  show "record_strings_ok r"
    using fs(5) by (simp add: record_strings_ok_def steps(9) list_all_iff)
qed

text \<open>
  C32.  Decoding is exact: the decoder accepts a byte string exactly if it is the encoding of a record
  in canonical form, and then returns that record.  Every other framing, order, duplicate, width or
  trailing byte is rejected.
\<close>

theorem cbef_decoding_is_exact:
  assumes "unicode_contract u"
  shows "decode_cbef_record bs = Inr r \<longleftrightarrow>
    encode_cbef_record u r = Inr bs \<and> canonical_record u r = r \<and> record_strings_ok r"
  using encoded_record_decodes(1) [OF assms, of r bs] decoded_record_encodes(1,2) [of bs r u] decoded_record_encodes(3) [of bs r]
  by auto

text \<open>
  C33.  Round trip: what the encoder writes for any record decodes to the canonical form of the record,
  with strings normalized, sets sorted without duplicates and maps in key order, and this form has the
  same encoding.  So two records have the same preimage exactly if their canonical forms agree.
\<close>

theorem cbef_round_trip:
  assumes "unicode_contract u" "record_strings_ok r" "encode_cbef_record u r = Inr bs"
  shows "decode_cbef_record bs = Inr (canonical_record u r) \<and> encode_cbef_record u (canonical_record u r) = Inr bs \<and>
    (record_strings_ok r' \<longrightarrow> encode_cbef_record u r' = Inr bs \<longrightarrow> canonical_record u r' = canonical_record u r)"
  using encoded_record_decodes [OF assms] encoded_record_decodes(1) [OF assms(1), of r' bs] by auto


section \<open>Examples\<close>

definition plain_unicode :: unicode where
  "plain_unicode = \<lparr>nfc = id, nfkc = id, nfd_case_fold = id\<rparr>"

definition example_cbef :: cbef_record where
  "example_cbef =
     \<lparr>domain = ContextSet,
      record_fields =
        [\<lparr>tag = 1, field_value = Utf8 (ascii ''Ab'') AsciiLower\<rparr>,
         \<lparr>tag = 2, field_value = SetOf [Boolean True, Boolean False, Boolean True]\<rparr>]\<rparr>"

definition example_canonical :: cbef_record where
  "example_canonical =
     \<lparr>domain = ContextSet,
      record_fields =
        [\<lparr>tag = 1, field_value = Utf8 (ascii ''ab'') NoNormalization\<rparr>,
         \<lparr>tag = 2, field_value = SetOf [Boolean False, Boolean True]\<rparr>]\<rparr>"

definition example_bytes :: "u8 list" where
  "example_bytes =
     [67, 70, 73, 68, 1, 0, 5, 0, 2,
      0, 1, 2, 0, 0, 0, 2, 97, 98,
      0, 2, 10, 0, 0, 0, 24, 0, 0, 0, 2, 0, 0, 0, 6, 6, 0, 0, 0, 1, 0, 0, 0, 0, 6, 6, 0, 0, 0, 1, 1]"

lemma plain_unicode_contract: "unicode_contract plain_unicode"
  by (simp add: unicode_contract_def plain_unicode_def)

lemma be_bytes_small:
  "be_bytes 2 n = [of_nat (n div 256 mod 256), of_nat (n mod 256)]"
  "be_bytes 4 n = [of_nat (n div 256 div 256 div 256 mod 256), of_nat (n div 256 div 256 mod 256),
     of_nat (n div 256 mod 256), of_nat (n mod 256)]"
proof -
  have "(2 :: nat) = Suc (Suc 0)" "(4 :: nat) = Suc (Suc (Suc (Suc 0)))"
    by simp_all
  then show "be_bytes 2 n = [of_nat (n div 256 mod 256), of_nat (n mod 256)]"
    "be_bytes 4 n = [of_nat (n div 256 div 256 div 256 mod 256), of_nat (n div 256 div 256 mod 256),
       of_nat (n div 256 mod 256), of_nat (n mod 256)]"
    by (simp_all only: be_bytes.simps append.simps)
qed

lemmas example_encoding = encode_cbef_record_def put_u32_def put_u16_def typed_frame_def frame_sequence_def
  example_cbef_def example_canonical_def example_bytes_def plain_unicode_def MAGIC_def FORMAT_VERSION_def ascii_def
  is_ascii_def to_ascii_lowercase_def be_bytes_small

lemma example_cbef_encodes: "encode_cbef_record plain_unicode example_cbef = Inr example_bytes"
  by (simp add: example_encoding)

lemma example_cbef_canonical: "canonical_record plain_unicode example_cbef = example_canonical"
  by (simp add: example_encoding canonical_record_def canonical_field_def typed_key_def encode_typed_def)

lemma example_strings: "record_strings_ok example_cbef"
  by (simp add: record_strings_ok_def example_encoding)

theorem cbef_round_trip_witness:
  "encode_cbef_record plain_unicode example_cbef = Inr example_bytes \<and> decode_cbef_record example_bytes = Inr example_canonical"
  using cbef_round_trip [OF plain_unicode_contract example_strings example_cbef_encodes]
  by (simp add: example_cbef_encodes example_cbef_canonical)

theorem cbef_decoding_is_exact_witness:
  "decode_cbef_record example_bytes = Inr example_canonical \<and> decode_cbef_record (example_bytes @ [0]) \<noteq> Inr example_canonical"
proof -
  have e: "encode_cbef_record plain_unicode example_canonical = Inr example_bytes"
    "canonical_record plain_unicode example_canonical = example_canonical" "record_strings_ok example_canonical"
    by (simp_all add: example_encoding canonical_record_def canonical_field_def typed_key_def encode_typed_def
        record_strings_ok_def)
  with cbef_decoding_is_exact [OF plain_unicode_contract] show ?thesis
    by auto
qed

end
