(* ===== verification/PublicId.thy ===== *)
theory PublicId
  imports Cbef
begin

text \<open>
  Public identifiers and workspace paths of \<open>identity.rs\<close>: strict lowercase identifiers with a domain
  prefix and an optional kind slug, and the reversible percent encoding of path components together with
  the separate display and comparison views of a path.
\<close>

section \<open>Public identifiers\<close>

definition lower_hex_digit :: "nat \<Rightarrow> u8" where
  "lower_hex_digit n = (if n < 10 then 48 + of_nat n else 87 + of_nat n)"

definition lower_hex :: "u8 list \<Rightarrow> str" where
  "lower_hex bs = concat (map (\<lambda>b. [lower_hex_digit (unat b div 16), lower_hex_digit (unat b mod 16)]) bs)"

definition is_lower_hex :: "u8 \<Rightarrow> bool" where
  "is_lower_hex b \<longleftrightarrow> 48 \<le> b \<and> b \<le> 57 \<or> 97 \<le> b \<and> b \<le> 102"

text \<open>The digit value that \<open>from_str_radix\<close> reads, in either case.\<close>

definition hex_value :: "u8 \<Rightarrow> nat option" where
  "hex_value b =
     (if 48 \<le> b \<and> b \<le> 57 then Some (unat b - 48)
      else if 97 \<le> b \<and> b \<le> 102 then Some (unat b - 87)
      else if 65 \<le> b \<and> b \<le> 70 then Some (unat b - 55)
      else None)"

definition hex_pair :: "u8 \<Rightarrow> u8 \<Rightarrow> u8 option" where
  "hex_pair a b =
     (case hex_value a of None \<Rightarrow> None | Some x \<Rightarrow>
       (case hex_value b of None \<Rightarrow> None | Some y \<Rightarrow> Some (of_nat (x * 16 + y))))"

fun decode_hex_pairs :: "u8 list \<Rightarrow> (identity_error, u8 list) result" where
  "decode_hex_pairs (a # b # rest) =
     bindE (ok_or (hex_pair a b) PublicId) (\<lambda>x. bindE (decode_hex_pairs rest) (\<lambda>xs. Inr (x # xs)))"
| "decode_hex_pairs _ = Inr []"

definition decode_lower_hex_16 :: "str \<Rightarrow> (identity_error, b16) result" where
  "decode_lower_hex_16 v =
     bindE (ensure (\<not> (length v \<noteq> 32 \<or> \<not> list_all is_lower_hex v)) PublicId) (\<lambda>_.
     bindE (decode_hex_pairs v) (\<lambda>bs. Inr (of_nat (be_value bs))))"

fun strip_prefix :: "str \<Rightarrow> str \<Rightarrow> str option" where
  "strip_prefix [] v = Some v"
| "strip_prefix (p # ps) [] = None"
| "strip_prefix (p # ps) (x # xs) = (if p = x then strip_prefix ps xs else None)"

definition decode_b3_digest :: "str \<Rightarrow> (identity_error, b32) result" where
  "decode_b3_digest v =
     bindE (ok_or (strip_prefix (ascii ''b3:'') v) PublicId) (\<lambda>payload.
     bindE (ensure (\<not> (length payload \<noteq> 64 \<or> \<not> list_all is_lower_hex payload)) PublicId) (\<lambda>_.
     bindE (decode_hex_pairs payload) (\<lambda>bs. Inr (of_nat (be_value bs)))))"

fun split_on :: "u8 \<Rightarrow> u8 list \<Rightarrow> u8 list list" where
  "split_on c [] = [[]]"
| "split_on c (x # xs) =
     (if x = c then [] # split_on c xs
      else case split_on c xs of [] \<Rightarrow> [[x]] | part # parts \<Rightarrow> (x # part) # parts)"

definition valid_slug :: "str \<Rightarrow> bool" where
  "valid_slug v \<longleftrightarrow>
     v \<noteq> [] \<and> hd v \<noteq> 45 \<and> last v \<noteq> 45 \<and>
     successively (\<lambda>a b. \<not> (a = 45 \<and> b = 45)) v \<and>
     list_all (\<lambda>b. 97 \<le> b \<and> b \<le> 122 \<or> 48 \<le> b \<and> b \<le> 57 \<or> b = 45) v"

fun public_prefix :: "identity_domain \<Rightarrow> str" where
  "public_prefix Workspace = ascii ''workspace''"
| "public_prefix Repository = ascii ''repository''"
| "public_prefix Worktree = ascii ''worktree''"
| "public_prefix AnalysisContext = ascii ''context''"
| "public_prefix ContextSet = ascii ''context-set''"
| "public_prefix SourceFile = ascii ''file''"
| "public_prefix Owner = ascii ''owner''"
| "public_prefix Entity = ascii ''entity''"
| "public_prefix RelationFact = ascii ''fact''"
| "public_prefix PropertyFact = ascii ''fact''"
| "public_prefix TypeDomain = ascii ''type''"
| "public_prefix Publication = ascii ''publication''"
| "public_prefix ServingSnapshot = ascii ''snapshot''"
| "public_prefix ResultArtifact = ascii ''artifact''"
| "public_prefix SourceContext = ascii ''source-context''"
| "public_prefix UnknownRemainder = ascii ''unknown''"
| "public_prefix RootAuthorization = ascii ''root-authorization''"
| "public_prefix PathResult = ascii ''path''"
| "public_prefix ObjectiveInputSet = ascii ''input-set''"
| "public_prefix ObjectiveGroup = ascii ''group''"
| "public_prefix QuerySourceContext = ascii ''context''"
| "public_prefix AccessScope = ascii ''access-scope''"
| "public_prefix ResultArtifactV2 = ascii ''artifact''"

fun requires_kind_slug :: "identity_domain \<Rightarrow> bool" where
  "requires_kind_slug d \<longleftrightarrow> d = Entity \<or> d = RelationFact \<or> d = PropertyFact"

definition SOURCE_CONTEXT_ID :: b16 where
  "SOURCE_CONTEXT_ID = - 1"

definition encode_public_id :: "identity_domain \<Rightarrow> str option \<Rightarrow> b16 \<Rightarrow> (identity_error, str) result" where
  "encode_public_id d kind i =
     bindE (ensure (\<not> (requires_kind_slug d \<noteq> (kind \<noteq> None) \<or>
                       (case kind of None \<Rightarrow> False | Some slug \<Rightarrow> \<not> valid_slug slug))) PublicId) (\<lambda>_.
     Inr (case kind of
            Some slug \<Rightarrow> public_prefix d @ [58] @ slug @ [58] @ lower_hex (b16_bytes i)
          | None \<Rightarrow> public_prefix d @ [58] @ lower_hex (b16_bytes i)))"

definition decode_public_id :: "identity_domain \<Rightarrow> str option \<Rightarrow> str \<Rightarrow> (identity_error, b16) result" where
  "decode_public_id d kind v =
     (if v = ascii ''context:source'' then
        (if d = AnalysisContext \<and> kind = None then Inr SOURCE_CONTEXT_ID else Inl (Err PublicId))
      else if requires_kind_slug d then
        (case split_on 58 v of
           [prefix, slug, payload] \<Rightarrow>
             bindE (ensure (\<not> (prefix \<noteq> public_prefix d \<or> \<not> valid_slug slug \<or> Some slug \<noteq> kind)) PublicId)
               (\<lambda>_. decode_lower_hex_16 payload)
         | _ \<Rightarrow> Inl (Err PublicId))
      else
        (case split_on 58 v of
           [prefix, payload] \<Rightarrow>
             bindE (ensure (\<not> (prefix \<noteq> public_prefix d \<or> kind \<noteq> None)) PublicId)
               (\<lambda>_. decode_lower_hex_16 payload)
         | _ \<Rightarrow> Inl (Err PublicId)))"

definition decode_public_id_any_kind :: "identity_domain \<Rightarrow> str \<Rightarrow> (identity_error, b16) result" where
  "decode_public_id_any_kind d v =
     (if \<not> requires_kind_slug d then decode_public_id d None v
      else case split_on 58 v of
        [prefix, kind, payload] \<Rightarrow>
          bindE (ensure (\<not> (prefix \<noteq> public_prefix d \<or> \<not> valid_slug kind)) PublicId)
            (\<lambda>_. decode_lower_hex_16 payload)
      | _ \<Rightarrow> Inl (Err PublicId))"

definition decode_public_id_prefix :: "str \<Rightarrow> str \<Rightarrow> (identity_error, b16) result" where
  "decode_public_id_prefix expected v =
     bindE (ensure (valid_slug expected) PublicId) (\<lambda>_.
     case split_on 58 v of
       [prefix, payload] \<Rightarrow> bindE (ensure (\<not> prefix \<noteq> expected) PublicId) (\<lambda>_. decode_lower_hex_16 payload)
     | _ \<Rightarrow> Inl (Err PublicId))"


section \<open>Workspace paths\<close>

datatype platform_code = Unix | MacOs | WindowsWtf8

fun platform_byte :: "platform_code \<Rightarrow> u8" where
  "platform_byte Unix = 1"
| "platform_byte MacOs = 2"
| "platform_byte WindowsWtf8 = 3"

datatype case_sensitivity_mode = Sensitive | Insensitive

record workspace_path =
  path_workspace :: b16
  path_platform :: platform_code
  raw_relative_path_bytes :: "u8 list"
  canonical_component_bytes :: "u8 list"
  comparison_key_bytes :: "u8 list"
  case_mode :: case_sensitivity_mode
  display_string :: str
  display_is_lossy :: bool

definition upper_hex_digit :: "nat \<Rightarrow> u8" where
  "upper_hex_digit n = (if n < 10 then 48 + of_nat n else 55 + of_nat n)"

definition percent :: "u8 \<Rightarrow> u8 list" where
  "percent b = [37, upper_hex_digit (unat b div 16), upper_hex_digit (unat b mod 16)]"

definition encode_component :: "u8 list \<Rightarrow> u8 list \<times> bool" where
  "encode_component component =
     (if valid_utf8 component then
        (concat (map (\<lambda>b. if b = 47 \<or> b = 37 \<or> b \<le> 31 \<or> b = 127 then percent b else [b]) component), False)
      else
        (concat (map (\<lambda>b. if 33 \<le> b \<and> b \<le> 126 \<and> \<not> (b = 47 \<or> b = 37) then [b] else percent b) component), True))"

definition is_upper_hex :: "u8 \<Rightarrow> bool" where
  "is_upper_hex b \<longleftrightarrow> 48 \<le> b \<and> b \<le> 57 \<or> 65 \<le> b \<and> b \<le> 70"

fun decode_component :: "u8 list \<Rightarrow> (identity_error, u8 list) result" where
  "decode_component [] = Inr []"
| "decode_component (b # bs) =
     (if b = 37 then
        (case bs of
           h # l # rest \<Rightarrow>
             bindE (ensure (is_upper_hex h \<and> is_upper_hex l) PathEncoding) (\<lambda>_.
             bindE (ok_or (hex_pair h l) PathEncoding) (\<lambda>x.
             bindE (decode_component rest) (\<lambda>xs. Inr (x # xs))))
         | _ \<Rightarrow> Inl (Err PathEncoding))
      else bindE (decode_component bs) (\<lambda>xs. Inr (b # xs)))"

fun join_components :: "u8 list list \<Rightarrow> u8 list" where
  "join_components [] = []"
| "join_components [c] = c"
| "join_components (c # cs) = c @ [47] @ join_components cs"

fun display_components :: "u8 list list \<Rightarrow> (identity_error, u8 list list) result" where
  "display_components [] = Inr []"
| "display_components (c # cs) =
     bindE (if valid_utf8 c then Inr c
            else bindE (ensure (valid_utf8 (fst (encode_component c))) PathEncoding) (\<lambda>_.
                 Inr (fst (encode_component c)))) (\<lambda>shown.
     bindE (display_components cs) (\<lambda>rest. Inr (shown # rest)))"

definition from_components ::
  "unicode \<Rightarrow> b16 \<Rightarrow> platform_code \<Rightarrow> case_sensitivity_mode \<Rightarrow> u8 list list \<Rightarrow>
   (identity_error, workspace_path) result"
where
  "from_components u workspace platform mode components =
     bindE (ensure (platform \<noteq> WindowsWtf8) (Platform (platform_byte platform))) (\<lambda>_.
     let raw = join_components components;
         lossy = list_ex (\<lambda>c. snd (encode_component c)) components;
         folds = (platform = MacOs \<and> mode = Insensitive);
         texts = list_all valid_utf8 components
     in bindE (display_components components) (\<lambda>shown.
        Inr \<lparr>path_workspace = workspace,
             path_platform = platform,
             raw_relative_path_bytes = raw,
             canonical_component_bytes = join_components (map (\<lambda>c. fst (encode_component c)) components),
             comparison_key_bytes = (if folds \<and> texts then nfd_case_fold u raw else raw),
             case_mode = mode,
             display_string = join_components shown,
             display_is_lossy = (lossy \<or> folds \<and> \<not> texts)\<rparr>))"

fun decode_components :: "u8 list list \<Rightarrow> (identity_error, u8 list list) result" where
  "decode_components [] = Inr []"
| "decode_components (c # cs) =
     bindE (decode_component c) (\<lambda>x.
     bindE (ensure (\<not> fst (encode_component x) \<noteq> c) PathEncoding) (\<lambda>_.
     bindE (decode_components cs) (\<lambda>xs. Inr (x # xs))))"

definition decoded_components :: "workspace_path \<Rightarrow> (identity_error, u8 list list) result" where
  "decoded_components p = decode_components (split_on 47 (canonical_component_bytes p))"

fun validate_seen_paths ::
  "(u8 list, u8 list) btree_map \<Rightarrow> workspace_path list \<Rightarrow> (identity_error, unit) result"
where
  "validate_seen_paths seen [] = Inr ()"
| "validate_seen_paths seen (p # ps) =
     (case btree_get seen (comparison_key_bytes p) of
        Some raw \<Rightarrow>
          if raw \<noteq> raw_relative_path_bytes p then Inl (Err PathCollision)
          else validate_seen_paths (btree_insert (comparison_key_bytes p) (raw_relative_path_bytes p) seen) ps
      | None \<Rightarrow> validate_seen_paths (btree_insert (comparison_key_bytes p) (raw_relative_path_bytes p) seen) ps)"

definition validate_workspace_paths :: "workspace_path list \<Rightarrow> (identity_error, unit) result" where
  "validate_workspace_paths ps = validate_seen_paths [] ps"


section \<open>Hexadecimal\<close>

lemma digit_cases:
  assumes "n < (16 :: nat)"
  shows "n \<in> {0, 1, 2, 3, 4, 5, 6, 7, 8, 9, 10, 11, 12, 13, 14, 15}"
  using assms unfolding insert_iff empty_iff by presburger

lemma hex_digits:
  assumes "n < 16"
  shows "hex_value (lower_hex_digit n) = Some n" "is_lower_hex (lower_hex_digit n)"
    "hex_value (upper_hex_digit n) = Some n" "is_upper_hex (upper_hex_digit n)" "upper_hex_digit n \<noteq> 47"
  using digit_cases [OF assms]
  by (elim insertE; simp add: hex_value_def lower_hex_digit_def upper_hex_digit_def is_lower_hex_def is_upper_hex_def)+

lemma unat_u8_nibbles: "unat (b :: u8) div 16 < 16" "unat b mod 16 < 16"
proof -
  have "unat b < 16 * 16"
    using unat_u8_less [of b] by (simp del: unat_u8_less)
  then show "unat b div 16 < 16"
    by (rule less_mult_imp_div_less)
qed simp

lemma hex_pair_digits [simp]:
  "hex_pair (lower_hex_digit (unat b div 16)) (lower_hex_digit (unat b mod 16)) = Some b"
  "hex_pair (upper_hex_digit (unat b div 16)) (upper_hex_digit (unat b mod 16)) = Some b"
  by (simp_all add: hex_pair_def hex_digits unat_u8_nibbles flip: of_nat_mult of_nat_add)

lemma is_lower_hexE:
  assumes "is_lower_hex b"
  obtains n where "n < 16" "b = lower_hex_digit n"
proof -
  consider "48 \<le> unat b" "unat b \<le> 57" | "97 \<le> unat b" "unat b \<le> 102"
    using assms by (auto simp: is_lower_hex_def word_le_nat_alt)
  then show ?thesis
  proof cases
    case 1
    then have "unat b - 48 < 10"
      by linarith
    with 1 have "b = lower_hex_digit (unat b - 48)"
      by (simp add: lower_hex_digit_def of_nat_diff)
    with 1 show ?thesis
      by (intro that [of "unat b - 48"]) simp_all
  next
    case 2
    then have "\<not> unat b - 87 < 10"
      by linarith
    with 2 have "b = lower_hex_digit (unat b - 87)"
      by (simp add: lower_hex_digit_def of_nat_diff)
    with 2 show ?thesis
      by (intro that [of "unat b - 87"]) simp_all
  qed
qed

lemma lower_hex_Cons:
  "lower_hex (b # bs) = lower_hex_digit (unat b div 16) # lower_hex_digit (unat b mod 16) # lower_hex bs"
  by (simp add: lower_hex_def)

lemma lower_hex_Nil [simp]: "lower_hex [] = []"
  by (simp add: lower_hex_def)

lemma decode_lower_hex [simp]: "decode_hex_pairs (lower_hex bs) = Inr bs"
  by (induction bs) (simp_all add: lower_hex_Cons)

lemma lower_hex_digits: "list_all is_lower_hex (lower_hex bs)" "length (lower_hex bs) = 2 * length bs"
  by (induction bs) (simp_all add: lower_hex_Cons hex_digits unat_u8_nibbles)

lemma lower_hex_of_pairs:
  "list_all is_lower_hex v \<Longrightarrow> even (length v) \<Longrightarrow> decode_hex_pairs v = Inr bs \<Longrightarrow> v = lower_hex bs"
proof (induction v arbitrary: bs rule: decode_hex_pairs.induct)
  case (1 a b rest)
  from 1(2) obtain m n where digits: "m < 16" "a = lower_hex_digit m" "n < 16" "b = lower_hex_digit n"
    by (auto elim!: is_lower_hexE)
  have unat: "unat (of_nat (m * 16 + n) :: u8) = m * 16 + n"
    by (rule of_nat_inverse [OF refl]) (use digits(1,3) in simp)
  have pair: "hex_pair a b = Some (of_nat (m * 16 + n))"
    by (simp add: hex_pair_def hex_digits digits)
  with 1(4) obtain xs where xs: "decode_hex_pairs rest = Inr xs" "bs = of_nat (m * 16 + n) # xs"
    by auto
  have "rest = lower_hex xs"
    using 1(1) [of "of_nat (m * 16 + n)"] 1(2,3) xs(1) by (simp add: pair)
  moreover have "(m * 16 + n) div 16 = m" "(m * 16 + n) mod 16 = n"
    using digits(3) by simp_all
  ultimately show ?case
    unfolding xs(2) lower_hex_Cons unat digits(2,4) by simp
qed auto

lemma length_decode_hex_pairs: "decode_hex_pairs v = Inr bs \<Longrightarrow> length bs = length v div 2"
  by (induction v arbitrary: bs rule: decode_hex_pairs.induct) auto

lemma b16_hex_exact: "decode_lower_hex_16 v = Inr i \<longleftrightarrow> v = lower_hex (b16_bytes i)"
proof
  assume "decode_lower_hex_16 v = Inr i"
  then obtain bs where v: "length v = 32" "list_all is_lower_hex v" "decode_hex_pairs v = Inr bs"
    "i = of_nat (be_value bs)"
    by (auto simp: decode_lower_hex_16_def)
  then have "length bs = 16"
    using length_decode_hex_pairs by fastforce
  with be_bytes_of_word [of bs, where 'a = 128] v(4) have "b16_bytes i = bs"
    by (simp add: b16_bytes_def)
  with lower_hex_of_pairs [OF v(2) _ v(3)] v(1) show "v = lower_hex (b16_bytes i)"
    by simp
next
  assume "v = lower_hex (b16_bytes i)"
  moreover have "of_nat (be_value (b16_bytes i)) = i"
    unfolding b16_bytes_def by (rule word_of_be_bytes) simp
  ultimately show "decode_lower_hex_16 v = Inr i"
    by (simp add: decode_lower_hex_16_def lower_hex_digits)
qed


section \<open>Splitting\<close>

lemma split_on_nonempty [simp]: "split_on c v \<noteq> []"
  by (induction v) (auto split: list.splits)

lemma split_on_plain: "c \<notin> set v \<Longrightarrow> split_on c v = [v]"
  by (induction v) auto

lemma split_on_append: "c \<notin> set a \<Longrightarrow> split_on c (a @ c # v) = a # split_on c v"
  by (induction a) auto

lemma split_on_one: "split_on c v = [a] \<longleftrightarrow> v = a \<and> c \<notin> set a"
proof (induction v arbitrary: a)
  case (Cons x v)
  show ?case
  proof (cases "x = c")
    case False
    then have "split_on c (x # v) = [a] \<longleftrightarrow> (\<exists>a'. a = x # a' \<and> split_on c v = [a'])"
      by (cases "split_on c v") auto
    also have "\<dots> \<longleftrightarrow> x # v = a \<and> c \<notin> set a"
      unfolding Cons.IH using False by auto
    finally show ?thesis .
  qed auto
qed auto

lemma split_on_more:
  "split_on c v = a # b # parts \<longleftrightarrow> (\<exists>w. v = a @ c # w \<and> c \<notin> set a \<and> split_on c w = b # parts)"
proof (induction v arbitrary: a)
  case (Cons x v)
  show ?case
  proof (cases "x = c")
    case True
    have "split_on c (x # v) = a # b # parts \<longleftrightarrow> a = [] \<and> split_on c v = b # parts"
      using True by auto
    also have "\<dots> \<longleftrightarrow> (\<exists>w. x # v = a @ c # w \<and> c \<notin> set a \<and> split_on c w = b # parts)"
      using True by (cases a) auto
    finally show ?thesis .
  next
    case False
    then have "split_on c (x # v) = a # b # parts \<longleftrightarrow> (\<exists>a'. a = x # a' \<and> split_on c v = a' # b # parts)"
      by (cases "split_on c v") auto
    also have "\<dots> \<longleftrightarrow> (\<exists>w. x # v = a @ c # w \<and> c \<notin> set a \<and> split_on c w = b # parts)"
      unfolding Cons.IH using False by (cases a) auto
    finally show ?thesis .
  qed
qed simp

lemma split_on_join:
  "cs \<noteq> [] \<Longrightarrow> \<forall>c \<in> set cs. 47 \<notin> set c \<Longrightarrow> split_on 47 (join_components cs) = cs"
proof (induction cs rule: join_components.induct)
  case (2 c)
  then show ?case by (simp add: split_on_plain)
next
  case (3 c d cs)
  then show ?case by (simp add: split_on_append)
qed simp


section \<open>Public identifiers are exact\<close>

lemma no_colon:
  "58 \<notin> set (public_prefix d)" "58 \<notin> set (lower_hex bs)" "valid_slug slug \<Longrightarrow> 58 \<notin> set slug"
proof -
  show "58 \<notin> set (public_prefix d)"
    by (cases d) (simp_all add: ascii_def)
  have "\<forall>b \<in> set (lower_hex bs). is_lower_hex b"
    using lower_hex_digits(1) [of bs] by (simp add: list_all_iff)
  then show "58 \<notin> set (lower_hex bs)"
    by (auto simp: is_lower_hex_def)
  show "58 \<notin> set slug" if "valid_slug slug"
    using that by (auto simp: valid_slug_def list_all_iff)
qed

lemma split_on_two: "split_on c v = [a, b] \<longleftrightarrow> v = a @ c # b \<and> c \<notin> set a \<and> c \<notin> set b"
  by (auto simp: split_on_more split_on_one)

lemma split_on_three:
  "split_on c v = [a, b, d] \<longleftrightarrow> v = a @ c # b @ c # d \<and> c \<notin> set a \<and> c \<notin> set b \<and> c \<notin> set d"
  by (auto simp: split_on_more split_on_one)

lemma encode_public_id_eq:
  "encode_public_id d kind i = Inr v \<longleftrightarrow>
     (case kind of
        None \<Rightarrow> \<not> requires_kind_slug d \<and> v = public_prefix d @ 58 # lower_hex (b16_bytes i)
      | Some slug \<Rightarrow> requires_kind_slug d \<and> valid_slug slug \<and>
          v = public_prefix d @ 58 # slug @ 58 # lower_hex (b16_bytes i))"
  by (auto simp: encode_public_id_def simp del: requires_kind_slug.simps split: option.splits)

lemma encoded_not_symbolic: "encode_public_id d kind i = Inr v \<Longrightarrow> v \<noteq> ascii ''context:source''"
proof
  assume e: "encode_public_id d kind i = Inr v" and s: "v = ascii ''context:source''"
  have "32 < length v"
    using e lower_hex_digits(2) [of "b16_bytes i"] by (auto simp: encode_public_id_eq split: option.splits)
  with s show False
    by (simp add: ascii_def)
qed

lemma decode_split_two:
  "(case split_on 58 v of [prefix, payload] \<Rightarrow> bindE (ensure (P prefix) PublicId) (\<lambda>_. decode_lower_hex_16 payload)
     | _ \<Rightarrow> Inl (Err PublicId)) = Inr i \<longleftrightarrow>
   (\<exists>prefix. P prefix \<and> 58 \<notin> set prefix \<and> v = prefix @ 58 # lower_hex (b16_bytes i))"
proof -
  have "(\<exists>a b. split_on 58 v = [a, b] \<and> P a \<and> b = lower_hex (b16_bytes i)) \<longleftrightarrow>
      (\<exists>prefix. P prefix \<and> 58 \<notin> set prefix \<and> v = prefix @ 58 # lower_hex (b16_bytes i))"
    by (auto simp: split_on_two no_colon)
  then show ?thesis
    by (auto simp: b16_hex_exact split: list.splits)
qed

lemma decode_split_three:
  "(case split_on 58 v of [prefix, slug, payload] \<Rightarrow> bindE (ensure (P prefix slug) PublicId) (\<lambda>_. decode_lower_hex_16 payload)
     | _ \<Rightarrow> Inl (Err PublicId)) = Inr i \<longleftrightarrow>
   (\<exists>prefix slug. P prefix slug \<and> 58 \<notin> set prefix \<and> 58 \<notin> set slug \<and> v = prefix @ 58 # slug @ 58 # lower_hex (b16_bytes i))"
proof -
  have "(\<exists>a b c. split_on 58 v = [a, b, c] \<and> P a b \<and> c = lower_hex (b16_bytes i)) \<longleftrightarrow>
      (\<exists>prefix slug. P prefix slug \<and> 58 \<notin> set prefix \<and> 58 \<notin> set slug \<and> v = prefix @ 58 # slug @ 58 # lower_hex (b16_bytes i))"
    by (auto simp: split_on_three no_colon)
  then show ?thesis
    by (auto simp: b16_hex_exact split: list.splits)
qed

lemma decode_public_id_iff:
  "decode_public_id d kind v = Inr i \<longleftrightarrow>
     encode_public_id d kind i = Inr v \<or>
     v = ascii ''context:source'' \<and> d = AnalysisContext \<and> kind = None \<and> i = SOURCE_CONTEXT_ID"
proof (cases "v = ascii ''context:source''")
  case True
  then show ?thesis
    using encoded_not_symbolic [of d kind i v] by (auto simp: decode_public_id_def)
next
  case False
  show ?thesis
  proof (cases "requires_kind_slug d")
    case True
    with False have "decode_public_id d kind v = Inr i \<longleftrightarrow>
        (\<exists>slug. kind = Some slug \<and> valid_slug slug \<and> v = public_prefix d @ 58 # slug @ 58 # lower_hex (b16_bytes i))"
      by (auto simp: decode_public_id_def decode_split_three no_colon simp del: requires_kind_slug.simps)
    with True False show ?thesis
      by (auto simp: encode_public_id_eq simp del: requires_kind_slug.simps split: option.splits)
  next
    case no_kind: False
    with False have "decode_public_id d kind v = Inr i \<longleftrightarrow>
        kind = None \<and> v = public_prefix d @ 58 # lower_hex (b16_bytes i)"
      by (auto simp: decode_public_id_def decode_split_two no_colon simp del: requires_kind_slug.simps)
    with no_kind False show ?thesis
      by (auto simp: encode_public_id_eq simp del: requires_kind_slug.simps split: option.splits)
  qed
qed

text \<open>
  C34.  Public identifiers are exact: a text decodes to an identity in a domain, with a kind, exactly
  if it is the text that the encoder writes for them, or the one symbolic identifier of the source
  context.  No other spelling, letter case, width or prefix is accepted.
\<close>

theorem public_id_is_exact:
  "decode_public_id d kind v = Inr i \<longleftrightarrow>
     encode_public_id d kind i = Inr v \<or>
     v = ascii ''context:source'' \<and> d = AnalysisContext \<and> kind = None \<and> i = SOURCE_CONTEXT_ID"
  by (rule decode_public_id_iff)

lemma decode_any_kind_exact:
  "requires_kind_slug d \<Longrightarrow>
   decode_public_id_any_kind d v = Inr i \<longleftrightarrow> (\<exists>slug. encode_public_id d (Some slug) i = Inr v)"
  by (auto simp: decode_public_id_any_kind_def decode_split_three encode_public_id_eq no_colon
      simp del: requires_kind_slug.simps)


lemma decode_public_id_prefix_iff:
  "decode_public_id_prefix prefix v = Inr i \<longleftrightarrow> valid_slug prefix \<and> v = prefix @ 58 # lower_hex (b16_bytes i)"
  by (auto simp: decode_public_id_prefix_def decode_split_two no_colon)

lemma strip_prefix_eq: "strip_prefix p v = Some rest \<longleftrightarrow> v = p @ rest"
  by (induction p v rule: strip_prefix.induct) auto

lemma decode_b3_digest_iff: "decode_b3_digest v = Inr d \<longleftrightarrow> v = ascii ''b3:'' @ lower_hex (b32_bytes d)"
proof
  assume "decode_b3_digest v = Inr d"
  then obtain payload bs where v: "v = ascii ''b3:'' @ payload" "length payload = 64" "list_all is_lower_hex payload"
    "decode_hex_pairs payload = Inr bs" "d = of_nat (be_value bs)"
    by (auto simp: decode_b3_digest_def strip_prefix_eq)
  then have "length bs = 32"
    using length_decode_hex_pairs by fastforce
  with be_bytes_of_word [of bs, where 'a = 256] v(5) have "b32_bytes d = bs"
    by (simp add: b32_bytes_def)
  with lower_hex_of_pairs [OF v(3) _ v(4)] v(1,2) show "v = ascii ''b3:'' @ lower_hex (b32_bytes d)"
    by simp
next
  assume v: "v = ascii ''b3:'' @ lower_hex (b32_bytes d)"
  have "of_nat (be_value (b32_bytes d)) = d"
    unfolding b32_bytes_def by (rule word_of_be_bytes) simp
  moreover have "strip_prefix (ascii ''b3:'') v = Some (lower_hex (b32_bytes d))"
    by (simp add: strip_prefix_eq v)
  ultimately show "decode_b3_digest v = Inr d"
    by (simp add: decode_b3_digest_def lower_hex_digits)
qed

text \<open>Outside of the analysis context an identifier has one text.\<close>

lemma decode_public_id_inject:
  "decode_public_id d kind v = Inr i \<Longrightarrow> decode_public_id d kind w = Inr j \<Longrightarrow> d \<noteq> AnalysisContext \<Longrightarrow> i = j \<longleftrightarrow> v = w"
  using decode_public_id_iff [of d kind v i] decode_public_id_iff [of d kind w i] by (cases "v = w") auto

lemma decode_public_id_prefix_inject:
  "decode_public_id_prefix prefix v = Inr i \<Longrightarrow> decode_public_id_prefix prefix w = Inr j \<Longrightarrow> i = j \<longleftrightarrow> v = w"
  using decode_public_id_prefix_iff [of prefix v i] decode_public_id_prefix_iff [of prefix w j]
    decode_public_id_prefix_iff [of prefix w i] by auto

lemma decode_b3_digest_inject: "decode_b3_digest v = Inr d \<Longrightarrow> decode_b3_digest w = Inr e \<Longrightarrow> d = e \<longleftrightarrow> v = w"
  using decode_b3_digest_iff [of v d] decode_b3_digest_iff [of w d] by (cases "v = w") auto


section \<open>Paths\<close>

lemma decode_percent: "decode_component (percent b @ rest) = bindE (decode_component rest) (\<lambda>xs. Inr (b # xs))"
  by (simp add: percent_def hex_digits unat_u8_nibbles)

lemma decode_escaped:
  assumes "\<And>b. b \<in> set c \<Longrightarrow> esc b = percent b \<or> esc b = [b] \<and> b \<noteq> 37"
  shows "decode_component (concat (map esc c)) = Inr c"
  using assms
proof (induction c)
  case (Cons b c)
  have "decode_component (concat (map esc c)) = Inr c"
    using Cons by simp
  moreover have "esc b = percent b \<or> esc b = [b] \<and> b \<noteq> 37"
    using Cons.prems by simp
  ultimately show ?case
    by (auto simp: decode_percent)
qed simp

lemma encode_component_round_trip: "decode_component (fst (encode_component c)) = Inr c"
proof (cases "valid_utf8 c")
  case True
  then show ?thesis
    unfolding encode_component_def if_P [OF True] fst_conv by (intro decode_escaped) simp
next
  case False
  then show ?thesis
    unfolding encode_component_def if_not_P [OF False] fst_conv by (intro decode_escaped) simp
qed

lemma percent_bytes: "x \<in> set (percent b) \<Longrightarrow> x \<noteq> 47 \<and> x < 0x80"
proof -
  have "upper_hex_digit n < 0x80" if "n < 16" for n
    using digit_cases [OF that] by (elim insertE) (simp_all add: upper_hex_digit_def)
  moreover assume "x \<in> set (percent b)"
  ultimately show ?thesis
    by (auto simp: percent_def hex_digits unat_u8_nibbles)
qed

lemma encode_component_no_slash: "47 \<notin> set (fst (encode_component c))"
  by (auto simp: encode_component_def dest: percent_bytes split: if_splits)

lemma valid_utf8_bytes: "\<forall>b \<in> set s. b < 0x80 \<Longrightarrow> valid_utf8 s"
  by (induction s) simp_all

lemma display_components_Inr: "\<exists>shown. display_components cs = Inr shown"
proof (induction cs)
  case (Cons c cs)
  have "valid_utf8 (fst (encode_component c))" if "\<not> valid_utf8 c"
  proof (rule valid_utf8_bytes, rule ballI)
    fix b assume "b \<in> set (fst (encode_component c))"
    with that show "b < 0x80"
      by (auto simp: encode_component_def dest: percent_bytes split: if_splits intro: le_less_trans)
  qed
  with Cons show ?case
    by auto
qed simp

lemma from_components_Inr:
  assumes "platform \<noteq> WindowsWtf8"
  shows "\<exists>p. from_components u w platform mode cs = Inr p \<and>
    canonical_component_bytes p = join_components (map (\<lambda>c. fst (encode_component c)) cs)"
  using assms display_components_Inr [of cs] by (auto simp: from_components_def Let_def)

lemma decode_encoded_components: "decode_components (map (\<lambda>c. fst (encode_component c)) cs) = Inr cs"
  by (induction cs) (simp_all add: encode_component_round_trip)

text \<open>
  C35.  Paths are reversible: on a supported platform a path with at least one component can always be
  built, whatever bytes its components hold, and its canonical form decodes to exactly these components.
\<close>

theorem workspace_path_round_trip:
  assumes "platform \<noteq> WindowsWtf8" "components \<noteq> []"
  shows "\<exists>p. from_components u w platform mode components = Inr p \<and> decoded_components p = Inr components"
proof -
  obtain p where p: "from_components u w platform mode components = Inr p"
    "canonical_component_bytes p = join_components (map (\<lambda>c. fst (encode_component c)) components)"
    using from_components_Inr [OF assms(1)] by blast
  have "split_on 47 (canonical_component_bytes p) = map (\<lambda>c. fst (encode_component c)) components"
    unfolding p(2) using assms(2) encode_component_no_slash by (intro split_on_join) auto
  with p(1) show ?thesis
    by (simp add: decoded_components_def decode_encoded_components)
qed

text \<open>The path without components is the exception: it decodes to one empty component.\<close>

lemma empty_path_decodes_to_empty_component:
  "platform \<noteq> WindowsWtf8 \<Longrightarrow>
   \<exists>p. from_components u w platform mode [] = Inr p \<and> decoded_components p = Inr [[]]"
  by (simp add: from_components_def Let_def decoded_components_def encode_component_def)

lemma validate_seen_paths_iff:
  "validate_seen_paths seen ps = Inr () \<longleftrightarrow>
     agrees (btree_get seen) comparison_key_bytes raw_relative_path_bytes (set ps)"
proof (induction ps arbitrary: seen)
  case (Cons p ps)
  show ?case
  proof (cases "\<forall>e. btree_get seen (comparison_key_bytes p) = Some e \<longrightarrow> e = raw_relative_path_bytes p")
    case True
    then show ?thesis
      using agrees_insert [of "btree_get seen" comparison_key_bytes p raw_relative_path_bytes "set ps"] Cons.IH
      by (cases "btree_get seen (comparison_key_bytes p)") (simp_all del: fun_upd_apply)
  next
    case False
    then show ?thesis
      using agrees_conflict [of "btree_get seen" comparison_key_bytes p] by auto
  qed
qed (simp add: agrees_def)

lemma validate_workspace_paths_iff:
  "validate_workspace_paths ps = Inr () \<longleftrightarrow>
     (\<forall>p \<in> set ps. \<forall>q \<in> set ps. comparison_key_bytes p = comparison_key_bytes q \<longrightarrow>
        raw_relative_path_bytes p = raw_relative_path_bytes q)"
  by (simp add: validate_workspace_paths_def validate_seen_paths_iff agrees_Map_empty)

theorem workspace_path_round_trip_witness:
  "\<exists>p. from_components \<lparr>nfc = id, nfkc = id, nfd_case_fold = id\<rparr> 7 Unix Sensitive [[0xFF, 47], [97, 37]] = Inr p \<and>
       decoded_components p = Inr [[0xFF, 47], [97, 37]]"
  using workspace_path_round_trip [of Unix "[[0xFF, 47], [97, 37]]"] by simp

(*PROOFS*)
end
