(* ===== verification/Recipes.thy ===== *)
theory Recipes
  imports Cbef
begin

text \<open>
  The released identity recipes of \<open>identity_recipes.rs\<close>: typed recipe values, the checks of their
  shapes, and one constructor for each released record.  The structures that only carry the arguments
  of a constructor are its arguments here, in the order of the structure's fields.
\<close>

section \<open>Recipe values and records\<close>

datatype recipe_value =
    RBytes "u8 list"
  | RUtf8 str
  | RUnsigned "u8 list"
  | RSigned "u8 list"
  | RBoolean bool
  | RId b16
  | RDigest b32
  | ROrderedList "recipe_value list"
  | RSet "recipe_value list"
  | RMap "(recipe_value \<times> recipe_value) list"
  | RTaggedUnion u16 recipe_value

datatype recipe_normalization = NoRecipeNormalization | RecipeAsciiLower

record recipe_field =
  recipe_tag :: u16
  recipe_normalization :: recipe_normalization
  recipe_field_value :: recipe_value

record recipe_record =
  recipe_domain_code :: u16
  recipe_fields :: "recipe_field list"

datatype recipe_error = RecipeError

type_synonym 'a recipe_result = "(recipe_error, 'a) result"

section \<open>Shapes\<close>

fun recipe_code :: "recipe_value \<Rightarrow> u8" where
  "recipe_code (RBytes _) = 1"
| "recipe_code (RUtf8 _) = 2"
| "recipe_code (RUnsigned _) = 4"
| "recipe_code (RSigned _) = 5"
| "recipe_code (RBoolean _) = 6"
| "recipe_code (RId _) = 7"
| "recipe_code (RDigest _) = 8"
| "recipe_code (ROrderedList _) = 9"
| "recipe_code (RSet _) = 10"
| "recipe_code (RMap _) = 11"
| "recipe_code (RTaggedUnion _ _) = 12"

definition expect_recipe :: "recipe_value \<Rightarrow> u8 \<Rightarrow> nat \<Rightarrow> unit recipe_result" where
  "expect_recipe v expected width =
     bindE (ensure (\<not> recipe_code v \<noteq> expected) RecipeError) (\<lambda>_.
     if width \<noteq> 0 then
       (case v of RUnsigned bytes \<Rightarrow> ensure (length bytes = width) RecipeError | _ \<Rightarrow> Inl (Err RecipeError))
     else Inr ())"

fun try_for_each :: "('a \<Rightarrow> ('e, unit) result) \<Rightarrow> 'a list \<Rightarrow> ('e, unit) result" where
  "try_for_each f [] = Inr ()"
| "try_for_each f (x # xs) = bindE (f x) (\<lambda>_. try_for_each f xs)"

definition expect_members :: "recipe_value list \<Rightarrow> u8 \<Rightarrow> unit recipe_result" where
  "expect_members vs expected = try_for_each (\<lambda>v. expect_recipe v expected 0) vs"

definition expect_utf8_set :: "recipe_value \<Rightarrow> unit recipe_result" where
  "expect_utf8_set v =
     bindE (expect_recipe v 10 0) (\<lambda>_.
     case v of RSet vs \<Rightarrow> expect_members vs 2 | _ \<Rightarrow> Inl (Err RecipeError))"

definition expect_id_set :: "recipe_value \<Rightarrow> unit recipe_result" where
  "expect_id_set v =
     bindE (expect_recipe v 10 0) (\<lambda>_.
     case v of RSet vs \<Rightarrow> expect_members vs 7 | _ \<Rightarrow> Inl (Err RecipeError))"

definition expect_utf8_to_utf8_set_map :: "recipe_value \<Rightarrow> unit recipe_result" where
  "expect_utf8_to_utf8_set_map v =
     bindE (expect_recipe v 11 0) (\<lambda>_.
     case v of
       RMap entries \<Rightarrow> try_for_each (\<lambda>(k, w). bindE (expect_recipe k 2 0) (\<lambda>_. expect_utf8_set w)) entries
     | _ \<Rightarrow> Inl (Err RecipeError))"

text \<open>The variant of a typed scalar is its own type code; it is read as a byte.\<close>

definition expect_typed_scalar :: "recipe_value \<Rightarrow> unit recipe_result" where
  "expect_typed_scalar v =
     (case v of
        RTaggedUnion variant w \<Rightarrow>
          bindE (ensure (unat variant < 256) RecipeError) (\<lambda>_.
          bindE (ensure (variant \<in> {2, 4, 5, 6}) RecipeError) (\<lambda>_.
          expect_recipe w (ucast variant) 0))
      | _ \<Rightarrow> Inl (Err RecipeError))"

definition recipe_field_new :: "u16 \<Rightarrow> recipe_normalization \<Rightarrow> recipe_value \<Rightarrow> recipe_field" where
  "recipe_field_new t n v = \<lparr>recipe_tag = t, recipe_normalization = n, recipe_field_value = v\<rparr>"


section \<open>Released records\<close>

definition recipe_owner ::
  "recipe_value \<Rightarrow> recipe_value \<Rightarrow> recipe_value \<Rightarrow> recipe_value \<Rightarrow> recipe_record recipe_result"
where
  "recipe_owner workspace_id analysis_context_id owner_kind semantic_key =
     bindE (expect_recipe workspace_id 7 0) (\<lambda>_.
     bindE (expect_recipe analysis_context_id 7 0) (\<lambda>_.
     bindE (expect_recipe owner_kind 2 0) (\<lambda>_.
     bindE (expect_recipe semantic_key 1 0) (\<lambda>_.
     Inr \<lparr>recipe_domain_code = 7, recipe_fields =
       [recipe_field_new 1 NoRecipeNormalization workspace_id,
        recipe_field_new 2 NoRecipeNormalization analysis_context_id,
        recipe_field_new 3 RecipeAsciiLower owner_kind,
        recipe_field_new 4 NoRecipeNormalization semantic_key]\<rparr>))))"

definition recipe_entity ::
  "recipe_value \<Rightarrow> recipe_value \<Rightarrow> recipe_value \<Rightarrow> recipe_value \<Rightarrow> recipe_value \<Rightarrow> recipe_record recipe_result"
where
  "recipe_entity workspace_id analysis_context_id kind_code owner_id semantic_key =
     bindE (expect_recipe workspace_id 7 0) (\<lambda>_.
     bindE (expect_recipe analysis_context_id 7 0) (\<lambda>_.
     bindE (expect_recipe kind_code 4 2) (\<lambda>_.
     bindE (expect_recipe owner_id 7 0) (\<lambda>_.
     bindE (expect_recipe semantic_key 1 0) (\<lambda>_.
     Inr \<lparr>recipe_domain_code = 8, recipe_fields =
       [recipe_field_new 1 NoRecipeNormalization workspace_id,
        recipe_field_new 2 NoRecipeNormalization analysis_context_id,
        recipe_field_new 3 NoRecipeNormalization kind_code,
        recipe_field_new 4 NoRecipeNormalization owner_id,
        recipe_field_new 5 NoRecipeNormalization semantic_key]\<rparr>)))))"

definition recipe_relation_fact ::
  "recipe_value \<Rightarrow> recipe_value \<Rightarrow> recipe_value \<Rightarrow> recipe_value \<Rightarrow> recipe_value \<Rightarrow> recipe_value \<Rightarrow>
   recipe_record recipe_result"
where
  "recipe_relation_fact workspace_id analysis_context_id relation_kind_code subject_entity_id object_entity_id role =
     bindE (expect_recipe workspace_id 7 0) (\<lambda>_.
     bindE (expect_recipe analysis_context_id 7 0) (\<lambda>_.
     bindE (expect_recipe relation_kind_code 4 2) (\<lambda>_.
     bindE (expect_recipe subject_entity_id 7 0) (\<lambda>_.
     bindE (expect_recipe object_entity_id 7 0) (\<lambda>_.
     bindE (expect_recipe role 12 0) (\<lambda>_.
     Inr \<lparr>recipe_domain_code = 9, recipe_fields =
       [recipe_field_new 1 NoRecipeNormalization workspace_id,
        recipe_field_new 2 NoRecipeNormalization analysis_context_id,
        recipe_field_new 3 NoRecipeNormalization relation_kind_code,
        recipe_field_new 4 NoRecipeNormalization subject_entity_id,
        recipe_field_new 5 NoRecipeNormalization object_entity_id,
        recipe_field_new 6 NoRecipeNormalization role]\<rparr>))))))"

definition recipe_property_fact ::
  "recipe_value \<Rightarrow> recipe_value \<Rightarrow> recipe_value \<Rightarrow> recipe_value \<Rightarrow> recipe_value \<Rightarrow> recipe_record recipe_result"
where
  "recipe_property_fact workspace_id analysis_context_id property_kind_code subject_entity_id canonical_value =
     bindE (expect_recipe workspace_id 7 0) (\<lambda>_.
     bindE (expect_recipe analysis_context_id 7 0) (\<lambda>_.
     bindE (expect_recipe property_kind_code 4 2) (\<lambda>_.
     bindE (expect_recipe subject_entity_id 7 0) (\<lambda>_.
     bindE (expect_recipe canonical_value 12 0) (\<lambda>_.
     Inr \<lparr>recipe_domain_code = 10, recipe_fields =
       [recipe_field_new 1 NoRecipeNormalization workspace_id,
        recipe_field_new 2 NoRecipeNormalization analysis_context_id,
        recipe_field_new 3 NoRecipeNormalization property_kind_code,
        recipe_field_new 4 NoRecipeNormalization subject_entity_id,
        recipe_field_new 5 NoRecipeNormalization canonical_value]\<rparr>)))))"

definition expect_id_list :: "recipe_value \<Rightarrow> unit recipe_result" where
  "expect_id_list v = (case v of ROrderedList ids \<Rightarrow> expect_members ids 7 | _ \<Rightarrow> Inl (Err RecipeError))"

definition recipe_path_result ::
  "recipe_value \<Rightarrow> recipe_value \<Rightarrow> recipe_value \<Rightarrow> recipe_value \<Rightarrow> recipe_value \<Rightarrow> recipe_value \<Rightarrow>
   recipe_record recipe_result"
where
  "recipe_path_result workspace_id analysis_context_id fabric_epoch_id policy_identity ordered_entity_ids ordered_fact_ids =
     bindE (expect_recipe workspace_id 7 0) (\<lambda>_.
     bindE (expect_recipe analysis_context_id 7 0) (\<lambda>_.
     bindE (expect_recipe fabric_epoch_id 7 0) (\<lambda>_.
     bindE (expect_recipe policy_identity 2 0) (\<lambda>_.
     bindE (expect_recipe ordered_entity_ids 9 0) (\<lambda>_.
     bindE (expect_recipe ordered_fact_ids 9 0) (\<lambda>_.
     bindE (expect_id_list ordered_entity_ids) (\<lambda>_.
     bindE (expect_id_list ordered_fact_ids) (\<lambda>_.
     Inr \<lparr>recipe_domain_code = 18, recipe_fields =
       [recipe_field_new 1 NoRecipeNormalization workspace_id,
        recipe_field_new 2 NoRecipeNormalization analysis_context_id,
        recipe_field_new 3 NoRecipeNormalization fabric_epoch_id,
        recipe_field_new 4 NoRecipeNormalization policy_identity,
        recipe_field_new 5 NoRecipeNormalization ordered_entity_ids,
        recipe_field_new 6 NoRecipeNormalization ordered_fact_ids]\<rparr>))))))))"

definition coverage_states :: "str list" where
  "coverage_states = map ascii [''complete'', ''partial'', ''indeterminate'', ''unavailable'']"

definition recipe_objective_input_set ::
  "recipe_value \<Rightarrow> recipe_value \<Rightarrow> recipe_value \<Rightarrow> recipe_value \<Rightarrow> recipe_value \<Rightarrow> recipe_value \<Rightarrow>
   recipe_record recipe_result"
where
  "recipe_objective_input_set workspace_id analysis_context_ids fact_ids producer_identities policy_identity coverage_state =
     bindE (expect_recipe workspace_id 7 0) (\<lambda>_.
     bindE (expect_id_set analysis_context_ids) (\<lambda>_.
     bindE (expect_id_set fact_ids) (\<lambda>_.
     bindE (expect_utf8_set producer_identities) (\<lambda>_.
     bindE (expect_recipe policy_identity 2 0) (\<lambda>_.
     bindE (expect_recipe coverage_state 2 0) (\<lambda>_.
     bindE (case coverage_state of
              RUtf8 s \<Rightarrow> ensure (to_ascii_lowercase s \<in> set coverage_states) RecipeError
            | _ \<Rightarrow> Inl (Err RecipeError)) (\<lambda>_.
     Inr \<lparr>recipe_domain_code = 19, recipe_fields =
       [recipe_field_new 1 NoRecipeNormalization workspace_id,
        recipe_field_new 2 NoRecipeNormalization analysis_context_ids,
        recipe_field_new 3 NoRecipeNormalization fact_ids,
        recipe_field_new 4 NoRecipeNormalization producer_identities,
        recipe_field_new 5 NoRecipeNormalization policy_identity,
        recipe_field_new 6 RecipeAsciiLower coverage_state]\<rparr>)))))))"

definition recipe_objective_group ::
  "recipe_value \<Rightarrow> recipe_value \<Rightarrow> recipe_value \<Rightarrow> recipe_value \<Rightarrow> recipe_value \<Rightarrow> recipe_value \<Rightarrow>
   recipe_value \<Rightarrow> recipe_value \<Rightarrow> recipe_record recipe_result"
where
  "recipe_objective_group workspace_id analysis_context_id input_set_id grouping_dimensions canonical_group_key
       aggregate_function measure_identity producer_identity =
     bindE (expect_recipe workspace_id 7 0) (\<lambda>_.
     bindE (expect_recipe analysis_context_id 7 0) (\<lambda>_.
     bindE (expect_recipe input_set_id 7 0) (\<lambda>_.
     bindE (expect_recipe grouping_dimensions 9 0) (\<lambda>_.
     bindE (case grouping_dimensions of
              ROrderedList dimensions \<Rightarrow> expect_members dimensions 2
            | _ \<Rightarrow> Inl (Err RecipeError)) (\<lambda>_.
     bindE (expect_recipe canonical_group_key 11 0) (\<lambda>_.
     bindE (case canonical_group_key of
              RMap entries \<Rightarrow>
                try_for_each (\<lambda>(k, v). bindE (expect_recipe k 2 0) (\<lambda>_. expect_typed_scalar v)) entries
            | _ \<Rightarrow> Inl (Err RecipeError)) (\<lambda>_.
     bindE (expect_recipe aggregate_function 2 0) (\<lambda>_.
     bindE (expect_recipe measure_identity 2 0) (\<lambda>_.
     bindE (expect_recipe producer_identity 2 0) (\<lambda>_.
     Inr \<lparr>recipe_domain_code = 20, recipe_fields =
       [recipe_field_new 1 NoRecipeNormalization workspace_id,
        recipe_field_new 2 NoRecipeNormalization analysis_context_id,
        recipe_field_new 3 NoRecipeNormalization input_set_id,
        recipe_field_new 4 NoRecipeNormalization grouping_dimensions,
        recipe_field_new 5 NoRecipeNormalization canonical_group_key,
        recipe_field_new 6 RecipeAsciiLower aggregate_function,
        recipe_field_new 7 NoRecipeNormalization measure_identity,
        recipe_field_new 8 NoRecipeNormalization producer_identity]\<rparr>))))))))))"

definition recipe_query_source_context ::
  "recipe_value \<Rightarrow> recipe_value \<Rightarrow> recipe_value \<Rightarrow> recipe_value \<Rightarrow> recipe_value \<Rightarrow> recipe_value \<Rightarrow>
   recipe_value \<Rightarrow> recipe_value \<Rightarrow> recipe_value \<Rightarrow> recipe_value \<Rightarrow> recipe_value \<Rightarrow> recipe_value \<Rightarrow>
   recipe_value \<Rightarrow> recipe_record recipe_result"
where
  "recipe_query_source_context workspace_id analysis_context_id snapshot_id entity_id source_file_id
       source_generation source_content_digest delivered_start_byte delivered_end_byte delivered_content_digest
       disclosure_scope_id policy_identity context_kind =
     bindE (try_for_each (\<lambda>v. expect_recipe v 7 0)
       [workspace_id, analysis_context_id, snapshot_id, entity_id, source_file_id, disclosure_scope_id]) (\<lambda>_.
     bindE (expect_recipe source_generation 4 8) (\<lambda>_.
     bindE (expect_recipe source_content_digest 8 0) (\<lambda>_.
     bindE (expect_recipe delivered_start_byte 4 8) (\<lambda>_.
     bindE (expect_recipe delivered_end_byte 4 8) (\<lambda>_.
     bindE (expect_recipe delivered_content_digest 8 0) (\<lambda>_.
     bindE (expect_recipe policy_identity 2 0) (\<lambda>_.
     bindE (expect_recipe context_kind 2 0) (\<lambda>_.
     Inr \<lparr>recipe_domain_code = 21, recipe_fields =
       [recipe_field_new 1 NoRecipeNormalization workspace_id,
        recipe_field_new 2 NoRecipeNormalization analysis_context_id,
        recipe_field_new 3 NoRecipeNormalization snapshot_id,
        recipe_field_new 4 NoRecipeNormalization entity_id,
        recipe_field_new 5 NoRecipeNormalization source_file_id,
        recipe_field_new 6 NoRecipeNormalization source_generation,
        recipe_field_new 7 NoRecipeNormalization source_content_digest,
        recipe_field_new 8 NoRecipeNormalization delivered_start_byte,
        recipe_field_new 9 NoRecipeNormalization delivered_end_byte,
        recipe_field_new 10 NoRecipeNormalization delivered_content_digest,
        recipe_field_new 11 NoRecipeNormalization disclosure_scope_id,
        recipe_field_new 12 NoRecipeNormalization policy_identity,
        recipe_field_new 13 RecipeAsciiLower context_kind]\<rparr>))))))))"

definition expect_authorized_range :: "recipe_value \<Rightarrow> unit recipe_result" where
  "expect_authorized_range authorized =
     bindE (expect_recipe authorized 9 0) (\<lambda>_.
     case authorized of
       ROrderedList parts \<Rightarrow>
         (case parts of
            [file_id, start, stop] \<Rightarrow>
              bindE (expect_recipe file_id 7 0) (\<lambda>_.
              bindE (expect_recipe start 4 8) (\<lambda>_.
              expect_recipe stop 4 8))
          | _ \<Rightarrow> Inl (Err RecipeError))
     | _ \<Rightarrow> Inl (Err RecipeError))"

definition recipe_access_scope ::
  "recipe_value \<Rightarrow> recipe_value \<Rightarrow> recipe_value \<Rightarrow> recipe_value \<Rightarrow> recipe_value \<Rightarrow> recipe_value \<Rightarrow>
   recipe_value \<Rightarrow> recipe_value \<Rightarrow> recipe_value \<Rightarrow> recipe_value \<Rightarrow> recipe_value \<Rightarrow> recipe_value \<Rightarrow>
   recipe_value \<Rightarrow> recipe_value \<Rightarrow> recipe_value \<Rightarrow> recipe_value \<Rightarrow> recipe_value \<Rightarrow> recipe_value \<Rightarrow>
   recipe_value \<Rightarrow> recipe_record recipe_result"
where
  "recipe_access_scope workspace_id policy_identity principal_id agent_id credential_digest role operation
       allowed_relations allowed_columns allowed_functions allowed_extensions allowed_variables
       allowed_object_stores allowed_metadata row_policies execution_posture source_access source_file_ids
       authorized_ranges =
     bindE (try_for_each (\<lambda>v. expect_recipe v 7 0) [workspace_id, principal_id, agent_id]) (\<lambda>_.
     bindE (expect_recipe policy_identity 2 0) (\<lambda>_.
     bindE (expect_recipe credential_digest 8 0) (\<lambda>_.
     bindE (expect_recipe role 2 0) (\<lambda>_.
     bindE (expect_recipe operation 2 0) (\<lambda>_.
     bindE (try_for_each expect_utf8_set
       [allowed_relations, allowed_functions, allowed_extensions, allowed_variables, allowed_object_stores,
        allowed_metadata, row_policies, execution_posture]) (\<lambda>_.
     bindE (expect_utf8_to_utf8_set_map allowed_columns) (\<lambda>_.
     bindE (expect_recipe source_access 6 0) (\<lambda>_.
     bindE (expect_id_set source_file_ids) (\<lambda>_.
     bindE (expect_recipe authorized_ranges 10 0) (\<lambda>_.
     bindE (case authorized_ranges of
              RSet ranges \<Rightarrow> try_for_each expect_authorized_range ranges
            | _ \<Rightarrow> Inl (Err RecipeError)) (\<lambda>_.
     Inr \<lparr>recipe_domain_code = 22, recipe_fields =
       [recipe_field_new 1 NoRecipeNormalization workspace_id,
        recipe_field_new 2 NoRecipeNormalization policy_identity,
        recipe_field_new 3 NoRecipeNormalization principal_id,
        recipe_field_new 4 NoRecipeNormalization agent_id,
        recipe_field_new 5 NoRecipeNormalization credential_digest,
        recipe_field_new 6 RecipeAsciiLower role,
        recipe_field_new 7 RecipeAsciiLower operation,
        recipe_field_new 8 NoRecipeNormalization allowed_relations,
        recipe_field_new 9 NoRecipeNormalization allowed_columns,
        recipe_field_new 10 NoRecipeNormalization allowed_functions,
        recipe_field_new 11 NoRecipeNormalization allowed_extensions,
        recipe_field_new 12 NoRecipeNormalization allowed_variables,
        recipe_field_new 13 NoRecipeNormalization allowed_object_stores,
        recipe_field_new 14 NoRecipeNormalization allowed_metadata,
        recipe_field_new 15 NoRecipeNormalization row_policies,
        recipe_field_new 16 NoRecipeNormalization execution_posture,
        recipe_field_new 17 NoRecipeNormalization source_access,
        recipe_field_new 18 NoRecipeNormalization source_file_ids,
        recipe_field_new 19 NoRecipeNormalization authorized_ranges]\<rparr>)))))))))))"

definition recipe_result_artifact_v2 ::
  "recipe_value \<Rightarrow> recipe_value \<Rightarrow> recipe_value \<Rightarrow> recipe_value \<Rightarrow> recipe_value \<Rightarrow> recipe_value \<Rightarrow>
   recipe_value \<Rightarrow> recipe_record recipe_result"
where
  "recipe_result_artifact_v2 workspace_id owning_agent_id fabric_epoch_id snapshot_id
       canonical_response_checksum format_identity format_version =
     bindE (expect_recipe workspace_id 7 0) (\<lambda>_.
     bindE (expect_recipe owning_agent_id 2 0) (\<lambda>_.
     bindE (expect_recipe fabric_epoch_id 7 0) (\<lambda>_.
     bindE (expect_recipe snapshot_id 7 0) (\<lambda>_.
     bindE (expect_recipe canonical_response_checksum 8 0) (\<lambda>_.
     bindE (expect_recipe format_identity 2 0) (\<lambda>_.
     bindE (expect_recipe format_version 2 0) (\<lambda>_.
     Inr \<lparr>recipe_domain_code = 23, recipe_fields =
       [recipe_field_new 1 NoRecipeNormalization workspace_id,
        recipe_field_new 2 NoRecipeNormalization owning_agent_id,
        recipe_field_new 3 NoRecipeNormalization fabric_epoch_id,
        recipe_field_new 4 NoRecipeNormalization snapshot_id,
        recipe_field_new 5 NoRecipeNormalization canonical_response_checksum,
        recipe_field_new 6 RecipeAsciiLower format_identity,
        recipe_field_new 7 NoRecipeNormalization format_version]\<rparr>)))))))"


section \<open>Hash domains\<close>

datatype semantic_fingerprint_domain =
    UnframedId16 | CapabilityScope | FactEvidence | SourceObservation | GitTopology | GitIndex
  | GitStateVector | LocalQueryLimits | PythonLiteralTokenSpelling

fun fingerprint_domain_bytes :: "semantic_fingerprint_domain \<Rightarrow> u8 list" where
  "fingerprint_domain_bytes UnframedId16 = []"
| "fingerprint_domain_bytes CapabilityScope = ascii ''codefabric-capability-scope-v1'' @ [0]"
| "fingerprint_domain_bytes FactEvidence = ascii ''codefabric-fact-evidence-v1'' @ [0]"
| "fingerprint_domain_bytes SourceObservation = ascii ''codefabric-source-observation-v1'' @ [0]"
| "fingerprint_domain_bytes GitTopology = ascii ''codefabric.git.topology.v1'' @ [0]"
| "fingerprint_domain_bytes GitIndex = ascii ''codefabric.git.index.v1'' @ [0]"
| "fingerprint_domain_bytes GitStateVector = ascii ''codefabric.git.state-vector.v1'' @ [0]"
| "fingerprint_domain_bytes LocalQueryLimits = ascii ''codefabric.local-query-limits.v1''"
| "fingerprint_domain_bytes PythonLiteralTokenSpelling = ascii ''codefabric:python-literal-token-spelling:v1'' @ [0]"

datatype integrity_domain =
    ArrowBatch | QueryResultChecksumV1 | QueryResultChecksumV2 | InventoryFile | InventoryDirectory
  | ProviderTextImage | RuffFrontendProjection | TreeSitterRawSyntaxFacts

fun integrity_domain_bytes :: "integrity_domain \<Rightarrow> u8 list" where
  "integrity_domain_bytes ArrowBatch = ascii ''codefabric-arrow-batch-v1'' @ [0]"
| "integrity_domain_bytes QueryResultChecksumV1 = ascii ''codefabric.query-result-checksum.v1'' @ [0]"
| "integrity_domain_bytes QueryResultChecksumV2 = ascii ''codefabric.query-result-checksum.v2'' @ [0]"
| "integrity_domain_bytes InventoryFile = ascii ''codefabric.inventory.file.v1'' @ [0]"
| "integrity_domain_bytes InventoryDirectory = ascii ''codefabric.inventory.directory.v1'' @ [0]"
| "integrity_domain_bytes ProviderTextImage = ascii ''codefabric:provider-text-image:v1'' @ [0]"
| "integrity_domain_bytes RuffFrontendProjection = ascii ''codefabric:ruff-python-frontend-projection:v1'' @ [0]"
| "integrity_domain_bytes TreeSitterRawSyntaxFacts = ascii ''codefabric:tree-sitter-raw-syntax-facts:v1'' @ [0]"

datatype cache_key_domain = GitCandidateCachePayload

fun cache_key_domain_bytes :: "cache_key_domain \<Rightarrow> u8 list" where
  "cache_key_domain_bytes GitCandidateCachePayload = ascii ''codefabric.git.candidate-cache-payload.v1'' @ [0]"

datatype security_mac_domain = ResultLease | QueryResumeToken | QueryCancelToken | LocalCapabilityToken

fun security_mac_domain_bytes :: "security_mac_domain \<Rightarrow> u8 list" where
  "security_mac_domain_bytes ResultLease = ascii ''codefabric.result-lease.v1'' @ [0]"
| "security_mac_domain_bytes QueryResumeToken = ascii ''codefabric.query-result-resume-token.v1'' @ [0]"
| "security_mac_domain_bytes QueryCancelToken = ascii ''codefabric.query-cancel-token.v1'' @ [0]"
| "security_mac_domain_bytes LocalCapabilityToken = ascii ''codefabric.local-capability-token.v1'' @ [0]"


section \<open>Shapes are checked exactly\<close>

lemma expect_recipe_iff [simp]:
  "expect_recipe v 1 0 = Inr () \<longleftrightarrow> (\<exists>bs. v = RBytes bs)"
  "expect_recipe v 2 0 = Inr () \<longleftrightarrow> (\<exists>s. v = RUtf8 s)"
  "expect_recipe v 4 0 = Inr () \<longleftrightarrow> (\<exists>bs. v = RUnsigned bs)"
  "expect_recipe v 4 2 = Inr () \<longleftrightarrow> (\<exists>bs. v = RUnsigned bs \<and> length bs = 2)"
  "expect_recipe v 4 8 = Inr () \<longleftrightarrow> (\<exists>bs. v = RUnsigned bs \<and> length bs = 8)"
  "expect_recipe v 5 0 = Inr () \<longleftrightarrow> (\<exists>bs. v = RSigned bs)"
  "expect_recipe v 6 0 = Inr () \<longleftrightarrow> (\<exists>b. v = RBoolean b)"
  "expect_recipe v 7 0 = Inr () \<longleftrightarrow> (\<exists>i. v = RId i)"
  "expect_recipe v 8 0 = Inr () \<longleftrightarrow> (\<exists>d. v = RDigest d)"
  "expect_recipe v 9 0 = Inr () \<longleftrightarrow> (\<exists>vs. v = ROrderedList vs)"
  "expect_recipe v 10 0 = Inr () \<longleftrightarrow> (\<exists>vs. v = RSet vs)"
  "expect_recipe v 11 0 = Inr () \<longleftrightarrow> (\<exists>es. v = RMap es)"
  "expect_recipe v 12 0 = Inr () \<longleftrightarrow> (\<exists>n w. v = RTaggedUnion n w)"
  by (cases v; simp add: expect_recipe_def)+

lemma try_for_each_iff [simp]: "try_for_each f xs = Inr () \<longleftrightarrow> (\<forall>x \<in> set xs. f x = Inr ())"
  by (induction xs) auto

lemma members_ex: "(\<forall>x \<in> set xs. \<exists>y. x = f y) \<longleftrightarrow> (\<exists>ys. xs = map f ys)"
  by (simp add: ex_map_conv)

lemma expect_sets_iff [simp]:
  "expect_members vs 2 = Inr () \<longleftrightarrow> (\<exists>ss. vs = map RUtf8 ss)"
  "expect_members vs 7 = Inr () \<longleftrightarrow> (\<exists>ids. vs = map RId ids)"
  "expect_utf8_set v = Inr () \<longleftrightarrow> (\<exists>ss. v = RSet (map RUtf8 ss))"
  "expect_id_set v = Inr () \<longleftrightarrow> (\<exists>ids. v = RSet (map RId ids))"
  "expect_id_list v = Inr () \<longleftrightarrow> (\<exists>ids. v = ROrderedList (map RId ids))"
proof -
  show members: "expect_members vs 2 = Inr () \<longleftrightarrow> (\<exists>ss. vs = map RUtf8 ss)"
    "expect_members vs 7 = Inr () \<longleftrightarrow> (\<exists>ids. vs = map RId ids)" for vs
    by (simp_all add: expect_members_def members_ex)
  show "expect_utf8_set v = Inr () \<longleftrightarrow> (\<exists>ss. v = RSet (map RUtf8 ss))"
    "expect_id_set v = Inr () \<longleftrightarrow> (\<exists>ids. v = RSet (map RId ids))"
    by (cases v; auto simp: expect_utf8_set_def expect_id_set_def members)+
  show "expect_id_list v = Inr () \<longleftrightarrow> (\<exists>ids. v = ROrderedList (map RId ids))"
    by (cases v) (auto simp: expect_id_list_def members)
qed

section \<open>Hash domains are separated\<close>

definition separated_domains :: "u8 list list" where
  "separated_domains =
     map fingerprint_domain_bytes [CapabilityScope, FactEvidence, SourceObservation, GitTopology, GitIndex,
       GitStateVector, LocalQueryLimits, PythonLiteralTokenSpelling] @
     map integrity_domain_bytes [ArrowBatch, QueryResultChecksumV1, QueryResultChecksumV2, InventoryFile,
       InventoryDirectory, ProviderTextImage, RuffFrontendProjection, TreeSitterRawSyntaxFacts] @
     map cache_key_domain_bytes [GitCandidateCachePayload] @
     map security_mac_domain_bytes [ResultLease, QueryResumeToken, QueryCancelToken, LocalCapabilityToken]"

fun is_prefix :: "u8 list \<Rightarrow> u8 list \<Rightarrow> bool" where
  "is_prefix [] ys = True"
| "is_prefix (x # xs) [] = False"
| "is_prefix (x # xs) (y # ys) = (x = y \<and> is_prefix xs ys)"

lemma is_prefix_append: "xs @ a = ys @ b \<Longrightarrow> is_prefix xs ys \<or> is_prefix ys xs"
  by (induction xs ys rule: is_prefix.induct) auto

definition prefix_free :: "u8 list list \<Rightarrow> bool" where
  "prefix_free ds \<longleftrightarrow>
     list_all (\<lambda>m. list_all (\<lambda>n. m = n \<or> \<not> is_prefix (ds ! m) (ds ! n)) [0..<length ds]) [0..<length ds]"

lemma domains_prefix_free: "prefix_free separated_domains"
  by code_simp

text \<open>
  Hash domains are separated: what is hashed under one of the named domains is never what is
  hashed under another one, whatever follows the domain bytes.  Only the legacy domain without a
  separator is outside of this.
\<close>

theorem hash_domains_are_separated:
  assumes "m < length separated_domains" "n < length separated_domains"
    and "separated_domains ! m @ x = separated_domains ! n @ y"
  shows "m = n \<and> x = y"
proof -
  have free: "m = n \<or> \<not> is_prefix (separated_domains ! m) (separated_domains ! n)"
    if "m < length separated_domains" "n < length separated_domains" for m n
    using domains_prefix_free that by (auto simp: prefix_free_def list_all_iff)
  have "m = n"
    using is_prefix_append [OF assms(3)] free [OF assms(1,2)] free [OF assms(2,1)] by blast
  with assms(3) show ?thesis
    by simp
qed

theorem hash_domains_are_separated_witness:
  "separated_domains ! 1 @ [7] \<noteq> separated_domains ! 2 @ [7] \<and> 2 < length separated_domains"
  using hash_domains_are_separated [of 1 2 "[7]" "[7]"] by (auto simp: separated_domains_def)

end
