(* ===== verification/CanonicalJson.thy ===== *)
theory CanonicalJson
  imports Collections
begin

text \<open>
  JSON values as the sources build them for \<open>serde_json_canonicalizer\<close>, and what the sources rely on:
  RFC 8785 text determines the value up to the order of object members, for values whose numbers a
  double holds exactly.  The canonicalizer itself is third-party code and an argument of the
  definitions that call it.
\<close>

section \<open>Values\<close>

text \<open>An object keeps its members in the order in which the source writes them.\<close>

datatype json =
    JNull
  | JString str
  | JNumber int
  | JBool bool
  | JArray "json list"
  | JObject "(str \<times> json) list"

abbreviation json_text :: "string \<Rightarrow> json" where
  "json_text s \<equiv> JString (ascii s)"

definition json_texts :: "str list \<Rightarrow> json" where
  "json_texts ss = JArray (map JString ss)"

text \<open>The derived \<open>Serialize\<close> of a byte array and of an optional value.\<close>

definition json_bytes :: "u8 list \<Rightarrow> json" where
  "json_bytes bs = JArray (map (\<lambda>b. JNumber (uint b)) bs)"

definition json_option :: "('a \<Rightarrow> json) \<Rightarrow> 'a option \<Rightarrow> json" where
  "json_option f v = (case v of None \<Rightarrow> JNull | Some x \<Rightarrow> f x)"


section \<open>The canonicalizer\<close>

text \<open>Integers that a double holds exactly, and no member name twice.\<close>

fun exact_json :: "json \<Rightarrow> bool" where
  "exact_json (JNumber n) \<longleftrightarrow> \<bar>n\<bar> \<le> 2 ^ 53"
| "exact_json (JArray vs) \<longleftrightarrow> list_all exact_json vs"
| "exact_json (JObject es) \<longleftrightarrow> distinct (map fst es) \<and> list_all (\<lambda>(k, v). exact_json v) es"
| "exact_json v \<longleftrightarrow> True"

text \<open>A normal form of the order of members; the order of the names itself does not matter.\<close>

fun sorted_json :: "json \<Rightarrow> json" where
  "sorted_json (JArray vs) = JArray (map sorted_json vs)"
| "sorted_json (JObject es) = JObject (sort_key fst (map (\<lambda>(k, v). (k, sorted_json v)) es))"
| "sorted_json v = v"

type_synonym canonicalizer = "json \<Rightarrow> u8 list option"

definition jcs_contract :: "canonicalizer \<Rightarrow> bool" where
  "jcs_contract jcs \<longleftrightarrow>
     (\<forall>v w bytes. exact_json v \<longrightarrow> exact_json w \<longrightarrow> jcs v = Some bytes \<longrightarrow> jcs w = Some bytes \<longrightarrow>
        sorted_json v = sorted_json w)"

lemma jcs_contractD:
  "jcs_contract jcs \<Longrightarrow> exact_json v \<Longrightarrow> exact_json w \<Longrightarrow> jcs v = Some bytes \<Longrightarrow> jcs w = Some bytes \<Longrightarrow>
   sorted_json v = sorted_json w"
  unfolding jcs_contract_def by blast

lemma json_bytes_facts [simp]:
  "exact_json (json_bytes bs)" "sorted_json (json_bytes bs) = json_bytes bs"
  "json_bytes bs = json_bytes cs \<longleftrightarrow> bs = cs" "json_bytes bs \<noteq> JNull" "JNull \<noteq> json_bytes bs"
proof -
  have "\<bar>uint b\<bar> \<le> 2 ^ 53" for b :: u8
    using uint_lt2p [of b] by simp
  then show "exact_json (json_bytes bs)"
    by (simp add: json_bytes_def list_all_iff)
  have "inj (\<lambda>b :: u8. JNumber (uint b))"
    by (rule injI) (simp add: word_uint_eq_iff)
  then show "json_bytes bs = json_bytes cs \<longleftrightarrow> bs = cs"
    by (simp add: json_bytes_def inj_map_eq_map)
qed (simp_all add: json_bytes_def o_def)

text \<open>The members of two objects with the same distinct names are the same in the same order.\<close>

lemma sort_key_same_keys:
  fixes es fs :: "('k::linorder \<times> 'v) list"
  assumes "map fst es = map fst fs" "distinct (map fst es)" "sort_key fst es = sort_key fst fs"
  shows "es = fs"
proof -
  have "map_of es = map_of fs"
    using assms by (metis map_of_inject_set set_sort)
  then have "map (\<lambda>k. (k, the (map_of es k))) (map fst es) = map (\<lambda>k. (k, the (map_of fs k))) (map fst fs)"
    using assms(1) by simp
  then have "map (\<lambda>e. (fst e, the (map_of es (fst e)))) es = map (\<lambda>e. (fst e, the (map_of fs (fst e)))) fs"
    by (simp add: o_def)
  moreover have own: "map (\<lambda>e. (fst e, the (map_of gs (fst e)))) gs = gs" if "distinct (map fst gs)" for gs :: "('k \<times> 'v) list"
    by (rule map_idI) (use that in \<open>auto simp: map_of_eq_Some_iff\<close>)
  ultimately show ?thesis
    using own [of es] own [of fs] assms(1,2) by simp
qed

lemma sorted_object_inject:
  assumes "map fst es = map fst fs" "distinct (map fst es)" "sorted_json (JObject es) = sorted_json (JObject fs)"
  shows "map (\<lambda>e. sorted_json (snd e)) es = map (\<lambda>e. sorted_json (snd e)) fs"
proof -
  let ?s = "map (\<lambda>(k, v). (k, sorted_json v))"
  have keys: "map fst (?s gs) = map fst gs" for gs
    by (simp add: o_def case_prod_beta)
  have "?s es = ?s fs"
  proof (rule sort_key_same_keys)
    show "map fst (?s es) = map fst (?s fs)" "distinct (map fst (?s es))"
      unfolding keys by (rule assms)+
    show "sort_key fst (?s es) = sort_key fst (?s fs)"
      using assms(3) by (simp only: sorted_json.simps json.inject)
  qed
  then have "map snd (?s es) = map snd (?s fs)"
    by simp
  then show ?thesis
    by (simp add: o_def case_prod_beta)
qed


section \<open>A canonicalizer for examples\<close>

text \<open>A prefix code in place of the JSON text; it meets the contract.\<close>

definition string_code :: "str \<Rightarrow> u8 list" where
  "string_code s = concat (map (\<lambda>c. [1, c]) s) @ [0]"

fun json_code :: "json \<Rightarrow> u8 list" where
  "json_code JNull = [0]"
| "json_code (JString s) = 1 # string_code s"
| "json_code (JNumber n) = 2 # (if n < 0 then 1 else 0) # be_bytes 8 (nat \<bar>n\<bar>)"
| "json_code (JBool b) = [3, if b then 1 else 0]"
| "json_code (JArray vs) = 4 # concat (map (\<lambda>v. 1 # json_code v) vs) @ [0]"
| "json_code (JObject es) = 5 # concat (map (\<lambda>(k, v). 1 # string_code k @ json_code v) es) @ [0]"

definition example_jcs :: canonicalizer where
  "example_jcs v = Some (json_code (sorted_json v))"

lemma string_code_inject: "string_code s @ r = string_code t @ r' \<Longrightarrow> s = t \<and> r = r'"
proof (induction s arbitrary: t)
  case Nil
  then show ?case
    by (cases t) (simp_all add: string_code_def)
next
  case (Cons c s)
  then show ?case
    by (cases t) (simp_all add: string_code_def)
qed

lemma list_code_inject:
  assumes "concat (map (\<lambda>x. 1 # f x) xs) @ 0 # r = concat (map (\<lambda>x. 1 # f x) ys) @ 0 # (r' :: u8 list)"
    and "\<And>x y r r'. x \<in> set xs \<Longrightarrow> y \<in> set ys \<Longrightarrow> f x @ r = f y @ r' \<Longrightarrow> x = y \<and> r = r'"
  shows "xs = ys \<and> r = r'"
  using assms
proof (induction xs arbitrary: ys)
  case Nil
  then show ?case
    by (cases ys) simp_all
next
  case (Cons x xs)
  obtain y zs where ys: "ys = y # zs"
    using Cons.prems(1) by (cases ys) simp_all
  have step: "x = y \<and> concat (map (\<lambda>x. 1 # f x) xs) @ 0 # r = concat (map (\<lambda>x. 1 # f x) zs) @ 0 # r'"
    by (rule Cons.prems(2)) (use Cons.prems(1) ys in simp_all)
  have "xs = zs \<and> r = r'"
    by (rule Cons.IH [OF conjunct2 [OF step]]) (rule Cons.prems(2), simp_all add: ys)
  with step ys show ?case
    by simp
qed

lemma number_code_inject:
  assumes "\<bar>m\<bar> \<le> 2 ^ 53" "\<bar>n\<bar> \<le> 2 ^ 53" "json_code (JNumber m) @ r = json_code (JNumber n) @ r'"
  shows "m = n \<and> r = r'"
proof -
  have code: "be_bytes 8 (nat \<bar>m\<bar>) @ r = be_bytes 8 (nat \<bar>n\<bar>) @ r'" "m < 0 \<longleftrightarrow> n < 0"
    using assms(3) by (auto split: if_splits)
  then have "be_bytes 8 (nat \<bar>m\<bar>) = be_bytes 8 (nat \<bar>n\<bar>)" "r = r'"
    by (auto simp: append_eq_append_conv)
  moreover have "be_value (be_bytes 8 (nat \<bar>m\<bar>)) = nat \<bar>m\<bar>" "be_value (be_bytes 8 (nat \<bar>n\<bar>)) = nat \<bar>n\<bar>"
    using assms(1,2) by (auto simp: be_value_be_bytes intro!: mod_less)
  ultimately have "nat \<bar>m\<bar> = nat \<bar>n\<bar>" and r: "r = r'"
    by metis+
  then have "\<bar>m\<bar> = \<bar>n\<bar>"
    by simp
  then have "m = n"
    using code(2) by linarith
  with r show ?thesis
    by simp
qed

lemma json_code_inject:
  "exact_json v \<Longrightarrow> exact_json w \<Longrightarrow> json_code v @ r = json_code w @ r' \<Longrightarrow> v = w \<and> r = r'"
proof (induction v arbitrary: w r r')
  case JNull
  then show ?case
    by (cases w) simp_all
next
  case (JString s)
  then obtain t where "w = JString t"
    by (cases w) simp_all
  with JString string_code_inject [of s r t r'] show ?case
    by simp
next
  case (JNumber m)
  from JNumber.prems(3) obtain n where w: "w = JNumber n"
    by (cases w) simp_all
  have "m = n \<and> r = r'"
    by (rule number_code_inject) (use JNumber.prems w in \<open>simp_all only: exact_json.simps\<close>)
  with w show ?case
    by simp
next
  case (JBool b)
  then show ?case
    by (cases w) (auto split: if_splits)
next
  case (JArray vs)
  then obtain ws where w: "w = JArray ws"
    by (cases w) simp_all
  have "vs = ws \<and> r = r'"
  proof (rule list_code_inject)
    show "concat (map (\<lambda>v. 1 # json_code v) vs) @ 0 # r = concat (map (\<lambda>v. 1 # json_code v) ws) @ 0 # r'"
      using JArray.prems(3) w by simp
  next
    fix x y r r' assume "x \<in> set vs" "y \<in> set ws" "json_code x @ r = json_code y @ r'"
    then show "x = y \<and> r = r'"
      using JArray.prems(1,2) w by (intro JArray.IH) (simp_all add: list_all_iff)
  qed
  with w show ?case
    by simp
next
  case (JObject es)
  then obtain fs where w: "w = JObject fs"
    by (cases w) simp_all
  let ?f = "\<lambda>(k, v). string_code k @ json_code v"
  have split: "(\<lambda>(k, v). 1 # string_code k @ json_code v) = (\<lambda>e. 1 # ?f e)"
    by auto
  have "es = fs \<and> r = r'"
  proof (rule list_code_inject)
    show "concat (map (\<lambda>e. 1 # ?f e) es) @ 0 # r = concat (map (\<lambda>e. 1 # ?f e) fs) @ 0 # r'"
      using JObject.prems(3) w by (simp add: split)
  next
    fix x y r r' assume xy: "x \<in> set es" "y \<in> set fs" "?f x @ r = ?f y @ r'"
    obtain k v l u where kv: "x = (k, v)" "y = (l, u)"
      by (cases x, cases y)
    have kl: "k = l \<and> json_code v @ r = json_code u @ r'"
      by (rule string_code_inject) (use xy(3) kv in simp)
    moreover have "exact_json v" "exact_json u"
      using JObject.prems(1,2) w xy(1,2) kv by (auto simp: list_all_iff)
    ultimately have "v = u \<and> r = r'"
      using xy(1) kv by (intro JObject.IH [of "(k, v)" v]) simp_all
    with kl kv show "x = y \<and> r = r'"
      by simp
  qed
  with w show ?case
    by simp
qed

lemma distinct_map_sort: "distinct (map f (sort_key g xs)) \<longleftrightarrow> distinct (map f xs)"
  by (rule mset_eq_imp_distinct_iff) simp

lemma exact_sorted_json: "exact_json v \<Longrightarrow> exact_json (sorted_json v)"
proof (induction v)
  case (JObject es)
  have "map fst (map (\<lambda>(k, v). (k, sorted_json v)) es) = map fst es"
    by (simp add: o_def case_prod_beta)
  then have "distinct (map fst (sort_key fst (map (\<lambda>(k, v). (k, sorted_json v)) es)))"
    using JObject.prems by (simp only: distinct_map_sort exact_json.simps)
  with JObject show ?case
    by (fastforce simp: list_all_iff)
qed (auto simp: list_all_iff)

lemma example_jcs_contract: "jcs_contract example_jcs"
  unfolding jcs_contract_def
proof (intro allI impI)
  fix v w bytes assume vw: "exact_json v" "exact_json w" "example_jcs v = Some bytes" "example_jcs w = Some bytes"
  have "json_code (sorted_json v) @ [] = json_code (sorted_json w) @ []"
    using vw(3,4) unfolding example_jcs_def option.inject append_Nil2 by (rule trans [OF _ sym])
  then show "sorted_json v = sorted_json w"
    by (rule json_code_inject [OF exact_sorted_json [OF vw(1)] exact_sorted_json [OF vw(2)], THEN conjunct1])
qed

text \<open>The lengths of codes that occur in the examples.\<close>

lemma json_code_length:
  "length (json_code (JNumber n)) = 10" "length (json_code (json_bytes bs)) = 2 + 11 * length bs"
  "length (string_code s) = 2 * length s + 1"
proof -
  show number: "length (json_code (JNumber n)) = 10" for n
    by (simp only: json_code.simps list.size length_be_bytes)
  show "length (json_code (json_bytes bs)) = 2 + 11 * length bs"
    unfolding json_bytes_def
  proof (induction bs)
    case (Cons b bs)
    then show ?case
      using number [of "uint b"] by (simp del: json_code.simps(3))
  qed simp
  show "length (string_code s) = 2 * length s + 1"
    unfolding string_code_def by (induction s) simp_all
qed

lemma sum_list_sort: "sum_list (map h (sort_key f xs)) = (sum_list (map h xs) :: nat)"
  by (metis mset_map mset_sort sum_mset_sum_list)

lemma object_code_length:
  "length (json_code (sorted_json (JObject es))) =
     2 + sum_list (map (\<lambda>e. 1 + length (string_code (fst e)) + length (json_code (sorted_json (snd e)))) es)"
proof -
  have "length (json_code (JObject (sort_key fst fs))) =
      2 + sum_list (map (\<lambda>e. 1 + length (string_code (fst e)) + length (json_code (snd e))) fs)" for fs
    by (simp add: length_concat o_def case_prod_beta sum_list_sort del: json_code.simps(3))
  then show ?thesis
    by (simp add: o_def case_prod_beta)
qed

end
