(* ===== verification/Identity.thy ===== *)
theory Identity
  imports CbefCodec PublicId Recipes CanonicalJson
begin

text \<open>
  Derived identities of \<open>identity.rs\<close>: the hash of a canonical record and its 16-byte prefix, the
  registration and semantic identities, the collision registry, type terms and the type interner.  The
  hash function, the JSON canonicalizer and base64 are arguments of the model.
\<close>

section \<open>Derivation\<close>

type_synonym hash = "u8 list \<Rightarrow> b32"

record derived_identity =
  derived_id :: b16
  full_digest :: b32
  preimage :: "u8 list"

definition digest_prefix :: "b32 \<Rightarrow> b16" where
  "digest_prefix d = of_nat (be_value (take 16 (b32_bytes d)))"

definition derive_identity :: "unicode \<Rightarrow> hash \<Rightarrow> cbef_record \<Rightarrow> (identity_error, derived_identity) result" where
  "derive_identity u hash r =
     bindE (encode_cbef_record u r) (\<lambda>bytes.
     Inr \<lparr>derived_id = digest_prefix (hash bytes), full_digest = hash bytes, preimage = bytes\<rparr>)"

text \<open>The incremental hasher digests the concatenation of what it is given.\<close>

definition semantic_fingerprint :: "semantic_fingerprint_domain \<Rightarrow> u8 list" where
  "semantic_fingerprint d = fingerprint_domain_bytes d"

definition fingerprint_update :: "u8 list \<Rightarrow> u8 list \<Rightarrow> u8 list" where
  "fingerprint_update builder bytes = builder @ bytes"

definition fingerprint_finalize :: "hash \<Rightarrow> u8 list \<Rightarrow> b32" where
  "fingerprint_finalize hash builder = hash builder"

definition fingerprint_finalize_id16 :: "hash \<Rightarrow> u8 list \<Rightarrow> b16" where
  "fingerprint_finalize_id16 hash builder = digest_prefix (fingerprint_finalize hash builder)"

definition capability_scope_fingerprint :: "hash \<Rightarrow> b16 \<Rightarrow> b16 \<Rightarrow> b16 \<Rightarrow> 64 word \<Rightarrow> str \<Rightarrow> b32" where
  "capability_scope_fingerprint hash workspace_id analysis_context_id owner_id source_generation capability_code =
     fingerprint_finalize hash
       (fold (\<lambda>bytes builder. fingerprint_update builder bytes)
         [b16_bytes workspace_id, b16_bytes analysis_context_id, b16_bytes owner_id,
          to_be_bytes source_generation, capability_code]
         (semantic_fingerprint CapabilityScope))"

definition fact_evidence_id :: "hash \<Rightarrow> b16 \<Rightarrow> b16 \<Rightarrow> b16 \<Rightarrow> b16" where
  "fact_evidence_id hash provider_run_id observation_id fact_id =
     fingerprint_finalize_id16 hash
       (fold (\<lambda>bytes builder. fingerprint_update builder bytes)
         [b16_bytes provider_run_id, b16_bytes observation_id, b16_bytes fact_id]
         (semantic_fingerprint FactEvidence))"

definition source_observation_id :: "hash \<Rightarrow> b16 \<Rightarrow> u8 \<Rightarrow> u64 \<Rightarrow> b16" where
  "source_observation_id hash provider_run_id family ordinal =
     fingerprint_finalize_id16 hash
       (fold (\<lambda>bytes builder. fingerprint_update builder bytes)
         [b16_bytes provider_run_id, [family], to_be_bytes ordinal]
         (semantic_fingerprint SourceObservation))"

definition unframed_semantic_id :: "hash \<Rightarrow> u8 list \<Rightarrow> b16" where
  "unframed_semantic_id hash bytes =
     fingerprint_finalize_id16 hash (fingerprint_update (semantic_fingerprint UnframedId16) bytes)"


section \<open>Registration identities\<close>

definition workspace_registration_identity ::
  "unicode \<Rightarrow> hash \<Rightarrow> b16 \<Rightarrow> str \<Rightarrow> (identity_error, derived_identity) result"
where
  "workspace_registration_identity u hash registration_nonce workspace_kind =
     derive_identity u hash \<lparr>domain = Workspace, record_fields =
       [\<lparr>tag = 1, field_value = Bytes (b16_bytes registration_nonce)\<rparr>,
        \<lparr>tag = 2, field_value = Utf8 workspace_kind AsciiLower\<rparr>]\<rparr>"

definition repository_registration_identity ::
  "unicode \<Rightarrow> hash \<Rightarrow> b16 \<Rightarrow> (identity_error, derived_identity) result"
where
  "repository_registration_identity u hash registration_nonce =
     derive_identity u hash \<lparr>domain = Repository, record_fields =
       [\<lparr>tag = 1, field_value = Bytes (b16_bytes registration_nonce)\<rparr>]\<rparr>"

definition worktree_registration_identity ::
  "unicode \<Rightarrow> hash \<Rightarrow> b16 \<Rightarrow> b16 \<Rightarrow> str \<Rightarrow> (identity_error, derived_identity) result"
where
  "worktree_registration_identity u hash repository_id registration_nonce worktree_kind =
     derive_identity u hash \<lparr>domain = Worktree, record_fields =
       [\<lparr>tag = 1, field_value = Id repository_id\<rparr>,
        \<lparr>tag = 2, field_value = Bytes (b16_bytes registration_nonce)\<rparr>,
        \<lparr>tag = 3, field_value = Utf8 worktree_kind AsciiLower\<rparr>]\<rparr>"

definition context_set_identity ::
  "unicode \<Rightarrow> hash \<Rightarrow> b16 \<Rightarrow> b16 list \<Rightarrow> (identity_error, derived_identity) result"
where
  "context_set_identity u hash workspace_id context_ids =
     derive_identity u hash \<lparr>domain = ContextSet, record_fields =
       [\<lparr>tag = 1, field_value = Id workspace_id\<rparr>,
        \<lparr>tag = 2, field_value = SetOf (map Id context_ids)\<rparr>]\<rparr>"

definition source_file_identity ::
  "unicode \<Rightarrow> hash \<Rightarrow> workspace_path \<Rightarrow> (identity_error, derived_identity) result"
where
  "source_file_identity u hash path =
     derive_identity u hash \<lparr>domain = SourceFile, record_fields =
       [\<lparr>tag = 1, field_value = Id (path_workspace path)\<rparr>,
        \<lparr>tag = 2, field_value = Id SOURCE_CONTEXT_ID\<rparr>,
        \<lparr>tag = 3, field_value = Bytes (comparison_key_bytes path)\<rparr>]\<rparr>"

record root_authorization_input =
  auth_workspace_id :: b16
  root_path_bytes :: "u8 list"
  root_directory_file_identity :: "u8 list"
  auth_platform_code :: u8
  auth_case_sensitivity_mode :: str
  authorization_revision :: u64
  allowed_source_disclosure_rules :: "str list"

definition root_authorization_record :: "root_authorization_input \<Rightarrow> cbef_record" where
  "root_authorization_record i =
     \<lparr>domain = RootAuthorization, record_fields =
       [\<lparr>tag = 1, field_value = Id (auth_workspace_id i)\<rparr>,
        \<lparr>tag = 2, field_value = RawPath (auth_platform_code i) (root_path_bytes i)\<rparr>,
        \<lparr>tag = 3, field_value = Bytes (root_directory_file_identity i)\<rparr>,
        \<lparr>tag = 4, field_value = Unsigned [auth_platform_code i]\<rparr>,
        \<lparr>tag = 5, field_value = Utf8 (auth_case_sensitivity_mode i) AsciiLower\<rparr>,
        \<lparr>tag = 6, field_value = Unsigned (to_be_bytes (authorization_revision i))\<rparr>,
        \<lparr>tag = 7, field_value = SetOf (map (\<lambda>rule. Utf8 rule AsciiLower) (allowed_source_disclosure_rules i))\<rparr>]\<rparr>"

definition root_authorization_fingerprint ::
  "unicode \<Rightarrow> hash \<Rightarrow> root_authorization_input \<Rightarrow> (identity_error, b32) result"
where
  "root_authorization_fingerprint u hash i =
     bindE (derive_identity u hash (root_authorization_record i)) (\<lambda>identity. Inr (full_digest identity))"


section \<open>Recipe identities\<close>

text \<open>The conversion of a recipe value has no failing branch.  Normalization stops at a tagged union.\<close>

fun string_normalization_of :: "recipe_normalization \<Rightarrow> string_normalization" where
  "string_normalization_of NoRecipeNormalization = NoNormalization"
| "string_normalization_of RecipeAsciiLower = AsciiLower"

fun recipe_value_cbef :: "recipe_value \<Rightarrow> recipe_normalization \<Rightarrow> cbef_value" where
  "recipe_value_cbef (RBytes bs) n = Bytes bs"
| "recipe_value_cbef (RUtf8 s) n = Utf8 s (string_normalization_of n)"
| "recipe_value_cbef (RUnsigned bs) n = Unsigned bs"
| "recipe_value_cbef (RSigned bs) n = Signed bs"
| "recipe_value_cbef (RBoolean b) n = Boolean b"
| "recipe_value_cbef (RId i) n = Id i"
| "recipe_value_cbef (RDigest d) n = Digest d"
| "recipe_value_cbef (ROrderedList vs) n = OrderedList (map (\<lambda>v. recipe_value_cbef v n) vs)"
| "recipe_value_cbef (RSet vs) n = SetOf (map (\<lambda>v. recipe_value_cbef v n) vs)"
| "recipe_value_cbef (RMap es) n = MapOf (map (\<lambda>(k, v). (recipe_value_cbef k n, recipe_value_cbef v n)) es)"
| "recipe_value_cbef (RTaggedUnion variant v) n = TaggedUnion variant (recipe_value_cbef v NoRecipeNormalization)"

definition recipe_record_cbef :: "recipe_record \<Rightarrow> (identity_error, cbef_record) result" where
  "recipe_record_cbef r =
     bindE (domain_from_code (recipe_domain_code r)) (\<lambda>d.
     Inr \<lparr>domain = d, record_fields =
       map (\<lambda>f. \<lparr>tag = recipe_tag f, field_value = recipe_value_cbef (recipe_field_value f) (recipe_normalization f)\<rparr>)
         (recipe_fields r)\<rparr>)"

definition derive_recipe_identity ::
  "unicode \<Rightarrow> hash \<Rightarrow> recipe_record \<Rightarrow> (identity_error, derived_identity) result"
where
  "derive_recipe_identity u hash r = bindE (recipe_record_cbef r) (derive_identity u hash)"

definition semantic_owner_identity ::
  "unicode \<Rightarrow> hash \<Rightarrow> b16 \<Rightarrow> b16 \<Rightarrow> str \<Rightarrow> u8 list \<Rightarrow> (identity_error, derived_identity) result"
where
  "semantic_owner_identity u hash workspace_id analysis_context_id owner_kind semantic_key =
     bindE (map_err (\<lambda>_. Scalar)
       (recipe_owner (RId workspace_id) (RId analysis_context_id) (RUtf8 owner_kind) (RBytes semantic_key)))
       (derive_recipe_identity u hash)"

definition semantic_entity_identity ::
  "unicode \<Rightarrow> hash \<Rightarrow> b16 \<Rightarrow> b16 \<Rightarrow> u16 \<Rightarrow> b16 \<Rightarrow> u8 list \<Rightarrow> (identity_error, derived_identity) result"
where
  "semantic_entity_identity u hash workspace_id analysis_context_id kind_code owner_id semantic_key =
     bindE (ensure (\<not> kind_code = 0) Scalar) (\<lambda>_.
     bindE (map_err (\<lambda>_. Scalar)
       (recipe_entity (RId workspace_id) (RId analysis_context_id) (RUnsigned (put_u16 kind_code)) (RId owner_id)
          (RBytes semantic_key)))
       (derive_recipe_identity u hash))"

definition text_property_fact_identity ::
  "unicode \<Rightarrow> hash \<Rightarrow> b16 \<Rightarrow> b16 \<Rightarrow> u16 \<Rightarrow> b16 \<Rightarrow> str \<Rightarrow> (identity_error, derived_identity) result"
where
  "text_property_fact_identity u hash workspace_id analysis_context_id property_kind_code subject_entity_id text =
     bindE (ensure (\<not> property_kind_code = 0) Scalar) (\<lambda>_.
     bindE (map_err (\<lambda>_. Scalar)
       (recipe_property_fact (RId workspace_id) (RId analysis_context_id) (RUnsigned (put_u16 property_kind_code))
          (RId subject_entity_id) (RTaggedUnion 50 (RUtf8 (nfc u text)))))
       (derive_recipe_identity u hash))"

record source_occurrence_identity_input =
  occ_workspace_id :: b16
  occ_file_id :: b16
  occ_source_digest :: b32
  occ_start_byte :: u64
  occ_end_byte :: u64
  occ_owner_id :: b16
  occ_entity_kind_code :: u16
  occ_occurrence_family_code :: u16
  occ_normalized_kind_code :: "32 word"
  occ_parent_id :: "b16 option"
  occ_role_code :: "u16 option"
  occ_ordinal :: "32 word"

record occurrence_key =
  key_schema_version :: u8
  key_file_id :: b16
  key_source_digest :: b32
  key_start_byte :: u64
  key_end_byte :: u64
  key_occurrence_family_code :: u16
  key_normalized_kind_code :: "32 word"
  key_parent_id :: "b16 option"
  key_role_code :: "u16 option"
  key_ordinal :: "32 word"

definition occurrence_key_of :: "source_occurrence_identity_input \<Rightarrow> occurrence_key" where
  "occurrence_key_of i =
     \<lparr>key_schema_version = 1, key_file_id = occ_file_id i, key_source_digest = occ_source_digest i,
      key_start_byte = occ_start_byte i, key_end_byte = occ_end_byte i,
      key_occurrence_family_code = occ_occurrence_family_code i,
      key_normalized_kind_code = occ_normalized_kind_code i, key_parent_id = occ_parent_id i,
      key_role_code = occ_role_code i, key_ordinal = occ_ordinal i\<rparr>"

text \<open>The derived \<open>Serialize\<close> of the key, member by member.\<close>

definition occurrence_key_json :: "occurrence_key \<Rightarrow> json" where
  "occurrence_key_json k = JObject
     [(ascii ''schema_version'', JNumber (uint (key_schema_version k))),
      (ascii ''file_id'', json_bytes (b16_bytes (key_file_id k))),
      (ascii ''source_digest'', json_bytes (b32_bytes (key_source_digest k))),
      (ascii ''start_byte'', JNumber (uint (key_start_byte k))),
      (ascii ''end_byte'', JNumber (uint (key_end_byte k))),
      (ascii ''occurrence_family_code'', JNumber (uint (key_occurrence_family_code k))),
      (ascii ''normalized_kind_code'', JNumber (uint (key_normalized_kind_code k))),
      (ascii ''parent_id'', json_option (\<lambda>p. json_bytes (b16_bytes p)) (key_parent_id k)),
      (ascii ''role_code'', json_option (\<lambda>c. JNumber (uint c)) (key_role_code k)),
      (ascii ''ordinal'', JNumber (uint (key_ordinal k)))]"

definition source_occurrence_identity ::
  "unicode \<Rightarrow> hash \<Rightarrow> canonicalizer \<Rightarrow> source_occurrence_identity_input \<Rightarrow> (identity_error, derived_identity) result"
where
  "source_occurrence_identity u hash jcs i =
     bindE (ensure (\<not> occ_start_byte i > occ_end_byte i) Scalar) (\<lambda>_.
     bindE (ok_or (jcs (occurrence_key_json (occurrence_key_of i))) Scalar) (\<lambda>semantic_key.
     bindE (map_err (\<lambda>_. Scalar)
       (recipe_entity (RId (occ_workspace_id i)) (RId SOURCE_CONTEXT_ID) (RUnsigned (put_u16 (occ_entity_kind_code i)))
          (RId (occ_owner_id i)) (RBytes semantic_key)))
       (derive_recipe_identity u hash)))"

record source_relation_identity_input =
  rel_workspace_id :: b16
  rel_owner_id :: b16
  rel_relation_kind_code :: "32 word"
  rel_source_id :: b16
  rel_target_id :: b16
  rel_ordinal :: "32 word option"
  rel_role_code :: "u16 option"

record relation_metadata =
  meta_schema_version :: u8
  meta_owner_id :: b16
  meta_ordinal :: "32 word option"
  meta_role_code :: "u16 option"

definition relation_metadata_of :: "source_relation_identity_input \<Rightarrow> relation_metadata" where
  "relation_metadata_of i =
     \<lparr>meta_schema_version = 1, meta_owner_id = rel_owner_id i, meta_ordinal = rel_ordinal i,
      meta_role_code = rel_role_code i\<rparr>"

definition relation_metadata_json :: "relation_metadata \<Rightarrow> json" where
  "relation_metadata_json m = JObject
     [(ascii ''schema_version'', JNumber (uint (meta_schema_version m))),
      (ascii ''owner_id'', json_bytes (b16_bytes (meta_owner_id m))),
      (ascii ''ordinal'', json_option (\<lambda>n. JNumber (uint n)) (meta_ordinal m)),
      (ascii ''role_code'', json_option (\<lambda>c. JNumber (uint c)) (meta_role_code m))]"

text \<open>A relation kind is a signed 32-bit code; the identity holds it as an unsigned 16-bit one.\<close>

definition u16_try_from_i32 :: "32 word \<Rightarrow> u16 option" where
  "u16_try_from_i32 w = (if 0 \<le> sint w \<and> sint w \<le> 65535 then Some (ucast w) else None)"

definition source_relation_identity ::
  "unicode \<Rightarrow> hash \<Rightarrow> canonicalizer \<Rightarrow> source_relation_identity_input \<Rightarrow> (identity_error, derived_identity) result"
where
  "source_relation_identity u hash jcs i =
     bindE (ok_or (u16_try_from_i32 (rel_relation_kind_code i)) Scalar) (\<lambda>relation_kind_code.
     bindE (ok_or (jcs (relation_metadata_json (relation_metadata_of i))) Scalar) (\<lambda>role.
     bindE (map_err (\<lambda>_. Scalar)
       (recipe_relation_fact (RId (rel_workspace_id i)) (RId SOURCE_CONTEXT_ID)
          (RUnsigned (put_u16 relation_kind_code)) (RId (rel_source_id i)) (RId (rel_target_id i))
          (RTaggedUnion 1 (RUtf8 role))))
       (derive_recipe_identity u hash)))"


section \<open>Collision registry\<close>

type_synonym identity_registry = "(b16, b32 \<times> u8 list) btree_map"

definition register :: "identity_registry \<Rightarrow> derived_identity \<Rightarrow> (identity_error, identity_registry) result" where
  "register records i =
     (case btree_get records (derived_id i) of
        Some (digest, bytes) \<Rightarrow>
          if digest \<noteq> full_digest i \<or> bytes \<noteq> preimage i then
            Inl (Err (IdCollision (lower_hex (b16_bytes (derived_id i)))))
          else Inr records
      | None \<Rightarrow> Inr (btree_insert (derived_id i) (full_digest i, preimage i) records))"


section \<open>Type terms\<close>

datatype type_ctor =
    UnknownType | ErrorType | AnyDynamic | NeverBottom | NullNone | Primitive | Nominal | Alias | Literal
  | Union | Intersection | Tuple | Callable | TypeObject | ClassObject | Generic | TypeVariable
  | AssociatedType | Projection | Reference | RawPointer | Array | Slice | Mapping | Sequence | Structural
  | FunctionDefinition | FunctionPointer | Closure | Coroutine | DynTrait | ImplTrait | ConstArgument
  | RecursiveBinder | BoundVariable

definition type_ctors :: "type_ctor list" where
  "type_ctors =
     [UnknownType, ErrorType, AnyDynamic, NeverBottom, NullNone, Primitive, Nominal, Alias, Literal,
      Union, Intersection, Tuple, Callable, TypeObject, ClassObject, Generic, TypeVariable,
      AssociatedType, Projection, Reference, RawPointer, Array, Slice, Mapping, Sequence, Structural,
      FunctionDefinition, FunctionPointer, Closure, Coroutine, DynTrait, ImplTrait, ConstArgument,
      RecursiveBinder, BoundVariable]"

definition constructor_code :: "type_ctor \<Rightarrow> nat" where
  "constructor_code c = length (takeWhile (\<lambda>d. d \<noteq> c) type_ctors) + 1"

record type_term =
  constructor :: type_ctor
  term_fields :: "cbef_field list"

fun member_set :: "cbef_value \<Rightarrow> cbef_value" where
  "member_set (OrderedList vs) = SetOf vs"
| "member_set v = v"

definition canonical_bytes :: "unicode \<Rightarrow> type_term \<Rightarrow> (identity_error, u8 list) result" where
  "canonical_bytes u t =
     (let fs = (if constructor t \<in> {Union, Intersection}
                then map (\<lambda>f. f\<lparr>field_value := member_set (field_value f)\<rparr>) (term_fields t)
                else term_fields t)
      in bindE (encode_cbef_record u \<lparr>domain = TypeDomain, record_fields = fs\<rparr>) (\<lambda>encoded.
         Inr ([0x01] @ put_u16 (of_nat (constructor_code (constructor t))) @ encoded)))"

type_synonym type_interner = "(b16, u8 list) btree_map"

definition type_record :: "b16 \<Rightarrow> b16 \<Rightarrow> u8 list \<Rightarrow> cbef_record" where
  "type_record workspace_id context_id shape =
     \<lparr>domain = TypeDomain, record_fields =
       [\<lparr>tag = 1, field_value = Id workspace_id\<rparr>,
        \<lparr>tag = 2, field_value = Id context_id\<rparr>,
        \<lparr>tag = 3, field_value = Unsigned [0, 1]\<rparr>,
        \<lparr>tag = 4, field_value = Bytes shape\<rparr>]\<rparr>"

definition intern_canonical ::
  "unicode \<Rightarrow> hash \<Rightarrow> type_interner \<Rightarrow> b16 \<Rightarrow> b16 \<Rightarrow> u8 list \<Rightarrow> (identity_error, b16 \<times> type_interner) result"
where
  "intern_canonical u hash by_id workspace_id context_id shape =
     bindE (derive_identity u hash (type_record workspace_id context_id shape)) (\<lambda>identity.
     case btree_get by_id (derived_id identity) of
       Some existing \<Rightarrow>
         if existing \<noteq> shape then Inl (Err (IdCollision (lower_hex (b16_bytes (derived_id identity)))))
         else Inr (derived_id identity, by_id)
     | None \<Rightarrow> Inr (derived_id identity, btree_insert (derived_id identity) shape by_id))"

definition intern ::
  "unicode \<Rightarrow> hash \<Rightarrow> type_interner \<Rightarrow> b16 \<Rightarrow> b16 \<Rightarrow> type_term \<Rightarrow> (identity_error, b16 \<times> type_interner) result"
where
  "intern u hash by_id workspace_id context_id t =
     bindE (canonical_bytes u t) (intern_canonical u hash by_id workspace_id context_id)"

record interned_type =
  type_id :: b16
  type_kind_code :: nat
  canonical_key :: str

definition intern_type ::
  "unicode \<Rightarrow> hash \<Rightarrow> (u8 list \<Rightarrow> str) \<Rightarrow> type_interner \<Rightarrow> b16 \<Rightarrow> b16 \<Rightarrow> type_term \<Rightarrow>
   (identity_error, interned_type \<times> type_interner) result"
where
  "intern_type u hash base64url by_id workspace_id context_id t =
     bindE (canonical_bytes u t) (\<lambda>shape.
     bindE (intern_canonical u hash by_id workspace_id context_id shape) (\<lambda>(i, by_id').
     Inr (\<lparr>type_id = i, type_kind_code = constructor_code (constructor t),
            canonical_key = ascii ''cbef-type-v1:'' @ base64url shape\<rparr>, by_id')))"

datatype 'e type_adapter_error = AdapterFailure 'e | IdentityFailure identity_error

definition intern_observation ::
  "unicode \<Rightarrow> hash \<Rightarrow> (u8 list \<Rightarrow> str) \<Rightarrow> type_interner \<Rightarrow> b16 \<Rightarrow> b16 \<Rightarrow> ('o \<Rightarrow> ('e, type_term) result) \<Rightarrow> 'o \<Rightarrow>
   ('e type_adapter_error, interned_type \<times> type_interner) result"
where
  "intern_observation u hash base64url by_id workspace_id context_id adapter observation =
     bindE (map_err AdapterFailure (adapter observation)) (\<lambda>t.
     map_err IdentityFailure (intern_type u hash base64url by_id workspace_id context_id t))"



section \<open>What an identity determines\<close>

lemma derive_identity_eq:
  "derive_identity u hash r = Inr i \<longleftrightarrow>
     (\<exists>bytes. encode_cbef_record u r = Inr bytes \<and>
        i = \<lparr>derived_id = digest_prefix (hash bytes), full_digest = hash bytes, preimage = bytes\<rparr>)"
  by (auto simp: derive_identity_def)

lemma derived_preimage: "derive_identity u hash r = Inr i \<Longrightarrow> encode_cbef_record u r = Inr (preimage i)"
  by (auto simp: derive_identity_eq)

lemma identity_of_preimage:
  "derive_identity u hash r = Inr i \<Longrightarrow> derive_identity u hash s = Inr j \<Longrightarrow> preimage i = preimage j \<longleftrightarrow> i = j"
  by (auto simp: derive_identity_eq)

text \<open>Two records have the same identity exactly if their canonical forms agree.\<close>

lemma identity_iff_canonical:
  assumes "unicode_contract u" "record_strings_ok r" "record_strings_ok s"
    and "derive_identity u hash r = Inr i" "derive_identity u hash s = Inr j"
  shows "i = j \<longleftrightarrow> canonical_record u r = canonical_record u s"
proof -
  note r = derived_preimage [OF assms(4)] and s = derived_preimage [OF assms(5)]
  have "preimage i = preimage j \<longleftrightarrow> canonical_record u r = canonical_record u s"
    using encoded_record_decodes [OF assms(1,2) r] encoded_record_decodes [OF assms(1,3) s] by auto
  then show ?thesis
    using identity_of_preimage [OF assms(4,5)] by simp
qed

text \<open>
  A 16-byte identity stands for its record only as far as the truncated hash tells the hashed bytes
  apart: that is the assumption on BLAKE3 under which two identities can be compared.
\<close>

definition collision_free :: "hash \<Rightarrow> u8 list set \<Rightarrow> bool" where
  "collision_free hash ps \<longleftrightarrow> inj_on (\<lambda>p. digest_prefix (hash p)) ps"

lemma id_iff_identity:
  assumes "derive_identity u hash r = Inr i" "derive_identity u hash s = Inr j"
    and "collision_free hash {preimage i, preimage j}"
  shows "derived_id i = derived_id j \<longleftrightarrow> i = j"
  using assms by (auto simp: derive_identity_eq collision_free_def inj_on_def)

lemma id_iff_canonical:
  assumes "unicode_contract u" "record_strings_ok r" "record_strings_ok s"
    and "derive_identity u hash r = Inr i" "derive_identity u hash s = Inr j" "collision_free hash {preimage i, preimage j}"
  shows "derived_id i = derived_id j \<longleftrightarrow> canonical_record u r = canonical_record u s"
  using id_iff_identity [OF assms(4-6)] identity_iff_canonical [OF assms(1-5)] by simp

lemma derive_with_hash:
  "derive_identity u hash r = Inr i \<Longrightarrow> \<exists>j. derive_identity u hash' r = Inr j \<and> preimage j = preimage i"
  by (auto simp: derive_identity_eq)

text \<open>A hash that tells one string of bytes from all others.\<close>

definition marking_hash :: "u8 list \<Rightarrow> hash" where
  "marking_hash p bs = (if bs = p then 2 ^ 128 else 0)"

lemma be_bytes_split: "be_bytes (m + n) v = be_bytes m (v div 256 ^ n) @ be_bytes n v"
proof (induction n arbitrary: v)
  case (Suc n)
  then show ?case
    by (simp add: div_mult2_eq)
qed simp

lemma digest_prefix_eq: "digest_prefix d = of_nat (unat d div 256 ^ 16)"
proof -
  have "take 16 (b32_bytes d) = be_bytes 16 (unat d div 256 ^ 16)"
    using be_bytes_split [of 16 16 "unat d"] by (simp add: b32_bytes_def)
  moreover have "unat d div 256 ^ 16 < 256 ^ 16"
    using unat_b32_less [of d] by (simp add: less_mult_imp_div_less)
  ultimately show ?thesis
    by (simp add: digest_prefix_def be_value_be_bytes)
qed

lemma marking_hash_collision_free [simp]: "collision_free (marking_hash p) {p, q}" "collision_free (marking_hash p) {q, p}"
proof -
  have "unat (2 ^ 128 :: b32) = 2 ^ 128"
    by simp
  then have "digest_prefix (2 ^ 128) \<noteq> digest_prefix 0"
    by (simp add: digest_prefix_eq)
  then show "collision_free (marking_hash p) {p, q}" "collision_free (marking_hash p) {q, p}"
    by (auto simp: collision_free_def inj_on_def marking_hash_def)
qed

lemma sort_remdups_adj_set:
  fixes xs ys :: "'a::linorder list"
  shows "set xs = set ys \<Longrightarrow> remdups_adj (sort xs) = remdups_adj (sort ys)"
proof -
  have "remdups_adj (sort zs) = sorted_list_of_set (set zs)" for zs :: "'a list"
  proof -
    have strict: "sorted_wrt (<) (remdups_adj (sort zs))"
      by (intro sorted_remdups_adj_strict) simp
    then show ?thesis
      by (intro sorted_distinct_set_unique [of "remdups_adj (sort zs)"]) (auto simp: strict_sorted_iff)
  qed
  then show "set xs = set ys \<Longrightarrow> remdups_adj (sort xs) = remdups_adj (sort ys)"
    by simp
qed

lemma sort_key_remdups_adj_set:
  assumes inj: "inj_on k (set xs \<union> set ys)" and eq: "set xs = set ys"
  shows "remdups_adj (sort_key k xs) = remdups_adj (sort_key k ys)"
proof -
  have mapped: "map k (remdups_adj (sort_key k zs)) = remdups_adj (sort (map k zs))" if "inj_on k (set zs)" for zs
  proof -
    have "map k (sort_key k zs) = sort (map k zs)"
      by (rule sort_key_map [of "\<lambda>x. x" k zs, simplified, symmetric])
    with that show ?thesis
      by (subst remdups_adj_map_inj_on [symmetric]) simp_all
  qed
  have "map k (remdups_adj (sort_key k xs)) = map k (remdups_adj (sort_key k ys))"
    using inj eq sort_remdups_adj_set [of "map k xs" "map k ys"] by (simp add: mapped)
  with inj eq show ?thesis
    by (subst (asm) inj_on_map_eq_map) simp_all
qed

lemma canonical_set_iff:
  assumes "inj_on (typed_key u) (canonical u ` (set vs \<union> set ws))"
  shows "canonical u (SetOf vs) = canonical u (SetOf ws) \<longleftrightarrow> canonical u ` set vs = canonical u ` set ws"
proof
  assume "canonical u (SetOf vs) = canonical u (SetOf ws)"
  then have "set (remdups_adj (sort_key (typed_key u) (map (canonical u) vs))) =
      set (remdups_adj (sort_key (typed_key u) (map (canonical u) ws)))"
    by simp
  then show "canonical u ` set vs = canonical u ` set ws"
    by simp
next
  assume "canonical u ` set vs = canonical u ` set ws"
  then show "canonical u (SetOf vs) = canonical u (SetOf ws)"
    using assms by (simp add: image_Un) (intro sort_key_remdups_adj_set; simp)
qed

text \<open>The members of an encodable set have encodings, and these determine their canonical forms.\<close>

lemma encodable_members:
  assumes "encode_payload u (SetOf vs) = Inr p" "v \<in> set vs"
  shows "\<exists>b. encode_typed u v = Inr b"
proof -
  obtain bs where "encode_values u vs = Inr bs"
    using assms(1) by auto
  with assms(2) show ?thesis
    by (auto simp: encode_values_iff list_all2_conv_all_nth in_set_conv_nth)
qed

lemma encodable_faithful:
  assumes "unicode_contract u" "strings_ok v" "encode_typed u v = Inr b"
  shows "faithful u v b"
proof -
  obtain p where p: "encode_payload u v = Inr p" "typed_frame (type_code v) p = Inr b"
    using assms(3) by (auto simp: encode_typed_def)
  from encode_faithful(1) [OF assms(1,2) p(1)] show ?thesis
    by (intro faithful_frame [OF p]) simp_all
qed

lemma encodable_key:
  assumes "unicode_contract u" "strings_ok v" "encode_typed u v = Inr b"
  shows "typed_key u (canonical u v) = b" "canonical u v = decoded b"
  using faithful_decoded [OF encodable_faithful [OF assms]] by simp_all

lemma encodable_set_iff:
  assumes "unicode_contract u" "list_all strings_ok vs" "list_all strings_ok ws"
    and "encode_payload u (SetOf vs) = Inr p" "encode_payload u (SetOf ws) = Inr q"
  shows "canonical u (SetOf vs) = canonical u (SetOf ws) \<longleftrightarrow> canonical u ` set vs = canonical u ` set ws"
proof (rule canonical_set_iff, rule inj_onI)
  have enc: "\<exists>b. typed_key u v = b \<and> v = decoded b" if v: "v \<in> canonical u ` (set vs \<union> set ws)" for v
  proof -
    obtain w where w: "v = canonical u w" "w \<in> set vs \<union> set ws"
      using v by blast
    then have "\<exists>b. encode_typed u w = Inr b" "strings_ok w"
      using encodable_members [OF assms(4)] encodable_members [OF assms(5)] assms(2,3) by (auto simp: list_all_iff)
    with w(1) show ?thesis
      using encodable_key [OF assms(1)] by blast
  qed
  fix x y assume "x \<in> canonical u ` (set vs \<union> set ws)" "y \<in> canonical u ` (set vs \<union> set ws)"
    and "typed_key u x = typed_key u y"
  then show "x = y"
    using enc by metis
qed

lemma encoded_field:
  "encode_fields u fs = Inr body \<Longrightarrow> f \<in> set fs \<Longrightarrow> \<exists>p. encode_payload u (field_value f) = Inr p"
  by (induction fs arbitrary: body) auto

lemma derived_field:
  "derive_identity u hash r = Inr i \<Longrightarrow> f \<in> set (record_fields r) \<Longrightarrow> \<exists>p. encode_payload u (field_value f) = Inr p"
  by (auto simp: derive_identity_eq encode_cbef_record_iff intro: encoded_field)

lemmas record_canonical = canonical_record_def canonical_field_def record_strings_ok_def


section \<open>Collision registry\<close>

fun register_all :: "identity_registry \<Rightarrow> derived_identity list \<Rightarrow> (identity_error, identity_registry) result" where
  "register_all records [] = Inr records"
| "register_all records (i # is) = bindE (register records i) (\<lambda>records'. register_all records' is)"

definition evidence :: "derived_identity \<Rightarrow> b32 \<times> u8 list" where
  "evidence i = (full_digest i, preimage i)"

lemma register_new:
  assumes "\<forall>e. btree_get records (derived_id i) = Some e \<longrightarrow> e = evidence i"
  obtains records' where "register records i = Inr records'"
    "btree_get records' = (btree_get records)(derived_id i \<mapsto> evidence i)"
proof (cases "btree_get records (derived_id i)")
  case None
  then have "register records i = Inr (btree_insert (derived_id i) (evidence i) records)"
    by (simp add: register_def evidence_def)
  then show ?thesis
    by (rule that) simp
next
  case (Some e)
  with assms have "btree_get records (derived_id i) = Some (evidence i)"
    by simp
  then show ?thesis
    by (intro that [of records]) (auto simp: register_def evidence_def)
qed

lemma register_collision:
  assumes "btree_get records (derived_id i) = Some e" "e \<noteq> evidence i"
  shows "register records i = Inl (Err (IdCollision (lower_hex (b16_bytes (derived_id i)))))"
  using assms by (cases e) (simp add: register_def evidence_def)

lemma register_all_iff:
  "(\<exists>final. register_all records is = Inr final) \<longleftrightarrow> agrees (btree_get records) derived_id evidence (set is)"
proof (induction "is" arbitrary: records)
  case (Cons i "is")
  show ?case
  proof (cases "\<forall>e. btree_get records (derived_id i) = Some e \<longrightarrow> e = evidence i")
    case True
    then obtain records' where "register records i = Inr records'"
      "btree_get records' = (btree_get records)(derived_id i \<mapsto> evidence i)"
      by (rule register_new)
    then show ?thesis
      using agrees_insert [of "btree_get records" derived_id i evidence "set is"] True Cons.IH by (simp del: fun_upd_apply)
  next
    case False
    then show ?thesis
      using agrees_conflict [of "btree_get records" derived_id i] by (auto simp: register_collision)
  qed
qed (simp add: agrees_def)

fun derive_all :: "unicode \<Rightarrow> hash \<Rightarrow> cbef_record list \<Rightarrow> (identity_error, derived_identity list) result" where
  "derive_all u hash [] = Inr []"
| "derive_all u hash (r # rs) =
     bindE (derive_identity u hash r) (\<lambda>i. bindE (derive_all u hash rs) (\<lambda>is. Inr (i # is)))"

lemma derive_all_iff:
  "derive_all u hash rs = Inr is \<longleftrightarrow> list_all2 (\<lambda>r i. derive_identity u hash r = Inr i) rs is"
  by (induction rs arbitrary: "is") (auto simp: list_all2_Cons1)

lemma same_evidence:
  "derive_identity u hash r = Inr i \<Longrightarrow> derive_identity u hash s = Inr j \<Longrightarrow> evidence i = evidence j \<longleftrightarrow> i = j"
  by (auto simp: derive_identity_eq evidence_def)

text \<open>
  C36.  The registry finds every collision, whatever the hash function: a list of derived identities is
  registered exactly if no two records with different canonical forms have the same 16-byte identity.
\<close>

theorem registry_finds_every_collision:
  assumes "unicode_contract u" "\<forall>r \<in> set rs. record_strings_ok r" "derive_all u hash rs = Inr is"
  shows "(\<exists>records. register_all [] is = Inr records) \<longleftrightarrow>
    (\<forall>r \<in> set rs. \<forall>s \<in> set rs. \<forall>i j. derive_identity u hash r = Inr i \<longrightarrow> derive_identity u hash s = Inr j \<longrightarrow>
       derived_id i = derived_id j \<longrightarrow> canonical_record u r = canonical_record u s)"
proof -
  have all: "list_all2 (\<lambda>r i. derive_identity u hash r = Inr i) rs is"
    using assms(3) by (simp add: derive_all_iff)
  have from_rs: "\<exists>r \<in> set rs. derive_identity u hash r = Inr i" if "i \<in> set is" for i
    using all that by (induction rule: list_all2_induct) auto
  have in_is: "i \<in> set is" if "r \<in> set rs" "derive_identity u hash r = Inr i" for r i
    using all that by (induction rule: list_all2_induct) auto
  have same: "evidence i = evidence j \<longleftrightarrow> canonical_record u r = canonical_record u s"
    if "r \<in> set rs" "s \<in> set rs" "derive_identity u hash r = Inr i" "derive_identity u hash s = Inr j" for r s i j
    using identity_iff_canonical [OF assms(1) _ _ that(3,4)] same_evidence [OF that(3,4)] assms(2) that(1,2) by simp
  show ?thesis
    unfolding register_all_iff map_of.simps agrees_Map_empty
  proof (intro iffI ballI allI impI)
    fix r s i j
    assume "\<forall>i \<in> set is. \<forall>j \<in> set is. derived_id i = derived_id j \<longrightarrow> evidence i = evidence j"
      and rs: "r \<in> set rs" "s \<in> set rs" "derive_identity u hash r = Inr i" "derive_identity u hash s = Inr j"
      and "derived_id i = derived_id j"
    then show "canonical_record u r = canonical_record u s"
      using in_is same [OF rs] by blast
  next
    fix i j assume unique: "\<forall>r \<in> set rs. \<forall>s \<in> set rs. \<forall>i j. derive_identity u hash r = Inr i \<longrightarrow>
        derive_identity u hash s = Inr j \<longrightarrow> derived_id i = derived_id j \<longrightarrow> canonical_record u r = canonical_record u s"
      and ij: "i \<in> set is" "j \<in> set is" "derived_id i = derived_id j"
    obtain r s where rs: "r \<in> set rs" "s \<in> set rs" "derive_identity u hash r = Inr i" "derive_identity u hash s = Inr j"
      using from_rs [OF ij(1)] from_rs [OF ij(2)] by blast
    with unique ij(3) have "canonical_record u r = canonical_record u s"
      by blast
    then show "evidence i = evidence j"
      using same [OF rs] by simp
  qed
qed


section \<open>Registration identities\<close>

lemma canonical_id_set: "canonical u (SetOf (map Id xs)) = canonical u (SetOf (map Id ys)) \<longleftrightarrow> set xs = set ys"
proof -
  have key: "typed_key u (Id i) = 7 # be_bytes 4 16 @ b16_bytes i" for i
    by (simp add: typed_key_def encode_typed_def typed_frame_def put_u32_def length_b_bytes)
  have "inj_on (typed_key u) (canonical u ` (set (map Id xs) \<union> set (map Id ys)))"
    by (auto simp: inj_on_def key)
  from canonical_set_iff [OF this] show ?thesis
    by (simp add: image_image inj_image_eq_iff inj_def)
qed

text \<open>
  C39.  A context-set identity is the identity of a workspace and a set: where the truncated hash does
  not collide, two 16-byte identities agree exactly if the workspaces and the members agree; neither
  order nor repetition of the members matters.
\<close>

theorem context_set_identity_is_membership:
  assumes "unicode_contract u" "context_set_identity u hash w xs = Inr i" "context_set_identity u hash w' ys = Inr j"
    and "collision_free hash {preimage i, preimage j}"
  shows "derived_id i = derived_id j \<longleftrightarrow> w = w' \<and> set xs = set ys"
proof -
  note d = assms(2,3) [unfolded context_set_identity_def]
  show ?thesis
    by (subst id_iff_canonical [OF assms(1) _ _ d assms(4)])
       (simp_all add: record_canonical canonical_id_set [unfolded canonical.simps] list_all_iff del: canonical.simps(3)
          add: canonical_id_set)
qed

lemma worktree_identity_iff:
  assumes "unicode_contract u" "valid_utf8 kind" "valid_utf8 kind'"
    and "worktree_registration_identity u hash r n kind = Inr i" "worktree_registration_identity u hash r' n' kind' = Inr j"
  shows "i = j \<longleftrightarrow> r = r' \<and> n = n' \<and> to_ascii_lowercase kind = to_ascii_lowercase kind'"
proof -
  note d = assms(4,5) [unfolded worktree_registration_identity_def]
  have "is_ascii kind" "is_ascii kind'"
    using derived_field [OF d(1), of "\<lparr>tag = 3, field_value = Utf8 kind AsciiLower\<rparr>"]
      derived_field [OF d(2), of "\<lparr>tag = 3, field_value = Utf8 kind' AsciiLower\<rparr>"] by auto
  with assms(2,3) show ?thesis
    by (subst identity_iff_canonical [OF assms(1) _ _ d]) (simp_all add: record_canonical)
qed

text \<open>
  C37.  Source files: where the truncated hash does not collide, paths that were validated together have
  the same 16-byte file identity exactly if workspace and comparison key are the same, and then their
  raw bytes are the same.
\<close>

theorem source_file_identity_separates_paths:
  assumes "unicode_contract u" "validate_workspace_paths ps = Inr ()" "p \<in> set ps" "q \<in> set ps"
    and "source_file_identity u hash p = Inr i" "source_file_identity u hash q = Inr j"
    and "collision_free hash {preimage i, preimage j}"
  shows "(derived_id i = derived_id j \<longleftrightarrow> path_workspace p = path_workspace q \<and> comparison_key_bytes p = comparison_key_bytes q) \<and>
    (derived_id i = derived_id j \<longrightarrow> raw_relative_path_bytes p = raw_relative_path_bytes q)"
proof -
  note d = assms(5,6) [unfolded source_file_identity_def]
  have iff: "derived_id i = derived_id j \<longleftrightarrow> path_workspace p = path_workspace q \<and> comparison_key_bytes p = comparison_key_bytes q"
    by (subst id_iff_canonical [OF assms(1) _ _ d assms(7)]) (simp_all add: record_canonical)
  moreover have "raw_relative_path_bytes p = raw_relative_path_bytes q" if "comparison_key_bytes p = comparison_key_bytes q"
    using assms(2) [unfolded validate_workspace_paths_iff] assms(3,4) that by blast
  ultimately show ?thesis
    by simp
qed


section \<open>Type interner\<close>

fun intern_all ::
  "unicode \<Rightarrow> hash \<Rightarrow> type_interner \<Rightarrow> (b16 \<times> b16 \<times> type_term) list \<Rightarrow> (identity_error, b16 list \<times> type_interner) result"
where
  "intern_all u hash by_id [] = Inr ([], by_id)"
| "intern_all u hash by_id ((w, c, t) # ts) =
     bindE (intern u hash by_id w c t) (\<lambda>(i, by_id'). bindE (intern_all u hash by_id' ts) (\<lambda>(is, by_id''). Inr (i # is, by_id'')))"

lemma intern_eq:
  assumes "intern u hash by_id w c t = Inr (i, by_id')"
  obtains shape d where "canonical_bytes u t = Inr shape" "derive_identity u hash (type_record w c shape) = Inr d"
    "i = derived_id d" "btree_get by_id' = (btree_get by_id)(i \<mapsto> shape)" "\<forall>e. btree_get by_id i = Some e \<longrightarrow> e = shape"
proof -
  from assms obtain shape d where d: "canonical_bytes u t = Inr shape"
    "derive_identity u hash (type_record w c shape) = Inr d"
    "(case btree_get by_id (derived_id d) of
       Some existing \<Rightarrow>
         if existing \<noteq> shape then Inl (Err (IdCollision (lower_hex (b16_bytes (derived_id d)))))
         else Inr (derived_id d, by_id)
     | None \<Rightarrow> Inr (derived_id d, btree_insert (derived_id d) shape by_id)) = Inr (i, by_id')"
    by (auto simp: intern_def intern_canonical_def)
  show ?thesis
  proof (rule that [OF d(1,2)])
    show "i = derived_id d" "btree_get by_id' = (btree_get by_id)(i \<mapsto> shape)"
      "\<forall>e. btree_get by_id i = Some e \<longrightarrow> e = shape"
      using d(3) by (auto split: option.splits if_splits)
  qed
qed

definition interned :: "unicode \<Rightarrow> hash \<Rightarrow> type_interner \<Rightarrow> b16 \<times> b16 \<times> type_term \<Rightarrow> b16 \<Rightarrow> bool" where
  "interned u hash by_id e i \<longleftrightarrow>
     (case e of (w, c, t) \<Rightarrow> \<exists>shape d. canonical_bytes u t = Inr shape \<and>
        derive_identity u hash (type_record w c shape) = Inr d \<and> i = derived_id d \<and> btree_get by_id i = Some shape)"

lemma intern_all_interned:
  "intern_all u hash by_id ts = Inr (is, final) \<Longrightarrow>
   list_all2 (interned u hash final) ts is \<and> (\<forall>i shape. btree_get by_id i = Some shape \<longrightarrow> btree_get final i = Some shape)"
proof (induction ts arbitrary: by_id "is")
  case (Cons e ts)
  obtain w c t where e: "e = (w, c, t)"
    by (cases e)
  from Cons.prems obtain i by_id' is' where step: "intern u hash by_id w c t = Inr (i, by_id')"
    "intern_all u hash by_id' ts = Inr (is', final)" "is = i # is'"
    by (auto simp: e)
  note IH = Cons.IH [OF step(2)]
  obtain shape d where d: "canonical_bytes u t = Inr shape" "derive_identity u hash (type_record w c shape) = Inr d"
    "i = derived_id d" "btree_get by_id' = (btree_get by_id)(i \<mapsto> shape)" "\<forall>e. btree_get by_id i = Some e \<longrightarrow> e = shape"
    using step(1) by (rule intern_eq)
  have "btree_get by_id' i = Some shape"
    using d(4) by simp
  then have "interned u hash final e i"
    using IH d(1-3) by (auto simp: interned_def e)
  moreover have "btree_get final k = Some s" if "btree_get by_id k = Some s" for k s
  proof -
    have "btree_get by_id' k = Some s"
      using that d(4,5) by (cases "k = i") simp_all
    with IH show ?thesis
      by blast
  qed
  ultimately show ?case
    using IH step(3) by simp
qed simp

text \<open>
  C40.  Interned types, whatever the hash function: among the types that were interned, equal
  identities mean equal canonical shapes, and in one workspace and context also the converse.
\<close>

theorem interned_types_are_identified_by_shape:
  assumes "intern_all u hash [] ts = Inr (is, by_id)" "(w, c, t) = ts ! m" "(w', c', t') = ts ! n" "m < length ts" "n < length ts"
  shows "(is ! m = is ! n \<longrightarrow> canonical_bytes u t = canonical_bytes u t') \<and>
    (w = w' \<longrightarrow> c = c' \<longrightarrow> canonical_bytes u t = canonical_bytes u t' \<longrightarrow> is ! m = is ! n)"
proof -
  have "interned u hash by_id (w, c, t) (is ! m)" "interned u hash by_id (w', c', t') (is ! n)"
    using intern_all_interned [OF assms(1)] assms(2-5) by (auto simp: list_all2_conv_all_nth)
  then show ?thesis
    by (auto simp: interned_def)
qed

text \<open>The members of a union or an intersection are a set.\<close>

definition same_members :: "cbef_field \<Rightarrow> cbef_field \<Rightarrow> bool" where
  "same_members f g \<longleftrightarrow> tag f = tag g \<and>
     (field_value f = field_value g \<or>
      (\<exists>vs ws. field_value f = OrderedList vs \<and> field_value g = OrderedList ws \<and> set vs = set ws))"

lemma encode_values_keys:
  "encode_values u vs = Inr bs \<longleftrightarrow> (\<forall>v \<in> set vs. encode_typed u v = Inr (typed_key u v)) \<and> bs = map (typed_key u) vs"
  unfolding encode_values_iff by (induction vs arbitrary: bs) (auto simp: list_all2_Cons1 typed_key_def)

lemma encode_set_members:
  "set vs = set ws \<Longrightarrow> encode_payload u (SetOf vs) = Inr p \<Longrightarrow> encode_payload u (SetOf ws) = Inr p"
  using sort_remdups_adj_set [of "map (typed_key u) vs" "map (typed_key u) ws"] by (auto simp: encode_values_keys)

definition encodes_as :: "unicode \<Rightarrow> cbef_field \<Rightarrow> cbef_field \<Rightarrow> bool" where
  "encodes_as u f g \<longleftrightarrow> tag f = tag g \<and> type_code (field_value f) = type_code (field_value g) \<and>
     (\<forall>p. encode_payload u (field_value f) = Inr p \<longrightarrow> encode_payload u (field_value g) = Inr p)"

lemma encode_fields_as:
  "list_all2 (encodes_as u) fs gs \<Longrightarrow> encode_fields u fs = Inr body \<Longrightarrow> encode_fields u gs = Inr body"
  by (induction arbitrary: body rule: list_all2_induct) (auto simp: encodes_as_def)

lemma encode_record_as:
  assumes "list_all2 (encodes_as u) fs gs" "encode_cbef_record u \<lparr>domain = d, record_fields = fs\<rparr> = Inr bytes"
  shows "encode_cbef_record u \<lparr>domain = d, record_fields = gs\<rparr> = Inr bytes"
proof -
  have tags: "map tag fs = map tag gs"
    using assms(1) by (induction rule: list_all2_induct) (simp_all add: encodes_as_def)
  have "sorted_wrt (\<lambda>a b. tag a < tag b) xs \<longleftrightarrow> sorted_wrt (<) (map tag xs)"
    "(\<forall>f \<in> set xs. 0 < tag f) \<longleftrightarrow> (\<forall>t \<in> set (map tag xs). 0 < t)" for xs :: "cbef_field list"
    by (simp_all add: sorted_wrt_map)
  with assms(2) tags map_eq_imp_length_eq [OF tags] encode_fields_as [OF assms(1)] show ?thesis
    by (auto simp: encode_cbef_record_iff simp del: set_map)
qed

text \<open>
  The members of a union or intersection are a set: type terms that differ in the order or
  repetition of the members have the same canonical bytes.
\<close>

theorem union_members_are_a_set:
  assumes "constructor s = constructor t" "constructor t = Union \<or> constructor t = Intersection"
    and "list_all2 same_members (term_fields s) (term_fields t)" "canonical_bytes u s = Inr shape"
  shows "canonical_bytes u t = Inr shape"
proof -
  let ?set = "map (\<lambda>f. f\<lparr>field_value := member_set (field_value f)\<rparr>)"
  have "encodes_as u (f\<lparr>field_value := member_set (field_value f)\<rparr>) (g\<lparr>field_value := member_set (field_value g)\<rparr>)"
    if same: "same_members f g" for f g
  proof -
    have "encode_payload u (member_set (field_value g)) = Inr p" if "encode_payload u (member_set (field_value f)) = Inr p" for p
      using same that encode_set_members [where p = p] unfolding same_members_def by (metis member_set.simps(1))
    with same show ?thesis
      by (auto simp: same_members_def encodes_as_def simp del: encode_payload.simps)
  qed
  with assms(3) have "list_all2 (encodes_as u) (?set (term_fields s)) (?set (term_fields t))"
    unfolding list_all2_map1 list_all2_map2 by (rule list_all2_mono)
  from encode_record_as [OF this, of TypeDomain] assms(1,2,4) show ?thesis
    by (auto simp: canonical_bytes_def)
qed


section \<open>Examples\<close>

lemma frame_items_Inr:
  "\<forall>x \<in> set xs. length x < 2 ^ 32 \<Longrightarrow>
   \<exists>body. frame_items xs = Inr body \<and> length body = (\<Sum>x \<leftarrow> xs. 4 + length x)"
  by (induction xs) (auto simp: put_u32_def)

lemma encode_id_set_Inr:
  assumes "length xs < 2 ^ 20"
  shows "\<exists>p. encode_payload u (SetOf (map Id xs)) = Inr p \<and> length p < 2 ^ 32"
proof -
  let ?keys = "map (\<lambda>i. 7 # be_bytes 4 16 @ b16_bytes i) xs"
  have framed: "encode_values u (map Id xs) = Inr ?keys"
    by (induction xs) (simp_all add: typed_frame_def put_u32_def length_b_bytes)
  let ?sorted = "remdups_adj (sort ?keys)"
  have lengths: "length x = 21" if "x \<in> set ?sorted" for x
    using that by (auto simp: length_b_bytes)
  have n: "length ?sorted \<le> length xs"
    using remdups_adj_length [of "sort ?keys"] by simp
  obtain body where body: "frame_items ?sorted = Inr body" "length body = (\<Sum>x \<leftarrow> ?sorted. 4 + length x)"
    using frame_items_Inr [of ?sorted] lengths by fastforce
  have "(\<Sum>x \<leftarrow> ?sorted. 4 + length x) = (\<Sum>x \<leftarrow> ?sorted. 25)"
    by (rule arg_cong [where f = sum_list], rule map_cong) (simp_all add: lengths del: set_map set_sort remdups_adj_set)
  then have "length body = length ?sorted * 25"
    using body(2) by (simp add: sum_list_triv del: length_map)
  moreover have "length ?sorted < 2 ^ 20"
    using n assms by linarith
  ultimately show ?thesis
    using framed body(1) by (simp add: frame_sequence_def put_u32_def)
qed

lemma context_set_identity_Inr: "length xs < 2 ^ 20 \<Longrightarrow> \<exists>i. context_set_identity u hash w xs = Inr i"
  using encode_id_set_Inr [of xs u]
  by (auto simp: context_set_identity_def derive_identity_def encode_cbef_record_def put_u32_def length_b_bytes
      simp del: encode_payload.simps(11) intro: exI)

theorem context_set_identity_is_membership_witness:
  "\<exists>p i j k. context_set_identity plain_unicode (marking_hash p) 7 [1, 2, 1] = Inr i \<and>
             context_set_identity plain_unicode (marking_hash p) 7 [2, 1] = Inr j \<and>
             context_set_identity plain_unicode (marking_hash p) 7 [2] = Inr k \<and>
             derived_id i = derived_id j \<and> derived_id j \<noteq> derived_id k"
proof -
  obtain p where p: "context_set_identity plain_unicode (\<lambda>_. 0) 7 [2, 1] = Inr p"
    using context_set_identity_Inr [of "[2, 1]"] by fastforce
  obtain i j k where ids: "context_set_identity plain_unicode (marking_hash (preimage p)) 7 [1, 2, 1] = Inr i"
    "context_set_identity plain_unicode (marking_hash (preimage p)) 7 [2, 1] = Inr j"
    "context_set_identity plain_unicode (marking_hash (preimage p)) 7 [2] = Inr k"
    using context_set_identity_Inr [of "[1, 2, 1]"] context_set_identity_Inr [of "[2, 1]"]
      context_set_identity_Inr [of "[2]"] by fastforce
  have free: "collision_free (marking_hash (preimage p)) {preimage i, preimage j}"
    "collision_free (marking_hash (preimage p)) {preimage j, preimage k}"
    using derive_with_hash [OF p [unfolded context_set_identity_def], of "marking_hash (preimage p)"] ids(2)
    by (auto simp: context_set_identity_def)
  have "derived_id i = derived_id j" "derived_id j \<noteq> derived_id k"
    using context_set_identity_is_membership [OF plain_unicode_contract ids(1,2) free(1)]
      context_set_identity_is_membership [OF plain_unicode_contract ids(2,3) free(2)] by auto
  with ids show ?thesis
    by blast
qed

definition example_path :: "u8 \<Rightarrow> workspace_path" where
  "example_path b = \<lparr>path_workspace = 7, path_platform = Unix, raw_relative_path_bytes = [b],
     canonical_component_bytes = [b], comparison_key_bytes = [b], case_mode = Sensitive,
     display_string = [b], display_is_lossy = False\<rparr>"

lemma example_file_identity: "\<exists>i. source_file_identity plain_unicode hash (example_path b) = Inr i"
  by (simp add: source_file_identity_def derive_identity_def encode_cbef_record_def put_u32_def length_b_bytes
      example_path_def)

theorem source_file_identity_separates_paths_witness:
  "\<exists>p i j. source_file_identity plain_unicode (marking_hash p) (example_path 97) = Inr i \<and>
           source_file_identity plain_unicode (marking_hash p) (example_path 98) = Inr j \<and>
           validate_workspace_paths [example_path 97, example_path 98] = Inr () \<and> derived_id i \<noteq> derived_id j"
proof -
  obtain p where p: "source_file_identity plain_unicode (\<lambda>_. 0) (example_path 97) = Inr p"
    using example_file_identity by blast
  obtain i j where ids: "source_file_identity plain_unicode (marking_hash (preimage p)) (example_path 97) = Inr i"
    "source_file_identity plain_unicode (marking_hash (preimage p)) (example_path 98) = Inr j"
    using example_file_identity by blast
  have valid: "validate_workspace_paths [example_path 97, example_path 98] = Inr ()"
    by (simp add: validate_workspace_paths_def example_path_def)
  have free: "collision_free (marking_hash (preimage p)) {preimage i, preimage j}"
    using derive_with_hash [OF p [unfolded source_file_identity_def], of "marking_hash (preimage p)"] ids(1)
    by (auto simp: source_file_identity_def)
  have "derived_id i \<noteq> derived_id j"
    using source_file_identity_separates_paths [OF plain_unicode_contract valid _ _ ids free]
    by (auto simp: example_path_def)
  with ids valid show ?thesis
    by blast
qed

definition example_record :: "u8 \<Rightarrow> cbef_record" where
  "example_record b = \<lparr>domain = Repository, record_fields = [\<lparr>tag = 1, field_value = Bytes [b]\<rparr>]\<rparr>"

lemma example_record_facts:
  "\<exists>i. derive_identity plain_unicode hash (example_record b) = Inr i" "record_strings_ok (example_record b)"
  "canonical_record plain_unicode (example_record b) = example_record b"
  by (simp_all add: derive_identity_def encode_cbef_record_def put_u32_def example_record_def record_canonical)

text \<open>With a hash function that maps everything to one digest, two records collide and are found.\<close>

theorem registry_finds_every_collision_witness:
  "\<exists>is. derive_all plain_unicode (\<lambda>_. 0) [example_record 1, example_record 2] = Inr is \<and>
        \<not> (\<exists>records. register_all [] is = Inr records)"
proof -
  obtain i j where ids: "derive_identity plain_unicode (\<lambda>_. 0) (example_record 1) = Inr i"
    "derive_identity plain_unicode (\<lambda>_. 0) (example_record 2) = Inr j"
    using example_record_facts(1) by blast
  have all: "derive_all plain_unicode (\<lambda>_. 0) [example_record 1, example_record 2] = Inr [i, j]"
    by (simp add: ids)
  have strings: "\<forall>r \<in> set [example_record 1, example_record 2]. record_strings_ok r"
    by (simp add: example_record_facts)
  have "derived_id i = derived_id j"
    using ids by (auto simp: derive_identity_eq)
  moreover have "canonical_record plain_unicode (example_record 1) \<noteq> canonical_record plain_unicode (example_record 2)"
    by (simp add: example_record_facts) (simp add: example_record_def)
  ultimately have "\<not> (\<exists>records. register_all [] [i, j] = Inr records)"
    unfolding registry_finds_every_collision [OF plain_unicode_contract strings all] using ids by auto
  with all show ?thesis
    by blast
qed

definition example_union :: "b16 list \<Rightarrow> type_term" where
  "example_union ids = \<lparr>constructor = Union, term_fields = [\<lparr>tag = 1, field_value = OrderedList (map Id ids)\<rparr>]\<rparr>"

lemma example_union_Inr: "length ids < 2 ^ 20 \<Longrightarrow> \<exists>shape. canonical_bytes u (example_union ids) = Inr shape"
  using encode_id_set_Inr [of ids u]
  by (auto simp: canonical_bytes_def example_union_def encode_cbef_record_def put_u32_def
      simp del: encode_payload.simps(11) intro: exI)

theorem union_members_are_a_set_witness:
  "\<exists>shape. canonical_bytes plain_unicode (example_union [1, 2]) = Inr shape \<and>
           canonical_bytes plain_unicode (example_union [2, 1, 1]) = Inr shape"
proof -
  obtain shape where shape: "canonical_bytes plain_unicode (example_union [1, 2]) = Inr shape"
    using example_union_Inr [of "[1, 2]"] by auto
  have "list_all2 same_members (term_fields (example_union [1, 2])) (term_fields (example_union [2, 1, 1]))"
    by (auto simp: example_union_def same_members_def)
  with shape show ?thesis
    using union_members_are_a_set [of "example_union [1, 2]" "example_union [2, 1, 1]" plain_unicode shape]
    by (auto simp: example_union_def)
qed

definition example_type :: type_term where
  "example_type = \<lparr>constructor = Primitive, term_fields = []\<rparr>"

lemma example_type_bytes:
  "\<exists>shape d. canonical_bytes plain_unicode example_type = Inr shape \<and>
     derive_identity plain_unicode hash (type_record w c shape) = Inr d"
  by (simp add: canonical_bytes_def example_type_def encode_cbef_record_def derive_identity_def type_record_def
      put_u32_def length_b_bytes constructor_code_def type_ctors_def MAGIC_def FORMAT_VERSION_def ascii_def)

theorem interned_types_are_identified_by_shape_witness:
  "\<exists>is by_id. intern_all plain_unicode (\<lambda>_. 0) [] [(1, 2, example_type), (1, 2, example_type)] = Inr (is, by_id) \<and>
     is ! 0 = is ! 1"
proof -
  obtain shape d where d: "canonical_bytes plain_unicode example_type = Inr shape"
    "derive_identity plain_unicode (\<lambda>_. 0) (type_record 1 2 shape) = Inr d"
    using example_type_bytes by blast
  have all: "intern_all plain_unicode (\<lambda>_. 0) [] [(1, 2, example_type), (1, 2, example_type)] =
      Inr ([derived_id d, derived_id d], [(derived_id d, shape)])"
    by (simp add: intern_def intern_canonical_def d)
  with interned_types_are_identified_by_shape [OF all, of 1 2 example_type 0 1 2 example_type 1] show ?thesis
    by auto
qed



section \<open>Semantic identities\<close>

lemma be_bytes_word_inject:
  assumes "LENGTH('a::len) = 8 * n"
  shows "be_bytes n (unat (a :: 'a word)) = be_bytes n (unat b) \<longleftrightarrow> a = b"
  using word_of_be_bytes [OF assms, of a] word_of_be_bytes [OF assms, of b] by metis

lemma put_u16_inject [simp]: "put_u16 a = put_u16 b \<longleftrightarrow> a = b"
  unfolding put_u16_def by (rule be_bytes_word_inject) simp

lemma recipe_identity_domain:
  assumes "unicode_contract u" "derive_recipe_identity u hash r = Inr i" "derive_recipe_identity u hash s = Inr i"
    and "\<And>c. recipe_record_cbef r = Inr c \<Longrightarrow> record_strings_ok c" "\<And>c. recipe_record_cbef s = Inr c \<Longrightarrow> record_strings_ok c"
  shows "recipe_domain_code r = recipe_domain_code s"
proof -
  obtain c d where c: "recipe_record_cbef r = Inr c" "derive_identity u hash c = Inr i"
    and d: "recipe_record_cbef s = Inr d" "derive_identity u hash d = Inr i"
    using assms(2,3) by (auto simp: derive_recipe_identity_def)
  have "canonical_record u c = canonical_record u d"
    using identity_iff_canonical [OF assms(1) assms(4) [OF c(1)] assms(5) [OF d(1)] c(2) d(2)] by simp
  then have "domain c = domain d"
    by (cases c, cases d) (simp add: canonical_record_def)
  with c(1) d(1) show ?thesis
    by (auto simp: recipe_record_cbef_def domain_from_code_eq)
qed

definition entity_record :: "b16 \<Rightarrow> b16 \<Rightarrow> u16 \<Rightarrow> b16 \<Rightarrow> u8 list \<Rightarrow> cbef_record" where
  "entity_record w c k owner key = \<lparr>domain = Entity, record_fields =
     [\<lparr>tag = 1, field_value = Id w\<rparr>, \<lparr>tag = 2, field_value = Id c\<rparr>, \<lparr>tag = 3, field_value = Unsigned (put_u16 k)\<rparr>,
      \<lparr>tag = 4, field_value = Id owner\<rparr>, \<lparr>tag = 5, field_value = Bytes key\<rparr>]\<rparr>"

lemma derive_entity:
  "bindE (map_err f (recipe_entity (RId w) (RId c) (RUnsigned (put_u16 k)) (RId owner) (RBytes key)))
     (derive_recipe_identity u hash) = derive_identity u hash (entity_record w c k owner key)"
  by (simp add: recipe_entity_def expect_recipe_def derive_recipe_identity_def recipe_record_cbef_def
      domain_from_code_def recipe_field_new_def entity_record_def put_u16_def)

lemma entity_identity_iff:
  assumes "unicode_contract u"
    and "derive_identity u hash (entity_record w c k owner key) = Inr i"
    and "derive_identity u hash (entity_record w' c' k' owner' key') = Inr j"
    and "collision_free hash {preimage i, preimage j}"
  shows "derived_id i = derived_id j \<longleftrightarrow> w = w' \<and> c = c' \<and> k = k' \<and> owner = owner' \<and> key = key'"
  by (subst id_iff_canonical [OF assms(1) _ _ assms(2-4)]) (simp_all add: entity_record_def record_canonical)

text \<open>
  The JSON of an occurrence key identifies the key.  Canonical JSON keeps the integers up to
  \<open>2 ^ 53\<close>, so the key has to have offsets within that bound.
\<close>

definition exact_offsets :: "occurrence_key \<Rightarrow> bool" where
  "exact_offsets k \<longleftrightarrow> key_start_byte k \<le> 2 ^ 53 \<and> key_end_byte k \<le> 2 ^ 53"

lemma narrow_word_exact: "LENGTH('a::len) \<le> 32 \<Longrightarrow> \<bar>uint (w :: 'a word)\<bar> \<le> 2 ^ 53"
proof -
  assume "LENGTH('a) \<le> 32"
  then have "(2 :: int) ^ LENGTH('a) \<le> 2 ^ 32"
    by (intro power_increasing) simp_all
  then have "uint w < 2 ^ 32"
    by (rule order.strict_trans2 [OF uint_lt2p])
  then show ?thesis
    by simp
qed

lemma json_option_facts [simp]:
  "(\<And>x. exact_json (f x)) \<Longrightarrow> exact_json (json_option f v)"
  "(\<And>x. sorted_json (f x) = f x) \<Longrightarrow> sorted_json (json_option f v) = json_option f v"
  by (simp_all add: json_option_def split: option.split)

lemma json_option_inject:
  assumes "\<And>x. f x \<noteq> JNull" "\<And>x y. f x = f y \<Longrightarrow> x = y" "json_option f a = json_option f b"
  shows "a = b"
  using assms by (cases a; cases b) (auto simp: json_option_def dest: assms(1) [THEN notE, OF sym])

lemma occurrence_key_json_exact: "exact_offsets k \<Longrightarrow> exact_json (occurrence_key_json k)"
proof -
  assume "exact_offsets k"
  then have "\<bar>uint (key_start_byte k)\<bar> \<le> 2 ^ 53" "\<bar>uint (key_end_byte k)\<bar> \<le> 2 ^ 53"
    by (simp_all add: exact_offsets_def word_le_def)
  then show ?thesis
    by (simp add: occurrence_key_json_def narrow_word_exact [simplified] ascii_def)
qed

lemma occurrence_key_json_inject:
  assumes "sorted_json (occurrence_key_json k) = sorted_json (occurrence_key_json l)"
  shows "k = l"
proof -
  note members = sorted_object_inject [OF _ _ assms [unfolded occurrence_key_json_def], unfolded list.map fst_conv snd_conv]
  have "distinct (map ascii [''schema_version'', ''file_id'', ''source_digest'', ''start_byte'', ''end_byte'',
      ''occurrence_family_code'', ''normalized_kind_code'', ''parent_id'', ''role_code'', ''ordinal''])"
    by code_simp
  then have fields: "key_schema_version k = key_schema_version l" "b16_bytes (key_file_id k) = b16_bytes (key_file_id l)"
    "b32_bytes (key_source_digest k) = b32_bytes (key_source_digest l)" "key_start_byte k = key_start_byte l"
    "key_end_byte k = key_end_byte l" "key_occurrence_family_code k = key_occurrence_family_code l"
    "key_normalized_kind_code k = key_normalized_kind_code l" "key_ordinal k = key_ordinal l"
    "json_option (\<lambda>p. json_bytes (b16_bytes p)) (key_parent_id k) = json_option (\<lambda>p. json_bytes (b16_bytes p)) (key_parent_id l)"
    "json_option (\<lambda>c. JNumber (uint c)) (key_role_code k) = json_option (\<lambda>c. JNumber (uint c)) (key_role_code l)"
    using members by (simp_all add: word_uint_eq_iff)
  have "key_file_id k = key_file_id l" "key_source_digest k = key_source_digest l"
    using fields(2,3) by (simp_all add: b16_bytes_inject b32_bytes_inject)
  moreover have "key_parent_id k = key_parent_id l"
    by (rule json_option_inject [OF _ _ fields(9)]) (simp_all add: b16_bytes_inject)
  moreover have "key_role_code k = key_role_code l"
    by (rule json_option_inject [OF _ _ fields(10)]) (simp_all add: word_uint_eq_iff)
  ultimately show ?thesis
    using fields by (cases k, cases l) simp
qed

text \<open>
  C38.  A source occurrence is identified exactly by all fields of its input: where the truncated hash
  does not collide, two occurrences whose offsets have exact JSON numbers have the same 16-byte
  identity exactly if they agree in every field.
\<close>

theorem source_occurrence_identity_is_faithful:
  assumes "unicode_contract u" "jcs_contract jcs"
    and "source_occurrence_identity u hash jcs i = Inr a" "source_occurrence_identity u hash jcs j = Inr b"
    and "occ_end_byte i \<le> 2 ^ 53" "occ_end_byte j \<le> 2 ^ 53" "collision_free hash {preimage a, preimage b}"
  shows "derived_id a = derived_id b \<longleftrightarrow> i = j"
proof
  obtain k where k: "occ_start_byte i \<le> occ_end_byte i" "jcs (occurrence_key_json (occurrence_key_of i)) = Some k"
    "derive_identity u hash (entity_record (occ_workspace_id i) SOURCE_CONTEXT_ID (occ_entity_kind_code i) (occ_owner_id i) k) = Inr a"
    using assms(3) by (auto simp: source_occurrence_identity_def derive_entity)
  obtain l where l: "occ_start_byte j \<le> occ_end_byte j" "jcs (occurrence_key_json (occurrence_key_of j)) = Some l"
    "derive_identity u hash (entity_record (occ_workspace_id j) SOURCE_CONTEXT_ID (occ_entity_kind_code j) (occ_owner_id j) l) = Inr b"
    using assms(4) by (auto simp: source_occurrence_identity_def derive_entity)
  assume "derived_id a = derived_id b"
  then have eq: "occ_workspace_id i = occ_workspace_id j" "occ_entity_kind_code i = occ_entity_kind_code j"
    "occ_owner_id i = occ_owner_id j" "k = l"
    using entity_identity_iff [OF assms(1) k(3) l(3) assms(7)] by simp_all
  have exact: "exact_offsets (occurrence_key_of i)" "exact_offsets (occurrence_key_of j)"
    using k(1) l(1) assms(5,6) by (auto simp: exact_offsets_def occurrence_key_of_def)
  have "occurrence_key_of i = occurrence_key_of j"
    using jcs_contractD [OF assms(2) exact [THEN occurrence_key_json_exact] k(2)] l(2) eq(4)
    by (intro occurrence_key_json_inject) blast
  with eq(1-3) show "i = j"
    by (cases i, cases j) (simp add: occurrence_key_of_def)
next
  assume "i = j"
  with assms(3,4) show "derived_id a = derived_id b"
    by simp
qed

definition example_occurrence :: "u64 \<Rightarrow> source_occurrence_identity_input" where
  "example_occurrence n = \<lparr>occ_workspace_id = 1, occ_file_id = 2, occ_source_digest = 3, occ_start_byte = 4,
     occ_end_byte = n, occ_owner_id = 5, occ_entity_kind_code = 6, occ_occurrence_family_code = 7,
     occ_normalized_kind_code = 8, occ_parent_id = None, occ_role_code = Some 9, occ_ordinal = 0\<rparr>"

lemma example_occurrence_identity:
  "4 \<le> n \<Longrightarrow> \<exists>a. source_occurrence_identity plain_unicode hash example_jcs (example_occurrence n) = Inr a"
proof -
  assume "4 \<le> n"
  define key where "key = json_code (sorted_json (occurrence_key_json (occurrence_key_of (example_occurrence n))))"
  have "length key < 2 ^ 32"
    unfolding key_def occurrence_key_json_def object_code_length
    by (simp add: json_code_length json_option_def occurrence_key_of_def example_occurrence_def ascii_def del: json_code.simps(3))
  with \<open>4 \<le> n\<close> show ?thesis
    by (simp add: source_occurrence_identity_def derive_entity entity_record_def derive_identity_def
        encode_cbef_record_def put_u32_def length_b_bytes example_jcs_def key_def [symmetric])
      (simp add: example_occurrence_def)
qed

theorem source_occurrence_identity_is_faithful_witness:
  "\<exists>p a b. source_occurrence_identity plain_unicode (marking_hash p) example_jcs (example_occurrence 9) = Inr a \<and>
           source_occurrence_identity plain_unicode (marking_hash p) example_jcs (example_occurrence 10) = Inr b \<and>
           derived_id a \<noteq> derived_id b"
proof -
  obtain p where p: "source_occurrence_identity plain_unicode (\<lambda>_. 0) example_jcs (example_occurrence 9) = Inr p"
    using example_occurrence_identity [of 9] by fastforce
  obtain a b where ids: "source_occurrence_identity plain_unicode (marking_hash (preimage p)) example_jcs (example_occurrence 9) = Inr a"
    "source_occurrence_identity plain_unicode (marking_hash (preimage p)) example_jcs (example_occurrence 10) = Inr b"
    using example_occurrence_identity [of 9] example_occurrence_identity [of 10] by fastforce
  have free: "collision_free (marking_hash (preimage p)) {preimage a, preimage b}"
    using p ids(1) by (auto simp: source_occurrence_identity_def derive_entity derive_identity_eq)
  have "derived_id a \<noteq> derived_id b"
    using source_occurrence_identity_is_faithful [OF plain_unicode_contract example_jcs_contract ids _ _ free]
    by (simp add: example_occurrence_def)
  with ids show ?thesis
    by blast
qed

end
