(* ===== verification/GraphPath.thy ===== *)
theory GraphPath
  imports Collections "HOL-Library.Product_Lexorder"
begin

text \<open>
  The ordered-path routine of \<open>fabric/graph_program.rs\<close>: a bounded breadth-first search that returns
  one canonical shortest path of a query-local graph.  The graph container is the \<open>petgraph\<close> crate:
  its operations are the record \<open>digraph_ops\<close>, an argument of the search, and what the search relies
  on is the predicate \<open>digraph_contract\<close>.

  The search is related to a search over canonical identities (\<open>canonical_search\<close>), which is then
  shown to visit the simple paths of each length in the order of their fact sequences.
\<close>

section \<open>Edges, bounds and errors\<close>

datatype graph_program_error =
    InvalidText str str
  | ZeroResourceBound str
  | OrderedPathInputEdgesExceeded nat nat
  | DuplicateOrderedPathFact str
  | UnknownOrderedPathEndpoint str str
  | OrderedPathFrontierExceeded nat
  | UnboundedOrderedPathPolicy str
  | CanonicalIdentity

definition validate_bounded_text :: "str \<Rightarrow> str \<Rightarrow> (graph_program_error, unit) result" where
  "validate_bounded_text kind v = ensure (\<not> (v = [] \<or> length v > 240)) (InvalidText kind v)"

definition validate_bounded_ordered_path_policy :: "str \<Rightarrow> (graph_program_error, unit) result" where
  "validate_bounded_ordered_path_policy policy =
     bindE (validate_bounded_text (ascii ''ordered path policy'') policy) (\<lambda>_.
     ensure (policy = ascii ''shortest'') (UnboundedOrderedPathPolicy policy))"

record ordered_path_edge =
  fact_id :: str
  source_entity_id :: str
  target_entity_id :: str

definition ordered_path_edge_try_new ::
  "str \<Rightarrow> str \<Rightarrow> str \<Rightarrow> (graph_program_error, ordered_path_edge) result"
where
  "ordered_path_edge_try_new fid source target =
     bindE (validate_bounded_text (ascii ''path fact'') fid) (\<lambda>_.
     bindE (validate_bounded_text (ascii ''path source entity'') source) (\<lambda>_.
     bindE (validate_bounded_text (ascii ''path target entity'') target) (\<lambda>_.
     Inr \<lparr>fact_id = fid, source_entity_id = source, target_entity_id = target\<rparr>)))"

text \<open>The derived order compares the fields in the order of their declaration.\<close>

definition edge_key :: "ordered_path_edge \<Rightarrow> str \<times> str \<times> str" where
  "edge_key e = (fact_id e, source_entity_id e, target_entity_id e)"

record ordered_path_bounds =
  max_path_length :: u16
  max_input_edges :: u64
  max_frontier_paths :: u64

definition ordered_path_bounds_try_new ::
  "u16 \<Rightarrow> u64 \<Rightarrow> u64 \<Rightarrow> (graph_program_error, ordered_path_bounds) result"
where
  "ordered_path_bounds_try_new path_length input_edges frontier_paths =
     bindE (ensure (path_length \<noteq> 0) (ZeroResourceBound (ascii ''max_path_length''))) (\<lambda>_.
     bindE (ensure (input_edges \<noteq> 0) (ZeroResourceBound (ascii ''max_input_edges''))) (\<lambda>_.
     bindE (ensure (frontier_paths \<noteq> 0) (ZeroResourceBound (ascii ''max_frontier_paths''))) (\<lambda>_.
     Inr \<lparr>max_path_length = path_length, max_input_edges = input_edges,
          max_frontier_paths = frontier_paths\<rparr>)))"

record ordered_path_witness =
  ordered_entity_ids :: "str list"
  ordered_fact_ids :: "str list"

definition witness_length :: "ordered_path_witness \<Rightarrow> nat" where
  "witness_length w = length (ordered_fact_ids w)"


section \<open>The graph container\<close>

text \<open>
  The calls the search makes of \<open>petgraph::DiGraph\<close>: \<open>None\<close> is the panic of \<open>add_node\<close> at the capacity
  of the 32-bit index type, of \<open>add_edge\<close> there or at an absent endpoint, and of indexing an absent
  node.
\<close>

record 'g digraph_ops =
  dg_new :: 'g
  dg_add_node :: "'g \<Rightarrow> str \<Rightarrow> (nat \<times> 'g) option"
  dg_add_edge :: "'g \<Rightarrow> nat \<Rightarrow> nat \<Rightarrow> str \<Rightarrow> 'g option"
  dg_edges :: "'g \<Rightarrow> nat \<Rightarrow> (str \<times> nat) list"
  dg_weight :: "'g \<Rightarrow> nat \<Rightarrow> str option"

text \<open>
  What the documentation of the crate promises, over the content of a graph: its node weights by
  index and its edges as (source, target, weight).  Nothing is said about the order in which \<open>edges\<close>
  lists the outgoing edges of a node, or about the choice of a fresh index.
\<close>

type_synonym graph_content = "(nat \<rightharpoonup> str) \<times> (nat \<times> nat \<times> str) multiset"

definition index_capacity :: nat where
  "index_capacity = 2 ^ 32 - 1"

definition outgoing_of :: "(nat \<times> nat \<times> str) multiset \<Rightarrow> nat \<Rightarrow> (str \<times> nat) multiset" where
  "outgoing_of M v = image_mset (\<lambda>(_, t, f). (f, t)) (filter_mset (\<lambda>(s, _, _). s = v) M)"

definition digraph_contract :: "'g digraph_ops \<Rightarrow> ('g \<Rightarrow> graph_content) \<Rightarrow> bool" where
  "digraph_contract ops content \<longleftrightarrow>
     content (dg_new ops) = (Map.empty, {#}) \<and>
     (\<forall>g a. card (dom (fst (content g))) < index_capacity \<longrightarrow>
        (\<exists>i g'. dg_add_node ops g a = Some (i, g') \<and> fst (content g) i = None \<and>
                content g' = ((fst (content g))(i \<mapsto> a), snd (content g)))) \<and>
     (\<forall>g s t f. s \<in> dom (fst (content g)) \<and> t \<in> dom (fst (content g)) \<and>
        size (snd (content g)) < index_capacity \<longrightarrow>
        (\<exists>g'. dg_add_edge ops g s t f = Some g' \<and>
              content g' = (fst (content g), add_mset (s, t, f) (snd (content g))))) \<and>
     (\<forall>g v. mset (dg_edges ops g v) = outgoing_of (snd (content g)) v) \<and>
     (\<forall>g v. dg_weight ops g v = fst (content g) v)"


section \<open>The search\<close>

record pending_path =
  path_nodes :: "nat list"
  path_facts :: "str list"

fun reject_duplicate_facts :: "str list \<Rightarrow> ordered_path_edge list \<Rightarrow> (graph_program_error, unit) result" where
  "reject_duplicate_facts seen [] = Inr ()"
| "reject_duplicate_facts seen (e # es) =
     (if fact_id e \<in> set seen then Inl (Err (DuplicateOrderedPathFact (fact_id e)))
      else reject_duplicate_facts (fact_id e # seen) es)"

definition endpoint_identities :: "ordered_path_edge list \<Rightarrow> str list" where
  "endpoint_identities es = concat (map (\<lambda>e. [source_entity_id e, target_entity_id e]) es)"

fun add_nodes ::
  "'g digraph_ops \<Rightarrow> str list \<Rightarrow> 'g \<Rightarrow> (str, nat) btree_map \<Rightarrow>
   (graph_program_error, 'g \<times> (str, nat) btree_map) result"
where
  "add_nodes ops [] g nodes = Inr (g, nodes)"
| "add_nodes ops (identity # ids) g nodes =
     (case btree_get nodes identity of
        Some _ \<Rightarrow> add_nodes ops ids g nodes
      | None \<Rightarrow> bindE (expect (dg_add_node ops g identity)) (\<lambda>(index, g').
          add_nodes ops ids g' (btree_insert identity index nodes)))"

fun add_edges ::
  "'g digraph_ops \<Rightarrow> (str, nat) btree_map \<Rightarrow> ordered_path_edge list \<Rightarrow> 'g \<Rightarrow>
   (graph_program_error, 'g) result"
where
  "add_edges ops nodes [] g = Inr g"
| "add_edges ops nodes (e # es) g =
     bindE (expect (btree_get nodes (source_entity_id e))) (\<lambda>s.
     bindE (expect (btree_get nodes (target_entity_id e))) (\<lambda>t.
     bindE (expect (dg_add_edge ops g s t (fact_id e))) (\<lambda>g'.
     add_edges ops nodes es g')))"

fun node_names :: "'g digraph_ops \<Rightarrow> 'g \<Rightarrow> nat list \<Rightarrow> (graph_program_error, str list) result" where
  "node_names ops g [] = Inr []"
| "node_names ops g (v # vs) =
     bindE (expect (dg_weight ops g v)) (\<lambda>name.
     bindE (node_names ops g vs) (\<lambda>names. Inr (name # names)))"

fun outgoing_rows ::
  "'g digraph_ops \<Rightarrow> 'g \<Rightarrow> (str \<times> nat) list \<Rightarrow> (graph_program_error, (str \<times> str \<times> nat) list) result"
where
  "outgoing_rows ops g [] = Inr []"
| "outgoing_rows ops g ((fid, target) # es) =
     bindE (expect (dg_weight ops g target)) (\<lambda>name.
     bindE (outgoing_rows ops g es) (\<lambda>rows. Inr ((fid, name, target) # rows)))"

definition sorted_outgoing ::
  "'g digraph_ops \<Rightarrow> 'g \<Rightarrow> nat \<Rightarrow> (graph_program_error, (str \<times> str \<times> nat) list) result"
where
  "sorted_outgoing ops g current =
     bindE (outgoing_rows ops g (dg_edges ops g current)) (\<lambda>rows.
     Inr (sort_key (\<lambda>(fid, name, _). (fid, name)) rows))"

fun push_extensions ::
  "ordered_path_bounds \<Rightarrow> pending_path \<Rightarrow> (str \<times> str \<times> nat) list \<Rightarrow> pending_path list \<Rightarrow>
   (graph_program_error, pending_path list) result"
where
  "push_extensions b path [] frontier = Inr frontier"
| "push_extensions b path ((fid, _, next_node) # rows) frontier =
     (if next_node \<in> set (path_nodes path) then push_extensions b path rows frontier
      else if length frontier \<ge> unat (max_frontier_paths b) then
        Inl (Err (OrderedPathFrontierExceeded (unat (max_frontier_paths b))))
      else push_extensions b path rows
        (frontier @ [\<lparr>path_nodes = path_nodes path @ [next_node], path_facts = path_facts path @ [fid]\<rparr>]))"

partial_function (option) search_frontier ::
  "'g digraph_ops \<Rightarrow> 'g \<Rightarrow> nat \<Rightarrow> ordered_path_bounds \<Rightarrow> pending_path list \<Rightarrow>
   (graph_program_error, ordered_path_witness option) result option"
where
  "search_frontier ops g target b frontier =
     (case frontier of
        [] \<Rightarrow> Some (Inr None)
      | path # rest \<Rightarrow>
          if path_nodes path = [] then Some (Inl Panic)
          else if last (path_nodes path) = target then
            Some (bindE (node_names ops g (path_nodes path)) (\<lambda>names.
              Inr (Some \<lparr>ordered_entity_ids = names, ordered_fact_ids = path_facts path\<rparr>)))
          else if length (path_facts path) \<ge> unat (max_path_length b) then
            search_frontier ops g target b rest
          else
            (case bindE (sorted_outgoing ops g (last (path_nodes path)))
                    (\<lambda>rows. push_extensions b path rows rest) of
               Inl e \<Rightarrow> Some (Inl e)
             | Inr frontier' \<Rightarrow> search_frontier ops g target b frontier'))"

definition prepare_graph ::
  "'g digraph_ops \<Rightarrow> ordered_path_edge list \<Rightarrow> str \<Rightarrow> str \<Rightarrow> ordered_path_bounds \<Rightarrow>
   (graph_program_error, 'g \<times> nat \<times> nat) result"
where
  "prepare_graph ops edges source_id target_id b =
     bindE (validate_bounded_text (ascii ''path source entity'') source_id) (\<lambda>_.
     bindE (validate_bounded_text (ascii ''path target entity'') target_id) (\<lambda>_.
     bindE (ensure (\<not> length edges > unat (max_input_edges b))
              (OrderedPathInputEdgesExceeded (unat (max_input_edges b)) (length edges))) (\<lambda>_.
     let ordered = sort_key edge_key edges in
     bindE (reject_duplicate_facts [] ordered) (\<lambda>_.
     bindE (add_nodes ops (endpoint_identities ordered) (dg_new ops) []) (\<lambda>(g, nodes).
     bindE (ok_or (btree_get nodes source_id)
              (UnknownOrderedPathEndpoint (ascii ''source'') source_id)) (\<lambda>source.
     bindE (ok_or (btree_get nodes target_id)
              (UnknownOrderedPathEndpoint (ascii ''target'') target_id)) (\<lambda>target.
     bindE (add_edges ops nodes ordered g) (\<lambda>g'.
     Inr (g', source, target)))))))))"

definition bounded_shortest_path_witness ::
  "'g digraph_ops \<Rightarrow> ordered_path_edge list \<Rightarrow> str \<Rightarrow> str \<Rightarrow> ordered_path_bounds \<Rightarrow>
   (graph_program_error, ordered_path_witness option) result option"
where
  "bounded_shortest_path_witness ops edges source_id target_id b =
     (case prepare_graph ops edges source_id target_id b of
        Inl e \<Rightarrow> Some (Inl e)
      | Inr (g, source, target) \<Rightarrow>
          search_frontier ops g target b [\<lparr>path_nodes = [source], path_facts = []\<rparr>])"


section \<open>Specification\<close>

text \<open>
  \<open>connects E vs fs\<close>: the facts \<open>fs\<close> are the edges of a walk through the entities \<open>vs\<close>.  A path is
  compared by its length first and by its fact sequence second.
\<close>

fun connects :: "ordered_path_edge set \<Rightarrow> str list \<Rightarrow> str list \<Rightarrow> bool" where
  "connects E [v] [] = True"
| "connects E (u # v # vs) (f # fs) =
     (\<lparr>fact_id = f, source_entity_id = u, target_entity_id = v\<rparr> \<in> E \<and> connects E (v # vs) fs)"
| "connects E _ _ = False"

definition path_between ::
  "ordered_path_edge set \<Rightarrow> str \<Rightarrow> str \<Rightarrow> ordered_path_witness \<Rightarrow> bool"
where
  "path_between E s t w \<longleftrightarrow>
     connects E (ordered_entity_ids w) (ordered_fact_ids w) \<and>
     hd (ordered_entity_ids w) = s \<and> last (ordered_entity_ids w) = t"

definition canonical_rank :: "ordered_path_witness \<Rightarrow> nat \<times> str list" where
  "canonical_rank w = (witness_length w, ordered_fact_ids w)"

lemma connects_length: "connects E vs fs \<Longrightarrow> length vs = Suc (length fs)"
  by (induction E vs fs rule: connects.induct) auto

lemma connects_nonempty: "connects E vs fs \<Longrightarrow> vs \<noteq> []"
  using connects_length by fastforce

lemma connects_snoc:
  "vs \<noteq> [] \<Longrightarrow> connects E (vs @ [v]) (fs @ [f]) \<longleftrightarrow>
     connects E vs fs \<and> \<lparr>fact_id = f, source_entity_id = last vs, target_entity_id = v\<rparr> \<in> E"
proof (induction vs arbitrary: fs rule: induct_list012)
  case (2 u)
  then show ?case by (cases fs; cases "tl fs") auto
next
  case (3 u v' vs)
  then show ?case by (cases fs) (auto dest: connects_length)
qed simp

lemma connects_append:
  "vs \<noteq> [] \<Longrightarrow> length vs = Suc (length fs) \<Longrightarrow> ws \<noteq> [] \<Longrightarrow> last vs = hd ws \<Longrightarrow>
   connects E (vs @ tl ws) (fs @ gs) \<longleftrightarrow> connects E vs fs \<and> connects E ws gs"
proof (induction E vs fs rule: connects.induct)
  case (1 E v)
  then show ?case by (cases ws) auto
qed auto

lemma connects_cut:
  assumes "connects E (as @ [x] @ bs @ [x] @ cs) fs"
  shows "\<exists>gs. connects E (as @ [x] @ cs) gs \<and> length gs < length fs"
proof -
  define p q r where "p = take (length as) fs" and "q = take (Suc (length bs)) (drop (length as) fs)"
    and "r = drop (Suc (length bs)) (drop (length as) fs)"
  have len: "length fs = length as + Suc (length bs) + length cs"
    using connects_length [OF assms] by simp
  have fs: "fs = p @ q @ r"
    unfolding p_def q_def r_def append_take_drop_id ..
  have lens: "length p = length as" "length q = Suc (length bs)" "length r = length cs"
    using len by (simp_all add: p_def q_def r_def)
  have "connects E ((as @ [x]) @ tl (x # bs @ [x] @ cs)) (p @ q @ r)"
    using assms fs by simp
  then have p: "connects E (as @ [x]) p" and rest: "connects E (x # bs @ [x] @ cs) (q @ r)"
    using connects_append [of "as @ [x]" p "x # bs @ [x] @ cs" E "q @ r"] lens by simp_all
  have "connects E ((x # bs @ [x]) @ tl (x # cs)) (q @ r)"
    using rest by simp
  then have "connects E (x # cs) r"
    using connects_append [of "x # bs @ [x]" q "x # cs" E r] lens by simp
  with p have "connects E ((as @ [x]) @ tl (x # cs)) (p @ r)"
    using connects_append [of "as @ [x]" p "x # cs" E r] lens by simp
  then show ?thesis
    using fs lens by (intro exI [of _ "p @ r"]) simp
qed

lemma simple_path:
  assumes "connects E vs fs"
  shows "\<exists>us gs. connects E us gs \<and> hd us = hd vs \<and> last us = last vs \<and> distinct us \<and>
           length gs \<le> length fs \<and> (distinct vs \<or> length gs < length fs)"
  using assms
proof (induction "length fs" arbitrary: vs fs rule: less_induct)
  case less
  show ?case
  proof (cases "distinct vs")
    case False
    then obtain as bs cs x where vs: "vs = as @ [x] @ bs @ [x] @ cs"
      using not_distinct_decomp by blast
    with less.prems obtain gs where gs: "connects E (as @ [x] @ cs) gs" "length gs < length fs"
      using connects_cut by blast
    moreover have "hd (as @ [x] @ cs) = hd vs" "last (as @ [x] @ cs) = last vs"
      using vs by (cases as; simp)+
    ultimately show ?thesis
      using less.hyps [OF gs(2,1)] by fastforce
  qed (use less.prems in blast)
qed


section \<open>The search over canonical identities\<close>

definition extensions :: "ordered_path_edge list \<Rightarrow> ordered_path_witness \<Rightarrow> ordered_path_witness list" where
  "extensions es w =
     map (\<lambda>e. \<lparr>ordered_entity_ids = ordered_entity_ids w @ [target_entity_id e],
               ordered_fact_ids = ordered_fact_ids w @ [fact_id e]\<rparr>)
       (filter (\<lambda>e. source_entity_id e = last (ordered_entity_ids w) \<and>
                    target_entity_id e \<notin> set (ordered_entity_ids w)) es)"

definition frontier_exceeded :: "ordered_path_bounds \<Rightarrow> 'a list \<Rightarrow> 'a list \<Rightarrow> bool" where
  "frontier_exceeded b rest new \<longleftrightarrow>
     new \<noteq> [] \<and> length rest + length new > unat (max_frontier_paths b)"

partial_function (option) canonical_search ::
  "ordered_path_witness list \<Rightarrow> ordered_path_edge list \<Rightarrow> str \<Rightarrow> ordered_path_bounds \<Rightarrow>
   (graph_program_error, ordered_path_witness option) result option"
where
  "canonical_search frontier es t b =
     (case frontier of
        [] \<Rightarrow> Some (Inr None)
      | w # rest \<Rightarrow>
          if last (ordered_entity_ids w) = t then Some (Inr (Some w))
          else if length (ordered_fact_ids w) \<ge> unat (max_path_length b) then canonical_search rest es t b
          else if frontier_exceeded b rest (extensions es w) then
            Some (Inl (Err (OrderedPathFrontierExceeded (unat (max_frontier_paths b)))))
          else canonical_search (rest @ extensions es w) es t b)"

text \<open>The paths of one length in the order in which the search visits them.\<close>

primrec level :: "ordered_path_edge list \<Rightarrow> str \<Rightarrow> nat \<Rightarrow> ordered_path_witness list" where
  "level es s 0 = [\<lparr>ordered_entity_ids = [s], ordered_fact_ids = []\<rparr>]"
| "level es s (Suc k) = concat (map (extensions es) (level es s k))"

definition simple_paths :: "ordered_path_edge set \<Rightarrow> str \<Rightarrow> nat \<Rightarrow> ordered_path_witness set" where
  "simple_paths E s k =
     {w. connects E (ordered_entity_ids w) (ordered_fact_ids w) \<and> hd (ordered_entity_ids w) = s \<and>
         distinct (ordered_entity_ids w) \<and> witness_length w = k}"

lemma connects_Nil: "connects E vs [] \<longleftrightarrow> (\<exists>v. vs = [v])"
  by (cases vs; cases "tl vs") auto

lemma set_extensions:
  assumes "connects E (ordered_entity_ids w) (ordered_fact_ids w)" "E = set es"
  shows "x \<in> set (extensions es w) \<longleftrightarrow>
    (\<exists>v f. x = \<lparr>ordered_entity_ids = ordered_entity_ids w @ [v], ordered_fact_ids = ordered_fact_ids w @ [f]\<rparr> \<and>
           connects E (ordered_entity_ids x) (ordered_fact_ids x) \<and> v \<notin> set (ordered_entity_ids w))"
    (is "?L \<longleftrightarrow> ?R")
proof
  assume ?L
  then obtain e where e: "e \<in> set es" "source_entity_id e = last (ordered_entity_ids w)"
    "target_entity_id e \<notin> set (ordered_entity_ids w)"
    "x = \<lparr>ordered_entity_ids = ordered_entity_ids w @ [target_entity_id e],
          ordered_fact_ids = ordered_fact_ids w @ [fact_id e]\<rparr>"
    by (auto simp: extensions_def)
  have "\<lparr>fact_id = fact_id e, source_entity_id = last (ordered_entity_ids w),
      target_entity_id = target_entity_id e\<rparr> = e"
    using e(2) by (cases e) simp
  with e(1) have "\<lparr>fact_id = fact_id e, source_entity_id = last (ordered_entity_ids w),
      target_entity_id = target_entity_id e\<rparr> \<in> set es"
    by simp
  with e(3,4) show ?R
    using assms by (simp add: connects_snoc connects_nonempty)
next
  assume ?R
  then obtain v f where x: "x = \<lparr>ordered_entity_ids = ordered_entity_ids w @ [v], ordered_fact_ids = ordered_fact_ids w @ [f]\<rparr>"
    "connects E (ordered_entity_ids x) (ordered_fact_ids x)" "v \<notin> set (ordered_entity_ids w)"
    by blast
  then have "\<lparr>fact_id = f, source_entity_id = last (ordered_entity_ids w), target_entity_id = v\<rparr> \<in> set es"
    using assms by (simp add: connects_snoc connects_nonempty)
  then show ?L
    using x by (force simp: extensions_def)
qed

lemma simple_paths_Suc:
  "x \<in> simple_paths E s (Suc k) \<longleftrightarrow>
     (\<exists>w v f. w \<in> simple_paths E s k \<and>
        x = \<lparr>ordered_entity_ids = ordered_entity_ids w @ [v], ordered_fact_ids = ordered_fact_ids w @ [f]\<rparr> \<and>
        connects E (ordered_entity_ids x) (ordered_fact_ids x) \<and> v \<notin> set (ordered_entity_ids w))"
    (is "?L \<longleftrightarrow> ?R")
proof
  assume L: ?L
  obtain vs fs where x: "x = \<lparr>ordered_entity_ids = vs, ordered_fact_ids = fs\<rparr>"
    by (cases x) auto
  have len: "length vs = Suc (Suc k)" "length fs = Suc k"
    using L x connects_length by (auto simp: simple_paths_def witness_length_def)
  obtain us v where vs: "vs = us @ [v]"
    using len by (cases vs rule: rev_cases) auto
  obtain gs f where fs: "fs = gs @ [f]"
    using len by (cases fs rule: rev_cases) auto
  have us: "us \<noteq> []"
    using len vs by auto
  then have "\<lparr>ordered_entity_ids = us, ordered_fact_ids = gs\<rparr> \<in> simple_paths E s k"
    using L x vs fs by (simp add: simple_paths_def witness_length_def connects_snoc)
  then show ?R
    using L x vs fs us by (force simp: simple_paths_def)
next
  assume ?R
  then obtain w v f where w: "w \<in> simple_paths E s k" "v \<notin> set (ordered_entity_ids w)"
    "connects E (ordered_entity_ids x) (ordered_fact_ids x)"
    and x: "x = \<lparr>ordered_entity_ids = ordered_entity_ids w @ [v], ordered_fact_ids = ordered_fact_ids w @ [f]\<rparr>"
    by blast
  moreover have "ordered_entity_ids w \<noteq> []"
    using w(1) by (auto simp: simple_paths_def dest: connects_nonempty)
  ultimately show ?L
    by (simp add: simple_paths_def witness_length_def)
qed

lemma set_level: "set (level es s k) = simple_paths (set es) s k"
proof (induction k)
  case 0
  show ?case
  proof (rule set_eqI)
    fix x :: ordered_path_witness
    show "x \<in> set (level es s 0) \<longleftrightarrow> x \<in> simple_paths (set es) s 0"
      by (cases x) (auto simp: simple_paths_def witness_length_def connects_Nil)
  qed
next
  case (Suc k)
  show ?case
  proof (rule set_eqI)
    fix x :: ordered_path_witness
    have "x \<in> set (level es s (Suc k)) \<longleftrightarrow> (\<exists>w \<in> simple_paths (set es) s k. x \<in> set (extensions es w))"
      by (simp add: Suc)
    also have "\<dots> \<longleftrightarrow> x \<in> simple_paths (set es) s (Suc k)"
      unfolding simple_paths_Suc
      by (intro iffI; elim bexE exE conjE)
         (auto simp: simple_paths_def set_extensions)
    finally show "x \<in> set (level es s (Suc k)) \<longleftrightarrow> x \<in> simple_paths (set es) s (Suc k)" .
  qed
qed

lemma less_list_appendI:
  fixes xs :: "'a::linorder list"
  shows "xs < ys \<Longrightarrow> length xs = length ys \<Longrightarrow> xs @ us < ys @ vs"
  by (simp add: list_less_def lexord_sufI)

lemma less_list_snocI:
  fixes x :: "'a::linorder"
  shows "x < y \<Longrightarrow> xs @ [x] < xs @ [y]"
  by (simp add: list_less_def lexord_append_leftI)

lemma extensions_sorted:
  assumes "sorted_wrt (<) (map fact_id es)"
  shows "sorted_wrt (\<lambda>p q. ordered_fact_ids p < ordered_fact_ids q) (extensions es w)"
proof -
  have "sorted_wrt (\<lambda>d e. fact_id d < fact_id e)
    (filter (\<lambda>e. source_entity_id e = last (ordered_entity_ids w) \<and>
                 target_entity_id e \<notin> set (ordered_entity_ids w)) es)"
    using assms by (simp add: sorted_wrt_map sorted_wrt_filter)
  then show ?thesis
    unfolding extensions_def sorted_wrt_map
    by (rule sorted_wrt_mono_rel [rotated]) (simp add: less_list_snocI)
qed

lemma level_sorted:
  assumes "sorted_wrt (<) (map fact_id es)"
  shows "sorted_wrt (\<lambda>p q. ordered_fact_ids p < ordered_fact_ids q) (level es s k)"
proof (induction k)
  case (Suc k)
  have equal: "length (ordered_fact_ids p) = k" if "p \<in> set (level es s k)" for p
    using that by (auto simp: set_level simple_paths_def witness_length_def)
  have "sorted_wrt (\<lambda>p q. ordered_fact_ids p < ordered_fact_ids q) (concat (map (extensions es) ws))"
    if "sorted_wrt (\<lambda>p q. ordered_fact_ids p < ordered_fact_ids q) ws" "set ws \<subseteq> set (level es s k)" for ws
    using that
  proof (induction ws)
    case (Cons w ws)
    have "ordered_fact_ids p < ordered_fact_ids q"
      if "p \<in> set (extensions es w)" "q \<in> set (extensions es v)" "v \<in> set ws" for p q v
    proof -
      have "length (ordered_fact_ids w) = length (ordered_fact_ids v)"
        using that(3) Cons.prems(2) equal by (metis insert_subset list.simps(15) subsetD)
      moreover have "ordered_fact_ids w < ordered_fact_ids v"
        using that(3) Cons.prems(1) by simp
      ultimately show ?thesis
        using that(1,2) by (auto simp: extensions_def less_list_appendI)
    qed
    with Cons extensions_sorted [OF assms, of w] show ?case
      by (auto simp: sorted_wrt_append)
  qed simp
  with Suc show ?case by simp
qed simp

lemma level_distinct:
  assumes "sorted_wrt (<) (map fact_id es)"
  shows "distinct (level es s k)"
proof -
  have "sorted_wrt (<) (map ordered_fact_ids (level es s k))"
    using level_sorted [OF assms] by (simp add: sorted_wrt_map)
  then show ?thesis
    by (metis distinct_map strict_sorted_iff)
qed

lemma length_level:
  "sorted_wrt (<) (map fact_id es) \<Longrightarrow> length (level es s k) = card (simple_paths (set es) s k)"
  by (metis distinct_card level_distinct set_level)


section \<open>The search visits level after level\<close>

abbreviation (input) ends_at :: "str \<Rightarrow> ordered_path_witness \<Rightarrow> bool" where
  "ends_at t w \<equiv> last (ordered_entity_ids w) = t"

abbreviation (input) path_limit :: "ordered_path_bounds \<Rightarrow> nat" where
  "path_limit b \<equiv> unat (max_path_length b)"

abbreviation (input) frontier_limit :: "ordered_path_bounds \<Rightarrow> nat" where
  "frontier_limit b \<equiv> unat (max_frontier_paths b)"

lemma canonical_search_Nil [simp]: "canonical_search [] es t b = Some (Inr None)"
  by (simp add: canonical_search.simps)

lemma canonical_search_found: "ends_at t w \<Longrightarrow> canonical_search (w # rest) es t b = Some (Inr (Some w))"
  by (simp add: canonical_search.simps)

lemma canonical_search_skip:
  "\<forall>w \<in> set A. \<not> ends_at t w \<and> path_limit b \<le> length (ordered_fact_ids w) \<Longrightarrow>
   canonical_search (A @ B) es t b = canonical_search B es t b"
  by (induction A) (simp_all add: canonical_search.simps [of "_ # _"])

lemma canonical_search_expand:
  "\<forall>w \<in> set A. \<not> ends_at t w \<and> length (ordered_fact_ids w) < path_limit b \<Longrightarrow>
   canonical_search (A @ B) es t b = Some (Inl (Err (OrderedPathFrontierExceeded (frontier_limit b)))) \<and>
     frontier_limit b < length A + length B + length (concat (map (extensions es) A)) \<or>
   canonical_search (A @ B) es t b = canonical_search (B @ concat (map (extensions es) A)) es t b"
proof (induction A arbitrary: B)
  case (Cons w A)
  have step: "canonical_search ((w # A) @ B) es t b =
    (if frontier_exceeded b (A @ B) (extensions es w)
     then Some (Inl (Err (OrderedPathFrontierExceeded (frontier_limit b))))
     else canonical_search (A @ (B @ extensions es w)) es t b)"
    using Cons.prems by (simp add: canonical_search.simps [of "_ # _"])
  show ?case
  proof (cases "frontier_exceeded b (A @ B) (extensions es w)")
    case True
    with step show ?thesis by (simp add: frontier_exceeded_def)
  next
    case False
    with step Cons.IH [of "B @ extensions es w"] Cons.prems show ?thesis by auto
  qed
qed simp

text \<open>What the search returns, over the paths of each length.\<close>

definition search_outcome ::
  "ordered_path_edge list \<Rightarrow> str \<Rightarrow> str \<Rightarrow> ordered_path_bounds \<Rightarrow> nat \<Rightarrow>
   (graph_program_error, ordered_path_witness option) result \<Rightarrow> bool"
where
  "search_outcome es s t b k r \<longleftrightarrow>
     (case r of
        Inl e \<Rightarrow> e = Err (OrderedPathFrontierExceeded (frontier_limit b)) \<and>
          (\<exists>j<path_limit b. frontier_limit b < length (level es s j) + length (level es s (Suc j)))
      | Inr None \<Rightarrow> \<forall>j. k \<le> j \<and> j \<le> path_limit b \<longrightarrow> find (ends_at t) (level es s j) = None
      | Inr (Some w) \<Rightarrow> \<exists>j. k \<le> j \<and> j \<le> path_limit b \<and> find (ends_at t) (level es s j) = Some w \<and>
          (\<forall>i. k \<le> i \<and> i < j \<longrightarrow> find (ends_at t) (level es s i) = None))"

lemma level_length: "w \<in> set (level es s k) \<Longrightarrow> length (ordered_fact_ids w) = k"
  by (simp add: set_level simple_paths_def witness_length_def)

lemma find_Some_split: "find P xs = Some x \<Longrightarrow> \<exists>us vs. xs = us @ x # vs \<and> P x \<and> (\<forall>u \<in> set us. \<not> P u)"
proof (induction xs)
  case (Cons y xs)
  then show ?case
  proof (cases "P y")
    case False
    with Cons obtain us vs where "xs = us @ x # vs" "P x" "\<forall>u \<in> set us. \<not> P u"
      by auto
    with False show ?thesis
      by (intro exI [of _ "y # us"] exI [of _ vs]) auto
  qed (force intro: exI [of _ "[]"])
qed simp

lemma search_outcome_exceeded:
  "j < path_limit b \<Longrightarrow> frontier_limit b < length (level es s j) + length (level es s (Suc j)) \<Longrightarrow>
   search_outcome es s t b k (Inl (Err (OrderedPathFrontierExceeded (frontier_limit b))))"
  by (auto simp: search_outcome_def)

lemma search_outcome_lower:
  assumes "find (ends_at t) (level es s k) = None" "search_outcome es s t b (Suc k) r"
  shows "search_outcome es s t b k r"
proof (cases r)
  case (Inr v)
  have step: "k \<le> i \<longleftrightarrow> i = k \<or> Suc k \<le> i" for i
    by linarith
  from Inr assms show ?thesis
    by (cases v) (auto simp: search_outcome_def step)
qed (use assms in \<open>simp add: search_outcome_def\<close>)

lemma canonical_search_hit:
  assumes hit: "find (ends_at t) (level es s k) = Some w" and k: "k \<le> path_limit b"
  shows "\<exists>r. canonical_search (level es s k) es t b = Some r \<and> search_outcome es s t b k r"
proof -
  from find_Some_split [OF hit] obtain A B where
    split: "level es s k = A @ w # B" and w: "ends_at t w" and A: "\<forall>u \<in> set A. \<not> ends_at t u"
    by blast
  have found: "search_outcome es s t b k (Inr (Some w))"
    using hit k by (auto simp: search_outcome_def)
  have len: "length (ordered_fact_ids u) = k" if "u \<in> set A" for u
    using that level_length [of u es s k] split by simp
  show ?thesis
  proof (cases "k < path_limit b")
    case True
    have "length (concat (map (extensions es) A)) \<le> length (level es s (Suc k))"
      by (simp add: split)
    moreover have "length A + length (w # B) = length (level es s k)"
      by (simp add: split)
    moreover have "canonical_search ((w # B) @ concat (map (extensions es) A)) es t b = Some (Inr (Some w))"
      using w by (simp add: canonical_search_found)
    ultimately consider
      "canonical_search (A @ w # B) es t b = Some (Inl (Err (OrderedPathFrontierExceeded (frontier_limit b))))"
      "frontier_limit b < length (level es s k) + length (level es s (Suc k))"
    | "canonical_search (A @ w # B) es t b = Some (Inr (Some w))"
      using canonical_search_expand [of A t b "w # B" es] A len True by fastforce
    then show ?thesis
      using found search_outcome_exceeded [OF True, of es s t k] unfolding split by cases blast+
  next
    case False
    with A len have "canonical_search (A @ w # B) es t b = canonical_search (w # B) es t b"
      by (intro canonical_search_skip) simp
    with found w split show ?thesis
      by (simp add: canonical_search_found)
  qed
qed

lemma canonical_search_level:
  assumes "k \<le> path_limit b"
  shows "\<exists>r. canonical_search (level es s k) es t b = Some r \<and> search_outcome es s t b k r"
  using assms
proof (induction "path_limit b - k" arbitrary: k)
  case 0
  then have k: "k = path_limit b" by simp
  show ?case
  proof (cases "find (ends_at t) (level es s k)")
    case None
    then have "canonical_search (level es s k @ []) es t b = canonical_search [] es t b"
      by (intro canonical_search_skip) (simp add: find_None_iff k level_length)
    moreover have "search_outcome es s t b k (Inr None)"
      unfolding search_outcome_def using None k by (auto dest: le_antisym)
    ultimately show ?thesis
      by simp
  qed (use canonical_search_hit k in simp)
next
  case (Suc n)
  then have k: "k < path_limit b" by simp
  show ?case
  proof (cases "find (ends_at t) (level es s k)")
    case None
    then have miss: "\<forall>w \<in> set (level es s k). \<not> ends_at t w \<and> length (ordered_fact_ids w) < path_limit b"
      using k by (simp add: find_None_iff level_length)
    obtain r where r: "canonical_search (level es s (Suc k)) es t b = Some r" "search_outcome es s t b (Suc k) r"
      using Suc.hyps(1) [of "Suc k"] Suc.hyps(2) k by (metis Suc_diff_Suc Suc_leI nat.inject)
    consider
      "canonical_search (level es s k) es t b = Some (Inl (Err (OrderedPathFrontierExceeded (frontier_limit b))))"
      "frontier_limit b < length (level es s k) + length (level es s (Suc k))"
    | "canonical_search (level es s k) es t b = Some r"
      using canonical_search_expand [OF miss, of "[]" es] r(1) by auto
    then show ?thesis
      using search_outcome_exceeded [OF k, of es s t k] search_outcome_lower [OF None r(2)] by cases blast+
  qed (use canonical_search_hit k in simp)
qed

lemma find_sorted_least:
  assumes "find P xs = Some x" "sorted_wrt (\<lambda>p q. f p < (f q :: 'b::linorder)) xs" "y \<in> set xs" "P y"
  shows "f x \<le> f y"
  using assms by (induction xs) (auto split: if_splits intro: less_imp_le)

lemma least_path:
  assumes sorted: "sorted_wrt (<) (map fact_id es)"
    and hit: "find (ends_at t) (level es s j) = Some w"
    and before: "\<And>i. i < j \<Longrightarrow> find (ends_at t) (level es s i) = None"
    and path: "path_between (set es) s t q"
  shows "canonical_rank w \<le> canonical_rank q"
proof -
  have w: "witness_length w = j"
    using hit level_length by (metis find_Some_split in_set_conv_decomp witness_length_def)
  have no: "j \<le> i" if "u \<in> simple_paths (set es) s i" "ends_at t u" for u i
  proof (rule ccontr)
    assume "\<not> j \<le> i"
    with before [of i] that show False
      by (auto simp: find_None_iff set_level)
  qed
  obtain us gs where simple: "connects (set es) us gs" "hd us = s" "last us = t" "distinct us"
    "length gs \<le> witness_length q" "distinct (ordered_entity_ids q) \<or> length gs < witness_length q"
    using simple_path path unfolding path_between_def witness_length_def by metis
  let ?u = "\<lparr>ordered_entity_ids = us, ordered_fact_ids = gs\<rparr>"
  have "j \<le> length gs"
    using no [of ?u "length gs"] simple by (simp add: simple_paths_def witness_length_def)
  then consider "j < witness_length q" | "j = witness_length q" "distinct (ordered_entity_ids q)"
    using simple(5,6) by linarith
  then show ?thesis
  proof cases
    case 2
    then have "q \<in> set (level es s j)" "ends_at t q"
      using path by (simp_all add: set_level simple_paths_def path_between_def)
    then have "ordered_fact_ids w \<le> ordered_fact_ids q"
      using find_sorted_least [OF hit level_sorted [OF sorted]] by blast
    with w 2 show ?thesis by (simp add: canonical_rank_def)
  qed (simp add: canonical_rank_def w)
qed

lemma no_path:
  assumes none: "\<And>j. j \<le> n \<Longrightarrow> find (ends_at t) (level es s j) = None"
    and path: "path_between (set es) s t q"
  shows "n < witness_length q"
proof -
  obtain us gs where simple: "connects (set es) us gs" "hd us = s" "last us = t" "distinct us"
    "length gs \<le> witness_length q"
    using simple_path path unfolding path_between_def witness_length_def by metis
  let ?u = "\<lparr>ordered_entity_ids = us, ordered_fact_ids = gs\<rparr>"
  have "?u \<in> set (level es s (length gs))"
    using simple by (simp add: set_level simple_paths_def witness_length_def)
  with none [of "length gs"] simple(3) have "\<not> length gs \<le> n"
    by (force simp: find_None_iff)
  with simple(5) show ?thesis by simp
qed


section \<open>The graph search refines the canonical search\<close>

text \<open>
  The entity index is the inverse of the node weights, so a node index stands for exactly one entity.
\<close>

definition indexed :: "(str, nat) btree_map \<Rightarrow> (nat \<rightharpoonup> str) \<Rightarrow> bool" where
  "indexed nodes N \<longleftrightarrow> (\<forall>a i. btree_get nodes a = Some i \<longleftrightarrow> N i = Some a)"

definition names :: "(nat \<rightharpoonup> str) \<Rightarrow> pending_path \<Rightarrow> ordered_path_witness \<Rightarrow> bool" where
  "names N p w \<longleftrightarrow> path_nodes p \<noteq> [] \<and>
     list_all2 (\<lambda>v a. N v = Some a) (path_nodes p) (ordered_entity_ids w) \<and> path_facts p = ordered_fact_ids w"

definition graph_edges :: "(str, nat) btree_map \<Rightarrow> ordered_path_edge list \<Rightarrow> (nat \<times> nat \<times> str) multiset" where
  "graph_edges nodes es =
     image_mset (\<lambda>e. (the (btree_get nodes (source_entity_id e)), the (btree_get nodes (target_entity_id e)), fact_id e))
       (mset es)"

lemma indexedD: "indexed nodes N \<Longrightarrow> btree_get nodes a = Some i \<longleftrightarrow> N i = Some a"
  by (simp add: indexed_def)

lemma indexed_inj: "indexed nodes N \<Longrightarrow> N u = Some a \<Longrightarrow> N v = Some a \<Longrightarrow> u = v"
  by (metis indexedD option.inject)

lemma contractD:
  assumes "digraph_contract ops content"
  shows "content (dg_new ops) = (Map.empty, {#})"
    and "content g = (N, M) \<Longrightarrow> card (dom N) < index_capacity \<Longrightarrow>
      \<exists>i g'. dg_add_node ops g a = Some (i, g') \<and> N i = None \<and> content g' = (N(i \<mapsto> a), M)"
    and "content g = (N, M) \<Longrightarrow> N s \<noteq> None \<Longrightarrow> N t \<noteq> None \<Longrightarrow> size M < index_capacity \<Longrightarrow>
      \<exists>g'. dg_add_edge ops g s t f = Some g' \<and> content g' = (N, add_mset (s, t, f) M)"
    and "content g = (N, M) \<Longrightarrow> mset (dg_edges ops g v) = outgoing_of M v"
    and "content g = (N, M) \<Longrightarrow> dg_weight ops g v = N v"
proof -
  show "content (dg_new ops) = (Map.empty, {#})"
    using assms unfolding digraph_contract_def by (elim conjE)
  show "content g = (N, M) \<Longrightarrow> card (dom N) < index_capacity \<Longrightarrow>
      \<exists>i g'. dg_add_node ops g a = Some (i, g') \<and> N i = None \<and> content g' = (N(i \<mapsto> a), M)"
    using assms unfolding digraph_contract_def by (elim conjE allE [of _ g] allE [of _ a]) simp
  show "content g = (N, M) \<Longrightarrow> N s \<noteq> None \<Longrightarrow> N t \<noteq> None \<Longrightarrow> size M < index_capacity \<Longrightarrow>
      \<exists>g'. dg_add_edge ops g s t f = Some g' \<and> content g' = (N, add_mset (s, t, f) M)"
    using assms unfolding digraph_contract_def
    by (elim conjE allE [of _ g] allE [of _ s] allE [of _ t] allE [of _ f]) (simp add: domIff)
  show "content g = (N, M) \<Longrightarrow> mset (dg_edges ops g v) = outgoing_of M v"
    using assms unfolding digraph_contract_def by (elim conjE) simp
  show "content g = (N, M) \<Longrightarrow> dg_weight ops g v = N v"
    using assms unfolding digraph_contract_def by (elim conjE) simp
qed

lemma indexed_insert:
  assumes "indexed nodes N" "N i = None" "btree_get nodes a = None"
  shows "indexed (btree_insert a i nodes) (N(i \<mapsto> a))"
  using assms unfolding indexed_def by (auto simp: option.discI)

lemma add_nodes_outcome:
  assumes c: "digraph_contract ops content"
  shows "content g = (N, M) \<Longrightarrow> indexed nodes N \<Longrightarrow> finite (dom N) \<Longrightarrow>
    card (dom N) + length ids \<le> index_capacity \<Longrightarrow>
    \<exists>g' nodes' N'. add_nodes ops ids g nodes = Inr (g', nodes') \<and> content g' = (N', M) \<and>
      indexed nodes' N' \<and> dom (btree_get nodes') = dom (btree_get nodes) \<union> set ids"
proof (induction ids arbitrary: g N nodes)
  case (Cons a ids)
  show ?case
  proof (cases "btree_get nodes a")
    case None
    obtain i g' where new: "dg_add_node ops g a = Some (i, g')" "N i = None" "content g' = (N(i \<mapsto> a), M)"
      using contractD(2) [OF c Cons.prems(1), of a] Cons.prems(4) by auto
    have "indexed (btree_insert a i nodes) (N(i \<mapsto> a))"
      by (rule indexed_insert [OF Cons.prems(2) new(2) None])
    moreover have "card (dom (N(i \<mapsto> a))) + length ids \<le> index_capacity"
      using Cons.prems(3,4) new(2) by (simp add: domIff)
    moreover have "finite (dom (N(i \<mapsto> a)))"
      using Cons.prems(3) by simp
    ultimately obtain g'' nodes' N' where "add_nodes ops ids g' (btree_insert a i nodes) = Inr (g'', nodes')"
      "content g'' = (N', M)" "indexed nodes' N'" "dom (btree_get nodes') = dom (btree_get (btree_insert a i nodes)) \<union> set ids"
      using Cons.IH [OF new(3)] by blast
    with None new(1) show ?thesis
      by simp
  next
    case (Some i)
    with Cons.IH [OF Cons.prems(1-3)] Cons.prems(4) show ?thesis
      by (auto simp: insert_absorb domI)
  qed
qed simp

lemma add_edges_outcome:
  assumes c: "digraph_contract ops content" and i: "indexed nodes N"
  shows "content g = (N, M) \<Longrightarrow> set (endpoint_identities es) \<subseteq> dom (btree_get nodes) \<Longrightarrow>
    size M + length es \<le> index_capacity \<Longrightarrow>
    \<exists>g'. add_edges ops nodes es g = Inr g' \<and> content g' = (N, M + graph_edges nodes es)"
proof (induction es arbitrary: g M)
  case (Cons e es)
  obtain s t where st: "btree_get nodes (source_entity_id e) = Some s" "btree_get nodes (target_entity_id e) = Some t"
    using Cons.prems(2) by (auto simp: endpoint_identities_def)
  then have "N s \<noteq> None" "N t \<noteq> None"
    using indexedD [OF i] by auto
  then obtain g' where g': "dg_add_edge ops g s t (fact_id e) = Some g'"
    "content g' = (N, add_mset (s, t, fact_id e) M)"
    using contractD(3) [OF c Cons.prems(1)] Cons.prems(3) by fastforce
  have "set (endpoint_identities es) \<subseteq> dom (btree_get nodes)"
    using Cons.prems(2) by (auto simp: endpoint_identities_def)
  with Cons.IH [OF g'(2)] Cons.prems(3) show ?case
    by (auto simp: st g'(1) graph_edges_def)
qed (simp add: graph_edges_def)

lemma node_names_eq:
  assumes "digraph_contract ops content" "content g = (N, M)"
  shows "list_all2 (\<lambda>v a. N v = Some a) vs as \<Longrightarrow> node_names ops g vs = Inr as"
proof (induction vs arbitrary: as)
  case (Cons v vs)
  then show ?case
    by (auto simp: list_all2_Cons1 contractD(5) [OF assms])
qed simp

lemma outgoing_rows_eq:
  assumes "digraph_contract ops content" "content g = (N, M)"
  shows "\<forall>(f, t) \<in> set xs. N t \<noteq> None \<Longrightarrow>
    outgoing_rows ops g xs = Inr (map (\<lambda>(f, t). (f, the (N t), t)) xs)"
  by (induction xs) (auto simp: contractD(5) [OF assms])

text \<open>The admitted edges: sorted, each fact once, and all their endpoints indexed.\<close>

definition admitted :: "(str, nat) btree_map \<Rightarrow> ordered_path_edge list \<Rightarrow> bool" where
  "admitted nodes es \<longleftrightarrow>
     sorted_wrt (<) (map fact_id es) \<and> set (endpoint_identities es) \<subseteq> dom (btree_get nodes)"

lemma sorted_outgoing_eq:
  assumes c: "digraph_contract ops content" "content g = (N, graph_edges nodes es)"
    and i: "indexed nodes N" and es: "admitted nodes es" and v: "N v = Some a"
  shows "sorted_outgoing ops g v = Inr (map (\<lambda>e. (fact_id e, target_entity_id e, the (btree_get nodes (target_entity_id e))))
      (filter (\<lambda>e. source_entity_id e = a) es))"
    (is "_ = Inr (map ?row ?out)")
proof -
  have index: "\<exists>j. btree_get nodes (source_entity_id e) = Some j" "\<exists>j. btree_get nodes (target_entity_id e) = Some j"
    if "e \<in> set es" for e
    using es that by (auto simp: admitted_def endpoint_identities_def)
  have here: "the (btree_get nodes (source_entity_id e)) = v \<longleftrightarrow> source_entity_id e = a" if "e \<in> set es" for e
    using index(1) [OF that] v indexedD [OF i] by (metis option.inject option.sel)
  have target: "N (the (btree_get nodes (target_entity_id e))) = Some (target_entity_id e)" if "e \<in> set es" for e
    using index(2) [OF that] indexedD [OF i] by fastforce
  have "mset (dg_edges ops g v) = image_mset (\<lambda>e. (fact_id e, the (btree_get nodes (target_entity_id e))))
      (filter_mset (\<lambda>e. the (btree_get nodes (source_entity_id e)) = v) (mset es))"
    by (simp add: contractD(4) [OF c] outgoing_of_def graph_edges_def filter_mset_image_mset
        image_mset.compositionality comp_def)
  also have "filter_mset (\<lambda>e. the (btree_get nodes (source_entity_id e)) = v) (mset es) = mset ?out"
    using here by (simp cong: filter_cong flip: mset_filter)
  finally have edges: "mset (dg_edges ops g v) = mset (map (\<lambda>e. (fact_id e, the (btree_get nodes (target_entity_id e)))) ?out)"
    by simp
  let ?rows = "map (\<lambda>(f, t). (f, the (N t), t)) (dg_edges ops g v)"
  have set: "set (dg_edges ops g v) = (\<lambda>e. (fact_id e, the (btree_get nodes (target_entity_id e)))) ` set ?out"
    using mset_eq_setD [OF edges] by simp
  have rows: "outgoing_rows ops g (dg_edges ops g v) = Inr ?rows"
    by (rule outgoing_rows_eq [OF c]) (auto simp: set target)
  have "mset ?rows = image_mset (\<lambda>(f, t). (f, the (N t), t)) (mset (dg_edges ops g v))"
    by simp
  also have "\<dots> = mset (map (\<lambda>(f, t). (f, the (N t), t)) (map (\<lambda>e. (fact_id e, the (btree_get nodes (target_entity_id e)))) ?out))"
    unfolding edges mset_map ..
  also have "map (\<lambda>(f, t). (f, the (N t), t)) (map (\<lambda>e. (fact_id e, the (btree_get nodes (target_entity_id e)))) ?out) = map ?row ?out"
    by (simp add: target)
  finally have mset: "mset ?rows = mset (map ?row ?out)" .
  have facts: "sorted_wrt (<) (map fact_id ?out)"
    using es by (simp add: admitted_def sorted_wrt_map sorted_wrt_filter)
  have "inj_on (\<lambda>(f, n, _). (f, n)) (set (map ?row ?out))"
    using facts by (auto simp: inj_on_def strict_sorted_iff distinct_map)
  then have "inj_on (\<lambda>(f, n, _). (f, n)) (set ?rows)"
    using mset_eq_setD [OF mset] by simp
  moreover have "sorted (map (\<lambda>(f, n, _). (f, n)) (map ?row ?out))"
    using facts by (simp add: sorted_wrt_map) (erule sorted_wrt_mono_rel [rotated], simp)
  ultimately have "sort_key (\<lambda>(f, n, _). (f, n)) ?rows = map ?row ?out"
    by (intro sort_key_inj_key_eq [OF mset])
  then show ?thesis
    by (simp add: sorted_outgoing_def rows)
qed


definition pushed :: "pending_path \<Rightarrow> (str \<times> str \<times> nat) list \<Rightarrow> pending_path list" where
  "pushed p rows =
     map (\<lambda>(f, _, v). \<lparr>path_nodes = path_nodes p @ [v], path_facts = path_facts p @ [f]\<rparr>)
       (filter (\<lambda>(_, _, v). v \<notin> set (path_nodes p)) rows)"

lemma push_extensions_eq:
  "push_extensions b p rows rest =
     (if frontier_exceeded b rest (pushed p rows)
      then Inl (Err (OrderedPathFrontierExceeded (frontier_limit b)))
      else Inr (rest @ pushed p rows))"
proof (induction rows arbitrary: rest)
  case (Cons row rows)
  then show ?case
    by (cases row) (auto simp: frontier_exceeded_def pushed_def)
qed (simp add: pushed_def frontier_exceeded_def)

lemma frontier_exceeded_length:
  "length xs = length ys \<Longrightarrow> length us = length vs \<Longrightarrow> frontier_exceeded b xs us \<longleftrightarrow> frontier_exceeded b ys vs"
  by (auto simp: frontier_exceeded_def)

lemma list_all2_last: "list_all2 P xs ys \<Longrightarrow> xs \<noteq> [] \<Longrightarrow> P (last xs) (last ys)"
  by (metis last_conv_nth length_0_conv length_greater_0_conv diff_less list_all2_conv_all_nth zero_less_one)

lemma names_last: "names N p w \<Longrightarrow> N (last (path_nodes p)) = Some (last (ordered_entity_ids w))"
  using list_all2_last [of "\<lambda>v a. N v = Some a"] by (auto simp: names_def)

lemma names_member:
  assumes "indexed nodes N" "names N p w" "N j = Some a"
  shows "j \<in> set (path_nodes p) \<longleftrightarrow> a \<in> set (ordered_entity_ids w)"
proof -
  have "list_all2 (\<lambda>v a. N v = Some a) vs as \<Longrightarrow> j \<in> set vs \<longleftrightarrow> a \<in> set as" for vs as
    by (induction vs as rule: list_all2_induct) (use assms(1,3) indexed_inj in auto)
  with assms(2) show ?thesis
    by (auto simp: names_def)
qed

lemma names_pushed:
  assumes i: "indexed nodes N" and es: "admitted nodes es" and p: "names N p w"
  shows "list_all2 (names N)
    (pushed p (map (\<lambda>e. (fact_id e, target_entity_id e, the (btree_get nodes (target_entity_id e))))
       (filter (\<lambda>e. source_entity_id e = last (ordered_entity_ids w)) es)))
    (extensions es w)"
proof -
  have target: "N (the (btree_get nodes (target_entity_id e))) = Some (target_entity_id e)" if "e \<in> set es" for e
    using es that indexedD [OF i] by (force simp: admitted_def endpoint_identities_def)
  have same: "filter (\<lambda>e. the (btree_get nodes (target_entity_id e)) \<notin> set (path_nodes p))
      (filter (\<lambda>e. source_entity_id e = last (ordered_entity_ids w)) es) =
    filter (\<lambda>e. source_entity_id e = last (ordered_entity_ids w) \<and> target_entity_id e \<notin> set (ordered_entity_ids w)) es"
    unfolding filter_filter using names_member [OF i p target] by (intro filter_cong) auto
  show ?thesis
    unfolding pushed_def extensions_def filter_map comp_def
    by (simp add: same [unfolded filter_filter] list_all2_map1 list_all2_map2 list_all2_same)
       (use p target in \<open>auto simp: names_def intro: list_all2_appendI\<close>)
qed

lemma search_simulates:
  assumes "canonical_search W es t b = Some r"
    and "digraph_contract ops content" "content g = (N, graph_edges nodes es)" "indexed nodes N" "admitted nodes es"
    and "N v = Some t" "list_all2 (names N) F W"
  shows "search_frontier ops g v b F = Some r"
  using assms
proof (induction W es t b r arbitrary: F rule: canonical_search.raw_induct [rotated, consumes 1, case_names 1])
  case (1 rec W es t b r)
  note c = 1(3,4) and i = 1(5) and es = 1(6) and v = 1(7)
  show ?case
  proof (cases W)
    case Nil
    with 1 show ?thesis by (simp add: search_frontier.simps)
  next
    case (Cons w rest)
    then obtain p F' where F: "F = p # F'" and p: "names N p w" and rest: "list_all2 (names N) F' rest"
      using 1(8) by (auto simp: list_all2_Cons2)
    have last: "last (path_nodes p) = v \<longleftrightarrow> ends_at t w"
      using names_last [OF p] v indexed_inj [OF i] by (metis option.inject)
    have nonempty: "path_nodes p \<noteq> []" and facts: "path_facts p = ordered_fact_ids w"
      using p by (simp_all add: names_def)
    have found': "node_names ops g (path_nodes p) = Inr (ordered_entity_ids w)"
      using node_names_eq [OF c] p by (simp add: names_def)
    note out = sorted_outgoing_eq [OF c i es names_last [OF p]]
    note ext = names_pushed [OF i es p]
    have len: "frontier_exceeded b F' (pushed p (map (\<lambda>e. (fact_id e, target_entity_id e, the (btree_get nodes (target_entity_id e))))
       (filter (\<lambda>e. source_entity_id e = last (ordered_entity_ids w)) es))) \<longleftrightarrow> frontier_exceeded b rest (extensions es w)"
      by (rule frontier_exceeded_length [OF list_all2_lengthD [OF rest] list_all2_lengthD [OF ext]])
    note IH = 1(1) [OF _ c i es v]
    note step = search_frontier.simps [of ops g v b "p # F'"]
    consider (found) "ends_at t w" "r = Inr (Some w)"
      | (skip) "\<not> ends_at t w" "path_limit b \<le> length (ordered_fact_ids w)" "rec rest es t b = Some r"
      | (exceeded) "\<not> ends_at t w" "\<not> path_limit b \<le> length (ordered_fact_ids w)"
          "frontier_exceeded b rest (extensions es w)"
          "r = Inl (Err (OrderedPathFrontierExceeded (frontier_limit b)))"
      | (extend) "\<not> ends_at t w" "\<not> path_limit b \<le> length (ordered_fact_ids w)"
          "\<not> frontier_exceeded b rest (extensions es w)" "rec (rest @ extensions es w) es t b = Some r"
      using 1(2) Cons by (simp split: if_splits)
    then show ?thesis
    proof cases
      case found
      then show ?thesis by (simp add: F step nonempty last facts found')
    next
      case skip
      with IH [OF skip(3) rest] show ?thesis by (simp add: F step nonempty last facts)
    next
      case exceeded
      then show ?thesis by (simp add: F step nonempty last facts out push_extensions_eq len)
    next
      case extend
      with IH [OF extend(4) list_all2_appendI [OF rest ext]] show ?thesis
        by (simp add: F step nonempty last facts out push_extensions_eq len)
    qed
  qed
qed


section \<open>Admission\<close>

definition admissible :: "ordered_path_edge list \<Rightarrow> str \<Rightarrow> str \<Rightarrow> ordered_path_bounds \<Rightarrow> bool" where
  "admissible edges s t b \<longleftrightarrow>
     s \<noteq> [] \<and> length s \<le> 240 \<and> t \<noteq> [] \<and> length t \<le> 240 \<and>
     length edges \<le> unat (max_input_edges b) \<and> distinct (map fact_id edges) \<and>
     s \<in> set (endpoint_identities edges) \<and> t \<in> set (endpoint_identities edges)"

text \<open>The reasons for which the search may fail.\<close>

fun path_error :: "ordered_path_edge list \<Rightarrow> str \<Rightarrow> str \<Rightarrow> ordered_path_bounds \<Rightarrow> graph_program_error \<Rightarrow> bool" where
  "path_error edges s t b (InvalidText kind v) \<longleftrightarrow> (v = s \<or> v = t) \<and> (v = [] \<or> length v > 240)"
| "path_error edges s t b (OrderedPathInputEdgesExceeded limit observed) \<longleftrightarrow>
     limit = unat (max_input_edges b) \<and> observed = length edges \<and> observed > limit"
| "path_error edges s t b (DuplicateOrderedPathFact f) \<longleftrightarrow> 2 \<le> count (mset (map fact_id edges)) f"
| "path_error edges s t b (UnknownOrderedPathEndpoint role v) \<longleftrightarrow>
     (v = s \<or> v = t) \<and> v \<notin> set (endpoint_identities edges)"
| "path_error edges s t b (OrderedPathFrontierExceeded limit) \<longleftrightarrow>
     limit = frontier_limit b \<and>
     (\<exists>k<path_limit b. limit < card (simple_paths (set edges) s k) + card (simple_paths (set edges) s (Suc k)))"
| "path_error edges s t b _ \<longleftrightarrow> False"

definition admission ::
  "ordered_path_edge list \<Rightarrow> str \<Rightarrow> str \<Rightarrow> ordered_path_bounds \<Rightarrow> (graph_program_error, unit) result"
where
  "admission edges s t b =
     bindE (validate_bounded_text (ascii ''path source entity'') s) (\<lambda>_.
     bindE (validate_bounded_text (ascii ''path target entity'') t) (\<lambda>_.
     bindE (ensure (\<not> length edges > unat (max_input_edges b))
              (OrderedPathInputEdgesExceeded (unat (max_input_edges b)) (length edges))) (\<lambda>_.
     bindE (reject_duplicate_facts [] (sort_key edge_key edges)) (\<lambda>_.
     bindE (ensure (s \<in> set (endpoint_identities edges)) (UnknownOrderedPathEndpoint (ascii ''source'') s)) (\<lambda>_.
     ensure (t \<in> set (endpoint_identities edges)) (UnknownOrderedPathEndpoint (ascii ''target'') t))))))"

definition canonical_witness ::
  "ordered_path_edge list \<Rightarrow> str \<Rightarrow> str \<Rightarrow> ordered_path_bounds \<Rightarrow>
   (graph_program_error, ordered_path_witness option) result option"
where
  "canonical_witness edges s t b =
     (case admission edges s t b of
        Inl e \<Rightarrow> Some (Inl e)
      | Inr _ \<Rightarrow> canonical_search (level (sort_key edge_key edges) s 0) (sort_key edge_key edges) t b)"

lemma reject_duplicate_facts_eq:
  "reject_duplicate_facts seen es = Inr u \<longleftrightarrow> distinct (map fact_id es) \<and> fact_id ` set es \<inter> set seen = {}"
  by (induction es arbitrary: seen) auto

lemma reject_duplicate_facts_Err:
  "reject_duplicate_facts seen es = Inl e \<Longrightarrow>
   \<exists>f. e = Err (DuplicateOrderedPathFact f) \<and> 2 \<le> count (mset (map fact_id es) + mset seen) f"
proof (induction es arbitrary: seen)
  case (Cons x es)
  show ?case
  proof (cases "fact_id x \<in> set seen")
    case True
    then obtain us vs where "seen = us @ fact_id x # vs"
      by (auto simp: in_set_conv_decomp)
    then have "2 \<le> count (mset (map fact_id (x # es)) + mset seen) (fact_id x)"
      by simp
    with True Cons.prems show ?thesis
      by (intro exI [of _ "fact_id x"]) simp
  next
    case False
    with Cons.prems Cons.IH [of "fact_id x # seen"] show ?thesis by simp
  qed
qed simp

lemma set_endpoint_identities:
  "set (endpoint_identities es) = source_entity_id ` set es \<union> target_entity_id ` set es"
  by (auto simp: endpoint_identities_def)

lemma validate_bounded_text_eq:
  "validate_bounded_text kind v = Inr u \<longleftrightarrow> v \<noteq> [] \<and> length v \<le> 240"
  "validate_bounded_text kind v = Inl e \<longleftrightarrow> e = Err (InvalidText kind v) \<and> (v = [] \<or> 240 < length v)"
  by (auto simp: validate_bounded_text_def)

lemma ordered_path_edge_try_new_exact:
  "ordered_path_edge_try_new f s t = Inr e \<longleftrightarrow>
     (\<forall>v \<in> {f, s, t}. v \<noteq> [] \<and> length v \<le> 240) \<and>
     e = \<lparr>fact_id = f, source_entity_id = s, target_entity_id = t\<rparr>"
  by (auto simp: ordered_path_edge_try_new_def validate_bounded_text_eq)

lemma ordered_path_bounds_try_new_exact:
  "ordered_path_bounds_try_new n m k = Inr b \<longleftrightarrow>
     n \<noteq> 0 \<and> m \<noteq> 0 \<and> k \<noteq> 0 \<and> b = \<lparr>max_path_length = n, max_input_edges = m, max_frontier_paths = k\<rparr>"
  by (auto simp: ordered_path_bounds_try_new_def)

lemma ordered_path_policy_exact:
  "validate_bounded_ordered_path_policy p = Inr u \<longleftrightarrow> p = ascii ''shortest''"
  by (auto simp: validate_bounded_ordered_path_policy_def validate_bounded_text_eq ascii_def)

lemma admission_Inr: "admission edges s t b = Inr u \<longleftrightarrow> admissible edges s t b"
proof -
  have "distinct (map fact_id (sort_key edge_key edges)) \<longleftrightarrow> distinct (map fact_id edges)"
    by (intro mset_eq_imp_distinct_iff) simp
  then show ?thesis
    by (simp add: admission_def admissible_def validate_bounded_text_eq reject_duplicate_facts_eq not_less)
qed

lemma admission_Inl: "admission edges s t b = Inl e \<Longrightarrow> \<exists>x. e = Err x \<and> path_error edges s t b x"
  unfolding admission_def bindE_eq_Inl validate_bounded_text_eq ensure_eq_Inl
  by (elim disjE exE conjE) (auto dest: reject_duplicate_facts_Err)

lemma ordered_edges_sorted:
  assumes "distinct (map fact_id edges)"
  shows "sorted_wrt (<) (map fact_id (sort_key edge_key edges))"
proof -
  have "sorted (map edge_key (sort_key edge_key edges))"
    by simp
  then have "sorted (map fact_id (sort_key edge_key edges))"
    unfolding sorted_wrt_map by (rule sorted_wrt_mono_rel [rotated]) (auto simp: edge_key_def less_le)
  moreover have "distinct (map fact_id (sort_key edge_key edges))"
    using assms by (subst mset_eq_imp_distinct_iff [of _ "map fact_id edges"]) simp_all
  ultimately show ?thesis
    by (simp add: strict_sorted_iff)
qed

lemma prepare_graph_outcome:
  assumes c: "digraph_contract ops content" and cap: "2 * length edges \<le> index_capacity"
  shows "case admission edges s t b of
      Inl e \<Rightarrow> prepare_graph ops edges s t b = Inl e
    | Inr _ \<Rightarrow> \<exists>g nodes N i j. prepare_graph ops edges s t b = Inr (g, i, j) \<and>
        content g = (N, graph_edges nodes (sort_key edge_key edges)) \<and> indexed nodes N \<and>
        admitted nodes (sort_key edge_key edges) \<and> N i = Some s \<and> N j = Some t"
proof -
  let ?es = "sort_key edge_key edges"
  have ids: "set (endpoint_identities ?es) = set (endpoint_identities edges)"
    by (simp add: set_endpoint_identities)
  have "length (endpoint_identities ?es) = 2 * length edges"
    by (simp add: endpoint_identities_def length_concat comp_def sum_list_triv)
  then obtain g nodes N where built: "add_nodes ops (endpoint_identities ?es) (dg_new ops) [] = Inr (g, nodes)"
    "content g = (N, {#})" "indexed nodes N" "dom (btree_get nodes) = set (endpoint_identities edges)"
    using add_nodes_outcome [OF c contractD(1) [OF c], of "[]" "endpoint_identities ?es"] cap ids
    by (auto simp: indexed_def)
  obtain g' where edges: "add_edges ops nodes ?es g = Inr g'" "content g' = (N, graph_edges nodes ?es)"
    using add_edges_outcome [OF c built(3,2), of ?es] built(4) ids cap by auto
  have known: "(v \<in> set (endpoint_identities edges)) = (\<exists>i. btree_get nodes v = Some i)" for v
    using built(4) by auto
  have found: "ok_or (btree_get nodes v) x =
      bindE (ensure (v \<in> set (endpoint_identities edges)) x) (\<lambda>_. Inr (the (btree_get nodes v)))" for v x
    by (cases "btree_get nodes v") (simp_all add: known)
  have prepared: "prepare_graph ops edges s t b =
      bindE (admission edges s t b) (\<lambda>_. Inr (g', the (btree_get nodes s), the (btree_get nodes t)))"
    unfolding prepare_graph_def admission_def Let_def bindE_assoc built(1) found
    by (simp add: bindE_assoc found edges(1))
  show ?thesis
  proof (cases "admission edges s t b")
    case (Inl e)
    with prepared show ?thesis by simp
  next
    case (Inr u)
    then have ok: "admissible edges s t b"
      by (simp add: admission_Inr)
    then obtain i j where ij: "btree_get nodes s = Some i" "btree_get nodes t = Some j"
      by (auto simp: admissible_def known)
    have "N i = Some s" "N j = Some t"
      using ij indexedD [OF built(3)] by blast+
    moreover have "admitted nodes ?es"
      using ok ordered_edges_sorted built(4) ids by (simp add: admitted_def admissible_def)
    ultimately show ?thesis
      using Inr prepared edges(2) built(3) ij by simp blast
  qed
qed

lemma witness_refines:
  assumes "digraph_contract ops content" "2 * length edges \<le> index_capacity"
  shows "bounded_shortest_path_witness ops edges s t b = canonical_witness edges s t b"
proof (cases "admission edges s t b")
  case (Inl e)
  with prepare_graph_outcome [OF assms, of s t b] show ?thesis
    by (simp add: bounded_shortest_path_witness_def canonical_witness_def)
next
  case (Inr u)
  let ?es = "sort_key edge_key edges"
  from Inr prepare_graph_outcome [OF assms, of s t b] obtain g nodes N i j where
    g: "prepare_graph ops edges s t b = Inr (g, i, j)" "content g = (N, graph_edges nodes ?es)"
      "indexed nodes N" "admitted nodes ?es" "N i = Some s" "N j = Some t"
    by auto
  obtain r where r: "canonical_search (level ?es s 0) ?es t b = Some r"
    using canonical_search_level [of 0] by blast
  have "list_all2 (names N) [\<lparr>path_nodes = [i], path_facts = []\<rparr>] (level ?es s 0)"
    using g(5) by (simp add: names_def)
  with search_simulates [OF r assms(1) g(2,3,4,6)] g(1) r Inr show ?thesis
    by (simp add: bounded_shortest_path_witness_def canonical_witness_def)
qed

lemma canonical_witness_mset:
  assumes "mset edges = mset edges'"
  shows "canonical_witness edges s t b = canonical_witness edges' s t b"
proof -
  have "inj edge_key"
    by (rule injI) (simp add: edge_key_def)
  then have sort: "sort_key edge_key edges = sort_key edge_key edges'"
    by (intro sort_key_inj_key_eq) (simp_all add: assms inj_on_subset [OF _ subset_UNIV])
  have same: "length edges = length edges'" "set edges = set edges'"
    using assms by (auto dest: mset_eq_length mset_eq_setD)
  show ?thesis
    unfolding canonical_witness_def admission_def set_endpoint_identities sort same ..
qed


section \<open>The returned path\<close>

lemma canonical_witness_outcome:
  "\<exists>r. canonical_witness edges s t b = Some r \<and>
     (case r of
        Inl e \<Rightarrow> \<exists>x. e = Err x \<and> path_error edges s t b x
      | Inr None \<Rightarrow> admissible edges s t b \<and>
          (\<forall>q. path_between (set edges) s t q \<longrightarrow> path_limit b < witness_length q)
      | Inr (Some w) \<Rightarrow> admissible edges s t b \<and> path_between (set edges) s t w \<and> witness_length w \<le> path_limit b \<and>
          (\<forall>q. path_between (set edges) s t q \<longrightarrow> canonical_rank w \<le> canonical_rank q))"
proof (cases "admission edges s t b")
  case (Inl e)
  with admission_Inl [OF Inl] show ?thesis
    by (simp add: canonical_witness_def)
next
  case (Inr u)
  let ?es = "sort_key edge_key edges"
  have ok: "admissible edges s t b"
    using Inr by (simp add: admission_Inr)
  then have sorted: "sorted_wrt (<) (map fact_id ?es)"
    by (simp add: admissible_def ordered_edges_sorted)
  obtain r where r: "canonical_search (level ?es s 0) ?es t b = Some r" "search_outcome ?es s t b 0 r"
    using canonical_search_level [of 0] by blast
  have run: "canonical_witness edges s t b = Some r"
    using Inr r(1) by (simp add: canonical_witness_def)
  consider (error) e where "r = Inl e" | (none) "r = Inr None" | (some) w where "r = Inr (Some w)"
    by (metis option.exhaust sum.exhaust)
  then show ?thesis
  proof cases
    case error
    then show ?thesis
      using run r(2) length_level [OF sorted] by (auto simp: search_outcome_def simp del: level.simps)
  next
    case none
    then have "\<And>j. j \<le> path_limit b \<Longrightarrow> find (ends_at t) (level ?es s j) = None"
      using r(2) by (simp add: search_outcome_def)
    from no_path [OF this] none run ok show ?thesis by simp
  next
    case some
    then obtain j where j: "j \<le> path_limit b" "find (ends_at t) (level ?es s j) = Some w"
      "\<And>i. i < j \<Longrightarrow> find (ends_at t) (level ?es s i) = None"
      using r(2) by (auto simp: search_outcome_def)
    have "w \<in> simple_paths (set edges) s j" "ends_at t w"
      using find_Some_split [OF j(2)] set_level [of ?es s j] by auto
    then have "path_between (set edges) s t w" "witness_length w \<le> path_limit b"
      using j(1) by (simp_all add: simple_paths_def path_between_def)
    with least_path [OF sorted j(2,3)] some run ok show ?thesis by simp
  qed
qed

text \<open>
  C30.  On every container that keeps its documented contract, \<open>bounded_shortest_path_witness\<close> returns
  without a panic.  A returned path joins the endpoints within the length bound, and no path between
  them is shorter, or as short with a smaller fact sequence; so it has no cycle.  If it returns no
  path, every path is longer than the bound.  It fails only for the reason that the error names, and
  with an exceeded frontier only if the simple paths of two consecutive lengths outnumber the bound.
\<close>

theorem shortest_path_is_canonical:
  assumes "digraph_contract ops content" "2 * length edges \<le> index_capacity"
  shows "\<exists>r. bounded_shortest_path_witness ops edges s t b = Some r \<and>
     (case r of
        Inl e \<Rightarrow> \<exists>x. e = Err x \<and> path_error edges s t b x
      | Inr None \<Rightarrow> admissible edges s t b \<and>
          (\<forall>q. path_between (set edges) s t q \<longrightarrow> unat (max_path_length b) < witness_length q)
      | Inr (Some w) \<Rightarrow> admissible edges s t b \<and> path_between (set edges) s t w \<and>
          witness_length w \<le> unat (max_path_length b) \<and>
          (\<forall>q. path_between (set edges) s t q \<longrightarrow> canonical_rank w \<le> canonical_rank q))"
  unfolding witness_refines [OF assms] by (rule canonical_witness_outcome)

text \<open>
  C31.  The result depends only on the multiset of edges: neither the order of the input nor the graph
  container, with its choice of node indices and its order of outgoing edges, can be observed.
\<close>

theorem path_is_independent_of_order_and_container:
  fixes ops :: "'g digraph_ops" and ops' :: "'h digraph_ops"
  assumes "digraph_contract ops content" "digraph_contract ops' content'"
    and "mset edges = mset edges'" "2 * length edges \<le> index_capacity"
  shows "bounded_shortest_path_witness ops edges s t b = bounded_shortest_path_witness ops' edges' s t b"
proof -
  have "2 * length edges' \<le> index_capacity"
    using assms(3,4) by (metis size_mset)
  with assms show ?thesis
    by (metis canonical_witness_mset witness_refines)
qed


section \<open>Examples\<close>

text \<open>
  A container that numbers its nodes in order and lists outgoing edges oldest first or newest first.
\<close>

type_synonym list_graph = "str list \<times> (nat \<times> nat \<times> str) list"

definition list_content :: "list_graph \<Rightarrow> graph_content" where
  "list_content g = ((\<lambda>i. if i < length (fst g) then Some (fst g ! i) else None), mset (snd g))"

definition list_digraph :: "bool \<Rightarrow> list_graph digraph_ops" where
  "list_digraph newest_first =
     \<lparr>dg_new = ([], []),
      dg_add_node = (\<lambda>g a. if length (fst g) < index_capacity then Some (length (fst g), (fst g @ [a], snd g)) else None),
      dg_add_edge = (\<lambda>g s t f. if s < length (fst g) \<and> t < length (fst g) \<and> length (snd g) < index_capacity
                               then Some (fst g, snd g @ [(s, t, f)]) else None),
      dg_edges = (\<lambda>g v. (if newest_first then rev else id)
                          (map (\<lambda>(_, t, f). (f, t)) (filter (\<lambda>(s, _, _). s = v) (snd g)))),
      dg_weight = (\<lambda>g i. if i < length (fst g) then Some (fst g ! i) else None)\<rparr>"

lemma list_digraph_contract: "digraph_contract (list_digraph newest_first) list_content"
proof -
  have nodes: "dom (fst (list_content g)) = {..<length (fst g)}" for g
    by (auto simp: list_content_def dom_def)
  have add: "fst (list_content (fst g @ [a], es)) = (fst (list_content g))(length (fst g) \<mapsto> a)" for g a es
    by (auto simp: list_content_def nth_append)
  have "fst (list_content g) (length (fst g)) = None" for g
    by (simp add: list_content_def)
  moreover have "mset (dg_edges (list_digraph newest_first) g v) = outgoing_of (snd (list_content g)) v" for g v
    by (simp add: list_digraph_def list_content_def outgoing_of_def)
  moreover have "content = (fst content, snd content)" for content :: graph_content
    by simp
  ultimately show ?thesis
    unfolding digraph_contract_def
    apply (intro conjI allI impI)
    subgoal by (simp add: list_digraph_def list_content_def)
    subgoal for g a
      by (auto simp: nodes list_digraph_def add prod_eq_iff) (simp add: list_content_def)
    subgoal for g s t f
      by (auto simp: list_digraph_def prod_eq_iff list_content_def split: if_splits)
    subgoal by simp
    subgoal by (simp add: list_digraph_def list_content_def)
    done
qed

abbreviation example_edge :: "string \<Rightarrow> string \<Rightarrow> string \<Rightarrow> ordered_path_edge" where
  "example_edge f s t \<equiv> \<lparr>fact_id = ascii f, source_entity_id = ascii s, target_entity_id = ascii t\<rparr>"

definition example_edges :: "ordered_path_edge list" where
  "example_edges =
     [example_edge ''f3'' ''a'' ''c'', example_edge ''f2'' ''a'' ''b'', example_edge ''f1'' ''c'' ''d'',
      example_edge ''f4'' ''b'' ''d'', example_edge ''f5'' ''b'' ''a'']"

definition example_bounds :: "u64 \<Rightarrow> ordered_path_bounds" where
  "example_bounds n = \<lparr>max_path_length = 4, max_input_edges = 8, max_frontier_paths = n\<rparr>"

definition example_witness :: "string list \<Rightarrow> string list \<Rightarrow> ordered_path_witness" where
  "example_witness vs fs = \<lparr>ordered_entity_ids = map ascii vs, ordered_fact_ids = map ascii fs\<rparr>"

lemma example_ordered:
  "sort_key edge_key example_edges =
   [example_edge ''f1'' ''c'' ''d'', example_edge ''f2'' ''a'' ''b'', example_edge ''f3'' ''a'' ''c'',
    example_edge ''f4'' ''b'' ''d'', example_edge ''f5'' ''b'' ''a'']"
  by (simp add: example_edges_def edge_key_def ascii_def)

lemma example_search:
  "canonical_witness example_edges (ascii ''a'') (ascii ''d'') (example_bounds 8) =
   Some (Inr (Some (example_witness [''a'', ''b'', ''d''] [''f2'', ''f4''])))"
proof -
  have "admissible example_edges (ascii ''a'') (ascii ''d'') (example_bounds 8)"
    by (simp add: admissible_def example_edges_def example_bounds_def ascii_def set_endpoint_identities)
  then have "admission example_edges (ascii ''a'') (ascii ''d'') (example_bounds 8) = Inr ()"
    by (simp add: admission_Inr)
  then show ?thesis
    unfolding canonical_witness_def
    by (simp add: example_ordered canonical_search.simps extensions_def frontier_exceeded_def example_bounds_def
         example_witness_def ascii_def)
qed

theorem shortest_path_is_canonical_witness:
  "digraph_contract (list_digraph False) list_content \<and>
   (\<exists>w. bounded_shortest_path_witness (list_digraph False) example_edges (ascii ''a'') (ascii ''d'') (example_bounds 8) =
        Some (Inr (Some w)) \<and>
      path_between (set example_edges) (ascii ''a'') (ascii ''d'') w \<and>
      canonical_rank w \<le> canonical_rank (example_witness [''a'', ''c'', ''d''] [''f3'', ''f1'']) \<and>
      ordered_fact_ids w = [ascii ''f2'', ascii ''f4''])"
proof -
  have cap: "2 * length example_edges \<le> index_capacity"
    by (simp add: example_edges_def index_capacity_def)
  note run = witness_refines [OF list_digraph_contract [of False] cap, of "ascii ''a''" "ascii ''d''" "example_bounds 8",
      unfolded example_search]
  have "path_between (set example_edges) (ascii ''a'') (ascii ''d'') (example_witness [''a'', ''c'', ''d''] [''f3'', ''f1''])"
    by (simp add: path_between_def example_witness_def example_edges_def)
  with shortest_path_is_canonical [OF list_digraph_contract [of False] cap, of "ascii ''a''" "ascii ''d''" "example_bounds 8"]
  show ?thesis
    using run list_digraph_contract by (auto simp: example_witness_def)
qed

theorem path_is_independent_of_order_and_container_witness:
  "bounded_shortest_path_witness (list_digraph False) example_edges (ascii ''a'') (ascii ''d'') (example_bounds 8) =
   bounded_shortest_path_witness (list_digraph True) (rev example_edges) (ascii ''a'') (ascii ''d'') (example_bounds 8) \<and>
   list_digraph False \<noteq> list_digraph True"
proof -
  have "dg_edges (list_digraph False) ([], [(0, 0, []), (0, 1, [])]) 0 \<noteq> dg_edges (list_digraph True) ([], [(0, 0, []), (0, 1, [])]) 0"
    by (simp add: list_digraph_def)
  then have "list_digraph False \<noteq> list_digraph True"
    by metis
  moreover have "2 * length example_edges \<le> index_capacity"
    by (simp add: example_edges_def index_capacity_def)
  ultimately show ?thesis
    using path_is_independent_of_order_and_container [OF list_digraph_contract list_digraph_contract,
        of example_edges "rev example_edges"] by simp
qed

end
