(* ===== verification/PublicIdentity.thy ===== *)
theory PublicIdentity
  imports Identity GraphPath "HOL-Library.Product_Lexorder"
begin

text \<open>
  Public identities issued from released recipes, with their evidence: \<open>derive_public_recipe_identity\<close>,
  access scopes and result artifacts of \<open>identity.rs\<close>, path results of \<open>graph_program.rs\<close>, objective
  input sets of \<open>relational_semantic_query.rs\<close> and explicit unknown facts of \<open>explicit_unknown.rs\<close>.
\<close>

section \<open>Evidence\<close>

fun domain_contract_name :: "identity_domain \<Rightarrow> string" where
  "domain_contract_name Workspace = ''WORKSPACE''"
| "domain_contract_name Repository = ''REPOSITORY''"
| "domain_contract_name Worktree = ''WORKTREE''"
| "domain_contract_name AnalysisContext = ''ANALYSIS_CONTEXT''"
| "domain_contract_name ContextSet = ''CONTEXT_SET''"
| "domain_contract_name SourceFile = ''SOURCE_FILE''"
| "domain_contract_name Owner = ''OWNER''"
| "domain_contract_name Entity = ''ENTITY''"
| "domain_contract_name RelationFact = ''RELATION_FACT''"
| "domain_contract_name PropertyFact = ''PROPERTY_FACT''"
| "domain_contract_name TypeDomain = ''TYPE''"
| "domain_contract_name Publication = ''PUBLICATION''"
| "domain_contract_name ServingSnapshot = ''SERVING_SNAPSHOT''"
| "domain_contract_name ResultArtifact = ''RESULT_ARTIFACT''"
| "domain_contract_name SourceContext = ''SOURCE_CONTEXT''"
| "domain_contract_name UnknownRemainder = ''UNKNOWN_REMAINDER''"
| "domain_contract_name RootAuthorization = ''ROOT_AUTHORIZATION''"
| "domain_contract_name PathResult = ''PATH_RESULT''"
| "domain_contract_name ObjectiveInputSet = ''OBJECTIVE_INPUT_SET''"
| "domain_contract_name ObjectiveGroup = ''OBJECTIVE_GROUP''"
| "domain_contract_name QuerySourceContext = ''QUERY_SOURCE_CONTEXT''"
| "domain_contract_name AccessScope = ''ACCESS_SCOPE''"
| "domain_contract_name ResultArtifactV2 = ''RESULT_ARTIFACT_V2''"

fun type_contract_name :: "cbef_type_code \<Rightarrow> string" where
  "type_contract_name AbsentCode = ''ABSENT''"
| "type_contract_name BytesCode = ''BYTES''"
| "type_contract_name Utf8Code = ''UTF8''"
| "type_contract_name RawPathCode = ''RAW_PATH''"
| "type_contract_name UnsignedCode = ''UNSIGNED''"
| "type_contract_name SignedCode = ''SIGNED''"
| "type_contract_name BooleanCode = ''BOOLEAN''"
| "type_contract_name IdCode = ''ID''"
| "type_contract_name DigestCode = ''DIGEST''"
| "type_contract_name OrderedListCode = ''ORDERED_LIST''"
| "type_contract_name SetCode = ''SET''"
| "type_contract_name MapCode = ''MAP''"
| "type_contract_name TaggedUnionCode = ''TAGGED_UNION''"

record cbef_public_identity =
  identity_domain :: identity_domain
  field_evidence :: "json list"
  excluded :: "str list"
  public_id :: str
  canonical_preimage :: "u8 list"
  identity_digest :: b32

definition recipe_evidence :: "cbef_public_identity \<Rightarrow> json" where
  "recipe_evidence i = JObject
     [(ascii ''recipe_version'', json_text ''CBEF-v1''),
      (ascii ''contract'', JObject
         [(ascii ''artifact_id'', json_text ''codefabric.identity.cbef-v1''), (ascii ''version'', json_text ''1.1'')]),
      (ascii ''record_domain'', JObject
         [(ascii ''code'', JNumber (uint (domain_code (identity_domain i)))),
          (ascii ''name'', json_text (domain_contract_name (identity_domain i)))]),
      (ascii ''fields'', JArray (field_evidence i)),
      (ascii ''canonical_preimage_hex'', JString (lower_hex (canonical_preimage i))),
      (ascii ''digest'', JObject
         [(ascii ''algorithm'', json_text ''BLAKE3-256''),
          (ascii ''mode'', json_text ''unkeyed''),
          (ascii ''full_digest_hex'', JString (lower_hex (b32_bytes (identity_digest i)))),
          (ascii ''id_derivation'', json_text ''first 16 digest bytes''),
          (ascii ''text_encoding'', json_text ''lowercase hexadecimal'')]),
      (ascii ''excluded'', json_texts (excluded i)),
      (ascii ''output_id'', JString (public_id i))]"

fun evidence_of_fields ::
  "unicode \<Rightarrow> cbef_field list \<Rightarrow> (string \<times> json) list \<Rightarrow> (identity_error, json list) result"
where
  "evidence_of_fields u (f # fs) ((name, v) # vs) =
     bindE (encode_payload u (field_value f)) (\<lambda>payload.
     bindE (evidence_of_fields u fs vs) (\<lambda>rest.
     Inr (JObject
       [(ascii ''tag'', JNumber (uint (tag f))),
        (ascii ''name'', json_text name),
        (ascii ''type_code'', JObject
           [(ascii ''code'', JNumber (uint (type_code_byte (type_code (field_value f))))),
            (ascii ''name'', json_text (type_contract_name (type_code (field_value f))))]),
        (ascii ''value'', v),
        (ascii ''payload_hex'', JString (lower_hex payload))] # rest)))"
| "evidence_of_fields u fs vs = Inr []"

definition derive_public_recipe_identity_with_kind ::
  "unicode \<Rightarrow> hash \<Rightarrow> recipe_record \<Rightarrow> str option \<Rightarrow> (string \<times> json) list \<Rightarrow> string list \<Rightarrow>
   (identity_error, cbef_public_identity) result"
where
  "derive_public_recipe_identity_with_kind u hash r kind_slug field_values omitted =
     bindE (recipe_record_cbef r) (\<lambda>c.
     bindE (ensure (\<not> length (record_fields c) \<noteq> length field_values) Scalar) (\<lambda>_.
     bindE (derive_identity u hash c) (\<lambda>identity.
     bindE (evidence_of_fields u (record_fields c) field_values) (\<lambda>fields_shown.
     bindE (encode_public_id (domain c) kind_slug (derived_id identity)) (\<lambda>shown_id.
     Inr \<lparr>identity_domain = domain c, field_evidence = fields_shown, excluded = map ascii omitted,
          public_id = shown_id, canonical_preimage = preimage identity, identity_digest = full_digest identity\<rparr>)))))"

definition derive_public_recipe_identity ::
  "unicode \<Rightarrow> hash \<Rightarrow> recipe_record \<Rightarrow> (string \<times> json) list \<Rightarrow> string list \<Rightarrow>
   (identity_error, cbef_public_identity) result"
where
  "derive_public_recipe_identity u hash r field_values omitted =
     derive_public_recipe_identity_with_kind u hash r None field_values omitted"


section \<open>Bounded text\<close>

text \<open>
  The encodings of the characters with the Unicode property White Space.  A valid string starts or
  ends with such a character exactly if its bytes start or end with the encoding of one.
\<close>

definition white_space :: "u8 list list" where
  "white_space =
     [[0x09], [0x0A], [0x0B], [0x0C], [0x0D], [0x20], [0xC2, 0x85], [0xC2, 0xA0], [0xE1, 0x9A, 0x80],
      [0xE2, 0x80, 0x80], [0xE2, 0x80, 0x81], [0xE2, 0x80, 0x82], [0xE2, 0x80, 0x83], [0xE2, 0x80, 0x84],
      [0xE2, 0x80, 0x85], [0xE2, 0x80, 0x86], [0xE2, 0x80, 0x87], [0xE2, 0x80, 0x88], [0xE2, 0x80, 0x89],
      [0xE2, 0x80, 0x8A], [0xE2, 0x80, 0xA8], [0xE2, 0x80, 0xA9], [0xE2, 0x80, 0xAF], [0xE2, 0x81, 0x9F],
      [0xE3, 0x80, 0x80]]"

definition is_trimmed :: "str \<Rightarrow> bool" where
  "is_trimmed s \<longleftrightarrow> \<not> list_ex (\<lambda>w. is_prefix w s \<or> is_prefix (rev w) (rev s)) white_space"

text \<open>The control characters are \<open>U+0000\<close> to \<open>U+001F\<close> and \<open>U+007F\<close> to \<open>U+009F\<close>.\<close>

fun has_control :: "str \<Rightarrow> bool" where
  "has_control [] = False"
| "has_control (b # bs) =
     (b < 0x20 \<or> b = 0x7F \<or>
      (b = 0xC2 \<and> (case bs of [] \<Rightarrow> False | c # _ \<Rightarrow> 0x80 \<le> c \<and> c \<le> 0x9F)) \<or>
      has_control bs)"

definition valid_identity_text :: "str \<Rightarrow> bool" where
  "valid_identity_text s \<longleftrightarrow> s \<noteq> [] \<and> is_trimmed s \<and> length s \<le> 512 \<and> \<not> has_control s"

definition bounded :: "str \<Rightarrow> nat \<Rightarrow> bool" where
  "bounded s maximum \<longleftrightarrow> s \<noteq> [] \<and> is_trimmed s \<and> length s \<le> maximum"

definition canonical_text_set :: "str list \<Rightarrow> (identity_error, str list) result" where
  "canonical_text_set ss =
     bindE (ensure (\<not> list_ex (\<lambda>s. s = [] \<or> \<not> is_trimmed s \<or> length s > 512 \<or> has_control s) ss) Scalar) (\<lambda>_.
     bindE (ensure (distinct_adj (sort ss)) ContainerOrder) (\<lambda>_.
     Inr (sort ss)))"

definition text_set_recipe :: "str list \<Rightarrow> (identity_error, recipe_value) result" where
  "text_set_recipe ss = bindE (canonical_text_set ss) (\<lambda>canonical_set. Inr (RSet (map RUtf8 canonical_set)))"

fun traverse :: "('a \<Rightarrow> ('e, 'b) result) \<Rightarrow> 'a list \<Rightarrow> ('e, 'b list) result" where
  "traverse f [] = Inr []"
| "traverse f (x # xs) = bindE (f x) (\<lambda>y. bindE (traverse f xs) (\<lambda>ys. Inr (y # ys)))"


section \<open>Path results\<close>

record path_result_identity_input =
  pri_workspace_id :: str
  pri_analysis_context_id :: str
  pri_fabric_epoch_id :: str
  pri_policy_identity :: str
  pri_ordered_entity_ids :: "str list"
  pri_ordered_fact_ids :: "str list"

definition issue_path_result_identity ::
  "unicode \<Rightarrow> hash \<Rightarrow> path_result_identity_input \<Rightarrow> (graph_program_error, cbef_public_identity) result"
where
  "issue_path_result_identity u hash i =
     bindE (validate_bounded_text (ascii ''path policy identity'') (pri_policy_identity i)) (\<lambda>_.
     bindE (ensure (\<not> length (pri_ordered_entity_ids i) \<noteq> length (pri_ordered_fact_ids i) + 1) CanonicalIdentity) (\<lambda>_.
     bindE (map_err (\<lambda>_. CanonicalIdentity) (decode_public_id Workspace None (pri_workspace_id i))) (\<lambda>workspace_id.
     bindE (map_err (\<lambda>_. CanonicalIdentity) (decode_public_id AnalysisContext None (pri_analysis_context_id i))) (\<lambda>analysis_context_id.
     bindE (map_err (\<lambda>_. CanonicalIdentity) (decode_public_id_prefix (ascii ''fabric-epoch'') (pri_fabric_epoch_id i))) (\<lambda>fabric_epoch_id.
     bindE (traverse (\<lambda>v. map_err (\<lambda>_. CanonicalIdentity) (decode_public_id_any_kind Entity v)) (pri_ordered_entity_ids i)) (\<lambda>entity_ids.
     bindE (traverse (\<lambda>v. map_err (\<lambda>_. CanonicalIdentity) (decode_public_id_any_kind RelationFact v)) (pri_ordered_fact_ids i)) (\<lambda>fact_ids.
     bindE (map_err (\<lambda>_. CanonicalIdentity)
       (recipe_path_result (RId workspace_id) (RId analysis_context_id) (RId fabric_epoch_id)
          (RUtf8 (pri_policy_identity i)) (ROrderedList (map RId entity_ids)) (ROrderedList (map RId fact_ids)))) (\<lambda>r.
     map_err (\<lambda>_. CanonicalIdentity)
       (derive_public_recipe_identity u hash r
          [(''workspace_id'', JString (pri_workspace_id i)),
           (''analysis_context_id'', JString (pri_analysis_context_id i)),
           (''fabric_epoch_id'', JString (pri_fabric_epoch_id i)),
           (''policy_identity'', JString (pri_policy_identity i)),
           (''ordered_entity_ids'', json_texts (pri_ordered_entity_ids i)),
           (''ordered_fact_ids'', json_texts (pri_ordered_fact_ids i))]
          [''path length'', ''witness provenance'', ''certainty summary''])))))))))"

section \<open>Objective input sets and groups\<close>

datatype objective_input_coverage_state = CoverageComplete | CoveragePartial | CoverageIndeterminate | CoverageUnavailable

fun coverage_wire_name :: "objective_input_coverage_state \<Rightarrow> string" where
  "coverage_wire_name CoverageComplete = ''complete''"
| "coverage_wire_name CoveragePartial = ''partial''"
| "coverage_wire_name CoverageIndeterminate = ''indeterminate''"
| "coverage_wire_name CoverageUnavailable = ''unavailable''"

datatype objective_group_identity_error = InvalidPreimage | GroupCanonicalIdentity

record objective_input_set_identity_input =
  ois_workspace_id :: str
  ois_analysis_context_ids :: "str list"
  ois_fact_ids :: "str list"
  ois_producer_identities :: "str list"
  ois_policy_identity :: str
  ois_coverage_state :: objective_input_coverage_state

definition sorted_distinct :: "str list \<Rightarrow> str list" where
  "sorted_distinct ss = remdups_adj (sort ss)"

definition issue_objective_input_set_identity ::
  "unicode \<Rightarrow> hash \<Rightarrow> objective_input_set_identity_input \<Rightarrow> (objective_group_identity_error, cbef_public_identity) result"
where
  "issue_objective_input_set_identity u hash i =
     bindE (ensure (\<not> (ois_analysis_context_ids i = [] \<or> ois_fact_ids i = [] \<or> ois_producer_identities i = [] \<or>
                         \<not> valid_identity_text (ois_policy_identity i) \<or>
                         list_ex (\<lambda>s. \<not> valid_identity_text s) (ois_producer_identities i))) InvalidPreimage) (\<lambda>_.
     bindE (map_err (\<lambda>_. InvalidPreimage) (decode_public_id Workspace None (ois_workspace_id i))) (\<lambda>workspace_id.
     let contexts = sorted_distinct (ois_analysis_context_ids i);
         facts = sorted_distinct (ois_fact_ids i);
         producers = sorted_distinct (ois_producer_identities i);
         coverage = coverage_wire_name (ois_coverage_state i)
     in
     bindE (traverse (\<lambda>v. map_err (\<lambda>_. InvalidPreimage) (decode_public_id AnalysisContext None v)) contexts) (\<lambda>context_values.
     bindE (traverse (\<lambda>v. map_err (\<lambda>_. InvalidPreimage) (decode_public_id_any_kind RelationFact v)) facts) (\<lambda>fact_values.
     bindE (map_err (\<lambda>_. GroupCanonicalIdentity)
       (recipe_objective_input_set (RId workspace_id) (RSet (map RId context_values)) (RSet (map RId fact_values))
          (RSet (map RUtf8 producers)) (RUtf8 (ois_policy_identity i)) (RUtf8 (ascii coverage)))) (\<lambda>r.
     map_err (\<lambda>_. GroupCanonicalIdentity)
       (derive_public_recipe_identity u hash r
          [(''workspace_id'', JString (ois_workspace_id i)),
           (''analysis_context_ids'', json_texts contexts),
           (''fact_ids'', json_texts facts),
           (''producer_identities'', json_texts producers),
           (''policy_identity'', JString (ois_policy_identity i)),
           (''coverage_state'', json_text coverage)]
          [''fact ordering'', ''support ids'', ''mutable coverage counters'', ''diagnostic evidence'']))))))"

datatype objective_group_scalar =
    ScalarText str | ScalarUnsigned u64 | ScalarSigned "64 word" | ScalarBoolean bool

fun scalar_recipe_value :: "objective_group_scalar \<Rightarrow> recipe_value" where
  "scalar_recipe_value (ScalarText s) = RTaggedUnion 2 (RUtf8 s)"
| "scalar_recipe_value (ScalarUnsigned n) = RTaggedUnion 4 (RUnsigned (to_be_bytes n))"
| "scalar_recipe_value (ScalarSigned n) = RTaggedUnion 5 (RSigned (to_be_bytes n))"
| "scalar_recipe_value (ScalarBoolean b) = RTaggedUnion 6 (RBoolean b)"

fun scalar_evidence :: "objective_group_scalar \<Rightarrow> json" where
  "scalar_evidence (ScalarText s) = JObject
     [(ascii ''variant'', JNumber 2), (ascii ''member_type'', json_text ''UTF8''), (ascii ''value'', JString s)]"
| "scalar_evidence (ScalarUnsigned n) = JObject
     [(ascii ''variant'', JNumber 4), (ascii ''member_type'', json_text ''UNSIGNED''), (ascii ''value'', JNumber (uint n))]"
| "scalar_evidence (ScalarSigned n) = JObject
     [(ascii ''variant'', JNumber 5), (ascii ''member_type'', json_text ''SIGNED''), (ascii ''value'', JNumber (sint n))]"
| "scalar_evidence (ScalarBoolean b) = JObject
     [(ascii ''variant'', JNumber 6), (ascii ''member_type'', json_text ''BOOLEAN''), (ascii ''value'', JBool b)]"

record objective_group_identity_input =
  og_workspace_id :: str
  og_analysis_context_id :: str
  og_input_set_id :: str
  og_grouping_dimensions :: "str list"
  og_canonical_group_key :: "(str, objective_group_scalar) btree_map"
  og_aggregate_function :: str
  og_measure :: str
  og_producer_id :: str

definition aggregate_functions :: "str list" where
  "aggregate_functions = map ascii [''count'', ''count_distinct'', ''sum'', ''average'', ''minimum'', ''maximum'']"

definition issue_objective_group_identity ::
  "unicode \<Rightarrow> hash \<Rightarrow> objective_group_identity_input \<Rightarrow> (objective_group_identity_error, cbef_public_identity) result"
where
  "issue_objective_group_identity u hash i =
     (let texts = [og_workspace_id i, og_analysis_context_id i, og_input_set_id i] @ og_grouping_dimensions i @
            map fst (og_canonical_group_key i) @ [og_aggregate_function i, og_measure i, og_producer_id i] in
     bindE (ensure (\<not> (list_ex (\<lambda>s. \<not> valid_identity_text s) texts \<or> og_grouping_dimensions i = [] \<or>
                         og_canonical_group_key i = [] \<or>
                         list_ex (\<lambda>v. case v of ScalarText s \<Rightarrow> \<not> valid_identity_text s | _ \<Rightarrow> False)
                           (btree_values (og_canonical_group_key i)))) InvalidPreimage) (\<lambda>_.
     let aggregate = to_ascii_lowercase (og_aggregate_function i) in
     bindE (ensure (\<not> (\<not> is_ascii (og_aggregate_function i) \<or> aggregate \<notin> set aggregate_functions)) InvalidPreimage) (\<lambda>_.
     bindE (map_err (\<lambda>_. InvalidPreimage) (decode_public_id Workspace None (og_workspace_id i))) (\<lambda>workspace_id.
     bindE (map_err (\<lambda>_. InvalidPreimage) (decode_public_id AnalysisContext None (og_analysis_context_id i))) (\<lambda>analysis_context_id.
     bindE (map_err (\<lambda>_. InvalidPreimage) (decode_public_id ObjectiveInputSet None (og_input_set_id i))) (\<lambda>input_set_id.
     bindE (map_err (\<lambda>_. GroupCanonicalIdentity)
       (recipe_objective_group (RId workspace_id) (RId analysis_context_id) (RId input_set_id)
          (ROrderedList (map RUtf8 (og_grouping_dimensions i)))
          (RMap (map (\<lambda>(k, v). (RUtf8 k, scalar_recipe_value v)) (og_canonical_group_key i)))
          (RUtf8 aggregate) (RUtf8 (og_measure i)) (RUtf8 (og_producer_id i)))) (\<lambda>r.
     map_err (\<lambda>_. GroupCanonicalIdentity)
       (derive_public_recipe_identity u hash r
          [(''workspace_id'', JString (og_workspace_id i)),
           (''analysis_context_id'', JString (og_analysis_context_id i)),
           (''input_set_id'', JString (og_input_set_id i)),
           (''grouping_dimensions'', json_texts (og_grouping_dimensions i)),
           (''canonical_group_key'', JObject (map (\<lambda>(k, v). (k, scalar_evidence v)) (og_canonical_group_key i))),
           (''aggregate_function'', JString aggregate),
           (''measure'', JString (og_measure i)),
           (''producer_identity'', JString (og_producer_id i))]
          [''support_fact_ids'', ''group members'', ''member count'', ''objective count value'',
           ''mutable coverage counters'']))))))))"


section \<open>Explicit unknown facts\<close>

datatype unknown_coverage_state = UnknownUnavailable | UnknownPartial

datatype explicit_unknown_fact_error = InvalidRequiredIdentity | InvalidRequestedFamily | FactCanonicalIdentity

record explicit_unknown_fact_input =
  eu_workspace_id :: str
  eu_analysis_context_id :: str
  eu_subject_id :: str
  eu_requested_family :: str
  eu_property_kind_code :: u16
  eu_canonical_value :: str
  eu_source_file_id :: str
  eu_source_content_digest :: str
  eu_producer_closure_id :: str
  eu_policy_identity :: str
  eu_reason :: str
  eu_coverage_state :: unknown_coverage_state
  eu_producer_release :: str
  eu_source_generation :: u64
  eu_input_set_id :: str
  eu_support_ids :: "str list"

record explicit_unknown_fact =
  uf_fact_id :: str
  uf_identity_recipe :: json
  uf_property_kind_code :: u16
  uf_workspace_id :: str
  uf_analysis_context_id :: str
  uf_subject_id :: str
  uf_requested_family :: str
  uf_reason :: str
  uf_coverage_state :: unknown_coverage_state
  uf_producer_id :: str
  uf_producer_release :: str
  uf_source_generation :: u64
  uf_input_set_id :: str
  uf_support_ids :: "str list"

definition materialize_explicit_unknown_fact ::
  "unicode \<Rightarrow> hash \<Rightarrow> explicit_unknown_fact_input \<Rightarrow> (explicit_unknown_fact_error, explicit_unknown_fact) result"
where
  "materialize_explicit_unknown_fact u hash i =
     bindE (ensure (\<not> list_ex (\<lambda>s. \<not> bounded s 256)
       [eu_workspace_id i, eu_analysis_context_id i, eu_subject_id i, eu_source_file_id i,
        eu_source_content_digest i, eu_input_set_id i, eu_producer_closure_id i, eu_policy_identity i])
       InvalidRequiredIdentity) (\<lambda>_.
     bindE (ensure (\<not> (\<not> bounded (eu_requested_family i) 128 \<or> eu_reason i = [] \<or> length (eu_reason i) > 512 \<or>
                         eu_property_kind_code i = 0 \<or> \<not> bounded (eu_canonical_value i) 512))
       InvalidRequestedFamily) (\<lambda>_.
     bindE (map_err (\<lambda>_. InvalidRequiredIdentity) (decode_public_id Workspace None (eu_workspace_id i))) (\<lambda>workspace_id.
     bindE (map_err (\<lambda>_. InvalidRequiredIdentity) (decode_public_id AnalysisContext None (eu_analysis_context_id i))) (\<lambda>analysis_context_id.
     bindE (map_err (\<lambda>_. InvalidRequiredIdentity) (decode_public_id_any_kind Entity (eu_subject_id i))) (\<lambda>subject_id.
     bindE (map_err (\<lambda>_. InvalidRequiredIdentity) (decode_public_id SourceFile None (eu_source_file_id i))) (\<lambda>_.
     bindE (map_err (\<lambda>_. InvalidRequiredIdentity) (decode_b3_digest (eu_source_content_digest i))) (\<lambda>_.
     bindE (map_err (\<lambda>_. InvalidRequiredIdentity) (decode_public_id ObjectiveInputSet None (eu_input_set_id i))) (\<lambda>_.
     bindE (try_for_each (\<lambda>s. bindE (map_err (\<lambda>_. InvalidRequiredIdentity) (decode_public_id_any_kind RelationFact s)) (\<lambda>_. Inr ()))
              (eu_support_ids i)) (\<lambda>_.
     bindE (map_err (\<lambda>_. FactCanonicalIdentity)
       (recipe_property_fact (RId workspace_id) (RId analysis_context_id) (RUnsigned (put_u16 (eu_property_kind_code i)))
          (RId subject_id) (RTaggedUnion 50 (RUtf8 (eu_canonical_value i))))) (\<lambda>r.
     bindE (map_err (\<lambda>_. FactCanonicalIdentity)
       (derive_public_recipe_identity_with_kind u hash r (Some (ascii ''unknown-effect''))
          [(''workspace_id'', JString (eu_workspace_id i)),
           (''analysis_context_id'', JString (eu_analysis_context_id i)),
           (''property_kind_code'', JNumber (uint (eu_property_kind_code i))),
           (''subject_entity_id'', JString (eu_subject_id i)),
           (''canonical_value'', JObject
              [(ascii ''variant'', JNumber 50), (ascii ''member_type'', json_text ''UTF8''),
               (ascii ''value'', JString (eu_canonical_value i))])]
          [''coverage state'', ''coverage reason'', ''retryability'', ''source and producer provenance'',
           ''input-set and policy identity'', ''diagnostic evidence'', ''mutable coverage counters''])) (\<lambda>identity.
     Inr \<lparr>uf_fact_id = public_id identity, uf_identity_recipe = recipe_evidence identity,
          uf_property_kind_code = eu_property_kind_code i, uf_workspace_id = eu_workspace_id i,
          uf_analysis_context_id = eu_analysis_context_id i, uf_subject_id = eu_subject_id i,
          uf_requested_family = eu_requested_family i, uf_reason = eu_reason i,
          uf_coverage_state = eu_coverage_state i,
          uf_producer_id = ascii ''coverage:'' @ eu_requested_family i,
          uf_producer_release = eu_producer_release i, uf_source_generation = eu_source_generation i,
          uf_input_set_id = eu_input_set_id i, uf_support_ids = eu_support_ids i\<rparr>)))))))))))"


section \<open>Access scopes\<close>

record authorized_source_range =
  range_source_file_id :: str
  range_start_byte :: u64
  range_end_byte :: u64

record access_scope_identity_input =
  as_workspace_id :: str
  as_policy_identity :: str
  as_principal_id :: str
  as_agent_id :: str
  as_credential_digest :: str
  as_role :: str
  as_operation :: str
  as_allowed_relations :: "str list"
  as_allowed_columns :: "(str, str list) btree_map"
  as_allowed_functions :: "str list"
  as_allowed_extensions :: "str list"
  as_allowed_variables :: "str list"
  as_allowed_object_stores :: "str list"
  as_allowed_metadata :: "str list"
  as_row_policies :: "str list"
  as_execution_posture :: "str list"
  as_source_access :: bool
  as_source_file_ids :: "str list"
  as_authorized_ranges :: "authorized_source_range list"

fun canonical_columns ::
  "(str \<times> str list) list \<Rightarrow> (str, str list) btree_map \<Rightarrow> (identity_error, (str, str list) btree_map) result"
where
  "canonical_columns [] columns = Inr columns"
| "canonical_columns ((relation, allowed) # es) columns =
     bindE (ensure (\<not> (relation = [] \<or> \<not> is_trimmed relation \<or> length relation > 512)) Scalar) (\<lambda>_.
     bindE (canonical_text_set allowed) (\<lambda>canonical_set.
     canonical_columns es (btree_insert relation canonical_set columns)))"

definition sorted_source_files :: "str list \<Rightarrow> (identity_error, (str \<times> b16) list) result" where
  "sorted_source_files ids =
     bindE (traverse (\<lambda>v. bindE (decode_public_id SourceFile None v) (\<lambda>i. Inr (v, i))) ids) (\<lambda>files.
     let sorted_files = sort_key snd files in
     bindE (ensure (distinct_adj (map snd sorted_files)) ContainerOrder) (\<lambda>_.
     Inr sorted_files))"

definition sorted_ranges ::
  "authorized_source_range list \<Rightarrow> (identity_error, (b16 \<times> u64 \<times> u64 \<times> str) list) result"
where
  "sorted_ranges ranges =
     bindE (traverse (\<lambda>r.
       bindE (ensure (\<not> range_start_byte r \<ge> range_end_byte r) Scalar) (\<lambda>_.
       bindE (decode_public_id SourceFile None (range_source_file_id r)) (\<lambda>i.
       Inr (i, range_start_byte r, range_end_byte r, range_source_file_id r)))) ranges) (\<lambda>rows.
     let sorted_rows = sort rows in
     bindE (ensure (distinct_adj sorted_rows) ContainerOrder) (\<lambda>_.
     Inr sorted_rows))"

definition column_recipe :: "(str, str list) btree_map \<Rightarrow> (identity_error, recipe_value) result" where
  "column_recipe columns =
     bindE (traverse (\<lambda>(relation, allowed). bindE (text_set_recipe allowed) (\<lambda>v. Inr (RUtf8 relation, v))) columns)
       (\<lambda>entries. Inr (RMap entries))"

definition range_recipe :: "b16 \<times> u64 \<times> u64 \<times> str \<Rightarrow> recipe_value" where
  "range_recipe r =
     (case r of (file_id, start, stop, _) \<Rightarrow>
        ROrderedList [RId file_id, RUnsigned (to_be_bytes start), RUnsigned (to_be_bytes stop)])"

definition range_evidence :: "b16 \<times> u64 \<times> u64 \<times> str \<Rightarrow> json" where
  "range_evidence r =
     (case r of (_, start, stop, file) \<Rightarrow> JArray [JString file, JNumber (uint start), JNumber (uint stop)])"

definition issue_access_scope_identity ::
  "unicode \<Rightarrow> hash \<Rightarrow> access_scope_identity_input \<Rightarrow> (identity_error, cbef_public_identity) result"
where
  "issue_access_scope_identity u hash i =
     bindE (decode_public_id Workspace None (as_workspace_id i)) (\<lambda>workspace_id.
     bindE (decode_public_id_prefix (ascii ''principal'') (as_principal_id i)) (\<lambda>principal_id.
     bindE (decode_public_id_prefix (ascii ''agent'') (as_agent_id i)) (\<lambda>agent_id.
     bindE (decode_b3_digest (as_credential_digest i)) (\<lambda>credential_digest.
     bindE (ensure (\<not> (as_policy_identity i = [] \<or> \<not> is_trimmed (as_policy_identity i) \<or>
                         length (as_policy_identity i) > 512)) Scalar) (\<lambda>_.
     let role = to_ascii_lowercase (as_role i); operation = to_ascii_lowercase (as_operation i) in
     bindE (ensure (\<not> (\<not> is_ascii (as_role i) \<or> \<not> is_ascii (as_operation i) \<or> \<not> valid_slug role \<or> \<not> valid_slug operation))
       Scalar) (\<lambda>_.
     bindE (canonical_text_set (as_allowed_relations i)) (\<lambda>relations.
     bindE (canonical_text_set (as_allowed_functions i)) (\<lambda>functions.
     bindE (canonical_text_set (as_allowed_extensions i)) (\<lambda>extensions.
     bindE (canonical_text_set (as_allowed_variables i)) (\<lambda>variables.
     bindE (canonical_text_set (as_allowed_object_stores i)) (\<lambda>object_stores.
     bindE (canonical_text_set (as_allowed_metadata i)) (\<lambda>metadata.
     bindE (canonical_text_set (as_row_policies i)) (\<lambda>row_policies.
     bindE (canonical_text_set (as_execution_posture i)) (\<lambda>execution_posture.
     bindE (canonical_columns (as_allowed_columns i) []) (\<lambda>columns.
     bindE (sorted_source_files (as_source_file_ids i)) (\<lambda>source_files.
     bindE (sorted_ranges (as_authorized_ranges i)) (\<lambda>ranges.
     bindE (text_set_recipe relations) (\<lambda>relations_value.
     bindE (column_recipe columns) (\<lambda>columns_value.
     bindE (text_set_recipe functions) (\<lambda>functions_value.
     bindE (text_set_recipe extensions) (\<lambda>extensions_value.
     bindE (text_set_recipe variables) (\<lambda>variables_value.
     bindE (text_set_recipe object_stores) (\<lambda>object_stores_value.
     bindE (text_set_recipe metadata) (\<lambda>metadata_value.
     bindE (text_set_recipe row_policies) (\<lambda>row_policies_value.
     bindE (text_set_recipe execution_posture) (\<lambda>execution_posture_value.
     bindE (map_err (\<lambda>_. Scalar)
       (recipe_access_scope (RId workspace_id) (RUtf8 (as_policy_identity i)) (RId principal_id) (RId agent_id)
          (RDigest credential_digest) (RUtf8 role) (RUtf8 operation) relations_value columns_value functions_value
          extensions_value variables_value object_stores_value metadata_value row_policies_value
          execution_posture_value (RBoolean (as_source_access i)) (RSet (map (\<lambda>(_, f). RId f) source_files))
          (RSet (map range_recipe ranges)))) (\<lambda>r.
     derive_public_recipe_identity u hash r
       [(''workspace_id'', JString (as_workspace_id i)),
        (''policy_identity'', JString (as_policy_identity i)),
        (''principal_id'', JString (as_principal_id i)),
        (''agent_id'', JString (as_agent_id i)),
        (''credential_digest'', JString (as_credential_digest i)),
        (''role'', JString role),
        (''operation'', JString operation),
        (''allowed_relations'', json_texts relations),
        (''allowed_columns'', JObject (map (\<lambda>(k, v). (k, json_texts v)) columns)),
        (''allowed_functions'', json_texts functions),
        (''allowed_extensions'', json_texts extensions),
        (''allowed_variables'', json_texts variables),
        (''allowed_object_stores'', json_texts object_stores),
        (''allowed_metadata'', json_texts metadata),
        (''row_policies'', json_texts row_policies),
        (''execution_posture'', json_texts execution_posture),
        (''source_access'', JBool (as_source_access i)),
        (''source_file_ids'', json_texts (map fst source_files)),
        (''authorized_ranges'', JArray (map range_evidence ranges))]
       [''derived child catalog'', ''bound physical plan'', ''resource limits'', ''mutable request counters'']
     )))))))))))))))))))))))))))"


section \<open>Result artifacts\<close>

definition result_artifact_resource_uri :: "str \<Rightarrow> str \<Rightarrow> (identity_error, str) result" where
  "result_artifact_resource_uri workspace_id artifact_id =
     bindE (decode_public_id Workspace None workspace_id) (\<lambda>workspace.
     bindE (decode_public_id ResultArtifactV2 None artifact_id) (\<lambda>artifact.
     Inr (ascii ''codefabric-result://'' @ lower_hex (b16_bytes workspace) @ [47] @ lower_hex (b16_bytes artifact))))"

record result_artifact_identity_input =
  ra_workspace_id :: str
  ra_owning_agent_id :: str
  ra_fabric_epoch_id :: str
  ra_snapshot_id :: str
  ra_canonical_response_checksum :: str
  ra_format :: str
  ra_format_version :: str

definition issue_result_artifact_identity ::
  "unicode \<Rightarrow> hash \<Rightarrow> result_artifact_identity_input \<Rightarrow> (identity_error, cbef_public_identity) result"
where
  "issue_result_artifact_identity u hash i =
     bindE (decode_public_id Workspace None (ra_workspace_id i)) (\<lambda>workspace_id.
     bindE (decode_public_id_prefix (ascii ''fabric-epoch'') (ra_fabric_epoch_id i)) (\<lambda>fabric_epoch_id.
     bindE (decode_public_id ServingSnapshot None (ra_snapshot_id i)) (\<lambda>snapshot_id.
     bindE (decode_b3_digest (ra_canonical_response_checksum i)) (\<lambda>checksum.
     let format_identity = to_ascii_lowercase (ra_format i) in
     bindE (ensure (\<not> (list_ex (\<lambda>s. s = [] \<or> \<not> is_trimmed s \<or> length s > 512 \<or> has_control s)
                           [ra_owning_agent_id i, format_identity, ra_format_version i] \<or> \<not> is_ascii (ra_format i))) Scalar) (\<lambda>_.
     bindE (map_err (\<lambda>_. Scalar)
       (recipe_result_artifact_v2 (RId workspace_id) (RUtf8 (ra_owning_agent_id i)) (RId fabric_epoch_id) (RId snapshot_id)
          (RDigest checksum) (RUtf8 format_identity) (RUtf8 (ra_format_version i)))) (\<lambda>r.
     derive_public_recipe_identity u hash r
       [(''workspace_id'', JString (ra_workspace_id i)),
        (''owning_agent_id'', JString (ra_owning_agent_id i)),
        (''fabric_epoch_id'', JString (ra_fabric_epoch_id i)),
        (''snapshot_id'', JString (ra_snapshot_id i)),
        (''canonical_response_checksum'', JString (ra_canonical_response_checksum i)),
        (''format'', JString format_identity),
        (''format_version'', JString (ra_format_version i))]
       [''resource URI'', ''physical storage path'', ''publication generation'', ''lease identity and expiry'',
        ''mutable access counters'', ''transport-specific emitted byte checksum'']))))))"

end
