(* ===== verification/IssuedIdentity.thy ===== *)
theory IssuedIdentity
  imports PublicIdentity
begin

text \<open>
  What an issued public identity stands for: the preimage of a path result, an objective input set and
  an access scope determines exactly the decoded members, the sets and the grants it was issued for.
\<close>

section \<open>Issued records\<close>

lemma derive_public_eq:
  assumes "derive_public_recipe_identity_with_kind u hash r kind shown omitted = Inr a"
  obtains c d where "recipe_record_cbef r = Inr c" "derive_identity u hash c = Inr d" "canonical_preimage a = preimage d"
    "identity_digest a = full_digest d" "encode_public_id (domain c) kind (derived_id d) = Inr (public_id a)"
  using assms by (auto simp: derive_public_recipe_identity_with_kind_def)

lemma preimage_iff_canonical:
  assumes "unicode_contract u" "record_strings_ok c" "record_strings_ok c'"
    and "derive_identity u hash c = Inr d" "derive_identity u hash c' = Inr d'"
  shows "preimage d = preimage d' \<longleftrightarrow> canonical_record u c = canonical_record u c'"
  using identity_iff_canonical [OF assms] identity_of_preimage [OF assms(4,5)] by simp

lemma public_id_iff_preimage:
  assumes "encode_public_id D kind (derived_id d) = Inr (public_id a)" "encode_public_id D kind (derived_id d') = Inr (public_id b)"
    and "derive_identity u hash c = Inr d" "derive_identity u hash c' = Inr d'" "collision_free hash {preimage d, preimage d'}"
  shows "public_id a = public_id b \<longleftrightarrow> preimage d = preimage d'"
proof -
  have "decode_public_id D kind (public_id a) = Inr (derived_id d)" "decode_public_id D kind (public_id b) = Inr (derived_id d')"
    using assms(1,2) by (simp_all add: decode_public_id_iff)
  then have "public_id a = public_id b \<longleftrightarrow> derived_id d = derived_id d'"
    using assms(1,2) by auto
  then show ?thesis
    using id_iff_identity [OF assms(3-5)] identity_of_preimage [OF assms(3,4)] by simp
qed

lemma traverse_iff: "traverse f xs = Inr ys \<longleftrightarrow> list_all2 (\<lambda>x y. f x = Inr y) xs ys"
  by (induction xs arbitrary: ys) (auto simp: list_all2_Cons1)

lemma traverse_map: "traverse f xs = Inr ys \<Longrightarrow> map f xs = map Inr ys"
  by (induction xs arbitrary: ys) auto

lemma traverse_map_err_iff: "traverse (\<lambda>x. map_err g (f x)) xs = Inr ys \<longleftrightarrow> traverse f xs = Inr ys"
  by (simp add: traverse_iff)

lemma map_Inr_eq [simp]: "map Inr xs = map Inr ys \<longleftrightarrow> xs = ys"
  by (simp add: inj_map_eq_map inj_def)

lemma traverse_inject: "traverse f xs = Inr ys \<Longrightarrow> traverse f xs' = Inr ys' \<Longrightarrow> ys = ys' \<longleftrightarrow> map f xs = map f xs'"
  using traverse_map [of f xs ys] traverse_map [of f xs' ys'] by simp

lemma traverse_set: "traverse f xs = Inr ys \<Longrightarrow> f ` set xs = Inr ` set ys"
  by (metis traverse_map set_map)

lemma traverse_set_inject:
  "traverse f xs = Inr ys \<Longrightarrow> traverse f xs' = Inr ys' \<Longrightarrow> set ys = set ys' \<longleftrightarrow> f ` set xs = f ` set xs'"
  by (simp add: traverse_set inj_image_eq_iff inj_def)


lemma recipe_lists [simp]:
  "map RId xs = map RId ys \<longleftrightarrow> xs = ys" "map RUtf8 ss = map RUtf8 ts \<longleftrightarrow> ss = ts"
  "(\<lambda>v. recipe_value_cbef v n) \<circ> RId = Id" "(\<lambda>v. recipe_value_cbef v n) \<circ> RUtf8 = (\<lambda>s. Utf8 s (string_normalization_of n))"
  by (auto simp: inj_map_eq_map inj_def)


section \<open>Path results\<close>

definition path_record :: "b16 \<Rightarrow> b16 \<Rightarrow> b16 \<Rightarrow> str \<Rightarrow> b16 list \<Rightarrow> b16 list \<Rightarrow> cbef_record" where
  "path_record w c e policy entities facts = \<lparr>domain = PathResult, record_fields =
     [\<lparr>tag = 1, field_value = Id w\<rparr>, \<lparr>tag = 2, field_value = Id c\<rparr>, \<lparr>tag = 3, field_value = Id e\<rparr>,
      \<lparr>tag = 4, field_value = Utf8 policy NoNormalization\<rparr>,
      \<lparr>tag = 5, field_value = OrderedList (map Id entities)\<rparr>, \<lparr>tag = 6, field_value = OrderedList (map Id facts)\<rparr>]\<rparr>"

lemma recipe_path_result_record:
  "recipe_path_result (RId w) (RId c) (RId e) (RUtf8 policy) (ROrderedList (map RId entities)) (ROrderedList (map RId facts)) = Inr r
     \<Longrightarrow> recipe_record_cbef r = Inr (path_record w c e policy entities facts)"
  by (auto simp: recipe_path_result_def recipe_record_cbef_def domain_from_code_def recipe_field_new_def path_record_def)

lemma issue_path_result_eq:
  assumes "issue_path_result_identity u hash i = Inr a"
  obtains w c e entities facts d where
    "decode_public_id Workspace None (pri_workspace_id i) = Inr w"
    "decode_public_id AnalysisContext None (pri_analysis_context_id i) = Inr c"
    "decode_public_id_prefix (ascii ''fabric-epoch'') (pri_fabric_epoch_id i) = Inr e"
    "traverse (decode_public_id_any_kind Entity) (pri_ordered_entity_ids i) = Inr entities"
    "traverse (decode_public_id_any_kind RelationFact) (pri_ordered_fact_ids i) = Inr facts"
    "derive_identity u hash (path_record w c e (pri_policy_identity i) entities facts) = Inr d"
    "canonical_preimage a = preimage d" "encode_public_id PathResult None (derived_id d) = Inr (public_id a)"
proof -
  from assms obtain w c e entities facts r shown omitted where steps:
    "decode_public_id Workspace None (pri_workspace_id i) = Inr w"
    "decode_public_id AnalysisContext None (pri_analysis_context_id i) = Inr c"
    "decode_public_id_prefix (ascii ''fabric-epoch'') (pri_fabric_epoch_id i) = Inr e"
    "traverse (decode_public_id_any_kind Entity) (pri_ordered_entity_ids i) = Inr entities"
    "traverse (decode_public_id_any_kind RelationFact) (pri_ordered_fact_ids i) = Inr facts"
    "recipe_path_result (RId w) (RId c) (RId e) (RUtf8 (pri_policy_identity i)) (ROrderedList (map RId entities))
       (ROrderedList (map RId facts)) = Inr r"
    "derive_public_recipe_identity_with_kind u hash r None shown omitted = Inr a"
    by (auto simp: issue_path_result_identity_def derive_public_recipe_identity_def traverse_map_err_iff)
  from steps(7) obtain cbef d where "recipe_record_cbef r = Inr cbef" "derive_identity u hash cbef = Inr d"
    "canonical_preimage a = preimage d" "encode_public_id (domain cbef) None (derived_id d) = Inr (public_id a)"
    by (rule derive_public_eq)
  with recipe_path_result_record [OF steps(6)] that [OF steps(1-5)] show ?thesis
    by (simp add: path_record_def)
qed

text \<open>
  A path result is identified exactly by its ordered witness: where the truncated hash does not collide,
  two issued identifiers are the same exactly if workspace, context, epoch and policy agree and the sequences of entities and of
  facts denote the same identifiers in the same order.
\<close>

theorem path_result_identity_is_faithful:
  assumes "unicode_contract u" "valid_utf8 (pri_policy_identity i)" "valid_utf8 (pri_policy_identity j)"
    and "issue_path_result_identity u hash i = Inr a" "issue_path_result_identity u hash j = Inr b"
    and "collision_free hash {canonical_preimage a, canonical_preimage b}"
  shows "public_id a = public_id b \<longleftrightarrow>
    pri_workspace_id i = pri_workspace_id j \<and>
    decode_public_id AnalysisContext None (pri_analysis_context_id i) =
      decode_public_id AnalysisContext None (pri_analysis_context_id j) \<and>
    pri_fabric_epoch_id i = pri_fabric_epoch_id j \<and> pri_policy_identity i = pri_policy_identity j \<and>
    map (decode_public_id_any_kind Entity) (pri_ordered_entity_ids i) =
      map (decode_public_id_any_kind Entity) (pri_ordered_entity_ids j) \<and>
    map (decode_public_id_any_kind RelationFact) (pri_ordered_fact_ids i) =
      map (decode_public_id_any_kind RelationFact) (pri_ordered_fact_ids j)"
proof -
  obtain w c e entities facts d where i:
    "decode_public_id Workspace None (pri_workspace_id i) = Inr w"
    "decode_public_id AnalysisContext None (pri_analysis_context_id i) = Inr c"
    "decode_public_id_prefix (ascii ''fabric-epoch'') (pri_fabric_epoch_id i) = Inr e"
    "traverse (decode_public_id_any_kind Entity) (pri_ordered_entity_ids i) = Inr entities"
    "traverse (decode_public_id_any_kind RelationFact) (pri_ordered_fact_ids i) = Inr facts"
    "derive_identity u hash (path_record w c e (pri_policy_identity i) entities facts) = Inr d"
    "canonical_preimage a = preimage d" "encode_public_id PathResult None (derived_id d) = Inr (public_id a)"
    using assms(4) by (rule issue_path_result_eq)
  obtain w' c' e' entities' facts' d' where j:
    "decode_public_id Workspace None (pri_workspace_id j) = Inr w'"
    "decode_public_id AnalysisContext None (pri_analysis_context_id j) = Inr c'"
    "decode_public_id_prefix (ascii ''fabric-epoch'') (pri_fabric_epoch_id j) = Inr e'"
    "traverse (decode_public_id_any_kind Entity) (pri_ordered_entity_ids j) = Inr entities'"
    "traverse (decode_public_id_any_kind RelationFact) (pri_ordered_fact_ids j) = Inr facts'"
    "derive_identity u hash (path_record w' c' e' (pri_policy_identity j) entities' facts') = Inr d'"
    "canonical_preimage b = preimage d'" "encode_public_id PathResult None (derived_id d') = Inr (public_id b)"
    using assms(5) by (rule issue_path_result_eq)
  have ids: "w = w' \<longleftrightarrow> pri_workspace_id i = pri_workspace_id j" "e = e' \<longleftrightarrow> pri_fabric_epoch_id i = pri_fabric_epoch_id j"
    using decode_public_id_inject [OF i(1) j(1)] decode_public_id_prefix_inject [OF i(3) j(3)] by simp_all
  have "preimage d = preimage d' \<longleftrightarrow>
      w = w' \<and> c = c' \<and> e = e' \<and> pri_policy_identity i = pri_policy_identity j \<and> entities = entities' \<and> facts = facts'"
    using assms(2,3) by (subst preimage_iff_canonical [OF assms(1) _ _ i(6) j(6)])
      (auto simp: path_record_def record_canonical list_all_iff inj_map_eq_map inj_def)
  then show ?thesis
    using public_id_iff_preimage [OF i(8) j(8) i(6) j(6)] assms(6)
    by (simp add: i(2,7) j(2,7) ids traverse_inject [OF i(4) j(4)] traverse_inject [OF i(5) j(5)])
qed


section \<open>Objective input sets\<close>

lemma canonical_utf8_set:
  assumes "unicode_contract u" "list_all valid_utf8 xs" "list_all valid_utf8 ys"
    and "encode_payload u (SetOf (map (\<lambda>s. Utf8 s NoNormalization) xs)) = Inr p"
    and "encode_payload u (SetOf (map (\<lambda>s. Utf8 s NoNormalization) ys)) = Inr q"
  shows "canonical u (SetOf (map (\<lambda>s. Utf8 s NoNormalization) xs)) = canonical u (SetOf (map (\<lambda>s. Utf8 s NoNormalization) ys))
    \<longleftrightarrow> set xs = set ys"
proof -
  have "canonical u (SetOf (map (\<lambda>s. Utf8 s NoNormalization) xs)) = canonical u (SetOf (map (\<lambda>s. Utf8 s NoNormalization) ys))
      \<longleftrightarrow> (\<lambda>s. Utf8 s NoNormalization) ` set xs = (\<lambda>s. Utf8 s NoNormalization) ` set ys"
    using assms(2,3) by (subst encodable_set_iff [OF assms(1) _ _ assms(4,5)]) (simp_all add: list_all_iff image_image)
  then show ?thesis
    by (simp add: inj_image_eq_iff inj_def)
qed

definition objective_record :: "b16 \<Rightarrow> b16 list \<Rightarrow> b16 list \<Rightarrow> str list \<Rightarrow> str \<Rightarrow> objective_input_coverage_state \<Rightarrow> cbef_record" where
  "objective_record w contexts facts producers policy state = \<lparr>domain = ObjectiveInputSet, record_fields =
     [\<lparr>tag = 1, field_value = Id w\<rparr>, \<lparr>tag = 2, field_value = SetOf (map Id contexts)\<rparr>,
      \<lparr>tag = 3, field_value = SetOf (map Id facts)\<rparr>,
      \<lparr>tag = 4, field_value = SetOf (map (\<lambda>s. Utf8 s NoNormalization) producers)\<rparr>,
      \<lparr>tag = 5, field_value = Utf8 policy NoNormalization\<rparr>,
      \<lparr>tag = 6, field_value = Utf8 (ascii (coverage_wire_name state)) AsciiLower\<rparr>]\<rparr>"

lemma recipe_objective_record:
  "recipe_objective_input_set (RId w) (RSet (map RId contexts)) (RSet (map RId facts)) (RSet (map RUtf8 producers))
     (RUtf8 policy) (RUtf8 (ascii (coverage_wire_name state))) = Inr r
     \<Longrightarrow> recipe_record_cbef r = Inr (objective_record w contexts facts producers policy state)"
  by (auto simp: recipe_objective_input_set_def recipe_record_cbef_def domain_from_code_def recipe_field_new_def
      objective_record_def)

lemma coverage_canonical:
  "is_ascii (ascii (coverage_wire_name state))"
  "to_ascii_lowercase (ascii (coverage_wire_name state)) = ascii (coverage_wire_name state)"
  "ascii (coverage_wire_name state) = ascii (coverage_wire_name state') \<longleftrightarrow> state = state'"
  "valid_utf8 (ascii (coverage_wire_name state))"
  by (cases state; cases state'; simp add: ascii_def is_ascii_def to_ascii_lowercase_def)+

lemma issue_objective_input_set_eq:
  assumes "issue_objective_input_set_identity u hash i = Inr a"
  obtains w contexts facts d where
    "decode_public_id Workspace None (ois_workspace_id i) = Inr w"
    "traverse (decode_public_id AnalysisContext None) (sorted_distinct (ois_analysis_context_ids i)) = Inr contexts"
    "traverse (decode_public_id_any_kind RelationFact) (sorted_distinct (ois_fact_ids i)) = Inr facts"
    "derive_identity u hash (objective_record w contexts facts (sorted_distinct (ois_producer_identities i))
       (ois_policy_identity i) (ois_coverage_state i)) = Inr d"
    "canonical_preimage a = preimage d" "encode_public_id ObjectiveInputSet None (derived_id d) = Inr (public_id a)"
proof -
  from assms obtain w contexts facts r shown omitted where steps:
    "decode_public_id Workspace None (ois_workspace_id i) = Inr w"
    "traverse (decode_public_id AnalysisContext None) (sorted_distinct (ois_analysis_context_ids i)) = Inr contexts"
    "traverse (decode_public_id_any_kind RelationFact) (sorted_distinct (ois_fact_ids i)) = Inr facts"
    "recipe_objective_input_set (RId w) (RSet (map RId contexts)) (RSet (map RId facts))
       (RSet (map RUtf8 (sorted_distinct (ois_producer_identities i)))) (RUtf8 (ois_policy_identity i))
       (RUtf8 (ascii (coverage_wire_name (ois_coverage_state i)))) = Inr r"
    "derive_public_recipe_identity_with_kind u hash r None shown omitted = Inr a"
    by (auto simp: issue_objective_input_set_identity_def derive_public_recipe_identity_def traverse_map_err_iff Let_def)
  from steps(5) obtain cbef d where "recipe_record_cbef r = Inr cbef" "derive_identity u hash cbef = Inr d"
    "canonical_preimage a = preimage d" "encode_public_id (domain cbef) None (derived_id d) = Inr (public_id a)"
    by (rule derive_public_eq)
  with recipe_objective_record [OF steps(4)] that [OF steps(1-3)] show ?thesis
    by (simp add: objective_record_def)
qed

lemma set_sorted_distinct [simp]: "set (sorted_distinct xs) = set xs"
  by (simp add: sorted_distinct_def)

definition objective_input_strings_ok :: "objective_input_set_identity_input \<Rightarrow> bool" where
  "objective_input_strings_ok i \<longleftrightarrow> list_all valid_utf8 (ois_producer_identities i) \<and> valid_utf8 (ois_policy_identity i)"

text \<open>
  An objective input set is identified exactly by its membership: where the truncated hash does not
  collide, two issued identifiers are the same exactly if the workspaces, the sets of contexts, of facts and of producers, the
  policies and the coverage states agree.  Order and repetition do not matter.
\<close>

theorem objective_input_set_identity_is_membership:
  assumes "unicode_contract u" "objective_input_strings_ok i" "objective_input_strings_ok j"
    and "issue_objective_input_set_identity u hash i = Inr a" "issue_objective_input_set_identity u hash j = Inr b"
    and "collision_free hash {canonical_preimage a, canonical_preimage b}"
  shows "public_id a = public_id b \<longleftrightarrow>
    ois_workspace_id i = ois_workspace_id j \<and>
    decode_public_id AnalysisContext None ` set (ois_analysis_context_ids i) =
      decode_public_id AnalysisContext None ` set (ois_analysis_context_ids j) \<and>
    decode_public_id_any_kind RelationFact ` set (ois_fact_ids i) =
      decode_public_id_any_kind RelationFact ` set (ois_fact_ids j) \<and>
    set (ois_producer_identities i) = set (ois_producer_identities j) \<and>
    ois_policy_identity i = ois_policy_identity j \<and> ois_coverage_state i = ois_coverage_state j"
proof -
  obtain w contexts facts d where i:
    "decode_public_id Workspace None (ois_workspace_id i) = Inr w"
    "traverse (decode_public_id AnalysisContext None) (sorted_distinct (ois_analysis_context_ids i)) = Inr contexts"
    "traverse (decode_public_id_any_kind RelationFact) (sorted_distinct (ois_fact_ids i)) = Inr facts"
    "derive_identity u hash (objective_record w contexts facts (sorted_distinct (ois_producer_identities i))
       (ois_policy_identity i) (ois_coverage_state i)) = Inr d"
    "canonical_preimage a = preimage d" "encode_public_id ObjectiveInputSet None (derived_id d) = Inr (public_id a)"
    using assms(4) by (rule issue_objective_input_set_eq)
  obtain w' contexts' facts' d' where j:
    "decode_public_id Workspace None (ois_workspace_id j) = Inr w'"
    "traverse (decode_public_id AnalysisContext None) (sorted_distinct (ois_analysis_context_ids j)) = Inr contexts'"
    "traverse (decode_public_id_any_kind RelationFact) (sorted_distinct (ois_fact_ids j)) = Inr facts'"
    "derive_identity u hash (objective_record w' contexts' facts' (sorted_distinct (ois_producer_identities j))
       (ois_policy_identity j) (ois_coverage_state j)) = Inr d'"
    "canonical_preimage b = preimage d'" "encode_public_id ObjectiveInputSet None (derived_id d') = Inr (public_id b)"
    using assms(5) by (rule issue_objective_input_set_eq)
  let ?producers = "\<lambda>i. SetOf (map (\<lambda>s. Utf8 s NoNormalization) (sorted_distinct (ois_producer_identities i)))"
  have strings: "list_all valid_utf8 (sorted_distinct (ois_producer_identities i))"
    "list_all valid_utf8 (sorted_distinct (ois_producer_identities j))" "valid_utf8 (ois_policy_identity i)"
    "valid_utf8 (ois_policy_identity j)"
    using assms(2,3) by (simp_all add: objective_input_strings_ok_def list_all_iff)
  obtain p q where "encode_payload u (?producers i) = Inr p" "encode_payload u (?producers j) = Inr q"
    using derived_field [OF i(4), of "\<lparr>tag = 4, field_value = ?producers i\<rparr>"]
      derived_field [OF j(4), of "\<lparr>tag = 4, field_value = ?producers j\<rparr>"] by (auto simp: objective_record_def)
  note producers = canonical_utf8_set [OF assms(1) strings(1,2) this]
  have "public_id a = public_id b \<longleftrightarrow> preimage d = preimage d'"
    using public_id_iff_preimage [OF i(6) j(6) i(4) j(4)] assms(6) by (simp add: i(5) j(5))
  also have "\<dots> \<longleftrightarrow> canonical_record u (objective_record w contexts facts
        (sorted_distinct (ois_producer_identities i)) (ois_policy_identity i) (ois_coverage_state i)) =
      canonical_record u (objective_record w' contexts' facts' (sorted_distinct (ois_producer_identities j))
        (ois_policy_identity j) (ois_coverage_state j))"
    using strings by (intro preimage_iff_canonical [OF assms(1) _ _ i(4) j(4)])
      (simp_all add: objective_record_def record_strings_ok_def list_all_iff coverage_canonical)
  also have "\<dots> \<longleftrightarrow> w = w' \<and> set contexts = set contexts' \<and> set facts = set facts' \<and>
      set (ois_producer_identities i) = set (ois_producer_identities j) \<and>
      ois_policy_identity i = ois_policy_identity j \<and> ois_coverage_state i = ois_coverage_state j"
    unfolding objective_record_def canonical_record_def canonical_field_def
    by (simp add: canonical_id_set producers coverage_canonical del: canonical.simps(3) cong: conj_cong)
  also have "w = w' \<longleftrightarrow> ois_workspace_id i = ois_workspace_id j"
    using decode_public_id_inject [OF i(1) j(1)] by simp
  finally show ?thesis
    unfolding traverse_set_inject [OF i(2) j(2)] traverse_set_inject [OF i(3) j(3)] set_sorted_distinct .
qed


section \<open>Access scopes\<close>

subsection \<open>Canonical parts\<close>

lemma distinct_adj_sort: "distinct_adj (sort xs) \<longleftrightarrow> distinct xs" for xs :: "'a::linorder list"
proof
  assume "distinct_adj (sort xs)"
  then have "sorted_wrt (<) (sort xs)"
    by (intro sorted_distinct_adj_strict) simp_all
  then show "distinct xs"
    by (simp add: strict_sorted_iff)
qed (simp add: distinct_imp_distinct_adj)

lemma sorted_key_unique:
  fixes k :: "'a \<Rightarrow> 'b::linorder"
  assumes "sorted_wrt (<) (map k xs)" "sorted_wrt (<) (map k ys)" "set xs = set ys"
  shows "xs = ys"
proof -
  have "map k xs = map k ys"
    using assms by (intro strict_sorted_equal) simp_all
  moreover have "inj_on k (set xs \<union> set ys)"
    using assms(1,3) by (simp add: strict_sorted_iff distinct_map)
  ultimately show ?thesis
    by (simp add: inj_on_map_eq_map)
qed

lemma canonical_text_set_eq:
  assumes "canonical_text_set xs = Inr ys"
  shows "ys = sort xs" "distinct xs" "text_set_recipe ys = Inr (RSet (map RUtf8 ys))"
proof -
  show *: "ys = sort xs" "distinct xs"
    using assms by (auto simp: canonical_text_set_def distinct_adj_sort)
  have "canonical_text_set ys = Inr ys"
    using assms * by (simp add: canonical_text_set_def list_ex_iff distinct_imp_distinct_adj sorted_sort_id)
  then show "text_set_recipe ys = Inr (RSet (map RUtf8 ys))"
    by (simp add: text_set_recipe_def)
qed

lemma canonical_text_set_inject:
  assumes "canonical_text_set xs = Inr ys" "canonical_text_set xs' = Inr ys'"
  shows "ys = ys' \<longleftrightarrow> set xs = set xs'"
proof -
  note x = canonical_text_set_eq [OF assms(1)] and y = canonical_text_set_eq [OF assms(2)]
  show ?thesis
  proof
    assume "ys = ys'"
    then have "set (sort xs) = set (sort xs')"
      by (simp only: x(1) y(1))
    then show "set xs = set xs'"
      by simp
  next
    assume "set xs = set xs'"
    then show "ys = ys'"
      unfolding x(1) y(1) using x(2) y(2) by (intro sorted_distinct_set_unique) simp_all
  qed
qed

lemma btree_insert_last: "\<forall>x \<in> fst ` set m. x < k \<Longrightarrow> btree_insert k v m = m @ [(k, v)]"
  by (induction m rule: btree_insert.induct) auto

lemma canonical_columns_eq:
  "canonical_columns es acc = Inr cs \<Longrightarrow> sorted_wrt (<) (map fst (acc @ es)) \<Longrightarrow>
   \<exists>tail. cs = acc @ tail \<and> list_all2 (\<lambda>(r, a) (r', a'). r = r' \<and> canonical_text_set a = Inr a') es tail"
proof (induction es acc arbitrary: cs rule: canonical_columns.induct)
  case (2 relation allowed es columns)
  then obtain a where a: "canonical_text_set allowed = Inr a"
    "canonical_columns es (btree_insert relation a columns) = Inr cs"
    "relation \<noteq> [] \<and> is_trimmed relation \<and> length relation \<le> 512"
    by (auto simp: not_less)
  have insert: "btree_insert relation a columns = columns @ [(relation, a)]"
    using 2(3) by (intro btree_insert_last) (auto simp: sorted_wrt_append)
  have "sorted_wrt (<) (map fst ((columns @ [(relation, a)]) @ es))"
    using 2(3) by simp
  then obtain tail where "cs = (columns @ [(relation, a)]) @ tail"
    "list_all2 (\<lambda>(r, a) (r', a'). r = r' \<and> canonical_text_set a = Inr a') es tail"
    using 2(1) [of "()" a cs] a by (auto simp: insert)
  with a(1) show ?case
    by auto
qed auto

lemma canonical_columns_parts:
  assumes "canonical_columns es [] = Inr cs" "btree_ok es"
  shows "list_all2 (\<lambda>(r, a) (r', a'). r = r' \<and> canonical_text_set a = Inr a') es cs" "map fst cs = map fst es"
proof -
  show all: "list_all2 (\<lambda>(r, a) (r', a'). r = r' \<and> canonical_text_set a = Inr a') es cs"
    using canonical_columns_eq [OF assms(1)] assms(2) by (simp add: btree_ok_def)
  then show "map fst cs = map fst es"
    by (induction rule: list_all2_induct) auto
qed

lemma column_recipe_eq:
  "list_all2 (\<lambda>(r, a) (r', a'). r = r' \<and> canonical_text_set a = Inr a') es cs \<Longrightarrow>
   column_recipe cs = Inr (RMap (map (\<lambda>(r, a). (RUtf8 r, RSet (map RUtf8 a))) cs))"
  unfolding column_recipe_def by (induction rule: list_all2_induct) (auto dest: canonical_text_set_eq(3))

definition same_columns :: "(str, str list) btree_map \<Rightarrow> (str, str list) btree_map \<Rightarrow> bool" where
  "same_columns es fs \<longleftrightarrow> map (\<lambda>(r, a). (r, set a)) es = map (\<lambda>(r, a). (r, set a)) fs"

lemma canonical_columns_sets:
  "list_all2 (\<lambda>(r, a) (r', a'). r = r' \<and> canonical_text_set a = Inr a') es cs \<Longrightarrow>
   map (\<lambda>(r, a). (r, set a)) cs = map (\<lambda>(r, a). (r, set a)) es"
  by (induction rule: list_all2_induct) (auto dest: canonical_text_set_eq(1))

lemma canonical_columns_same:
  assumes "list_all2 (\<lambda>(r, a) (r', a'). r = r' \<and> canonical_text_set a = Inr a') es cs"
    and "list_all2 (\<lambda>(r, a) (r', a'). r = r' \<and> canonical_text_set a = Inr a') fs ds" "same_columns es fs"
  shows "cs = ds"
  using assms
proof (induction arbitrary: fs ds rule: list_all2_induct)
  case Nil
  then show ?case
    by (auto simp: same_columns_def)
next
  case (Cons e es c cs)
  from Cons.prems(2) obtain f fs' where fs: "fs = f # fs'"
    by (cases fs) (simp_all add: same_columns_def)
  with Cons.prems(1) obtain d ds' where ds: "ds = d # ds'"
    by (cases ds) simp_all
  have tail: "cs = ds'"
    using Cons.IH [of fs' ds'] Cons.prems by (simp add: fs ds same_columns_def)
  obtain r a a' where e: "e = (r, a)" "c = (r, a')" "canonical_text_set a = Inr a'"
    using Cons.hyps(1) by (cases e, cases c) simp
  obtain s b b' where f: "f = (s, b)" "d = (s, b')" "canonical_text_set b = Inr b'"
    using Cons.prems(1) unfolding fs ds by (cases f, cases d) simp
  have "r = s" "set a = set b"
    using Cons.prems(2) by (simp_all add: fs e(1) f(1) same_columns_def)
  then have "c = d"
    using canonical_text_set_inject [OF e(3) f(3)] e(2) f(2) by simp
  with tail show ?case
    by (simp add: ds)
qed

lemma sorted_source_files_eq:
  assumes "sorted_source_files ids = Inr fs"
  shows "set fs = {(v, i). v \<in> set ids \<and> decode_public_id SourceFile None v = Inr i}" "fst ` set fs = set ids"
    "sorted_wrt (<) (map snd fs)"
proof -
  from assms obtain rows where rows: "traverse (\<lambda>v. bindE (decode_public_id SourceFile None v) (\<lambda>i. Inr (v, i))) ids = Inr rows"
    "fs = sort_key snd rows" "distinct_adj (map snd fs)"
    by (auto simp: sorted_source_files_def Let_def)
  have all: "list_all2 (\<lambda>v (w, i). w = v \<and> decode_public_id SourceFile None v = Inr i) ids rows"
    using rows(1) unfolding traverse_iff by (rule list_all2_mono) auto
  then have "set rows = {(v, i). v \<in> set ids \<and> decode_public_id SourceFile None v = Inr i}"
    by (induction rule: list_all2_induct) auto
  with rows(2) show "set fs = {(v, i). v \<in> set ids \<and> decode_public_id SourceFile None v = Inr i}"
    by simp
  have "fst ` set rows = set ids"
    using all by (induction rule: list_all2_induct) auto
  with rows(2) show "fst ` set fs = set ids"
    by simp
  show "sorted_wrt (<) (map snd fs)"
    using rows(3) by (intro sorted_distinct_adj_strict) (simp_all add: rows(2))
qed

lemma sorted_source_files_inject:
  assumes "sorted_source_files ids = Inr fs" "sorted_source_files ids' = Inr fs'"
  shows "set (map snd fs) = set (map snd fs') \<longleftrightarrow> set ids = set ids'" "set ids = set ids' \<Longrightarrow> fs = fs'"
proof -
  note f = sorted_source_files_eq [OF assms(1)] and f' = sorted_source_files_eq [OF assms(2)]
  show same: "fs = fs'" if "set ids = set ids'"
    using that f f' by (intro sorted_key_unique [of snd]) simp_all
  have sub: "set a \<subseteq> set b" if ids: "set (map snd x) = set (map snd y)"
    and x: "set x = {(v, i). v \<in> set a \<and> decode_public_id SourceFile None v = Inr i}" "fst ` set x = set a"
    and y: "set y = {(v, i). v \<in> set b \<and> decode_public_id SourceFile None v = Inr i}" for a b x y
  proof
    fix v assume "v \<in> set a"
    then obtain i where v: "(v, i) \<in> set x" "decode_public_id SourceFile None v = Inr i"
      using x by force
    then have "i \<in> set (map snd y)"
      unfolding ids [symmetric] by force
    then obtain w where w: "w \<in> set b" "decode_public_id SourceFile None w = Inr i"
      using y by auto
    with decode_public_id_inject [OF v(2) w(2)] show "v \<in> set b"
      by simp
  qed
  show "set (map snd fs) = set (map snd fs') \<longleftrightarrow> set ids = set ids'"
  proof
    assume ids: "set (map snd fs) = set (map snd fs')"
    show "set ids = set ids'"
      using sub [OF ids f(1,2) f'(1)] sub [OF ids [symmetric] f'(1,2) f(1)] by (rule equalityI)
  next
    assume "set ids = set ids'"
    from same [OF this] show "set (map snd fs) = set (map snd fs')"
      by simp
  qed
qed

lemma sorted_ranges_eq:
  assumes "sorted_ranges rs = Inr rows"
  shows "set rows = {(i, range_start_byte r, range_end_byte r, range_source_file_id r) | r i.
      r \<in> set rs \<and> decode_public_id SourceFile None (range_source_file_id r) = Inr i}"
    "\<forall>r \<in> set rs. \<exists>i. decode_public_id SourceFile None (range_source_file_id r) = Inr i" "sorted_wrt (<) rows"
proof -
  let ?f = "\<lambda>r. bindE (ensure (\<not> range_start_byte r \<ge> range_end_byte r) Scalar) (\<lambda>_.
       bindE (decode_public_id SourceFile None (range_source_file_id r)) (\<lambda>i.
       Inr (i, range_start_byte r, range_end_byte r, range_source_file_id r)))"
  from assms obtain xs where xs: "traverse ?f rs = Inr xs" "rows = sort xs" "distinct_adj rows"
    by (auto simp: sorted_ranges_def Let_def)
  have all: "list_all2 (\<lambda>r x. \<exists>i. decode_public_id SourceFile None (range_source_file_id r) = Inr i \<and>
      x = (i, range_start_byte r, range_end_byte r, range_source_file_id r)) rs xs"
    using xs(1) unfolding traverse_iff by (rule list_all2_mono) auto
  then have "set xs = {(i, range_start_byte r, range_end_byte r, range_source_file_id r) | r i.
      r \<in> set rs \<and> decode_public_id SourceFile None (range_source_file_id r) = Inr i}"
    by (induction rule: list_all2_induct) auto
  with xs(2) show "set rows = {(i, range_start_byte r, range_end_byte r, range_source_file_id r) | r i.
      r \<in> set rs \<and> decode_public_id SourceFile None (range_source_file_id r) = Inr i}"
    by simp
  show "\<forall>r \<in> set rs. \<exists>i. decode_public_id SourceFile None (range_source_file_id r) = Inr i"
    using all by (induction rule: list_all2_induct) auto
  show "sorted_wrt (<) rows"
    using xs(3) by (intro sorted_distinct_adj_strict) (simp_all add: xs(2))
qed

definition row_range :: "b16 \<times> u64 \<times> u64 \<times> str \<Rightarrow> b16 \<times> u64 \<times> u64" where
  "row_range r = (case r of (f, start, stop, _) \<Rightarrow> (f, start, stop))"

lemma sorted_ranges_inject:
  assumes "sorted_ranges rs = Inr rows" "sorted_ranges rs' = Inr rows'"
  shows "row_range ` set rows = row_range ` set rows' \<longleftrightarrow> set rs = set rs'" "set rs = set rs' \<Longrightarrow> rows = rows'"
proof -
  note r = sorted_ranges_eq [OF assms(1)] and r' = sorted_ranges_eq [OF assms(2)]
  show same: "rows = rows'" if "set rs = set rs'"
    using that r(1,3) r'(1,3) by (intro sorted_key_unique [of "\<lambda>x. x"]) simp_all
  have sub: "set a \<subseteq> set b" if rows: "row_range ` set x \<subseteq> row_range ` set y"
    and x: "sorted_ranges a = Inr x" and y: "sorted_ranges b = Inr y" for a b x y
  proof
    fix r assume r: "r \<in> set a"
    then obtain i where i: "decode_public_id SourceFile None (range_source_file_id r) = Inr i"
      using sorted_ranges_eq(2) [OF x] by blast
    have "(i, range_start_byte r, range_end_byte r) \<in> row_range ` set y"
      using rows r i unfolding sorted_ranges_eq(1) [OF x] by (force simp: row_range_def)
    then obtain s where s: "s \<in> set b" "decode_public_id SourceFile None (range_source_file_id s) = Inr i"
      "range_start_byte s = range_start_byte r" "range_end_byte s = range_end_byte r"
      unfolding sorted_ranges_eq(1) [OF y] by (auto simp: row_range_def)
    with decode_public_id_inject [OF i s(2)] have "r = s"
      by (cases r, cases s) simp
    with s(1) show "r \<in> set b"
      by simp
  qed
  show "row_range ` set rows = row_range ` set rows' \<longleftrightarrow> set rs = set rs'"
  proof
    assume rows: "row_range ` set rows = row_range ` set rows'"
    show "set rs = set rs'"
      using sub [OF _ assms] sub [OF _ assms(2,1)] rows by (intro equalityI) simp_all
  next
    assume "set rs = set rs'"
    from same [OF this] show "row_range ` set rows = row_range ` set rows'"
      by simp
  qed
qed


subsection \<open>The issued record\<close>

abbreviation text_set :: "str list \<Rightarrow> cbef_value" where
  "text_set ss \<equiv> SetOf (map (\<lambda>s. Utf8 s NoNormalization) ss)"

definition column_map :: "(str, str list) btree_map \<Rightarrow> cbef_value" where
  "column_map cs = MapOf (map (\<lambda>(r, a). (Utf8 r NoNormalization, text_set a)) cs)"

definition range_member :: "b16 \<times> u64 \<times> u64 \<times> str \<Rightarrow> cbef_value" where
  "range_member r =
     (case r of (f, start, stop, _) \<Rightarrow> OrderedList [Id f, Unsigned (to_be_bytes start), Unsigned (to_be_bytes stop)])"

text \<open>What an access scope input resolves to.\<close>

record access_grant =
  grant_workspace :: b16
  grant_policy :: str
  grant_principal :: b16
  grant_agent :: b16
  grant_credential :: b32
  grant_role :: str
  grant_operation :: str
  grant_relations :: "str list"
  grant_columns :: "(str, str list) btree_map"
  grant_functions :: "str list"
  grant_extensions :: "str list"
  grant_variables :: "str list"
  grant_object_stores :: "str list"
  grant_metadata :: "str list"
  grant_row_policies :: "str list"
  grant_execution_posture :: "str list"
  grant_source_access :: bool
  grant_files :: "(str \<times> b16) list"
  grant_ranges :: "(b16 \<times> u64 \<times> u64 \<times> str) list"

definition grant_record :: "access_grant \<Rightarrow> cbef_record" where
  "grant_record g = \<lparr>domain = AccessScope, record_fields =
     [\<lparr>tag = 1, field_value = Id (grant_workspace g)\<rparr>,
      \<lparr>tag = 2, field_value = Utf8 (grant_policy g) NoNormalization\<rparr>,
      \<lparr>tag = 3, field_value = Id (grant_principal g)\<rparr>,
      \<lparr>tag = 4, field_value = Id (grant_agent g)\<rparr>,
      \<lparr>tag = 5, field_value = Digest (grant_credential g)\<rparr>,
      \<lparr>tag = 6, field_value = Utf8 (grant_role g) AsciiLower\<rparr>,
      \<lparr>tag = 7, field_value = Utf8 (grant_operation g) AsciiLower\<rparr>,
      \<lparr>tag = 8, field_value = text_set (grant_relations g)\<rparr>,
      \<lparr>tag = 9, field_value = column_map (grant_columns g)\<rparr>,
      \<lparr>tag = 10, field_value = text_set (grant_functions g)\<rparr>,
      \<lparr>tag = 11, field_value = text_set (grant_extensions g)\<rparr>,
      \<lparr>tag = 12, field_value = text_set (grant_variables g)\<rparr>,
      \<lparr>tag = 13, field_value = text_set (grant_object_stores g)\<rparr>,
      \<lparr>tag = 14, field_value = text_set (grant_metadata g)\<rparr>,
      \<lparr>tag = 15, field_value = text_set (grant_row_policies g)\<rparr>,
      \<lparr>tag = 16, field_value = text_set (grant_execution_posture g)\<rparr>,
      \<lparr>tag = 17, field_value = Boolean (grant_source_access g)\<rparr>,
      \<lparr>tag = 18, field_value = SetOf (map Id (map snd (grant_files g)))\<rparr>,
      \<lparr>tag = 19, field_value = SetOf (map range_member (grant_ranges g))\<rparr>]\<rparr>"

definition resolves :: "access_scope_identity_input \<Rightarrow> access_grant \<Rightarrow> bool" where
  "resolves i g \<longleftrightarrow>
     decode_public_id Workspace None (as_workspace_id i) = Inr (grant_workspace g) \<and>
     grant_policy g = as_policy_identity i \<and>
     decode_public_id_prefix (ascii ''principal'') (as_principal_id i) = Inr (grant_principal g) \<and>
     decode_public_id_prefix (ascii ''agent'') (as_agent_id i) = Inr (grant_agent g) \<and>
     decode_b3_digest (as_credential_digest i) = Inr (grant_credential g) \<and>
     is_ascii (as_role i) \<and> grant_role g = to_ascii_lowercase (as_role i) \<and>
     is_ascii (as_operation i) \<and> grant_operation g = to_ascii_lowercase (as_operation i) \<and>
     canonical_text_set (as_allowed_relations i) = Inr (grant_relations g) \<and>
     canonical_columns (as_allowed_columns i) [] = Inr (grant_columns g) \<and>
     canonical_text_set (as_allowed_functions i) = Inr (grant_functions g) \<and>
     canonical_text_set (as_allowed_extensions i) = Inr (grant_extensions g) \<and>
     canonical_text_set (as_allowed_variables i) = Inr (grant_variables g) \<and>
     canonical_text_set (as_allowed_object_stores i) = Inr (grant_object_stores g) \<and>
     canonical_text_set (as_allowed_metadata i) = Inr (grant_metadata g) \<and>
     canonical_text_set (as_row_policies i) = Inr (grant_row_policies g) \<and>
     canonical_text_set (as_execution_posture i) = Inr (grant_execution_posture g) \<and>
     grant_source_access g = as_source_access i \<and>
     sorted_source_files (as_source_file_ids i) = Inr (grant_files g) \<and>
     sorted_ranges (as_authorized_ranges i) = Inr (grant_ranges g)"

definition grant_recipe :: "access_grant \<Rightarrow> recipe_record recipe_result" where
  "grant_recipe g = recipe_access_scope (RId (grant_workspace g)) (RUtf8 (grant_policy g)) (RId (grant_principal g))
      (RId (grant_agent g)) (RDigest (grant_credential g)) (RUtf8 (grant_role g)) (RUtf8 (grant_operation g))
      (RSet (map RUtf8 (grant_relations g)))
      (RMap (map (\<lambda>(r, a). (RUtf8 r, RSet (map RUtf8 a))) (grant_columns g)))
      (RSet (map RUtf8 (grant_functions g))) (RSet (map RUtf8 (grant_extensions g)))
      (RSet (map RUtf8 (grant_variables g))) (RSet (map RUtf8 (grant_object_stores g)))
      (RSet (map RUtf8 (grant_metadata g))) (RSet (map RUtf8 (grant_row_policies g)))
      (RSet (map RUtf8 (grant_execution_posture g))) (RBoolean (grant_source_access g))
      (RSet (map (\<lambda>(_, f). RId f) (grant_files g))) (RSet (map range_recipe (grant_ranges g)))"

lemma grant_recipe_record:
  assumes "grant_recipe g = Inr r"
  shows "recipe_record_cbef r = Inr (grant_record g)"
proof -
  have maps: "(\<lambda>v. recipe_value_cbef v NoRecipeNormalization) \<circ> range_recipe = range_member"
    "(\<lambda>v. recipe_value_cbef v NoRecipeNormalization) \<circ> (\<lambda>(_, f). RId f) = Id \<circ> snd"
    "(\<lambda>(k, v). (recipe_value_cbef k NoRecipeNormalization, recipe_value_cbef v NoRecipeNormalization)) \<circ>
       (\<lambda>(r, a). (RUtf8 r, RSet (map RUtf8 a))) = (\<lambda>(r, a). (Utf8 r NoNormalization, text_set a))"
    by (auto simp: fun_eq_iff range_recipe_def range_member_def)
  from assms show ?thesis
    unfolding grant_recipe_def recipe_access_scope_def bindE_eq_Inr
    by clarify (simp add: recipe_record_cbef_def domain_from_code_def recipe_field_new_def grant_record_def column_map_def maps)
qed

lemma text_set_value: "canonical_text_set xs = Inr ys \<Longrightarrow> text_set_recipe ys = Inr v \<Longrightarrow> v = RSet (map RUtf8 ys)"
  using canonical_text_set_eq(3) by simp

lemma issue_access_scope_resolves:
  assumes "issue_access_scope_identity u hash i = Inr a" "btree_ok (as_allowed_columns i)"
  shows "\<exists>g r shown omitted. resolves i g \<and> grant_recipe g = Inr r \<and>
    derive_public_recipe_identity_with_kind u hash r None shown omitted = Inr a"
  using assms(1)
  unfolding issue_access_scope_identity_def Let_def bindE_eq_Inr map_err_eq_Inr ensure_eq_Inr derive_public_recipe_identity_def
proof (elim exE conjE, goal_cases)
  case p: (1 w principal agent credential _ _ relations funs extensions variables stores metadata rows posture
      columns files ranges v1 v2 v3 v4 v5 v6 v7 v8 v9 r)
  let ?g = "\<lparr>grant_workspace = w, grant_policy = as_policy_identity i, grant_principal = principal, grant_agent = agent,
    grant_credential = credential, grant_role = to_ascii_lowercase (as_role i),
    grant_operation = to_ascii_lowercase (as_operation i), grant_relations = relations, grant_columns = columns,
    grant_functions = funs, grant_extensions = extensions, grant_variables = variables,
    grant_object_stores = stores, grant_metadata = metadata, grant_row_policies = rows,
    grant_execution_posture = posture, grant_source_access = as_source_access i, grant_files = files,
    grant_ranges = ranges\<rparr>"
  have "resolves i ?g"
    using p(1-4,6-17) by (simp add: resolves_def)
  moreover have "v2 = RMap (map (\<lambda>(r, a). (RUtf8 r, RSet (map RUtf8 a))) columns)"
    using column_recipe_eq [OF canonical_columns_parts(1) [OF p(15) assms(2)]] p(19) by simp
  then have "grant_recipe ?g = Inr r"
    using p(27) text_set_value [OF p(7) p(18)] text_set_value [OF p(8) p(20)] text_set_value [OF p(9) p(21)]
      text_set_value [OF p(10) p(22)] text_set_value [OF p(11) p(23)] text_set_value [OF p(12) p(24)]
      text_set_value [OF p(13) p(25)] text_set_value [OF p(14) p(26)] by (simp add: grant_recipe_def)
  ultimately show ?case
    using p(28) by blast
qed

lemma issue_access_scope_eq:
  assumes "issue_access_scope_identity u hash i = Inr a" "btree_ok (as_allowed_columns i)"
  obtains g d where "resolves i g" "derive_identity u hash (grant_record g) = Inr d" "canonical_preimage a = preimage d"
    "encode_public_id AccessScope None (derived_id d) = Inr (public_id a)"
proof -
  obtain g r shown omitted where steps: "resolves i g" "grant_recipe g = Inr r"
    "derive_public_recipe_identity_with_kind u hash r None shown omitted = Inr a"
    using issue_access_scope_resolves [OF assms] by blast
  from steps(3) obtain cbef d where "recipe_record_cbef r = Inr cbef" "derive_identity u hash cbef = Inr d"
    "canonical_preimage a = preimage d" "encode_public_id (domain cbef) None (derived_id d) = Inr (public_id a)"
    by (rule derive_public_eq)
  with grant_recipe_record [OF steps(2)] that [OF steps(1)] show ?thesis
    by (simp add: grant_record_def)
qed

subsection \<open>Grants\<close>

text \<open>Two inputs grant the same: sets are compared as sets, column grants relation by relation.\<close>

definition same_grant :: "access_scope_identity_input \<Rightarrow> access_scope_identity_input \<Rightarrow> bool" where
  "same_grant i j \<longleftrightarrow>
     as_workspace_id i = as_workspace_id j \<and> as_policy_identity i = as_policy_identity j \<and>
     as_principal_id i = as_principal_id j \<and> as_agent_id i = as_agent_id j \<and>
     as_credential_digest i = as_credential_digest j \<and>
     to_ascii_lowercase (as_role i) = to_ascii_lowercase (as_role j) \<and>
     to_ascii_lowercase (as_operation i) = to_ascii_lowercase (as_operation j) \<and>
     set (as_allowed_relations i) = set (as_allowed_relations j) \<and>
     same_columns (as_allowed_columns i) (as_allowed_columns j) \<and>
     set (as_allowed_functions i) = set (as_allowed_functions j) \<and>
     set (as_allowed_extensions i) = set (as_allowed_extensions j) \<and>
     set (as_allowed_variables i) = set (as_allowed_variables j) \<and>
     set (as_allowed_object_stores i) = set (as_allowed_object_stores j) \<and>
     set (as_allowed_metadata i) = set (as_allowed_metadata j) \<and>
     set (as_row_policies i) = set (as_row_policies j) \<and>
     set (as_execution_posture i) = set (as_execution_posture j) \<and>
     as_source_access i = as_source_access j \<and>
     set (as_source_file_ids i) = set (as_source_file_ids j) \<and>
     set (as_authorized_ranges i) = set (as_authorized_ranges j)"

lemma lowercase_idem: "to_ascii_lowercase (to_ascii_lowercase s) = to_ascii_lowercase s"
  "is_ascii s \<Longrightarrow> is_ascii (to_ascii_lowercase s)"
proof -
  have "\<not> (65 \<le> b + 32 \<and> b + 32 \<le> 90)" if "65 \<le> b" "b \<le> 90" for b :: u8
    using that by (simp add: word_le_nat_alt unat_plus_if')
  then show "to_ascii_lowercase (to_ascii_lowercase s) = to_ascii_lowercase s"
    by (auto simp: to_ascii_lowercase_def)
  have "b + 32 < 0x80" if "65 \<le> b" "b \<le> 90" for b :: u8
    using that by (simp add: word_le_nat_alt word_less_nat_alt unat_plus_if')
  then show "is_ascii s \<Longrightarrow> is_ascii (to_ascii_lowercase s)"
    by (auto simp: to_ascii_lowercase_def is_ascii_def list_all_iff)
qed

lemma canonical_text_set_members: "canonical u (text_set xs) = canonical u (text_set ys) \<Longrightarrow> set xs = set ys"
proof -
  assume "canonical u (text_set xs) = canonical u (text_set ys)"
  then have "set (remdups_adj (sort_key (typed_key u) (map (canonical u) (map (\<lambda>s. Utf8 s NoNormalization) xs)))) =
      set (remdups_adj (sort_key (typed_key u) (map (canonical u) (map (\<lambda>s. Utf8 s NoNormalization) ys))))"
    by simp
  then have "(\<lambda>s. Utf8 s NoNormalization) ` set xs = (\<lambda>s. Utf8 s NoNormalization) ` set ys"
    by (simp add: image_image)
  then show ?thesis
    by (simp add: inj_image_eq_iff inj_def)
qed

lemma image_factor:
  assumes "f ` A = f ` B" "\<And>x y. f x = f y \<Longrightarrow> g x = g y"
  shows "g ` A = g ` B"
proof -
  have sub: "g ` A \<subseteq> g ` B" if "f ` A \<subseteq> f ` B" for A B
  proof (rule image_subsetI)
    fix x assume "x \<in> A"
    then have "f x \<in> f ` B"
      using that by fast
    then obtain y where y: "y \<in> B" "f x = f y"
      by fast
    then show "g x \<in> g ` B"
      unfolding assms(2) [OF y(2)] by (intro imageI)
  qed
  show ?thesis
    using assms(1) by (intro equalityI sub) simp_all
qed

lemma canonical_range_members:
  assumes "canonical u (SetOf (map range_member xs)) = canonical u (SetOf (map range_member ys))"
  shows "row_range ` set xs = row_range ` set ys"
proof -
  have fixed: "canonical u (range_member r) = range_member r" for r
    by (cases r) (simp add: range_member_def)
  have "set (remdups_adj (sort_key (typed_key u) (map (canonical u) (map range_member xs)))) =
      set (remdups_adj (sort_key (typed_key u) (map (canonical u) (map range_member ys))))"
    using assms by simp
  then have members: "range_member ` set xs = range_member ` set ys"
    by (simp add: image_image fixed)
  show ?thesis
  proof (rule image_factor [OF members])
    fix r s assume "range_member r = range_member s"
    then show "row_range r = row_range s"
      by (cases r, cases s) (simp add: range_member_def row_range_def)
  qed
qed

lemma canonical_column_members:
  assumes "canonical u (column_map cs) = canonical u (column_map ds)" "btree_ok cs" "btree_ok ds"
  shows "same_columns cs ds"
proof -
  let ?g = "\<lambda>(r, a). (Utf8 r NoNormalization, canonical u (text_set a))" and ?h = "\<lambda>(r, a). (r, set a)"
  have "set (sort_key (\<lambda>(k, _). typed_key u k) (map ?g cs)) = set (sort_key (\<lambda>(k, _). typed_key u k) (map ?g ds))"
    using assms(1) by (simp add: column_map_def comp_def split_def del: canonical.simps(3))
  then have members: "?g ` set cs = ?g ` set ds"
    by simp
  have "?h ` set cs = ?h ` set ds"
  proof (rule image_factor [OF members])
    fix e f assume "?g e = ?g f"
    then show "?h e = ?h f"
      using canonical_text_set_members [of u "snd e" "snd f"] by (cases e, cases f) (simp del: canonical.simps(3))
  qed
  then show ?thesis
    unfolding same_columns_def using assms(2,3)
    by (intro sorted_key_unique [of fst]) (simp_all add: btree_ok_def comp_def split_def)
qed

definition access_scope_input_ok :: "access_scope_identity_input \<Rightarrow> bool" where
  "access_scope_input_ok i \<longleftrightarrow>
     btree_ok (as_allowed_columns i) \<and> valid_utf8 (as_policy_identity i) \<and>
     list_all (list_all valid_utf8)
       ([as_allowed_relations i, as_allowed_functions i, as_allowed_extensions i, as_allowed_variables i,
         as_allowed_object_stores i, as_allowed_metadata i, as_row_policies i, as_execution_posture i] @
        map snd (as_allowed_columns i)) \<and>
     list_all valid_utf8 (map fst (as_allowed_columns i))"

lemma text_set_strings:
  "canonical_text_set xs = Inr ys \<Longrightarrow> list_all valid_utf8 xs \<Longrightarrow> strings_ok (text_set ys)"
  using canonical_text_set_eq(1) [of xs ys] by (simp add: list_all_iff)

lemma column_map_strings:
  "list_all2 (\<lambda>(r, a) (r', a'). r = r' \<and> canonical_text_set a = Inr a') es cs \<Longrightarrow>
   list_all valid_utf8 (map fst es) \<Longrightarrow> list_all (list_all valid_utf8) (map snd es) \<Longrightarrow> strings_ok (column_map cs)"
  unfolding column_map_def
  by (induction rule: list_all2_induct) (auto simp del: strings_ok.simps(3) intro: text_set_strings)

lemma grant_record_strings:
  assumes "resolves i g" "access_scope_input_ok i"
  shows "record_strings_ok (grant_record g)"
proof -
  have lower: "valid_utf8 (to_ascii_lowercase (as_role i))" "valid_utf8 (to_ascii_lowercase (as_operation i))"
    using assms(1) by (simp_all add: resolves_def valid_utf8_ascii)
  have columns: "strings_ok (column_map (grant_columns g))"
    using assms canonical_columns_parts(1) by (intro column_map_strings) (auto simp: resolves_def access_scope_input_ok_def)
  have files: "strings_ok (SetOf (map Id (map snd (grant_files g))))"
    by (simp add: list_all_iff)
  have ranges: "strings_ok (SetOf (map range_member (grant_ranges g)))"
    by (auto simp: list_all_iff range_member_def)
  have sets: "strings_ok (text_set (grant_relations g))" "strings_ok (text_set (grant_functions g))"
    "strings_ok (text_set (grant_extensions g))" "strings_ok (text_set (grant_variables g))"
    "strings_ok (text_set (grant_object_stores g))" "strings_ok (text_set (grant_metadata g))"
    "strings_ok (text_set (grant_row_policies g))" "strings_ok (text_set (grant_execution_posture g))"
    by (rule text_set_strings, use assms(1) [unfolded resolves_def] in blast, use assms(2) in \<open>simp add: access_scope_input_ok_def\<close>)+
  show ?thesis
    using lower columns sets files ranges assms unfolding record_strings_ok_def grant_record_def
    by (simp add: resolves_def access_scope_input_ok_def del: strings_ok.simps map_map)
       (simp add: lower)
qed

lemma canonical_grant_same:
  assumes "resolves i g" "resolves j h" "access_scope_input_ok i" "access_scope_input_ok j"
    and "canonical_record u (grant_record g) = canonical_record u (grant_record h)"
  shows "same_grant i j"
proof -
  note i = assms(1) [unfolded resolves_def] and j = assms(2) [unfolded resolves_def]
  have role: "canonical u (Utf8 (to_ascii_lowercase s) AsciiLower) = Utf8 (to_ascii_lowercase s) NoNormalization"
    if "is_ascii s" for s
    using that by (simp add: lowercase_idem)
  have fields: "grant_workspace g = grant_workspace h" "grant_policy g = grant_policy h"
    "grant_principal g = grant_principal h" "grant_agent g = grant_agent h" "grant_credential g = grant_credential h"
    "canonical u (Utf8 (grant_role g) AsciiLower) = canonical u (Utf8 (grant_role h) AsciiLower)"
    "canonical u (Utf8 (grant_operation g) AsciiLower) = canonical u (Utf8 (grant_operation h) AsciiLower)"
    "canonical u (text_set (grant_relations g)) = canonical u (text_set (grant_relations h))"
    "canonical u (column_map (grant_columns g)) = canonical u (column_map (grant_columns h))"
    "canonical u (text_set (grant_functions g)) = canonical u (text_set (grant_functions h))"
    "canonical u (text_set (grant_extensions g)) = canonical u (text_set (grant_extensions h))"
    "canonical u (text_set (grant_variables g)) = canonical u (text_set (grant_variables h))"
    "canonical u (text_set (grant_object_stores g)) = canonical u (text_set (grant_object_stores h))"
    "canonical u (text_set (grant_metadata g)) = canonical u (text_set (grant_metadata h))"
    "canonical u (text_set (grant_row_policies g)) = canonical u (text_set (grant_row_policies h))"
    "canonical u (text_set (grant_execution_posture g)) = canonical u (text_set (grant_execution_posture h))"
    "grant_source_access g = grant_source_access h"
    "canonical u (SetOf (map Id (map snd (grant_files g)))) = canonical u (SetOf (map Id (map snd (grant_files h))))"
    "canonical u (SetOf (map range_member (grant_ranges g))) = canonical u (SetOf (map range_member (grant_ranges h)))"
    using assms(5) unfolding canonical_record_def grant_record_def canonical_field_def
    by (simp_all del: canonical.simps(3) normalized.simps(6) map_map)
  have columns: "same_columns (grant_columns g) (grant_columns h)"
    "map (\<lambda>(r, a). (r, set a)) (grant_columns g) = map (\<lambda>(r, a). (r, set a)) (as_allowed_columns i)"
    "map (\<lambda>(r, a). (r, set a)) (grant_columns h) = map (\<lambda>(r, a). (r, set a)) (as_allowed_columns j)"
  proof -
    have parts: "canonical_columns (as_allowed_columns i) [] = Inr (grant_columns g)" "btree_ok (as_allowed_columns i)"
      "canonical_columns (as_allowed_columns j) [] = Inr (grant_columns h)" "btree_ok (as_allowed_columns j)"
      using i j assms(3,4) by (simp_all add: access_scope_input_ok_def)
    show "same_columns (grant_columns g) (grant_columns h)"
      using fields(9) canonical_columns_parts(2) [OF parts(1,2)] canonical_columns_parts(2) [OF parts(3,4)] parts(2,4)
      by (intro canonical_column_members) (simp_all add: btree_ok_def)
    show "map (\<lambda>(r, a). (r, set a)) (grant_columns g) = map (\<lambda>(r, a). (r, set a)) (as_allowed_columns i)"
      "map (\<lambda>(r, a). (r, set a)) (grant_columns h) = map (\<lambda>(r, a). (r, set a)) (as_allowed_columns j)"
      by (rule canonical_columns_sets, rule canonical_columns_parts(1), use parts in simp_all)+
  qed
  have members: "set xs = set xs'" if "canonical_text_set xs = Inr ys" "canonical_text_set xs' = Inr ys'"
    "canonical u (text_set ys) = canonical u (text_set ys')" for xs xs' ys ys'
    using canonical_text_set_members [OF that(3)] canonical_text_set_eq(1) [OF that(1)] canonical_text_set_eq(1) [OF that(2)]
    by simp
  show ?thesis
    unfolding same_grant_def
  proof (intro conjI)
    show "as_workspace_id i = as_workspace_id j"
      using decode_public_id_inject [of Workspace None "as_workspace_id i" _ "as_workspace_id j"] i j fields(1) by simp
    show "as_policy_identity i = as_policy_identity j" "as_source_access i = as_source_access j"
      using i j fields(2,17) by simp_all
    show "as_principal_id i = as_principal_id j" "as_agent_id i = as_agent_id j"
      using i j fields(3,4) decode_public_id_prefix_inject by metis+
    show "as_credential_digest i = as_credential_digest j"
      using i j fields(5) decode_b3_digest_inject by metis
    show "to_ascii_lowercase (as_role i) = to_ascii_lowercase (as_role j)"
      "to_ascii_lowercase (as_operation i) = to_ascii_lowercase (as_operation j)"
      using i j fields(6,7) role by (metis cbef_value.inject(2))+
    show "same_columns (as_allowed_columns i) (as_allowed_columns j)"
      using columns by (simp add: same_columns_def)
    show "set (as_source_file_ids i) = set (as_source_file_ids j)"
      using i j fields(18) unfolding canonical_id_set by (metis sorted_source_files_inject(1))
    show "set (as_authorized_ranges i) = set (as_authorized_ranges j)"
      using i j canonical_range_members [OF fields(19)] by (metis sorted_ranges_inject(1))
  qed (rule members, use i in blast, use j in blast, rule fields)+
qed

lemma same_grant_record:
  assumes "resolves i g" "resolves j h" "access_scope_input_ok i" "access_scope_input_ok j" "same_grant i j"
  shows "grant_record g = grant_record h"
proof -
  note i = assms(1) [unfolded resolves_def] and j = assms(2) [unfolded resolves_def] and s = assms(5) [unfolded same_grant_def]
  have members: "ys = ys'" if "canonical_text_set xs = Inr ys" "canonical_text_set xs' = Inr ys'" "set xs = set xs'" for xs xs' ys ys'
    using canonical_text_set_inject [OF that(1,2)] that(3) by simp
  have columns: "grant_columns g = grant_columns h"
    by (rule canonical_columns_same; (rule canonical_columns_parts(1))?) (use i j s assms(3,4) in \<open>auto simp: access_scope_input_ok_def\<close>)
  have files: "grant_files g = grant_files h" "grant_ranges g = grant_ranges h"
    using i j s sorted_source_files_inject(2) sorted_ranges_inject(2) by metis+
  have sets: "grant_relations g = grant_relations h" "grant_functions g = grant_functions h"
    "grant_extensions g = grant_extensions h" "grant_variables g = grant_variables h"
    "grant_object_stores g = grant_object_stores h" "grant_metadata g = grant_metadata h"
    "grant_row_policies g = grant_row_policies h" "grant_execution_posture g = grant_execution_posture h"
    by (rule members, use i in blast, use j in blast, use s in blast)+
  have "grant_workspace g = grant_workspace h" "grant_principal g = grant_principal h" "grant_agent g = grant_agent h"
    "grant_credential g = grant_credential h"
    using i j s by (metis Inr_inject)+
  then show ?thesis
    using i j s columns files sets by (simp add: grant_record_def)
qed

text \<open>
  An access scope is identified exactly by its grant: where the truncated hash does not collide, two
  issued identifiers are the same exactly if the inputs agree in workspace, policy, principal, agent, credential, role, operation and
  source access, and in every granted set, whatever the order in which the sets are given.
\<close>

theorem access_scope_identity_is_the_grant:
  assumes "unicode_contract u" "access_scope_input_ok i" "access_scope_input_ok j"
    and "issue_access_scope_identity u hash i = Inr a" "issue_access_scope_identity u hash j = Inr b"
    and "collision_free hash {canonical_preimage a, canonical_preimage b}"
  shows "public_id a = public_id b \<longleftrightarrow> same_grant i j"
proof -
  have ok: "btree_ok (as_allowed_columns i)" "btree_ok (as_allowed_columns j)"
    using assms(2,3) by (simp_all add: access_scope_input_ok_def)
  obtain g d where g: "resolves i g" "derive_identity u hash (grant_record g) = Inr d" "canonical_preimage a = preimage d"
    "encode_public_id AccessScope None (derived_id d) = Inr (public_id a)"
    using assms(4) ok(1) by (rule issue_access_scope_eq)
  obtain h e where h: "resolves j h" "derive_identity u hash (grant_record h) = Inr e" "canonical_preimage b = preimage e"
    "encode_public_id AccessScope None (derived_id e) = Inr (public_id b)"
    using assms(5) ok(2) by (rule issue_access_scope_eq)
  have "public_id a = public_id b \<longleftrightarrow> preimage d = preimage e"
    using public_id_iff_preimage [OF g(4) h(4) g(2) h(2)] assms(6) by (simp add: g(3) h(3))
  also have "\<dots> \<longleftrightarrow> canonical_record u (grant_record g) = canonical_record u (grant_record h)"
    using g(1,2) h(1,2) assms(1-3) by (intro preimage_iff_canonical grant_record_strings)
  also have "\<dots> \<longleftrightarrow> same_grant i j"
    using canonical_grant_same [OF g(1) h(1) assms(2,3)] same_grant_record [OF g(1) h(1) assms(2,3)] by metis
  finally show ?thesis .
qed


section \<open>Issued examples\<close>

text \<open>Inputs for which the identities are issued, whatever the hash.\<close>

lemma decode_encoded [simp]:
  "decode_public_id Workspace None (public_prefix Workspace @ 58 # lower_hex (b16_bytes i)) = Inr i"
  "decode_public_id AnalysisContext None (public_prefix AnalysisContext @ 58 # lower_hex (b16_bytes i)) = Inr i"
  by (simp_all add: decode_public_id_iff encode_public_id_def del: public_prefix.simps)

lemma decode_kind_encoded [simp]:
  "decode_public_id_any_kind Entity (public_prefix Entity @ 58 # 97 # 58 # lower_hex (b16_bytes i)) = Inr i"
  "decode_public_id_any_kind RelationFact (public_prefix RelationFact @ 58 # 97 # 58 # lower_hex (b16_bytes i)) = Inr i"
  by (auto simp: decode_any_kind_exact encode_public_id_def valid_slug_def simp del: public_prefix.simps intro!: exI [of _ "[97]"])

lemma decode_prefix_encoded:
  "valid_slug prefix \<Longrightarrow> decode_public_id_prefix prefix (prefix @ 58 # lower_hex (b16_bytes i)) = Inr i"
  by (simp add: decode_public_id_prefix_iff)

lemma decode_b3_encoded [simp]: "decode_b3_digest (ascii ''b3:'' @ lower_hex (b32_bytes d)) = Inr d"
  by (simp add: decode_b3_digest_iff)

definition example_path_result :: "b16 list \<Rightarrow> path_result_identity_input" where
  "example_path_result entities =
     \<lparr>pri_workspace_id = public_prefix Workspace @ 58 # lower_hex (b16_bytes 1),
      pri_analysis_context_id = public_prefix AnalysisContext @ 58 # lower_hex (b16_bytes 2),
      pri_fabric_epoch_id = ascii ''fabric-epoch'' @ 58 # lower_hex (b16_bytes 3),
      pri_policy_identity = ascii ''shortest'',
      pri_ordered_entity_ids = map (\<lambda>i. public_prefix Entity @ 58 # 97 # 58 # lower_hex (b16_bytes i)) entities,
      pri_ordered_fact_ids = map (\<lambda>i. public_prefix RelationFact @ 58 # 97 # 58 # lower_hex (b16_bytes i)) [6]\<rparr>"

lemmas issued_encoding = derive_public_recipe_identity_def derive_public_recipe_identity_with_kind_def
  recipe_record_cbef_def domain_from_code_def recipe_field_new_def derive_identity_def encode_cbef_record_def
  put_u32_def length_b_bytes MAGIC_def FORMAT_VERSION_def encode_public_id_def typed_frame_def frame_sequence_def
  Cons_eq_map_conv ascii_def

lemma example_path_result_issued: "\<exists>a. issue_path_result_identity plain_unicode hash (example_path_result [x, y]) = Inr a"
proof -
  have prefix: "decode_public_id_prefix (ascii ''fabric-epoch'') (ascii ''fabric-epoch'' @ 58 # lower_hex (b16_bytes 3)) = Inr 3"
    by (rule decode_prefix_encoded) (simp add: valid_slug_def ascii_def)
  show ?thesis
    by (simp add: issue_path_result_identity_def example_path_result_def prefix [simplified ascii_def, simplified] validate_bounded_text_def recipe_path_result_def
        issued_encoding del: public_prefix.simps)
qed


definition example_objective :: "str list \<Rightarrow> objective_input_set_identity_input" where
  "example_objective producers =
     \<lparr>ois_workspace_id = public_prefix Workspace @ 58 # lower_hex (b16_bytes 1),
      ois_analysis_context_ids = [public_prefix AnalysisContext @ 58 # lower_hex (b16_bytes 2)],
      ois_fact_ids = [public_prefix RelationFact @ 58 # 97 # 58 # lower_hex (b16_bytes 3)],
      ois_producer_identities = producers,
      ois_policy_identity = ascii ''strict'',
      ois_coverage_state = CoverageComplete\<rparr>"

lemma example_objective_issued:
  assumes "producers \<in> {[[98], [97]], [[97], [98], [97]], [[97]]}"
  shows "\<exists>a. issue_objective_input_set_identity plain_unicode hash (example_objective producers) = Inr a"
  using assms
  by (elim insertE emptyE)
     (simp_all add: issue_objective_input_set_identity_def example_objective_def recipe_objective_input_set_def
       valid_identity_text_def is_trimmed_def white_space_def sorted_distinct_def coverage_states_def is_ascii_def
       to_ascii_lowercase_def typed_key_def encode_typed_def issued_encoding del: public_prefix.simps)

definition example_scope :: "str list \<Rightarrow> access_scope_identity_input" where
  "example_scope relations =
     \<lparr>as_workspace_id = public_prefix Workspace @ 58 # lower_hex (b16_bytes 1), as_policy_identity = ascii ''policy'',
      as_principal_id = ascii ''principal'' @ 58 # lower_hex (b16_bytes 2),
      as_agent_id = ascii ''agent'' @ 58 # lower_hex (b16_bytes 3),
      as_credential_digest = ascii ''b3:'' @ lower_hex (b32_bytes 4),
      as_role = ascii ''reader'', as_operation = ascii ''query'',
      as_allowed_relations = relations, as_allowed_columns = [(ascii ''a'', [ascii ''x''])], as_allowed_functions = [],
      as_allowed_extensions = [], as_allowed_variables = [], as_allowed_object_stores = [], as_allowed_metadata = [],
      as_row_policies = [], as_execution_posture = [], as_source_access = False, as_source_file_ids = [],
      as_authorized_ranges = []\<rparr>"

lemma evidence_Inr: "encode_fields u fs = Inr body \<Longrightarrow> \<exists>shown. evidence_of_fields u fs vs = Inr shown"
  by (induction u fs vs arbitrary: body rule: evidence_of_fields.induct) auto

lemma derive_public_Inr:
  assumes "recipe_record_cbef r = Inr c" "length (record_fields c) = length vs" "encode_cbef_record u c = Inr bytes"
    and "\<not> requires_kind_slug (domain c)"
  shows "\<exists>a. derive_public_recipe_identity u hash r vs omitted = Inr a"
proof -
  obtain body where "encode_fields u (record_fields c) = Inr body"
    using assms(3) by (auto simp: encode_cbef_record_def)
  then obtain shown where "evidence_of_fields u (record_fields c) vs = Inr shown"
    using evidence_Inr by blast
  with assms show ?thesis
    by (simp add: derive_public_recipe_identity_def derive_public_recipe_identity_with_kind_def derive_identity_def
        encode_public_id_def del: requires_kind_slug.simps)
qed

lemma encode_fields_Inr:
  "list_all (\<lambda>f. \<exists>p. encode_payload u (field_value f) = Inr p \<and> length p < 2 ^ 32) fs \<Longrightarrow> \<exists>body. encode_fields u fs = Inr body"
  by (induction fs) (auto simp: put_u32_def)

definition example_grant :: "str list \<Rightarrow> access_grant" where
  "example_grant relations =
     \<lparr>grant_workspace = 1, grant_policy = ascii ''policy'', grant_principal = 2, grant_agent = 3, grant_credential = 4,
      grant_role = ascii ''reader'', grant_operation = ascii ''query'', grant_relations = relations,
      grant_columns = [(ascii ''a'', [ascii ''x''])], grant_functions = [], grant_extensions = [], grant_variables = [],
      grant_object_stores = [], grant_metadata = [], grant_row_policies = [], grant_execution_posture = [],
      grant_source_access = False, grant_files = [], grant_ranges = []\<rparr>"

lemma example_grant_encodes:
  assumes "relations \<in> {[[97], [98]], [[97]]}"
  shows "\<exists>bytes. encode_cbef_record plain_unicode (grant_record (example_grant relations)) = Inr bytes"
proof -
  have columns: "\<exists>p. encode_payload plain_unicode (column_map [(ascii ''a'', [ascii ''x''])]) = Inr p \<and> length p < 2 ^ 32"
    by (simp add: column_map_def issued_encoding typed_key_def encode_typed_def)
  have relations: "\<exists>p. encode_payload plain_unicode (text_set relations) = Inr p \<and> length p < 2 ^ 32"
    using assms by (elim insertE emptyE) (simp_all add: issued_encoding typed_key_def encode_typed_def)
  have nothing: "\<exists>p. encode_payload plain_unicode (SetOf []) = Inr p \<and> length p < 2 ^ 32"
    by (simp add: issued_encoding)
  have texts: "\<exists>p. encode_payload plain_unicode (Utf8 (ascii ''policy'') NoNormalization) = Inr p \<and> length p < 2 ^ 32"
    "\<exists>p. encode_payload plain_unicode (Utf8 (ascii ''reader'') AsciiLower) = Inr p \<and> length p < 2 ^ 32"
    "\<exists>p. encode_payload plain_unicode (Utf8 (ascii ''query'') AsciiLower) = Inr p \<and> length p < 2 ^ 32"
    by (simp_all add: ascii_def is_ascii_def to_ascii_lowercase_def)
  have "\<exists>body. encode_fields plain_unicode (record_fields (grant_record (example_grant relations))) = Inr body"
    unfolding grant_record_def example_grant_def
    by (rule encode_fields_Inr, simp only: list.pred_inject cbef_field.simps cbef_record.simps access_grant.simps list.map,
        intro conjI columns relations nothing texts TrueI) (simp_all add: frame_sequence_def put_u32_def)
  then show ?thesis
    by (auto simp: encode_cbef_record_def grant_record_def example_grant_def)
qed

lemma example_grant_recipe: "\<exists>r. grant_recipe (example_grant relations) = Inr r"
  by (simp add: grant_recipe_def example_grant_def recipe_access_scope_def expect_utf8_to_utf8_set_map_def Cons_eq_map_conv)
     blast

lemma example_scope_issued:
  assumes "relations \<in> {[[98], [97]], [[97], [98]], [[97]]}"
  shows "\<exists>a. issue_access_scope_identity plain_unicode hash (example_scope relations) = Inr a"
proof -
  have decoded: "decode_public_id_prefix (ascii ''principal'') (ascii ''principal'' @ 58 # lower_hex (b16_bytes 2)) = Inr 2"
    "decode_public_id_prefix (ascii ''agent'') (ascii ''agent'' @ 58 # lower_hex (b16_bytes 3)) = Inr 3"
    by (rule decode_prefix_encoded; simp add: valid_slug_def ascii_def)+
  have policy: "ascii ''policy'' \<noteq> []" "is_trimmed (ascii ''policy'')" "\<not> 512 < length (ascii ''policy'')"
    by (simp_all add: ascii_def is_trimmed_def white_space_def)
  have texts: "to_ascii_lowercase (ascii ''reader'') = ascii ''reader''" "to_ascii_lowercase (ascii ''query'') = ascii ''query''"
    "is_ascii (ascii ''reader'')" "is_ascii (ascii ''query'')" "valid_slug (ascii ''reader'')" "valid_slug (ascii ''query'')"
    by (simp_all add: ascii_def to_ascii_lowercase_def is_ascii_def valid_slug_def)
  have empty: "canonical_text_set [] = Inr []" "text_set_recipe [] = Inr (RSet [])" "sorted_source_files [] = Inr []"
    "sorted_ranges [] = Inr []"
    by (simp_all add: canonical_text_set_def text_set_recipe_def sorted_source_files_def sorted_ranges_def)
  have sets: "canonical_text_set relations = Inr (sort relations)" "sort relations \<in> {[[97], [98]], [[97]]}"
    "text_set_recipe (sort relations) = Inr (RSet (map RUtf8 (sort relations)))"
    using assms by (auto simp: canonical_text_set_def text_set_recipe_def is_trimmed_def white_space_def)
  have columns: "canonical_columns [(ascii ''a'', [ascii ''x''])] [] = Inr [(ascii ''a'', [ascii ''x''])]"
    "column_recipe [(ascii ''a'', [ascii ''x''])] = Inr (RMap [(RUtf8 (ascii ''a''), RSet [RUtf8 (ascii ''x'')])])"
    by (simp_all add: canonical_text_set_def text_set_recipe_def column_recipe_def is_trimmed_def white_space_def ascii_def)
  obtain r where r: "grant_recipe (example_grant (sort relations)) = Inr r"
    using example_grant_recipe by blast
  obtain bytes where "encode_cbef_record plain_unicode (grant_record (example_grant (sort relations))) = Inr bytes"
    using example_grant_encodes [OF sets(2)] by blast
  moreover have "length (record_fields (grant_record g)) = 19" "\<not> requires_kind_slug (domain (grant_record g))" for g
    by (simp_all add: grant_record_def)
  ultimately have issued: "\<exists>a. derive_public_recipe_identity plain_unicode hash r vs omitted = Inr a" if "length vs = 19" for vs omitted
    using that by (intro derive_public_Inr [OF grant_recipe_record [OF r]]) simp_all
  have recipe: "recipe_access_scope (RId 1) (RUtf8 (ascii ''policy'')) (RId 2) (RId 3) (RDigest 4) (RUtf8 (ascii ''reader''))
      (RUtf8 (ascii ''query'')) (RSet (map RUtf8 (sort relations))) (RMap [(RUtf8 (ascii ''a''), RSet [RUtf8 (ascii ''x'')])])
      (RSet []) (RSet []) (RSet []) (RSet []) (RSet []) (RSet []) (RSet []) (RBoolean False) (RSet []) (RSet []) = Inr r"
    using r by (simp only: grant_recipe_def example_grant_def access_grant.simps list.map prod.case)
  show ?thesis
    unfolding issue_access_scope_identity_def example_scope_def access_scope_identity_input.simps Let_def decode_encoded
      decode_b3_encoded decoded texts(1,2) empty sets(1,3) columns bindE_simps list.map recipe map_err_simps
    by (simp add: policy texts issued del: public_prefix.simps)
qed


end
