(* ===== verification/Spec2Isabelle.thy ===== *)
theory Spec2Isabelle
  imports Activation BudgetSafety IssuedIdentity
begin

text \<open>
  CodeFabric is a present-state code property graph: a daemon that admits durable commands,
  publishes relations as immutable epochs and answers semantic queries about the current epoch.
  This development models the core of its stable Rust library (\<open>src/src\<close>).
\<close>

end
